(* ===== verification/Prelude.thy ===== *)
theory Prelude
  imports Complex_Main "HOL-Library.AList"
begin

text \<open>
  Shared vocabulary of the development.

  Python \<^verbatim>\<open>bytes\<close> and (ASCII) \<^verbatim>\<open>str\<close> values are lists of 8-bit characters, Python floats
  (clock readings, scores, timeouts) are real numbers without rounding, Python integers are
  \<open>int\<close>, or \<open>nat\<close> where the code never makes them negative.  A \<^verbatim>\<open>dict\<close> keeps its insertion
  order (the code iterates over dicts and returns early), so it is an association list:
  storing into an existing key keeps its place, a new key goes to the end, which is what
  the library's \<open>AList.update\<close> does.  An exception is a value of \<open>exn\<close>, and an operation
  that may raise returns \<open>exn + 'a\<close>.
\<close>

named_theorems dict_simps "reading a dictionary after an update"
named_theorems wf_intros "operations keep the invariants of their component"

type_synonym bytes = string
type_synonym time = real
type_synonym ('k, 'v) dict = "('k \<times> 'v) list"

datatype exn =
    StructError
  | KeyError
  | IndexError
  | ValueError
  | AttributeError
  | ZeroDivisionError
  | SockTimeout
  | SocketError
  | ProtocolError
  | PyException string

text \<open>Dictionaries.\<close>

abbreviation dget :: "('k, 'v) dict \<Rightarrow> 'k \<Rightarrow> 'v option" where
  "dget d k \<equiv> map_of d k"

abbreviation dset :: "'k \<Rightarrow> 'v \<Rightarrow> ('k, 'v) dict \<Rightarrow> ('k, 'v) dict" where
  "dset k v d \<equiv> AList.update k v d"

abbreviation ddel :: "'k \<Rightarrow> ('k, 'v) dict \<Rightarrow> ('k, 'v) dict" where
  "ddel k d \<equiv> AList.delete k d"

definition dmem :: "'k \<Rightarrow> ('k, 'v) dict \<Rightarrow> bool" where
  "dmem k d \<longleftrightarrow> map_of d k \<noteq> None"

definition dget_or :: "('k, 'v) dict \<Rightarrow> 'k \<Rightarrow> 'v \<Rightarrow> 'v" where
  "dget_or d k v = (case map_of d k of None \<Rightarrow> v | Some w \<Rightarrow> w)"

abbreviation dkeys :: "('k, 'v) dict \<Rightarrow> 'k list" where
  "dkeys d \<equiv> map fst d"

abbreviation dict_ok :: "('k, 'v) dict \<Rightarrow> bool" where
  "dict_ok d \<equiv> distinct (map fst d)"

definition dmap :: "('k \<Rightarrow> 'v \<Rightarrow> 'w) \<Rightarrow> ('k, 'v) dict \<Rightarrow> ('k, 'w) dict" where
  "dmap f d = map (\<lambda>(k, v). (k, f k v)) d"

text \<open>The contract of a dictionary, as the components use it.\<close>

locale dictionary =
  fixes look :: "'d \<Rightarrow> 'k \<Rightarrow> 'v option"
    and store :: "'k \<Rightarrow> 'v \<Rightarrow> 'd \<Rightarrow> 'd"
    and remove :: "'k \<Rightarrow> 'd \<Rightarrow> 'd"
    and ok :: "'d \<Rightarrow> bool"
  assumes look_store: "look (store k v d) j = (if j = k then Some v else look d j)"
    and look_remove: "look (remove k d) j = (if j = k then None else look d j)"
    and ok_store: "ok d \<Longrightarrow> ok (store k v d)"
    and ok_remove: "ok d \<Longrightarrow> ok (remove k d)"
begin

lemma store_store_look: "look (store k v (store k w d)) j = look (store k v d) j"
  by (simp add: look_store)

lemma remove_store_look: "look (remove k (store k v d)) j = look (remove k d) j"
  by (simp add: look_store look_remove)

lemma look_remove_Some: "look (remove k d) j = Some v \<longleftrightarrow> j \<noteq> k \<and> look d j = Some v"
  by (simp add: look_remove)

end

lemma dget_dset [dict_simps, simp]: "map_of (AList.update k v d) j = (if j = k then Some v else map_of d j)"
  by (simp add: update_conv)

lemma dget_ddel [dict_simps, simp]: "map_of (AList.delete k d) j = (if j = k then None else map_of d j)"
  by (simp add: delete_conv)

lemma dict_ok_dset [wf_intros, simp]: "dict_ok d \<Longrightarrow> dict_ok (AList.update k v d)"
  by (simp add: distinct_update)

lemma dict_ok_ddel [wf_intros, simp]: "dict_ok d \<Longrightarrow> dict_ok (AList.delete k d)"
  by (simp add: distinct_delete)

interpretation assoc: dictionary map_of AList.update AList.delete "\<lambda>d. distinct (map fst d)"
  by unfold_locales auto

lemma dkeys_dmap [simp]: "map fst (dmap f d) = map fst d"
  by (induction d) (auto simp: dmap_def)

lemma dget_dmap [dict_simps, simp]: "map_of (dmap f d) k = map_option (f k) (map_of d k)"
  by (induction d) (auto simp: dmap_def)

lemma dict_ok_dmap [simp]: "dict_ok (dmap f d) = dict_ok d"
  by simp

lemma length_dmap [simp]: "length (dmap f d) = length d"
  by (simp add: dmap_def)

lemma set_dkeys_dset [simp]: "fst ` set (AList.update k v d) = insert k (fst ` set d)"
  by (simp add: dom_update)

lemma set_dset: "set (AList.update k v d) \<subseteq> insert (k, v) (set d)"
  by (induction d) auto

lemma dset_fresh: "k \<notin> fst ` set d \<Longrightarrow> AList.update k v d = d @ [(k, v)]"
  by (induction d) auto

lemma set_dkeys_ddel [simp]: "fst ` set (AList.delete k d) = fst ` set d - {k}"
  by (auto simp: AList.delete_eq)

lemma dmem_iff [simp]: "dmem k d \<longleftrightarrow> k \<in> fst ` set d"
  by (simp add: dmem_def map_of_eq_None_iff)

lemma ddel_id: "k \<notin> fst ` set d \<Longrightarrow> AList.delete k d = d"
  by (simp add: delete_id)

lemma length_ddel_mem: "dict_ok d \<Longrightarrow> k \<in> fst ` set d \<Longrightarrow> Suc (length (AList.delete k d)) = length d"
  by (induction d) auto

lemma length_ddel_less: "k \<in> fst ` set d \<Longrightarrow> length (AList.delete k d) < length d"
proof (induction d)
  case (Cons p d)
  then show ?case using length_delete_le [of k d] by auto
qed simp

lemma length_ddel_Some: "map_of d k = Some v \<Longrightarrow> length (AList.delete k d) < length d"
  by (rule length_ddel_less) (metis map_of_eq_None_iff option.distinct(1))

lemma sum_list_pop: "dict_ok d \<Longrightarrow> map_of d k = Some v \<Longrightarrow>
   (\<Sum>p\<leftarrow>AList.delete k d. f (snd p)) + f v = (\<Sum>p\<leftarrow>d. f (snd p) :: nat)"
proof (induction d)
  case (Cons p d)
  show ?case
  proof (cases "fst p = k")
    case True
    with Cons.prems have "k \<notin> fst ` set d" and "snd p = v" by auto
    with True show ?thesis by (simp add: ddel_id)
  next
    case False
    with Cons show ?thesis by (cases p) auto
  qed
qed simp

lemma upt_split: "a \<le> b \<Longrightarrow> b \<le> c \<Longrightarrow> [a..<c] = [a..<b] @ [b..<c]"
  using upt_add_eq_append [of a b "c - b"] by simp

text \<open>Bounded histories: append, and drop the oldest entry once the limit is passed.\<close>

definition push_capped :: "nat \<Rightarrow> 'a \<Rightarrow> 'a list \<Rightarrow> 'a list" where
  "push_capped n x xs = (let ys = xs @ [x] in if length ys > n then tl ys else ys)"

lemma length_push_capped: "length xs \<le> n \<Longrightarrow> length (push_capped n x xs) \<le> n"
  by (auto simp: push_capped_def Let_def)

text \<open>Python's \<^verbatim>\<open>int()\<close> of a float truncates towards zero.\<close>

definition py_int :: "real \<Rightarrow> int" where
  "py_int x = (if 0 \<le> x then \<lfloor>x\<rfloor> else \<lceil>x\<rceil>)"

lemma py_int_of_int [simp]: "py_int (of_int k) = k"
  by (simp add: py_int_def)

lemma py_int_numeral [simp]: "py_int (numeral n) = numeral n" "py_int 0 = 0" "py_int 1 = 1"
  using py_int_of_int [of "numeral n"] py_int_of_int [of 0] py_int_of_int [of 1] by simp_all

lemma py_int_nonneg: "0 \<le> x \<Longrightarrow> 0 \<le> py_int x"
  by (simp add: py_int_def)

lemma py_int_mono: "x \<le> y \<Longrightarrow> py_int x \<le> py_int y"
  unfolding py_int_def
  by (smt (verit) ceiling_mono floor_mono ceiling_le_zero zero_le_floor)

definition crlf :: string where "crlf = [CHR 0x0D, CHR 0x0A]"

text \<open>Slices \<^verbatim>\<open>s[a:b]\<close> with non-negative bounds, and the search \<^verbatim>\<open>s.find(p, i)\<close>.\<close>

definition slice :: "nat \<Rightarrow> nat \<Rightarrow> 'a list \<Rightarrow> 'a list" where
  "slice a b xs = take (b - a) (drop a xs)"

text \<open>A slice with bounds of any sign: a negative bound counts from the end.\<close>

definition slice_bound :: "nat \<Rightarrow> int \<Rightarrow> nat" where
  "slice_bound n i = (if i < 0 then nat (i + int n) else min (nat i) n)"

definition py_slice :: "int \<Rightarrow> int \<Rightarrow> 'a list \<Rightarrow> 'a list" where
  "py_slice a b xs = (let i = slice_bound (length xs) a; j = slice_bound (length xs) b in take (j - i) (drop i xs))"

lemma py_slice_nonneg: "0 \<le> a \<Longrightarrow> a \<le> b \<Longrightarrow> b \<le> int (length xs) \<Longrightarrow> py_slice a b xs = take (nat (b - a)) (drop (nat a) xs)"
  by (auto simp: py_slice_def slice_bound_def min_def nat_diff_distrib Let_def)

fun is_prefix :: "'a list \<Rightarrow> 'a list \<Rightarrow> bool" where
  "is_prefix [] ys = True"
| "is_prefix (x # xs) [] = False"
| "is_prefix (x # xs) (y # ys) = (x = y \<and> is_prefix xs ys)"

fun find_sub :: "'a list \<Rightarrow> 'a list \<Rightarrow> nat option" where
  "find_sub p [] = (if p = [] then Some 0 else None)"
| "find_sub p (x # xs) = (if is_prefix p (x # xs) then Some 0 else map_option Suc (find_sub p xs))"

definition find_from :: "'a list \<Rightarrow> 'a list \<Rightarrow> nat \<Rightarrow> nat option" where
  "find_from p xs i = (if i \<le> length xs then map_option ((+) i) (find_sub p (drop i xs)) else None)"

lemma is_prefix_iff: "is_prefix p xs \<longleftrightarrow> (\<exists>r. xs = p @ r)"
  by (induction p xs rule: is_prefix.induct) auto

lemma is_prefix_append [simp]: "is_prefix p (p @ r)"
  by (simp add: is_prefix_iff)

lemma find_sub_Some: "find_sub p xs = Some n \<Longrightarrow> \<exists>r. xs = take n xs @ p @ r \<and> n + length p \<le> length xs"
proof (induction xs arbitrary: n)
  case Nil
  then show ?case by (auto split: if_splits)
next
  case (Cons x xs)
  show ?case
  proof (cases "is_prefix p (x # xs)")
    case True
    with Cons.prems obtain r where "x # xs = p @ r" and "n = 0"
      by (auto simp: is_prefix_iff)
    then show ?thesis by (metis append_Nil length_append le_add1 plus_nat.add_0 take_0)
  next
    case False
    with Cons.prems obtain m where m: "find_sub p xs = Some m" "n = Suc m" by auto
    from Cons.IH[OF m(1)] obtain r where "xs = take m xs @ p @ r" "m + length p \<le> length xs" by blast
    with m(2) show ?thesis by auto
  qed
qed

lemma find_sub_None: "find_sub p xs = None \<Longrightarrow> xs \<noteq> a @ p @ b"
proof (induction xs arbitrary: a)
  case Nil
  then show ?case by (auto split: if_splits)
next
  case (Cons x xs)
  from Cons.prems have np: "\<not> is_prefix p (x # xs)" and n: "find_sub p xs = None"
    by (auto split: if_splits)
  show ?case
  proof
    assume eq: "x # xs = a @ p @ b"
    show False
    proof (cases a)
      case Nil
      with eq np show False by (simp add: is_prefix_iff)
    next
      case (Cons y ys)
      with eq have "xs = ys @ p @ b" by simp
      with Cons.IH[OF n] show False by blast
    qed
  qed
qed

definition contains :: "'a list \<Rightarrow> 'a list \<Rightarrow> bool" where
  "contains p xs \<longleftrightarrow> find_sub p xs \<noteq> None"

lemma contains_iff: "contains p xs \<longleftrightarrow> (\<exists>a b. xs = a @ p @ b)"
  unfolding contains_def by (metis find_sub_None find_sub_Some option.exhaust)

text \<open>The first element of a list in sorted order.\<close>

lemma insort_hd: "hd (insort_key f x xs) = (if xs = [] \<or> f x \<le> f (hd xs) then x else hd xs)"
  by (cases xs) auto

lemma hd_sort_Cons: "hd (sort_key f (x # xs)) = (if xs = [] \<or> f x \<le> f (hd (sort_key f xs)) then x else hd (sort_key f xs))"
proof -
  have "sort_key f xs = [] \<longleftrightarrow> xs = []" by (metis length_0_conv length_sort)
  then show ?thesis by (auto simp: insort_hd)
qed

lemma hd_sort_snoc: "xs \<noteq> [] \<Longrightarrow> hd (sort_key f (xs @ [x])) = (if f x < f (hd (sort_key f xs)) then x else hd (sort_key f xs))"
proof (induction xs)
  case (Cons y ys)
  show ?case
  proof (cases "ys = []")
    case False
    with Cons.IH show ?thesis by (auto simp: hd_sort_Cons simp del: sort_key_simps)
  qed (auto simp: hd_sort_Cons simp del: sort_key_simps)
qed simp

text \<open>The first element with the lowest key: the reference for the loops that keep a running minimum.\<close>

definition first_min :: "('a \<Rightarrow> real) \<Rightarrow> 'a list \<Rightarrow> 'a option" where
  "first_min f xs = (if xs = [] then None else Some (hd (sort_key f xs)))"

lemma first_min_Nil [simp]: "first_min f [] = None"
  by (simp add: first_min_def)

lemma first_min_snoc: "first_min f (xs @ [x]) = (case first_min f xs of None \<Rightarrow> Some x | Some b \<Rightarrow> if f x < f b then Some x else Some b)"
  by (cases "xs = []") (simp_all add: first_min_def hd_sort_snoc hd_sort_Cons del: sort_key_simps)

lemma first_min_mem: "first_min f xs = Some x \<Longrightarrow> x \<in> set xs"
  unfolding first_min_def by (metis hd_in_set length_0_conv length_sort option.distinct(1) option.inject set_sort)

text \<open>A loop that keeps a running minimum looks only for something smaller than what it has.\<close>

lemma first_min_Cons:
  assumes "f x < b"
  shows "first_min f (filter (\<lambda>y. f y < b) (x # xs)) = (case first_min f (filter (\<lambda>y. f y < f x) xs) of None \<Rightarrow> Some x | Some y \<Rightarrow> Some y)"
proof (induction xs rule: rev_induct)
  case Nil
  show ?case using assms first_min_snoc [of f "[]" x] by simp
next
  case (snoc y xs)
  let ?F = "filter (\<lambda>y. f y < b) xs" and ?G = "filter (\<lambda>y. f y < f x) xs"
  have IH: "first_min f (x # ?F) = (case first_min f ?G of None \<Rightarrow> Some x | Some y \<Rightarrow> Some y)" using snoc assms by simp
  have m: "f z < f x" if "first_min f ?G = Some z" for z using first_min_mem [OF that] by simp
  have L: "first_min f (filter (\<lambda>y. f y < b) (x # xs @ [y])) = (if f y < b then first_min f ((x # ?F) @ [y]) else first_min f (x # ?F))"
    using assms by simp
  have R: "first_min f (filter (\<lambda>y. f y < f x) (xs @ [y])) = (if f y < f x then first_min f (?G @ [y]) else first_min f ?G)" by simp
  show ?case
  proof (cases "first_min f ?G")
    case None
    then show ?thesis unfolding L R first_min_snoc IH using assms by simp
  next
    case (Some z)
    with m [OF Some] show ?thesis unfolding L R first_min_snoc IH using assms by simp
  qed
qed

end
