(* ===== verification/Py_Struct.thy ===== *)
theory Py_Struct
  imports Prelude
begin

text \<open>
  The part of \<^verbatim>\<open>struct.pack\<close> and \<^verbatim>\<open>struct.unpack\<close> the program uses (format characters
  \<^verbatim>\<open>B\<close>, \<^verbatim>\<open>H\<close>, \<^verbatim>\<open>I\<close>, \<^verbatim>\<open>Q\<close>, \<^verbatim>\<open>d\<close> in little-endian order, \<^verbatim>\<open>!H\<close> in network
  order), and the wrapper lib/noarch/xstruct.py.  Packing an integer out of the range of its
  field raises, unpacking a buffer of the wrong size raises.
\<close>

fun le_bytes :: "nat \<Rightarrow> nat \<Rightarrow> bytes" where
  "le_bytes 0 n = []"
| "le_bytes (Suc k) n = char_of (n mod 256) # le_bytes k (n div 256)"

fun le_nat :: "bytes \<Rightarrow> nat" where
  "le_nat [] = 0"
| "le_nat (c # cs) = of_char c + 256 * le_nat cs"

definition be_nat :: "bytes \<Rightarrow> nat" where
  "be_nat bs = le_nat (rev bs)"

lemma length_le_bytes [simp]: "length (le_bytes k n) = k"
  by (induction k n rule: le_bytes.induct) auto

lemma le_nat_less: "le_nat bs < 256 ^ length bs"
proof (induction bs)
  case (Cons c bs)
  have "(of_char c :: nat) \<le> 255" using nat_of_char_less_256 [of c] by linarith
  moreover have "256 * le_nat bs + 256 \<le> 256 * 256 ^ length bs" using Cons by simp
  ultimately show ?case by simp
qed simp

lemma le_nat_le_bytes [simp]: "le_nat (le_bytes k n) = n mod 256 ^ k"
proof (induction k n rule: le_bytes.induct)
  case (2 k n)
  have "n mod (256 * 256 ^ k) = 256 * (n div 256 mod 256 ^ k) + n mod 256"
    by (rule mod_mult2_eq)
  with 2 show ?case by simp
qed simp

lemma le_bytes_le_nat: "le_bytes (length bs) (le_nat bs) = bs"
proof (induction bs)
  case (Cons c bs)
  have "(of_char c + 256 * le_nat bs) mod 256 = (of_char c :: nat)" by simp
  moreover have "(of_char c + 256 * le_nat bs) div 256 = le_nat bs" by simp
  ultimately show ?case using Cons by simp
qed simp

text \<open>Packing one unsigned field of \<open>k\<close> bytes; unpacking a sequence of them.\<close>

definition pack_u :: "nat \<Rightarrow> nat \<Rightarrow> exn + bytes" where
  "pack_u k n = (if n < 256 ^ k then Inr (le_bytes k n) else Inl StructError)"

fun pack_us :: "(nat \<times> nat) list \<Rightarrow> exn + bytes" where
  "pack_us [] = Inr []"
| "pack_us ((k, n) # fs) =
     (case pack_u k n of Inl e \<Rightarrow> Inl e
      | Inr b \<Rightarrow> (case pack_us fs of Inl e \<Rightarrow> Inl e | Inr bs \<Rightarrow> Inr (b @ bs)))"

fun read_us :: "nat list \<Rightarrow> bytes \<Rightarrow> nat list" where
  "read_us [] bs = []"
| "read_us (k # ks) bs = le_nat (take k bs) # read_us ks (drop k bs)"

definition unpack_us :: "nat list \<Rightarrow> bytes \<Rightarrow> exn + nat list" where
  "unpack_us ks bs = (if length bs = sum_list ks then Inr (read_us ks bs) else Inl StructError)"

definition fits :: "(nat \<times> nat) list \<Rightarrow> bool" where
  "fits fs \<longleftrightarrow> (\<forall>(k, n) \<in> set fs. n < 256 ^ k)"

lemma fits_Cons [simp]: "fits ((k, n) # fs) \<longleftrightarrow> n < 256 ^ k \<and> fits fs"
  by (auto simp: fits_def)

lemma fits_Nil [simp]: "fits []"
  by (simp add: fits_def)

lemma pack_us_Inr: "pack_us fs = Inr b \<longleftrightarrow> fits fs \<and> b = concat (map (\<lambda>(k, n). le_bytes k n) fs)"
proof (induction fs arbitrary: b)
  case (Cons f fs)
  obtain k n where "f = (k, n)" by (cases f)
  with Cons.IH show ?case by (cases "pack_us fs") (auto simp: pack_u_def)
qed auto

lemma pack_us_fits: "fits fs \<Longrightarrow> pack_us fs = Inr (concat (map (\<lambda>(k, n). le_bytes k n) fs))"
  by (simp add: pack_us_Inr)

lemma read_us_concat: "fits fs \<Longrightarrow>
   read_us (map fst fs) (concat (map (\<lambda>(k, n). le_bytes k n) fs) @ r) = map snd fs"
  by (induction fs) auto

lemma length_pack_us: "pack_us fs = Inr b \<Longrightarrow> length b = sum_list (map fst fs)"
  unfolding pack_us_Inr by (induction fs arbitrary: b) auto

lemma unpack_pack_us: "pack_us fs = Inr b \<Longrightarrow> unpack_us (map fst fs) b = Inr (map snd fs)"
  using read_us_concat [of fs "[]"] by (simp add: unpack_us_def length_pack_us [of fs] pack_us_Inr)

declare pack_us.simps [simp del]

text \<open>The two fields of \<^verbatim>\<open>"<II"\<close>, the shape of every block and frame head of the tunnel.\<close>

definition unpack_u :: "nat \<Rightarrow> bytes \<Rightarrow> exn + nat" where
  "unpack_u k bs = (if length bs = k then Inr (le_nat bs) else Inl StructError)"

definition unpack_II :: "bytes \<Rightarrow> exn + (nat \<times> nat)" where
  "unpack_II bs = (if length bs = 8 then Inr (le_nat (take 4 bs), le_nat (drop 4 bs)) else Inl StructError)"

definition pack_II :: "nat \<Rightarrow> nat \<Rightarrow> exn + bytes" where
  "pack_II a b = pack_us [(4, a), (4, b)]"

lemma pack_II_Inr: "pack_II a b = Inr bs \<longleftrightarrow> a < 2 ^ 32 \<and> b < 2 ^ 32 \<and> bs = le_bytes 4 a @ le_bytes 4 b"
  unfolding pack_II_def pack_us_Inr by auto

lemma unpack_u_le_bytes: "n < 256 ^ k \<Longrightarrow> unpack_u k (le_bytes k n) = Inr n"
  by (simp add: unpack_u_def)

lemma unpack_II_pack_II: "pack_II a b = Inr bs \<Longrightarrow> unpack_II bs = Inr (a, b)"
  by (auto simp: pack_II_Inr unpack_II_def)

text \<open>
  \<^verbatim>\<open>"<d"\<close>: an IEEE double, read exactly.  Infinities and NaNs (exponent 2047) have no real
  value: they read as an error here, a case the code never tests for.
\<close>

definition unpack_d :: "bytes \<Rightarrow> exn + real" where
  "unpack_d bs =
     (if length bs \<noteq> 8 then Inl StructError
      else let n = le_nat bs; s = n div 2 ^ 63; e = n div 2 ^ 52 mod 2048; m = n mod 2 ^ 52
        in if e = 2047 then Inl (PyException ''not finite'')
           else let x = (if e = 0 then real m / 2 ^ 1074
                         else real (2 ^ 52 + m) * 2 powi (int e - 1075))
             in Inr (if s = 0 then x else - x))"

text \<open>
  \<^verbatim>\<open>xstruct.unpack\<close> retries with \<^verbatim>\<open>data.tobytes()\<close> after a failure.  The buffers the tunnel
  hands it are \<^verbatim>\<open>bytes\<close>, which have no \<^verbatim>\<open>tobytes\<close>, so what the caller sees is an
  AttributeError; on a memoryview it is the original error.  The flag \<open>need_convert\<close> is set
  on the way out.
\<close>

datatype buf_kind = KBytes | KMemoryview

definition xunpack :: "(bytes \<Rightarrow> exn + 'a) \<Rightarrow> buf_kind \<Rightarrow> bytes \<Rightarrow> bool \<Rightarrow> (exn + 'a) \<times> bool" where
  "xunpack f kind bs need_convert =
     (case f bs of
        Inr x \<Rightarrow> (Inr x, need_convert)
      | Inl e \<Rightarrow> (case (if need_convert \<and> kind = KMemoryview then KBytes else kind) of
                    KMemoryview \<Rightarrow> (f bs, True)
                  | KBytes \<Rightarrow> (Inl AttributeError, True)))"

lemma xunpack_ok: "f bs = Inr x \<Longrightarrow> xunpack f kind bs c = (Inr x, c)"
  by (simp add: xunpack_def)

lemma xunpack_never_struct_error: "fst (xunpack f KBytes bs c) \<noteq> Inl StructError"
  by (auto simp: xunpack_def split: sum.splits)

definition xunpack_b :: "(bytes \<Rightarrow> exn + 'a) \<Rightarrow> bytes \<Rightarrow> exn + 'a" where
  "xunpack_b f bs = (case f bs of Inr x \<Rightarrow> Inr x | Inl e \<Rightarrow> Inl AttributeError)"

lemma xunpack_bytes: "fst (xunpack f KBytes bs c) = xunpack_b f bs"
  by (auto simp: xunpack_def xunpack_b_def split: sum.splits)

lemma xunpack_b_Inr [simp]: "xunpack_b f bs = Inr x \<longleftrightarrow> f bs = Inr x"
  by (auto simp: xunpack_b_def split: sum.splits)

end
