(* ===== verification/Buffers.thy ===== *)
theory Buffers
  imports Py_Struct
begin

text \<open>
  The byte containers of x_tunnel/local/async_base_container.py: \<^verbatim>\<open>WriteBuffer\<close> (a rope),
  \<^verbatim>\<open>ReadBuffer\<close> (a cursor), \<^verbatim>\<open>AsyncWaitQueue\<close>, \<^verbatim>\<open>AsyncSendBuffer\<close> (cuts the upload stream
  into numbered blocks) and \<^verbatim>\<open>AsyncBlockReceivePool\<close>.

  Two interfaces are stated as locales and interpreted on these definitions: \<open>byte_reader\<close>
  (what a parser may assume of a cursor) and \<open>block_sender\<close> (what the session may assume of
  the send buffer: a FIFO of bytes whose blocks are numbered without gaps).
\<close>

subsection \<open>WriteBuffer\<close>

record write_buffer =
  buffer_list :: "bytes list"
  string_len :: nat

datatype wb_arg = WBytes bytes | WBuf write_buffer | WOther

definition wb_init :: "bytes option \<Rightarrow> write_buffer" where
  "wb_init s = (case s of
      Some b \<Rightarrow> \<lparr>buffer_list = [b], string_len = length b\<rparr>
    | None \<Rightarrow> \<lparr>buffer_list = [], string_len = 0\<rparr>)"

definition wb_reset :: "write_buffer \<Rightarrow> write_buffer" where
  "wb_reset w = w\<lparr>buffer_list := [], string_len := 0\<rparr>"

definition wb_insert :: "wb_arg \<Rightarrow> write_buffer \<Rightarrow> exn + write_buffer" where
  "wb_insert s w = (case s of
      WBuf o' \<Rightarrow> Inr (w\<lparr>buffer_list := buffer_list o' @ buffer_list w,
                        string_len := string_len w + string_len o'\<rparr>)
    | WBytes b \<Rightarrow> Inr (w\<lparr>buffer_list := b # buffer_list w, string_len := string_len w + length b\<rparr>)
    | WOther \<Rightarrow> Inl (PyException ''WriteBuffer insert not bytes or WriteBuffer''))"

definition wb_append :: "wb_arg \<Rightarrow> write_buffer \<Rightarrow> exn + write_buffer" where
  "wb_append s w = (case s of
      WBuf o' \<Rightarrow> Inr (w\<lparr>buffer_list := buffer_list w @ buffer_list o',
                        string_len := string_len w + string_len o'\<rparr>)
    | WBytes b \<Rightarrow> Inr (w\<lparr>buffer_list := buffer_list w @ [b], string_len := string_len w + length b\<rparr>)
    | WOther \<Rightarrow> Inl (PyException ''WriteBuffer append not bytes or WriteBuffer''))"

definition wb_bytes :: "write_buffer \<Rightarrow> bytes" where
  "wb_bytes w = concat (buffer_list w)"

text \<open>The two calls that cannot raise: appending and inserting bytes.\<close>

definition wb_app :: "bytes \<Rightarrow> write_buffer \<Rightarrow> write_buffer" where
  "wb_app b w = w\<lparr>buffer_list := buffer_list w @ [b], string_len := string_len w + length b\<rparr>"

definition wb_ok :: "write_buffer \<Rightarrow> bool" where
  "wb_ok w \<longleftrightarrow> string_len w = length (wb_bytes w)"

lemma wb_append_WBytes [simp]: "wb_append (WBytes b) w = Inr (wb_app b w)"
  by (simp add: wb_append_def wb_app_def)

lemma wb_bytes_init [simp]: "wb_bytes (wb_init s) = (case s of None \<Rightarrow> [] | Some b \<Rightarrow> b)"
  by (auto simp: wb_bytes_def wb_init_def split: option.splits)

lemma wb_ok_init [wf_intros, simp]: "wb_ok (wb_init s)"
  by (auto simp: wb_ok_def wb_bytes_def wb_init_def split: option.splits)

lemma wb_len_init [simp]: "string_len (wb_init s) = (case s of None \<Rightarrow> 0 | Some b \<Rightarrow> length b)"
  by (auto simp: wb_init_def split: option.splits)

lemma wb_bytes_app [simp]: "wb_bytes (wb_app b w) = wb_bytes w @ b"
  by (simp add: wb_bytes_def wb_app_def)

lemma wb_ok_app [wf_intros, simp]: "wb_ok w \<Longrightarrow> wb_ok (wb_app b w)"
  by (simp add: wb_ok_def wb_bytes_def wb_app_def)

lemma wb_len_app [simp]: "string_len (wb_app b w) = string_len w + length b"
  by (simp add: wb_app_def)

fun wb_arg_bytes :: "wb_arg \<Rightarrow> bytes" where
  "wb_arg_bytes (WBytes b) = b"
| "wb_arg_bytes (WBuf w) = wb_bytes w"
| "wb_arg_bytes WOther = []"

fun wb_arg_ok :: "wb_arg \<Rightarrow> bool" where
  "wb_arg_ok (WBytes b) = True"
| "wb_arg_ok (WBuf w) = wb_ok w"
| "wb_arg_ok WOther = False"

lemma wb_append_correct: "wb_ok w \<Longrightarrow> wb_arg_ok s \<Longrightarrow>
   \<exists>w'. wb_append s w = Inr w' \<and> wb_ok w' \<and> wb_bytes w' = wb_bytes w @ wb_arg_bytes s"
  by (cases s) (auto simp: wb_append_def wb_ok_def wb_bytes_def)

lemma wb_insert_correct: "wb_ok w \<Longrightarrow> wb_arg_ok s \<Longrightarrow>
   \<exists>w'. wb_insert s w = Inr w' \<and> wb_ok w' \<and> wb_bytes w' = wb_arg_bytes s @ wb_bytes w"
  by (cases s) (auto simp: wb_insert_def wb_ok_def wb_bytes_def)

subsection \<open>ReadBuffer\<close>

record read_buffer =
  rb_buf :: bytes
  rb_begin :: nat
  rb_size :: nat

definition rb_init :: "bytes \<Rightarrow> nat \<Rightarrow> nat option \<Rightarrow> read_buffer" where
  "rb_init buf begin sz = \<lparr>rb_buf = buf, rb_begin = begin,
     rb_size = (case sz of None \<Rightarrow> length buf - begin | Some n \<Rightarrow> n)\<rparr>"

definition rb_to_bytes :: "read_buffer \<Rightarrow> bytes" where
  "rb_to_bytes r = slice (rb_begin r) (rb_begin r + rb_size r) (rb_buf r)"

definition rb_of_rb :: "read_buffer \<Rightarrow> nat \<Rightarrow> nat option \<Rightarrow> read_buffer" where
  "rb_of_rb r begin sz = rb_init (rb_to_bytes r) begin sz"

definition rb_clip :: "nat option \<Rightarrow> read_buffer \<Rightarrow> nat" where
  "rb_clip sz r = (case sz of None \<Rightarrow> rb_size r | Some n \<Rightarrow> if n > rb_size r then rb_size r else n)"

definition rb_skip :: "nat \<Rightarrow> read_buffer \<Rightarrow> read_buffer" where
  "rb_skip n r = r\<lparr>rb_begin := rb_begin r + n, rb_size := rb_size r - n\<rparr>"

definition rb_get :: "nat option \<Rightarrow> read_buffer \<Rightarrow> bytes \<times> read_buffer" where
  "rb_get sz r = (let n = rb_clip sz r
     in (slice (rb_begin r) (rb_begin r + n) (rb_buf r), rb_skip n r))"

definition rb_get_buf :: "nat option \<Rightarrow> read_buffer \<Rightarrow> read_buffer \<times> read_buffer" where
  "rb_get_buf sz r = (let n = rb_clip sz r
     in (rb_init (rb_buf r) (rb_begin r) (Some n), rb_skip n r))"

definition rb_ok :: "read_buffer \<Rightarrow> bool" where
  "rb_ok r \<longleftrightarrow> rb_begin r + rb_size r \<le> length (rb_buf r)"

lemma length_rb_to_bytes: "rb_ok r \<Longrightarrow> length (rb_to_bytes r) = rb_size r"
  by (simp add: rb_ok_def rb_to_bytes_def slice_def)

lemma rb_get_spec: "rb_get (Some n) r = (b, r') \<Longrightarrow> rb_ok r \<Longrightarrow>
   b = take n (rb_to_bytes r) \<and> rb_to_bytes r' = drop n (rb_to_bytes r) \<and> rb_ok r'"
  unfolding rb_get_def rb_clip_def rb_skip_def rb_ok_def rb_to_bytes_def slice_def Let_def
  by (auto simp: min_def take_drop add.commute split: if_splits)

lemma rb_get_all_spec: "rb_get None r = (b, r') \<Longrightarrow> rb_ok r \<Longrightarrow>
   b = rb_to_bytes r \<and> rb_to_bytes r' = [] \<and> rb_ok r'"
  unfolding rb_get_def rb_clip_def rb_skip_def rb_ok_def rb_to_bytes_def slice_def Let_def by auto

lemma rb_get_buf_spec: "rb_get_buf (Some n) r = (p, r') \<Longrightarrow> rb_ok r \<Longrightarrow>
   rb_to_bytes p = take n (rb_to_bytes r) \<and> rb_ok p \<and> rb_to_bytes r' = drop n (rb_to_bytes r) \<and> rb_ok r'"
  unfolding rb_get_buf_def rb_clip_def rb_skip_def rb_init_def rb_ok_def rb_to_bytes_def slice_def Let_def
  by (auto simp: min_def take_drop add.commute split: if_splits)

lemma rb_get_buf_all_spec: "rb_ok r \<Longrightarrow>
   rb_to_bytes (fst (rb_get_buf None r)) = rb_to_bytes r \<and> rb_ok (fst (rb_get_buf None r))"
  unfolding rb_get_buf_def rb_clip_def rb_init_def rb_ok_def rb_to_bytes_def Let_def by simp

lemma rb_init_spec: "rb_ok (rb_init b 0 None)" "rb_to_bytes (rb_init b 0 None) = b"
  by (simp_all add: rb_init_def rb_ok_def rb_to_bytes_def slice_def)

text \<open>What a parser may assume of a cursor, and the parser of one packed field over it.\<close>

locale byte_reader =
  fixes get :: "nat \<Rightarrow> 'r \<Rightarrow> bytes \<times> 'r"
    and rest :: "'r \<Rightarrow> bytes"
    and ok :: "'r \<Rightarrow> bool"
  assumes get_take: "ok r \<Longrightarrow> fst (get n r) = take n (rest r)"
    and get_rest: "ok r \<Longrightarrow> rest (snd (get n r)) = drop n (rest r)"
    and get_ok: "ok r \<Longrightarrow> ok (snd (get n r))"
begin

lemma get_append: "ok r \<Longrightarrow> rest r = a @ b \<Longrightarrow> length a = n \<Longrightarrow>
   fst (get n r) = a \<and> rest (snd (get n r)) = b \<and> ok (snd (get n r))"
  by (simp add: get_take get_rest get_ok)

lemma get_II: "ok r \<Longrightarrow> rest r = h @ b \<Longrightarrow> pack_II x y = Inr h \<Longrightarrow>
   unpack_II (fst (get 8 r)) = Inr (x, y) \<and> rest (snd (get 8 r)) = b \<and> ok (snd (get 8 r))"
  using get_append [of r h b 8] unpack_II_pack_II [of x y h]
  by (auto simp: pack_II_Inr)

lemma get_u: "ok r \<Longrightarrow> rest r = le_bytes k x @ b \<Longrightarrow> x < 256 ^ k \<Longrightarrow>
   unpack_u k (fst (get k r)) = Inr x \<and> rest (snd (get k r)) = b \<and> ok (snd (get k r))"
  using get_append [of r "le_bytes k x" b k] by (simp add: unpack_u_def)

lemma get_byte: "ok r \<Longrightarrow> rest r = char_of (x :: nat) # b \<Longrightarrow> x < 256 \<Longrightarrow>
   unpack_u 1 (fst (get 1 r)) = Inr x \<and> rest (snd (get 1 r)) = b \<and> ok (snd (get 1 r))"
  using get_append [of r "[char_of x]" b 1] by (simp add: unpack_u_def)

lemma get_short: "ok r \<Longrightarrow> length (rest r) < n \<Longrightarrow> fst (get n r) = rest r \<and> rest (snd (get n r)) = []"
  by (simp add: get_take get_rest)

end

interpretation rb: byte_reader "\<lambda>n. rb_get (Some n)" rb_to_bytes rb_ok
proof unfold_locales
  fix r n assume "rb_ok r"
  then show "fst (rb_get (Some n) r) = take n (rb_to_bytes r)"
    and "rb_to_bytes (snd (rb_get (Some n) r)) = drop n (rb_to_bytes r)"
    and "rb_ok (snd (rb_get (Some n) r))"
    using rb_get_spec [of n r] by (metis prod.collapse)+
qed

subsection \<open>AsyncWaitQueue\<close>

text \<open>
  \<^verbatim>\<open>wait\<close> suspends, so it is two steps: \<open>wq_wait_begin\<close> up to the await (it returns at once
  with False when the queue is stopped, else the number of the event it sleeps on), and
  \<open>wq_wait_end\<close> after it.  \<^verbatim>\<open>notify\<close> fires the current event, which wakes every coroutine
  that sleeps on it, and installs a fresh one.
\<close>

record wait_queue =
  wq_event :: nat
  wq_fired :: "nat list"
  wq_running :: bool
  wq_waiters :: int

datatype wait_outcome = Woken | TimedOut

definition wq_init :: wait_queue where
  "wq_init = \<lparr>wq_event = 0, wq_fired = [], wq_running = True, wq_waiters = 0\<rparr>"

definition wq_wait_begin :: "wait_queue \<Rightarrow> (bool + nat) \<times> wait_queue" where
  "wq_wait_begin q = (if \<not> wq_running q then (Inl False, q)
     else (Inr (wq_event q), q\<lparr>wq_waiters := wq_waiters q + 1\<rparr>))"

definition wq_wait_end :: "wait_outcome \<Rightarrow> wait_queue \<Rightarrow> bool \<times> wait_queue" where
  "wq_wait_end out q =
     ((case out of Woken \<Rightarrow> wq_running q | TimedOut \<Rightarrow> False), q\<lparr>wq_waiters := wq_waiters q - 1\<rparr>)"

definition wq_notify :: "wait_queue \<Rightarrow> wait_queue" where
  "wq_notify q = q\<lparr>wq_fired := wq_event q # wq_fired q, wq_event := wq_event q + 1\<rparr>"

definition wq_stop :: "wait_queue \<Rightarrow> wait_queue" where
  "wq_stop q = q\<lparr>wq_running := False, wq_fired := wq_event q # wq_fired q\<rparr>"

definition wq_reset :: "wait_queue \<Rightarrow> wait_queue" where
  "wq_reset q = q\<lparr>wq_running := True, wq_waiters := 0, wq_event := wq_event q + 1\<rparr>"

fun wq_notify_n :: "nat \<Rightarrow> wait_queue \<Rightarrow> wait_queue" where
  "wq_notify_n 0 q = q"
| "wq_notify_n (Suc n) q = wq_notify_n n (wq_notify q)"

lemma wq_notify_n_fired: "set (wq_fired q) \<subseteq> set (wq_fired (wq_notify_n n q))"
  by (induction n q rule: wq_notify_n.induct) (auto simp: wq_notify_def)

lemma wq_notify_n_waiters [simp]: "wq_waiters (wq_notify_n n q) = wq_waiters q"
  "wq_running (wq_notify_n n q) = wq_running q"
  by (induction n q rule: wq_notify_n.induct) (simp_all add: wq_notify_def)

subsection \<open>AsyncSendBuffer\<close>

record send_buffer =
  sb_max_payload :: nat
  sb_pool_size :: int
  sb_head_sn :: nat
  sb_tail_sn :: nat
  sb_block_list :: "(nat, write_buffer) dict"
  sb_last_block :: write_buffer
  sb_last_put_time :: time

definition sb_init :: "nat \<Rightarrow> time \<Rightarrow> send_buffer" where
  "sb_init mp now = \<lparr>sb_max_payload = mp, sb_pool_size = 0, sb_head_sn = 1, sb_tail_sn = 1,
     sb_block_list = [], sb_last_block = wb_init None, sb_last_put_time = now\<rparr>"

definition sb_cut_one :: "send_buffer \<Rightarrow> send_buffer" where
  "sb_cut_one b = (let whole = wb_bytes (sb_last_block b); mp = sb_max_payload b
     in b\<lparr>sb_block_list := dset (sb_head_sn b) (wb_init (Some (take mp whole))) (sb_block_list b),
         sb_head_sn := sb_head_sn b + 1,
         sb_last_block := wb_init (Some (drop mp whole))\<rparr>)"

text \<open>The cutting loop does not end when \<open>max_payload\<close> is 0: \<open>None\<close> is "does not return".\<close>

partial_function (option) sb_cut :: "send_buffer \<Rightarrow> send_buffer option" where
  "sb_cut b = (if string_len (sb_last_block b) > sb_max_payload b then sb_cut (sb_cut_one b) else Some b)"

definition sb_add :: "time \<Rightarrow> bytes \<Rightarrow> send_buffer \<Rightarrow> send_buffer option" where
  "sb_add now data b =
     (if data = [] then Some b
      else sb_cut (b\<lparr>sb_last_put_time := now, sb_pool_size := sb_pool_size b + int (length data),
                    sb_last_block := wb_app data (sb_last_block b)\<rparr>))"

datatype payload = PBytes bytes | PBuf write_buffer

fun payload_len :: "payload \<Rightarrow> nat" where
  "payload_len (PBytes b) = length b"
| "payload_len (PBuf w) = string_len w"

fun payload_bytes :: "payload \<Rightarrow> bytes" where
  "payload_bytes (PBytes b) = b"
| "payload_bytes (PBuf w) = wb_bytes w"

definition sb_get :: "send_buffer \<Rightarrow> (exn + payload \<times> nat) \<times> send_buffer" where
  "sb_get b =
     (if sb_tail_sn b < sb_head_sn b then
        (case dget (sb_block_list b) (sb_tail_sn b) of
           None \<Rightarrow> (Inl KeyError, b)
         | Some d \<Rightarrow> (Inr (PBuf d, sb_tail_sn b),
             b\<lparr>sb_block_list := ddel (sb_tail_sn b) (sb_block_list b),
               sb_tail_sn := sb_tail_sn b + 1,
               sb_pool_size := sb_pool_size b - int (string_len d)\<rparr>))
      else if string_len (sb_last_block b) > 0 then
        (Inr (PBuf (sb_last_block b), sb_tail_sn b),
         b\<lparr>sb_last_block := wb_init None, sb_head_sn := sb_head_sn b + 1,
           sb_tail_sn := sb_tail_sn b + 1,
           sb_pool_size := sb_pool_size b - int (string_len (sb_last_block b))\<rparr>)
      else (Inr (PBytes [], 0), b))"

definition sb_get_payload :: "send_buffer \<Rightarrow> (exn + bytes option) \<times> send_buffer" where
  "sb_get_payload b = (case sb_get b of
      (Inl e, b') \<Rightarrow> (Inl e, b')
    | (Inr (d, sn), b') \<Rightarrow> (Inr (if payload_len d = 0 then None else Some (payload_bytes d)), b'))"

definition sb_reset :: "send_buffer \<Rightarrow> send_buffer" where
  "sb_reset b = b\<lparr>sb_pool_size := 0, sb_head_sn := 1, sb_tail_sn := 1, sb_block_list := [],
     sb_last_block := wb_init None\<rparr>"

text \<open>
  The invariant: the finished blocks are exactly those numbered \<open>tail_sn \<dots> head_sn - 1\<close>, each
  full; the last block holds at most \<open>max_payload\<close> bytes; \<open>pool_size\<close> is the number of bytes
  held.  \<open>sb_pre\<close> is what holds inside the cutting loop, where the last block may be longer.
\<close>

definition sb_block :: "(nat, write_buffer) dict \<Rightarrow> nat \<Rightarrow> bytes" where
  "sb_block d n = (case dget d n of None \<Rightarrow> [] | Some w \<Rightarrow> wb_bytes w)"

definition sb_stream :: "send_buffer \<Rightarrow> bytes" where
  "sb_stream b = concat (map (sb_block (sb_block_list b)) [sb_tail_sn b..<sb_head_sn b]) @ wb_bytes (sb_last_block b)"

definition sb_pre :: "send_buffer \<Rightarrow> bool" where
  "sb_pre b \<longleftrightarrow> 0 < sb_max_payload b \<and> 1 \<le> sb_tail_sn b \<and> sb_tail_sn b \<le> sb_head_sn b
     \<and> dict_ok (sb_block_list b)
     \<and> fst ` set (sb_block_list b) = {sb_tail_sn b..<sb_head_sn b}
     \<and> (\<forall>n w. dget (sb_block_list b) n = Some w \<longrightarrow> wb_ok w \<and> length (wb_bytes w) = sb_max_payload b)
     \<and> wb_ok (sb_last_block b)
     \<and> sb_pool_size b = int (length (sb_stream b))"

definition sb_ok :: "send_buffer \<Rightarrow> bool" where
  "sb_ok b \<longleftrightarrow> sb_pre b \<and> length (wb_bytes (sb_last_block b)) \<le> sb_max_payload b"

lemma sb_blocks_dset [simp]:
  "map (sb_block (dset h w d)) [a..<h] = map (sb_block d) [a..<h]"
  "sb_block (dset h w d) h = wb_bytes w"
  by (auto simp: sb_block_def)

lemma sb_blocks_ddel [simp]: "map (sb_block (ddel t d)) [Suc t..<h] = map (sb_block d) [Suc t..<h]"
  by (auto simp: sb_block_def)

lemma sb_cut_one_stream: "sb_pre b \<Longrightarrow> sb_stream (sb_cut_one b) = sb_stream b"
  by (simp add: sb_stream_def sb_cut_one_def Let_def sb_pre_def)

lemma sb_cut_one_pre:
  assumes "sb_pre b" and "string_len (sb_last_block b) > sb_max_payload b"
  shows "sb_pre (sb_cut_one b)"
proof -
  have "sb_pool_size (sb_cut_one b) = int (length (sb_stream (sb_cut_one b)))"
    using assms(1) by (simp add: sb_cut_one_stream) (simp add: sb_cut_one_def Let_def sb_pre_def)
  then show ?thesis
    using assms by (auto simp: sb_pre_def sb_cut_one_def Let_def wb_ok_def min_def split: if_splits)
qed

lemma sb_cut_one_frame [simp]:
  "sb_max_payload (sb_cut_one b) = sb_max_payload b" "sb_tail_sn (sb_cut_one b) = sb_tail_sn b"
  by (simp_all add: sb_cut_one_def Let_def)

lemma sb_cut_total:
  "sb_pre b \<Longrightarrow> \<exists>b'. sb_cut b = Some b' \<and> sb_ok b' \<and> sb_stream b' = sb_stream b
     \<and> sb_tail_sn b' = sb_tail_sn b \<and> sb_max_payload b' = sb_max_payload b"
proof (induction "string_len (sb_last_block b)" arbitrary: b rule: less_induct)
  case less
  show ?case
  proof (cases "string_len (sb_last_block b) > sb_max_payload b")
    case True
    have "string_len (sb_last_block (sb_cut_one b)) < string_len (sb_last_block b)"
      using True less.prems by (auto simp: sb_cut_one_def Let_def sb_pre_def wb_ok_def)
    from less.hyps[OF this sb_cut_one_pre[OF less.prems True]]
    show ?thesis using True less.prems by (auto simp: sb_cut.simps [of b] sb_cut_one_stream)
  next
    case False
    then show ?thesis using less.prems by (auto simp: sb_cut.simps [of b] sb_ok_def sb_pre_def wb_ok_def)
  qed
qed

lemma sb_add_spec: "sb_ok b \<Longrightarrow>
   \<exists>b'. sb_add now d b = Some b' \<and> sb_ok b' \<and> sb_stream b' = sb_stream b @ d
     \<and> sb_tail_sn b' = sb_tail_sn b \<and> sb_max_payload b' = sb_max_payload b"
proof (cases "d = []")
  case False
  assume ok: "sb_ok b"
  let ?b = "b\<lparr>sb_last_put_time := now, sb_pool_size := sb_pool_size b + int (length d),
                    sb_last_block := wb_app d (sb_last_block b)\<rparr>"
  have str: "sb_stream ?b = sb_stream b @ d"
    by (simp add: sb_stream_def)
  then have "sb_pre ?b" using ok by (simp add: sb_ok_def sb_pre_def)
  from sb_cut_total[OF this] str False show ?thesis by (auto simp: sb_add_def)
qed (auto simp: sb_add_def)

lemma sb_init_ok: "0 < mp \<Longrightarrow> sb_ok (sb_init mp now)"
  by (simp add: sb_ok_def sb_pre_def sb_init_def sb_stream_def)

lemma sb_reset_ok: "sb_ok b \<Longrightarrow> sb_ok (sb_reset b) \<and> sb_stream (sb_reset b) = []"
  by (auto simp: sb_ok_def sb_pre_def sb_reset_def sb_stream_def)

text \<open>The three ways \<^verbatim>\<open>get\<close> ends: a finished block, the open last block, nothing.\<close>

lemma sb_get_finished:
  assumes ok: "sb_ok b" and lt: "sb_tail_sn b < sb_head_sn b"
  obtains w b' where "sb_get b = (Inr (PBuf w, sb_tail_sn b), b')" "sb_ok b'" "wb_ok w"
    "wb_bytes w \<noteq> []" "sb_stream b = wb_bytes w @ sb_stream b'" "sb_tail_sn b' = Suc (sb_tail_sn b)"
    "sb_max_payload b' = sb_max_payload b"
proof -
  let ?t = "sb_tail_sn b"
  from ok lt have "?t \<in> fst ` set (sb_block_list b)" by (simp add: sb_ok_def sb_pre_def)
  then obtain w where w: "dget (sb_block_list b) ?t = Some w"
    by (metis map_of_eq_None_iff option.exhaust)
  let ?b = "b\<lparr>sb_block_list := ddel ?t (sb_block_list b), sb_tail_sn := ?t + 1,
               sb_pool_size := sb_pool_size b - int (string_len w)\<rparr>"
  from ok w have wok: "wb_ok w" "length (wb_bytes w) = sb_max_payload b" "0 < sb_max_payload b"
    by (auto simp: sb_ok_def sb_pre_def)
  have str: "sb_stream b = wb_bytes w @ sb_stream ?b"
    using lt w by (simp add: sb_stream_def upt_conv_Cons sb_block_def)
  have "sb_ok ?b"
    using ok lt wok str by (auto simp: sb_ok_def sb_pre_def wb_ok_def)
  then show thesis
    using lt w wok str by (intro that [of w ?b]) (auto simp: sb_get_def)
qed

lemma sb_get_last:
  assumes ok: "sb_ok b" and "\<not> sb_tail_sn b < sb_head_sn b" and "wb_bytes (sb_last_block b) \<noteq> []"
  obtains b' where "sb_get b = (Inr (PBuf (sb_last_block b), sb_tail_sn b), b')" "sb_ok b'"
    "sb_stream b = wb_bytes (sb_last_block b) @ sb_stream b'" "sb_stream b' = []"
    "sb_tail_sn b' = Suc (sb_tail_sn b)" "sb_max_payload b' = sb_max_payload b"
proof -
  from assms have pos: "string_len (sb_last_block b) > 0" and eq: "sb_head_sn b = sb_tail_sn b"
    by (auto simp: sb_ok_def sb_pre_def wb_ok_def)
  let ?b = "snd (sb_get b)"
  have get: "sb_get b = (Inr (PBuf (sb_last_block b), sb_tail_sn b), ?b)"
    and b': "?b = b\<lparr>sb_last_block := wb_init None, sb_head_sn := sb_head_sn b + 1,
           sb_tail_sn := sb_tail_sn b + 1,
           sb_pool_size := sb_pool_size b - int (string_len (sb_last_block b))\<rparr>"
    using assms pos by (simp_all add: sb_get_def)
  have "sb_stream ?b = []" "sb_stream b = wb_bytes (sb_last_block b)"
    using eq by (simp_all add: b' sb_stream_def)
  moreover have "sb_ok ?b"
    using ok eq by (auto simp: b' sb_ok_def sb_pre_def wb_ok_def sb_stream_def)
  ultimately show thesis using get by (intro that [of ?b]) (auto simp: b')
qed

lemma sb_get_empty:
  "\<not> sb_tail_sn b < sb_head_sn b \<Longrightarrow> sb_ok b \<Longrightarrow> wb_bytes (sb_last_block b) = [] \<Longrightarrow>
     sb_get b = (Inr (PBytes [], 0), b) \<and> sb_stream b = []"
  by (simp add: sb_get_def sb_stream_def sb_ok_def sb_pre_def wb_ok_def)

subsection \<open>The contract of the sending side\<close>

text \<open>
  The session takes blocks out of the buffer as \<^verbatim>\<open>get_data\<close> does: a result counts only if the
  payload is not empty and its number is positive.
\<close>

definition sb_take :: "send_buffer \<Rightarrow> (nat \<times> bytes) option \<times> send_buffer" where
  "sb_take b = (case sb_get b of
      (Inl e, b') \<Rightarrow> (None, b')
    | (Inr (d, sn), b') \<Rightarrow> (if payload_len d > 0 \<and> sn > 0 then Some (sn, payload_bytes d) else None, b'))"

datatype 't sender_op = Put 't bytes | Take

fun send_run :: "('t \<Rightarrow> bytes \<Rightarrow> 'q \<Rightarrow> 'q option) \<Rightarrow> ('q \<Rightarrow> (nat \<times> bytes) option \<times> 'q) \<Rightarrow>
    't sender_op list \<Rightarrow> 'q \<Rightarrow> ((nat \<times> bytes) list \<times> 'q) option" where
  "send_run put tk [] q = Some ([], q)"
| "send_run put tk (Put t d # ops) q = (case put t d q of None \<Rightarrow> None | Some q' \<Rightarrow> send_run put tk ops q')"
| "send_run put tk (Take # ops) q = (case tk q of
      (None, q') \<Rightarrow> send_run put tk ops q'
    | (Some b, q') \<Rightarrow> map_option (\<lambda>(bs, r). (b # bs, r)) (send_run put tk ops q'))"

fun put_bytes :: "'t sender_op list \<Rightarrow> bytes" where
  "put_bytes [] = []"
| "put_bytes (Put t d # ops) = d @ put_bytes ops"
| "put_bytes (Take # ops) = put_bytes ops"

locale block_sender =
  fixes put :: "'t \<Rightarrow> bytes \<Rightarrow> 'q \<Rightarrow> 'q option"
    and tk :: "'q \<Rightarrow> (nat \<times> bytes) option \<times> 'q"
    and stream :: "'q \<Rightarrow> bytes"
    and next_no :: "'q \<Rightarrow> nat"
    and ok :: "'q \<Rightarrow> bool"
  assumes put_law: "ok q \<Longrightarrow> \<exists>q'. put t d q = Some q' \<and> ok q' \<and> stream q' = stream q @ d \<and> next_no q' = next_no q"
    and take_None: "ok q \<Longrightarrow> tk q = (None, q') \<Longrightarrow> stream q = [] \<and> q' = q"
    and take_Some: "ok q \<Longrightarrow> tk q = (Some (n, b), q') \<Longrightarrow>
       ok q' \<and> n = next_no q \<and> next_no q' = Suc n \<and> b \<noteq> [] \<and> stream q = b @ stream q'"
begin

theorem send_run_fifo: "ok q \<Longrightarrow>
   \<exists>bs q'. send_run put tk ops q = Some (bs, q') \<and> ok q'
     \<and> stream q @ put_bytes ops = concat (map snd bs) @ stream q'
     \<and> map fst bs = [next_no q..<next_no q'] \<and> next_no q \<le> next_no q'"
proof (induction ops arbitrary: q)
  case Nil
  then show ?case by simp
next
  case (Cons op ops)
  show ?case
  proof (cases op)
    case (Put t d)
    from put_law[OF Cons.prems, of t d] obtain q1 where
      q1: "put t d q = Some q1" "ok q1" "stream q1 = stream q @ d" "next_no q1 = next_no q" by blast
    from Cons.IH[OF q1(2)] q1 Put show ?thesis by auto
  next
    case Take
    obtain x q1 where tk: "tk q = (x, q1)" by (cases "tk q")
    show ?thesis
    proof (cases x)
      case None
      with take_None[OF Cons.prems] tk have "q1 = q" by auto
      with Cons.IH[OF Cons.prems] tk None Take show ?thesis by auto
    next
      case (Some p)
      obtain n b where "p = (n, b)" by (cases p)
      with take_Some[OF Cons.prems] tk Some
      have q1: "ok q1" "n = next_no q" "next_no q1 = Suc n" "stream q = b @ stream q1" by blast+
      from Cons.IH[OF q1(1)] obtain bs q' where
        "send_run put tk ops q1 = Some (bs, q')" "ok q'"
        "stream q1 @ put_bytes ops = concat (map snd bs) @ stream q'"
        "map fst bs = [next_no q1..<next_no q']" "next_no q1 \<le> next_no q'" by blast
      with q1 tk Some Take \<open>p = (n, b)\<close> show ?thesis
        by (intro exI [of _ "(n, b) # bs"] exI [of _ q']) (auto simp: upt_conv_Cons)
    qed
  qed
qed

end

lemma sb_take_cases:
  assumes ok: "sb_ok b"
  shows "(sb_take b = (None, b) \<and> sb_stream b = []) \<or>
    (\<exists>d b'. sb_take b = (Some (sb_tail_sn b, d), b') \<and> sb_ok b' \<and> d \<noteq> [] \<and> sb_stream b = d @ sb_stream b'
       \<and> sb_tail_sn b' = Suc (sb_tail_sn b) \<and> sb_max_payload b' = sb_max_payload b)"
proof -
  have pos: "0 < sb_tail_sn b" and last: "wb_ok (sb_last_block b)"
    using ok by (auto simp: sb_ok_def sb_pre_def)
  consider (fin) "sb_tail_sn b < sb_head_sn b"
    | (last) "\<not> sb_tail_sn b < sb_head_sn b" "wb_bytes (sb_last_block b) \<noteq> []"
    | (empty) "\<not> sb_tail_sn b < sb_head_sn b" "wb_bytes (sb_last_block b) = []" by blast
  then show ?thesis
  proof cases
    case fin
    from ok fin show ?thesis
      by (rule sb_get_finished) (use pos in \<open>auto simp: sb_take_def wb_ok_def\<close>)
  next
    case last
    from ok last(1,2) show ?thesis
      by (rule sb_get_last) (use pos \<open>wb_ok (sb_last_block b)\<close> last in \<open>auto simp: sb_take_def wb_ok_def\<close>)
  next
    case empty
    from sb_get_empty[OF empty(1) ok empty(2)] show ?thesis by (simp add: sb_take_def)
  qed
qed

interpretation sb: block_sender sb_add sb_take sb_stream sb_tail_sn sb_ok
proof unfold_locales
  fix q t d assume "sb_ok q"
  from sb_add_spec[OF this]
  show "\<exists>q'. sb_add t d q = Some q' \<and> sb_ok q' \<and> sb_stream q' = sb_stream q @ d \<and> sb_tail_sn q' = sb_tail_sn q"
    by blast
next
  fix q q' assume "sb_ok q" "sb_take q = (None, q')"
  with sb_take_cases[of q] show "sb_stream q = [] \<and> q' = q" by auto
next
  fix q n b q' assume "sb_ok q" "sb_take q = (Some (n, b), q')"
  with sb_take_cases[of q]
  show "sb_ok q' \<and> n = sb_tail_sn q \<and> sb_tail_sn q' = Suc n \<and> b \<noteq> [] \<and> sb_stream q = b @ sb_stream q'"
    by auto
qed

subsection \<open>AsyncBlockReceivePool\<close>

text \<open>
  The pool hands each stored datum of a connection to the handler; a handler that raises is
  logged and skipped.  The handler acts on a state \<open>'s\<close> of its own.
\<close>

type_synonym recv_pool = "(nat, bytes list) dict"

definition rp_add :: "nat \<Rightarrow> bytes \<Rightarrow> recv_pool \<Rightarrow> recv_pool" where
  "rp_add cid data pool =
     (let pool' = (if dmem cid pool then pool else dset cid [] pool)
      in dset cid (dget_or pool' cid [] @ [data]) pool')"

fun rp_handle :: "(nat \<Rightarrow> bytes \<Rightarrow> 's \<Rightarrow> (exn + unit) \<times> 's) \<Rightarrow> nat \<Rightarrow> bytes list \<Rightarrow> 's \<Rightarrow> 's" where
  "rp_handle h cid [] s = s"
| "rp_handle h cid (d # ds) s = rp_handle h cid ds (snd (h cid d s))"

fun rp_process_items ::
  "(nat \<Rightarrow> bytes \<Rightarrow> 's \<Rightarrow> (exn + unit) \<times> 's) \<Rightarrow> (nat \<times> bytes list) list \<Rightarrow> recv_pool \<Rightarrow> 's \<Rightarrow> recv_pool \<times> 's" where
  "rp_process_items h [] pool s = (pool, s)"
| "rp_process_items h ((cid, ds) # items) pool s =
     rp_process_items h items (dset cid [] pool) (rp_handle h cid ds s)"

definition rp_process ::
  "(nat \<Rightarrow> bytes \<Rightarrow> 's \<Rightarrow> (exn + unit) \<times> 's) \<Rightarrow> recv_pool \<Rightarrow> 's \<Rightarrow> recv_pool \<times> 's" where
  "rp_process h pool s = rp_process_items h pool pool s"

definition rp_reset :: "recv_pool \<Rightarrow> recv_pool" where
  "rp_reset pool = []"

lemma rp_add_get: "dget_or (rp_add cid d pool) k [] = dget_or pool k [] @ (if k = cid then [d] else [])"
  by (auto simp: rp_add_def Let_def dget_or_def dmem_def simp del: dmem_iff split: option.splits)

lemma rp_process_items_empties:
  "map_of (fst (rp_process_items h items pool s)) k =
     (if k \<in> fst ` set items then Some [] else map_of pool k)"
proof (induction items arbitrary: pool s)
  case (Cons i items)
  then show ?case by (cases i) auto
qed simp

lemma rp_process_empties: "k \<in> fst ` set pool \<Longrightarrow> map_of (fst (rp_process h pool s)) k = Some []"
  by (simp add: rp_process_def rp_process_items_empties)

end
