(* ===== verification/Receive.thy ===== *)
theory Receive
  imports Buffers
begin

text \<open>
  \<^verbatim>\<open>AsyncReceiveProcess\<close> of x_tunnel/local/async_proxy_session.py: the reorder buffer of the
  download direction.  \<^verbatim>\<open>put\<close> hands blocks on in the order of their numbers, each once; what
  it hands on is the result of \<open>rcv_put\<close>, which the code runs through the handler after the lock is
  released: two calls of \<^verbatim>\<open>put\<close> whose handlers suspend may therefore interleave their handlers,
  which a single result does not show; the table itself changes only under the lock.  The list of block numbers whose arrival is overdue is kept here too.

  \<open>block_receiver\<close> is the contract: what is handed on is the gap-free run that starts at the
  expected number.
\<close>

record timeout_info =
  server_send_time :: time
  retry_time :: "time option"

record 'd receive_process =
  next_sn :: nat
  block_list :: "(nat, 'd) dict"
  timeout_list :: "(nat, timeout_info) dict"

definition rcv_init :: "'d receive_process" where
  "rcv_init = \<lparr>next_sn = 1, block_list = [], timeout_list = []\<rparr>"

function rcv_flush :: "nat \<Rightarrow> (nat, 'd) dict \<Rightarrow> 'd list \<times> nat \<times> (nat, 'd) dict" where
  "rcv_flush n bl = (case dget bl n of
      None \<Rightarrow> ([], n, bl)
    | Some d \<Rightarrow> (let (ds, m, bl') = rcv_flush (n + 1) (ddel n bl) in (d # ds, m, bl')))"
  by pat_completeness auto
termination
  by (relation "measure (\<lambda>(n, bl). length bl)")
     (auto intro: length_ddel_Some)

declare rcv_flush.simps [simp del]

definition rcv_put :: "nat \<Rightarrow> 'd \<Rightarrow> 'd receive_process \<Rightarrow> 'd list \<times> 'd receive_process" where
  "rcv_put sn data r0 =
     (let r = r0\<lparr>timeout_list := ddel sn (timeout_list r0)\<rparr> in
      if sn < next_sn r then ([], r)
      else if sn > next_sn r then
        (if dmem sn (block_list r) then ([], r)
         else ([], r\<lparr>block_list := dset sn data (block_list r)\<rparr>))
      else let (ds, n, bl) = rcv_flush (next_sn r + 1) (block_list r)
        in (data # ds, r\<lparr>next_sn := n, block_list := bl\<rparr>))"

definition is_received :: "nat \<Rightarrow> 'd receive_process \<Rightarrow> bool" where
  "is_received sn r \<longleftrightarrow> sn < next_sn r \<or> dmem sn (block_list r)"

definition mark_sn_timeout :: "nat \<Rightarrow> time \<Rightarrow> time \<Rightarrow> 'd receive_process \<Rightarrow> 'd receive_process" where
  "mark_sn_timeout sn t server_time r =
     (case dget (timeout_list r) sn of
        None \<Rightarrow> r\<lparr>timeout_list := dset sn \<lparr>server_send_time = t, retry_time = None\<rparr> (timeout_list r)\<rparr>
      | Some i \<Rightarrow> if t > server_send_time i
           then r\<lparr>timeout_list := dset sn (i\<lparr>server_send_time := t\<rparr>) (timeout_list r)\<rparr> else r)"

definition overdue :: "time \<Rightarrow> time \<Rightarrow> timeout_info \<Rightarrow> bool" where
  "overdue server_time timeout i \<longleftrightarrow>
     \<not> server_time - server_send_time i < timeout \<and>
     \<not> server_time - (case retry_time i of None \<Rightarrow> server_time | Some t \<Rightarrow> t) < timeout"

definition get_timeout_list :: "time \<Rightarrow> time \<Rightarrow> 'd receive_process \<Rightarrow> nat list \<times> 'd receive_process" where
  "get_timeout_list server_time timeout r =
     (map fst (filter (\<lambda>(sn, i). overdue server_time timeout i) (timeout_list r)),
      r\<lparr>timeout_list := dmap (\<lambda>sn i. if overdue server_time timeout i
            then i\<lparr>retry_time := Some server_time\<rparr> else i) (timeout_list r)\<rparr>)"

definition rcv_reset :: "'d receive_process \<Rightarrow> 'd receive_process" where
  "rcv_reset r = r\<lparr>next_sn := 1, block_list := [], timeout_list := []\<rparr>"

subsection \<open>The run that is handed on\<close>

definition rcv_ok :: "'d receive_process \<Rightarrow> bool" where
  "rcv_ok r \<longleftrightarrow> dict_ok (block_list r) \<and> (\<forall>k. dmem k (block_list r) \<longrightarrow> next_sn r < k)"

lemma rcv_flush_spec:
  "rcv_flush n bl = (ds, m, bl') \<Longrightarrow>
     m = n + length ds \<and> (\<forall>i < length ds. dget bl (n + i) = Some (ds ! i)) \<and> dget bl m = None
     \<and> (\<forall>k. dget bl' k = (if n \<le> k \<and> k < m then None else dget bl k)) \<and> (dict_ok bl \<longrightarrow> dict_ok bl')"
proof (induction n bl arbitrary: ds m bl' rule: rcv_flush.induct)
  case (1 n bl)
  show ?case
  proof (cases "dget bl n")
    case None
    with "1.prems" show ?thesis by (auto simp: rcv_flush.simps [of n bl])
  next
    case (Some d)
    obtain es m' cl where rec: "rcv_flush (n + 1) (ddel n bl) = (es, m', cl)"
      by (cases "rcv_flush (n + 1) (ddel n bl)") auto
    with Some "1.prems" have res: "ds = d # es" "m = m'" "bl' = cl"
      by (auto simp: rcv_flush.simps [of n bl])
    note ih = "1.IH"[OF Some rec]
    show ?thesis
    proof (intro conjI allI impI)
      fix i assume "i < length ds"
      with ih res Some show "dget bl (n + i) = Some (ds ! i)" by (cases i) (auto split: if_splits)
    qed (use ih res Some in \<open>auto split: if_splits\<close>)
  qed
qed

lemma rcv_put_old: "sn < next_sn r \<Longrightarrow> rcv_put sn d r = ([], r\<lparr>timeout_list := ddel sn (timeout_list r)\<rparr>)"
  by (simp add: rcv_put_def Let_def)

lemma rcv_put_early: "next_sn r < sn \<Longrightarrow>
   rcv_put sn d r = ([], r\<lparr>timeout_list := ddel sn (timeout_list r),
     block_list := (if dmem sn (block_list r) then block_list r else dset sn d (block_list r))\<rparr>)"
  by (simp add: rcv_put_def Let_def)

text \<open>Every block that waits in the buffer is the sender's block of that number.\<close>

definition agrees :: "(nat \<Rightarrow> 'd) \<Rightarrow> (nat \<Rightarrow> 'd option) \<Rightarrow> bool" where
  "agrees blk m \<longleftrightarrow> (\<forall>k d. m k = Some d \<longrightarrow> d = blk k)"

locale block_receiver =
  fixes accept :: "nat \<Rightarrow> 'd \<Rightarrow> 'r \<Rightarrow> 'd list \<times> 'r"
    and expect :: "'r \<Rightarrow> nat"
    and held :: "'r \<Rightarrow> nat \<Rightarrow> 'd option"
    and ok :: "'r \<Rightarrow> bool"
  assumes accept_ok: "ok r \<Longrightarrow> ok (snd (accept n d r))"
    and held_ahead: "ok r \<Longrightarrow> held r k \<noteq> None \<Longrightarrow> expect r < k"
    and accept_old: "ok r \<Longrightarrow> n < expect r \<Longrightarrow> accept n d r = (ds, r') \<Longrightarrow>
       ds = [] \<and> expect r' = expect r \<and> held r' = held r"
    and accept_early: "ok r \<Longrightarrow> expect r < n \<Longrightarrow> accept n d r = (ds, r') \<Longrightarrow>
       ds = [] \<and> expect r' = expect r \<and>
       held r' = (if held r n = None then (held r)(n \<mapsto> d) else held r)"
    and accept_now: "ok r \<Longrightarrow> n = expect r \<Longrightarrow> accept n d r = (ds, r') \<Longrightarrow>
       (\<exists>es. ds = d # es \<and> expect r' = Suc n + length es
          \<and> (\<forall>i < length es. held r (Suc n + i) = Some (es ! i))
          \<and> (\<forall>k. held r' k = (if Suc n \<le> k \<and> k < expect r' then None else held r k)))"
begin

lemma accept_step:
  assumes "ok r" and "agrees blk (held r)" and "d = blk n" and acc: "accept n d r = (ds, r')"
  shows "ok r' \<and> agrees blk (held r') \<and> expect r \<le> expect r' \<and> ds = map blk [expect r..<expect r']
    \<and> (n < expect r' \<or> held r' n \<noteq> None)
    \<and> (\<forall>k. k < expect r \<or> held r k \<noteq> None \<longrightarrow> k < expect r' \<or> held r' k \<noteq> None)"
proof -
  have ok': "ok r'" using accept_ok[OF assms(1), of n d] acc by simp
  consider "n < expect r" | "expect r < n" | (now) "n = expect r" by linarith
  then show ?thesis
  proof cases
    case 1
    from accept_old[OF assms(1) 1 acc] ok' assms show ?thesis using 1 by (simp add: agrees_def)
  next
    case 2
    from accept_early[OF assms(1) 2 acc] ok' assms(2,3) show ?thesis
      by (auto simp: agrees_def split: if_splits)
  next
    case now
    from accept_now[OF assms(1) now acc] obtain es where
      es: "ds = d # es" "expect r' = Suc n + length es"
        "\<And>i. i < length es \<Longrightarrow> held r (Suc n + i) = Some (es ! i)"
        "\<And>k. held r' k = (if Suc n \<le> k \<and> k < expect r' then None else held r k)" by blast
    have "es = map blk [Suc n..<expect r']"
      by (rule nth_equalityI) (use es(2) es(3) assms(2) in \<open>auto simp: agrees_def simp del: upt_Suc\<close>)
    moreover have "n < expect r'" using es(2) by simp
    ultimately have "ds = map blk [expect r..<expect r']"
      using es(1) assms(3) now by (simp add: upt_conv_Cons)
    then show ?thesis
      using ok' assms(2) es(2) es(4) now by (auto simp: agrees_def split: if_splits)
  qed
qed

end

lemma rcv_held_ahead: "rcv_ok r \<Longrightarrow> map_of (block_list r) k \<noteq> None \<Longrightarrow> next_sn r < k"
  by (auto simp: rcv_ok_def dmem_def simp del: dmem_iff)

lemma rcv_ok_iff: "rcv_ok r \<longleftrightarrow> dict_ok (block_list r) \<and> (\<forall>k. map_of (block_list r) k \<noteq> None \<longrightarrow> next_sn r < k)"
  by (simp add: rcv_ok_def dmem_def del: dmem_iff)

lemma rcv_put_now:
  assumes ok: "rcv_ok r" and "sn = next_sn r" and put: "rcv_put sn d r = (ds, r')"
  shows "\<exists>es. ds = d # es \<and> next_sn r' = Suc sn + length es
    \<and> (\<forall>i < length es. map_of (block_list r) (Suc sn + i) = Some (es ! i))
    \<and> (\<forall>k. map_of (block_list r') k = (if Suc sn \<le> k \<and> k < next_sn r' then None else map_of (block_list r) k))
    \<and> dict_ok (block_list r') \<and> map_of (block_list r) (next_sn r') = None"
proof -
  obtain es m bl where fl: "rcv_flush (Suc sn) (block_list r) = (es, m, bl)"
    by (cases "rcv_flush (Suc sn) (block_list r)") auto
  from put fl assms(2) have "ds = d # es" "next_sn r' = m" "block_list r' = bl"
    by (auto simp: rcv_put_def Let_def)
  with rcv_flush_spec[OF fl] ok show ?thesis by (auto simp: rcv_ok_def)
qed

lemma rcv_put_ok: assumes "rcv_ok r" shows "rcv_ok (snd (rcv_put sn d r))"
proof -
  consider "sn < next_sn r" | "next_sn r < sn" | (now) "sn = next_sn r" by linarith
  then show ?thesis
  proof cases
    case now
    obtain ds r' where p: "rcv_put sn d r = (ds, r')" by (cases "rcv_put sn d r")
    from rcv_put_now[OF assms now p] assms now show ?thesis
      unfolding rcv_ok_iff p snd_conv
      by (metis (no_types, lifting) Suc_leI le_neq_implies_less linorder_not_le)
  qed (use assms in \<open>auto simp: rcv_put_old rcv_put_early rcv_ok_def\<close>)
qed

interpretation rcv: block_receiver rcv_put next_sn "\<lambda>r. map_of (block_list r)" rcv_ok
proof (unfold_locales, goal_cases)
  case (1 r n d)
  then show ?case by (rule rcv_put_ok)
next
  case (2 r k)
  then show ?case by (rule rcv_held_ahead)
next
  case (3 r n d ds r')
  then show ?case by (auto simp: rcv_put_old)
next
  case (4 r n d ds r')
  then show ?case by (auto simp: rcv_put_early fun_eq_iff map_of_eq_None_iff split: if_splits)
next
  case (5 r n d ds r')
  from rcv_put_now[OF this] show ?case by blast
qed

lemma rcv_init_ok [simp]: "rcv_ok rcv_init"
  by (simp add: rcv_ok_def rcv_init_def)

lemma rcv_reset_ok [simp]: "rcv_ok (rcv_reset r)"
  by (simp add: rcv_ok_def rcv_reset_def)

end
