(* ===== verification/Tunnel.thy ===== *)
theory Tunnel
  imports Receive
begin

text \<open>
  The reliable byte stream that \<^verbatim>\<open>AsyncSendBuffer\<close> and \<^verbatim>\<open>AsyncReceiveProcess\<close> are built to
  give: a sender that cuts a byte stream into numbered blocks, a network that may reorder,
  repeat (retransmissions) and lose blocks, and a receiver that hands blocks on in order.  The
  program runs the sender for the upload direction and the receiver for the download
  direction; the other end is a server with the same block numbering.
\<close>

record tunnel =
  tn_sender :: send_buffer
  tn_wire :: "(nat \<times> bytes) list"
  tn_receiver :: "bytes receive_process"
  tn_put :: bytes
  tn_out :: "bytes list"
  tn_arrived :: "nat list"

definition tunnel_init :: "nat \<Rightarrow> time \<Rightarrow> tunnel" where
  "tunnel_init mp now = \<lparr>tn_sender = sb_init mp now, tn_wire = [], tn_receiver = rcv_init,
     tn_put = [], tn_out = [], tn_arrived = []\<rparr>"

text \<open>
  \<open>tn_wire\<close> keeps every block ever sent: an arrival does not remove it, so a block may arrive
  any number of times, at any time, or never.
\<close>

inductive tunnel_step :: "tunnel \<Rightarrow> tunnel \<Rightarrow> bool" where
  upload: "sb_add now d (tn_sender t) = Some s' \<Longrightarrow>
     tunnel_step t (t\<lparr>tn_sender := s', tn_put := tn_put t @ d\<rparr>)"
| emit: "sb_take (tn_sender t) = (Some b, s') \<Longrightarrow>
     tunnel_step t (t\<lparr>tn_sender := s', tn_wire := b # tn_wire t\<rparr>)"
| arrive: "(n, d) \<in> set (tn_wire t) \<Longrightarrow> rcv_put n d (tn_receiver t) = (ds, r') \<Longrightarrow>
     tunnel_step t (t\<lparr>tn_receiver := r', tn_out := tn_out t @ ds, tn_arrived := n # tn_arrived t\<rparr>)"

inductive tunnel_reachable :: "nat \<Rightarrow> tunnel \<Rightarrow> bool" for mp where
  start: "tunnel_reachable mp (tunnel_init mp now)"
| step: "tunnel_reachable mp t \<Longrightarrow> tunnel_step t u \<Longrightarrow> tunnel_reachable mp u"

text \<open>
  The invariant fixes one content \<open>blk n\<close> for every block number: what the wire holds, what
  waits in the receiver and what was handed on all agree with it.
\<close>

definition tunnel_rel :: "(nat \<Rightarrow> bytes) \<Rightarrow> tunnel \<Rightarrow> bool" where
  "tunnel_rel blk t \<longleftrightarrow>
     sb_ok (tn_sender t) \<and> rcv_ok (tn_receiver t)
   \<and> (\<forall>n b. (n, b) \<in> set (tn_wire t) \<longrightarrow> b = blk n)
   \<and> fst ` set (tn_wire t) = {1..<sb_tail_sn (tn_sender t)}
   \<and> agrees blk (map_of (block_list (tn_receiver t)))
   \<and> tn_out t = map blk [1..<next_sn (tn_receiver t)]
   \<and> 1 \<le> next_sn (tn_receiver t) \<and> next_sn (tn_receiver t) \<le> sb_tail_sn (tn_sender t)
   \<and> (\<forall>k. map_of (block_list (tn_receiver t)) k \<noteq> None \<longrightarrow> k < sb_tail_sn (tn_sender t))
   \<and> tn_put t = concat (map blk [1..<sb_tail_sn (tn_sender t)]) @ sb_stream (tn_sender t)
   \<and> (\<forall>n \<in> set (tn_arrived t). is_received n (tn_receiver t))"

lemma is_received_held: "is_received n r \<longleftrightarrow> n < next_sn r \<or> map_of (block_list r) n \<noteq> None"
  by (simp add: is_received_def dmem_def del: dmem_iff)

lemma tunnel_relD:
  assumes "tunnel_rel blk t"
  shows "sb_ok (tn_sender t)" "rcv_ok (tn_receiver t)"
    and "(n, b) \<in> set (tn_wire t) \<Longrightarrow> b = blk n"
    and "fst ` set (tn_wire t) = {1..<sb_tail_sn (tn_sender t)}"
    and "agrees blk (map_of (block_list (tn_receiver t)))"
    and "tn_out t = map blk [1..<next_sn (tn_receiver t)]"
    and "1 \<le> next_sn (tn_receiver t)" "next_sn (tn_receiver t) \<le> sb_tail_sn (tn_sender t)"
    and "map_of (block_list (tn_receiver t)) k \<noteq> None \<Longrightarrow> k < sb_tail_sn (tn_sender t)"
    and "tn_put t = concat (map blk [1..<sb_tail_sn (tn_sender t)]) @ sb_stream (tn_sender t)"
    and "m \<in> set (tn_arrived t) \<Longrightarrow> is_received m (tn_receiver t)"
  using assms unfolding tunnel_rel_def by blast+

lemma tunnel_rel_init: "0 < mp \<Longrightarrow> tunnel_rel blk (tunnel_init mp now)"
  using sb_init_ok [of mp now]
  by (simp add: tunnel_rel_def tunnel_init_def agrees_def) (simp add: sb_init_def rcv_init_def sb_stream_def)

lemma tunnel_rel_upload:
  assumes "tunnel_rel blk t" and "sb_add now d (tn_sender t) = Some s'"
  shows "tunnel_rel blk (t\<lparr>tn_sender := s', tn_put := tn_put t @ d\<rparr>)"
proof -
  from assms have "sb_ok (tn_sender t)" by (simp add: tunnel_rel_def)
  from sb.put_law[OF this, of now d] assms(2)
  have "sb_ok s'" "sb_stream s' = sb_stream (tn_sender t) @ d" "sb_tail_sn s' = sb_tail_sn (tn_sender t)"
    by auto
  with assms(1) show ?thesis by (simp add: tunnel_rel_def)
qed

lemma agrees_update: "agrees blk m \<Longrightarrow> m n = None \<Longrightarrow> agrees (blk(n := b)) m"
  by (auto simp: agrees_def)

lemma tunnel_rel_emit:
  assumes rel: "tunnel_rel blk t" and tk: "sb_take (tn_sender t) = (Some (n, b), s')"
  shows "tunnel_rel (blk(n := b)) (t\<lparr>tn_sender := s', tn_wire := (n, b) # tn_wire t\<rparr>)"
proof -
  let ?T = "sb_tail_sn (tn_sender t)"
  from rel have "sb_ok (tn_sender t)" by (simp add: tunnel_rel_def)
  from sb.take_Some[OF this tk]
  have s': "sb_ok s'" "n = ?T" "sb_tail_sn s' = Suc n" "sb_stream (tn_sender t) = b @ sb_stream s'" by auto
  from rel have wire: "fst ` set (tn_wire t) = {1..<?T}" and T: "1 \<le> ?T" by (auto simp: tunnel_rel_def)
  then have fresh: "(k, c) \<in> set (tn_wire t) \<Longrightarrow> k \<noteq> n" for k c using s'(2) by force
  have upd: "m \<le> n \<Longrightarrow> map (blk(n := b)) [1..<m] = map blk [1..<m]" for m by auto
  from rel have "map_of (block_list (tn_receiver t)) n = None"
    using s'(2) by (metis less_irrefl tunnel_rel_def)
  with rel have "agrees (blk(n := b)) (map_of (block_list (tn_receiver t)))"
    by (simp add: tunnel_rel_def agrees_update)
  moreover have "fst ` set ((n, b) # tn_wire t) = {1..<sb_tail_sn s'}"
    using T wire s'(2,3) by auto
  moreover have "\<forall>k c. (k, c) \<in> set ((n, b) # tn_wire t) \<longrightarrow> c = (blk(n := b)) k"
    using rel fresh by (auto simp: tunnel_rel_def)
  moreover have "tn_out t = map (blk(n := b)) [1..<next_sn (tn_receiver t)]"
    using rel s'(2) upd [of "next_sn (tn_receiver t)"] by (simp add: tunnel_rel_def)
  moreover have "tn_put t = concat (map (blk(n := b)) [1..<sb_tail_sn s']) @ sb_stream s'"
    using rel s' T upd [of n] by (simp add: tunnel_rel_def)
  moreover have "\<forall>k. map_of (block_list (tn_receiver t)) k \<noteq> None \<longrightarrow> k < sb_tail_sn s'"
    using tunnel_relD(9)[OF rel] s'(2,3) by (simp add: less_Suc_eq)
  moreover have "next_sn (tn_receiver t) \<le> sb_tail_sn s'" "1 \<le> next_sn (tn_receiver t)"
    using rel s'(2,3) by (auto simp: tunnel_rel_def)
  moreover have "rcv_ok (tn_receiver t)" "\<forall>m \<in> set (tn_arrived t). is_received m (tn_receiver t)"
    using rel by (auto simp: tunnel_rel_def)
  ultimately show ?thesis using s'(1) by (simp add: tunnel_rel_def)
qed

lemma tunnel_rel_arrive:
  assumes rel: "tunnel_rel blk t" and w: "(n, d) \<in> set (tn_wire t)"
    and put: "rcv_put n d (tn_receiver t) = (ds, r')"
  shows "tunnel_rel blk (t\<lparr>tn_receiver := r', tn_out := tn_out t @ ds, tn_arrived := n # tn_arrived t\<rparr>)"
proof -
  let ?r = "tn_receiver t" and ?T = "sb_tail_sn (tn_sender t)"
  note R = tunnel_relD[OF rel]
  have "n \<in> fst ` set (tn_wire t)" using w by force
  then have d: "d = blk n" "n < ?T" "1 \<le> n" using R(3)[OF w] R(4) by auto
  note st = rcv.accept_step[OF R(2,5) d(1) put]
  have bound: "k < ?T" if h: "map_of (block_list r') k \<noteq> None" for k
  proof -
    consider "n < next_sn ?r" | "next_sn ?r < n" | "n = next_sn ?r" by linarith
    then have "map_of (block_list ?r) k \<noteq> None \<or> k = n"
    proof cases
      case 1
      from rcv.accept_old[OF R(2) this put] h show ?thesis by simp
    next
      case 2
      from rcv.accept_early[OF R(2) this put] h show ?thesis by (simp split: if_splits)
    next
      case 3
      from rcv.accept_now[OF R(2) this put]
      have "map_of (block_list r') k = (if Suc n \<le> k \<and> k < next_sn r' then None else map_of (block_list ?r) k)"
        by blast
      with h show ?thesis by (simp split: if_splits)
    qed
    then show ?thesis using R(9) d(2) by blast
  qed
  have "next_sn r' \<le> ?T"
  proof (cases "n = next_sn ?r")
    case True
    from rcv.accept_now[OF R(2) True put] obtain es where
      es: "next_sn r' = Suc n + length es"
      "\<forall>i < length es. map_of (block_list ?r) (Suc n + i) = Some (es ! i)" by blast
    show ?thesis
    proof (cases es)
      case Nil
      with es d(2) show ?thesis by simp
    next
      case (Cons e fs)
      then have "map_of (block_list ?r) (Suc n + length fs) \<noteq> None" using es(2) by simp
      then have "Suc n + length fs < ?T" by (rule R(9))
      with es(1) Cons show ?thesis by simp
    qed
  next
    case False
    then have "next_sn r' = next_sn ?r"
      using rcv.accept_old[OF R(2) _ put] rcv.accept_early[OF R(2) _ put] by (meson nat_neq_iff)
    with R(8) show ?thesis by simp
  qed
  moreover have "tn_out t @ ds = map blk [1..<next_sn r']"
    using st R(6,7) upt_split [of 1 "next_sn ?r" "next_sn r'"] by simp
  moreover have "\<forall>m \<in> set (n # tn_arrived t). is_received m r'"
    using st R(11) unfolding is_received_held by auto
  ultimately show ?thesis
    using R(1,3,4,7,10) st bound unfolding tunnel_rel_def by auto
qed

lemma tunnel_reachable_rel:
  assumes "tunnel_reachable mp t" and "0 < mp" shows "\<exists>blk. tunnel_rel blk t"
  using assms(1)
proof (induction rule: tunnel_reachable.induct)
  case (start now)
  then show ?case using tunnel_rel_init [OF assms(2)] by blast
next
  case (step t u)
  then obtain blk where rel: "tunnel_rel blk t" by blast
  from step.hyps(2) show ?case
  proof cases
    case (upload now d s')
    then show ?thesis using tunnel_rel_upload [OF rel] by blast
  next
    case (emit b s')
    then show ?thesis using tunnel_rel_emit [OF rel] by (cases b) blast
  next
    case (arrive n d ds r')
    then show ?thesis using tunnel_rel_arrive [OF rel] by blast
  qed
qed

text \<open>
  C1. In every reachable state, whatever the network did with the blocks, the bytes handed on
  by the receiver are a prefix of the bytes put into the sender: nothing is reordered,
  repeated, invented or skipped.
\<close>

theorem tunnel_in_order:
  assumes "tunnel_reachable mp t" and "0 < mp"
  shows "\<exists>rest. tn_put t = concat (tn_out t) @ rest"
proof -
  from tunnel_reachable_rel[OF assms] obtain blk where rel: "tunnel_rel blk t" by blast
  let ?n = "next_sn (tn_receiver t)" and ?T = "sb_tail_sn (tn_sender t)"
  note R = tunnel_relD[OF rel]
  have "[1..<?T] = [1..<?n] @ [?n..<?T]" using R(7,8) by (rule upt_split)
  with R(6,10) show ?thesis by simp
qed

text \<open>
  C2. If every block that was sent has arrived at least once and the sender holds no more
  bytes, the receiver has handed on the whole stream.
\<close>

theorem tunnel_complete:
  assumes "tunnel_reachable mp t" and "0 < mp" and "sb_stream (tn_sender t) = []"
    and "fst ` set (tn_wire t) \<subseteq> set (tn_arrived t)"
  shows "concat (tn_out t) = tn_put t"
proof -
  from tunnel_reachable_rel[OF assms(1,2)] obtain blk where rel: "tunnel_rel blk t" by blast
  let ?r = "tn_receiver t" and ?T = "sb_tail_sn (tn_sender t)"
  note R = tunnel_relD[OF rel]
  have "next_sn ?r = ?T"
  proof (rule ccontr)
    assume "next_sn ?r \<noteq> ?T"
    with R(7,8) have "next_sn ?r \<in> fst ` set (tn_wire t)" by (simp add: R(4))
    with assms(4) have "is_received (next_sn ?r) ?r" by (intro R(11)) blast
    then have "map_of (block_list ?r) (next_sn ?r) \<noteq> None" by (simp add: is_received_held)
    with rcv_held_ahead[OF R(2)] show False by blast
  qed
  with R(6,10) assms(3) show ?thesis by simp
qed

text \<open>
  A concrete run: three bytes are uploaded with blocks of two, the blocks arrive in the wrong
  order, the first of them twice.
\<close>

lemmas tunnel_upload = tunnel_reachable.step [OF _ tunnel_step.upload]
lemmas tunnel_emit = tunnel_reachable.step [OF _ tunnel_step.emit]
lemmas tunnel_arrive = tunnel_reachable.step [OF _ tunnel_step.arrive]

lemma tunnel_example:
  "\<exists>t. tunnel_reachable 2 t \<and> tn_put t = ''abc'' \<and> tn_out t = [''ab'', ''c''] \<and> tn_arrived t = [1, 1, 2]
     \<and> sb_stream (tn_sender t) = [] \<and> fst ` set (tn_wire t) = {1, 2}"
proof -
  note ev = sb_add_def sb_init_def wb_app_def wb_init_def wb_reset_def wb_append_def wb_bytes_def sb_cut_one_def
    sb_take_def sb_get_def sb_cut.simps rcv_put_def rcv_init_def rcv_flush.simps dmem_def tunnel_init_def
    sb_stream_def sb_block_def
  obtain s1 where s1: "sb_add 0 ''abc'' (sb_init 2 0) = Some s1" by (simp add: ev)
  obtain s2 where s2: "sb_take s1 = (Some (1, ''ab''), s2)" using s1 by (auto simp: ev)
  obtain s3 where s3: "sb_take s2 = (Some (2, ''c''), s3)" using s1 s2 by (auto simp: ev)
  obtain r1 where r1: "rcv_put 2 ''c'' rcv_init = ([], r1)" by (simp add: ev)
  obtain r2 where r2: "rcv_put 1 ''ab'' r1 = ([''ab'', ''c''], r2)" using r1 by (auto simp: ev)
  obtain r3 where r3: "rcv_put 1 ''ab'' r2 = ([], r3)" using r1 r2 by (auto simp: ev)
  define t where "t = tunnel_init 2 0"
  have "tunnel_reachable 2 t" "tn_sender t = sb_init 2 0" "tn_receiver t = rcv_init"
    "tn_put t = []" "tn_out t = []" "tn_arrived t = []" "tn_wire t = []"
    unfolding t_def by (rule tunnel_reachable.start) (simp_all add: tunnel_init_def)
  then have "tunnel_reachable 2 (t\<lparr>tn_put := ''abc'', tn_sender := s3, tn_wire := [(2, ''c''), (1, ''ab'')],
      tn_receiver := r3, tn_out := [''ab'', ''c''], tn_arrived := [1, 1, 2]\<rparr>)"
    using tunnel_arrive [OF tunnel_arrive [OF tunnel_arrive [OF tunnel_emit [OF tunnel_emit [OF tunnel_upload]]]],
        of 2 t 0 "''abc''" s1 "(1, ''ab'')" s2 "(2, ''c'')" s3 2 "''c''" "[]" r1 1 "''ab''" "[''ab'', ''c'']" r2
        1 "''ab''" "[]" r3] s1 s2 s3 r1 r2 r3
    by simp
  moreover have "sb_stream s3 = []" using s1 s2 s3 by (auto simp: ev)
  ultimately show ?thesis by (intro exI conjI) (assumption, auto)
qed

lemma tunnel_in_order_witness:
  "\<exists>t::tunnel. tn_out t = [''ab'', ''c''] \<and> (\<exists>rest. tn_put t = concat (tn_out t) @ rest)"
proof -
  obtain t where t: "tunnel_reachable 2 t" "tn_out t = [''ab'', ''c'']" using tunnel_example by blast
  from t(1) have "\<exists>rest. tn_put t = concat (tn_out t) @ rest" by (rule tunnel_in_order) simp
  with t(2) show ?thesis by blast
qed

lemma tunnel_complete_witness:
  "\<exists>t::tunnel. tn_arrived t = [1, 1, 2] \<and> tn_put t = ''abc'' \<and> concat (tn_out t) = tn_put t"
proof -
  obtain t where t: "tunnel_reachable 2 t" "tn_put t = ''abc''" "tn_arrived t = [1, 1, 2]"
    "sb_stream (tn_sender t) = []" "fst ` set (tn_wire t) = {1, 2}" using tunnel_example by blast
  from t(1) have "concat (tn_out t) = tn_put t" by (rule tunnel_complete) (simp_all add: t)
  with t(2,3) show ?thesis by blast
qed

end
