(* ===== verification/Conn.thy ===== *)
theory Conn
  imports Receive
begin

text \<open>
  \<^verbatim>\<open>AsyncConn\<close> and \<^verbatim>\<open>AsyncConnectionPipe\<close> of x_tunnel/local/async_base_container.py: one
  proxied TCP connection, its command sequence numbers and its acknowledgement window, and the
  table of local sockets.

  What an operation does to its surroundings (the session, the local socket) is the list of
  actions it emits, in the order of the calls; the session executes them (theory Session).  An
  operation is one atomic step.  The one suspension with state half-updated is the wait for the local
  socket (\<^verbatim>\<open>drain\<close>) between a write and the update of the positions; the program writes only while
  it executes the commands of the peer, which hold \<^verbatim>\<open>_cmd_lock\<close> throughout, so that no other
  write comes in between (\<^verbatim>\<open>send\<close> and \<^verbatim>\<open>send_to_conn\<close> have no caller).  What the operating
  system decides is a parameter: whether a write succeeds, a connect succeeds, a socket is
  accepted by the event loop.

  \<open>conn_contract\<close> is what a relation between the connection before and after an operation has to
  satisfy for it to hold over a whole run; the numbering of the messages (\<open>seq_ok\<close>) and the
  acknowledgements (\<open>ack_ok\<close>) are its interpretations.
\<close>

datatype conn_action =
    SendConnData nat bytes
  | WriterWrite bytes
  | WriterClose
  | SockClose
  | SessionReset
  | RemoveConn nat
  | AddSock nat

record conn =
  c_host :: string
  c_port :: nat
  conn_id :: nat
  has_sock :: bool
  windows_size :: int
  windows_ack :: int
  is_client :: bool
  c_running :: bool
  c_blocked :: bool
  has_writer :: bool
  received_position :: int
  remote_acked_position :: int
  sended_position :: int
  sent_window_position :: int
  create_time :: time
  last_active :: time
  transferred_close :: bool
  next_recv_seq :: nat
  next_cmd_seq :: nat
  cmd_queue :: "(nat, read_buffer) dict"

record conn_env =
  write_ok :: "int \<Rightarrow> bytes \<Rightarrow> bool"
  connect_ok :: "string \<Rightarrow> nat \<Rightarrow> bool"
  accept_ok :: bool

type_synonym conn_res = "exn option \<times> conn \<times> conn_action list"

definition conn_init :: "time \<Rightarrow> nat \<Rightarrow> bool \<Rightarrow> string \<Rightarrow> nat \<Rightarrow> int \<Rightarrow> int \<Rightarrow> bool \<Rightarrow> conn" where
  "conn_init now cid sock h p wsize wack client =
     \<lparr>c_host = h, c_port = p, conn_id = cid, has_sock = sock, windows_size = wsize,
      windows_ack = wack, is_client = client, c_running = True, c_blocked = False,
      has_writer = False, received_position = 0, remote_acked_position = 0,
      sended_position = 0, sent_window_position = 0, create_time = now, last_active = now,
      transferred_close = False, next_recv_seq = 1, next_cmd_seq = (if sock then 1 else 0),
      cmd_queue = []\<rparr>"

text \<open>
  \<^verbatim>\<open>bytes.decode('ascii', errors='replace')\<close>; the replacement character has no code below
  256 and is written as a question mark.
\<close>

definition ascii_replace :: "bytes \<Rightarrow> string" where
  "ascii_replace bs = map (\<lambda>c. if (of_char c :: nat) < 128 then c else CHR ''?'') bs"

subsection \<open>Messages to the peer\<close>

definition transfer_peer_close :: "bytes \<Rightarrow> conn \<Rightarrow> conn_res" where
  "transfer_peer_close reason c =
     (if transferred_close c then (None, c, [])
      else let c1 = c\<lparr>transferred_close := True\<rparr> in
        case pack_us [(4, next_recv_seq c1), (1, 2)] of
          Inl e \<Rightarrow> (Some e, c1, [])
        | Inr cmd \<Rightarrow> (None, c1\<lparr>next_recv_seq := next_recv_seq c1 + 1\<rparr>,
                       [SendConnData (conn_id c1) (cmd @ reason)]))"

definition transfer_received_data :: "bytes \<Rightarrow> conn \<Rightarrow> conn_res" where
  "transfer_received_data data c =
     (if transferred_close c then (None, c, [])
      else case pack_us [(4, next_recv_seq c), (1, 1)] of
          Inl e \<Rightarrow> (Some e, c, [])
        | Inr cmd \<Rightarrow>
            (None, c\<lparr>next_recv_seq := next_recv_seq c + 1,
                      received_position := received_position c + int (length data)\<rparr>,
             [SendConnData (conn_id c) (wb_bytes (wb_app data (wb_init (Some cmd))))]))"

definition transfer_ack :: "int \<Rightarrow> conn \<Rightarrow> conn_res" where
  "transfer_ack position c =
     (if transferred_close c then (None, c, [])
      else case (if position < 0 then Inl StructError
                 else pack_us [(4, next_recv_seq c), (1, 3), (8, nat position)]) of
          Inl e \<Rightarrow> (Some e, c, [])
        | Inr cmd \<Rightarrow> (None, c\<lparr>next_recv_seq := next_recv_seq c + 1\<rparr>, [SendConnData (conn_id c) cmd]))"

definition on_data_received :: "time \<Rightarrow> bytes \<Rightarrow> conn \<Rightarrow> conn_res" where
  "on_data_received now data c = transfer_received_data data (c\<lparr>last_active := now\<rparr>)"

subsection \<open>Bytes to the local socket\<close>

text \<open>The body both \<^verbatim>\<open>send\<close> and \<^verbatim>\<open>_send_to_writer\<close> run inside their \<^verbatim>\<open>try\<close>.\<close>

definition write_and_ack :: "conn_env \<Rightarrow> bytes \<Rightarrow> conn \<Rightarrow> conn_res" where
  "write_and_ack env data c =
     (if \<not> write_ok env (sended_position c) data then (Some SocketError, c, [])
      else let c1 = c\<lparr>sended_position := sended_position c + int (length data)\<rparr> in
        if sended_position c1 - sent_window_position c1 > windows_ack c1 then
          (let c2 = c1\<lparr>sent_window_position := sended_position c1\<rparr>;
               (e, c3, acts) = transfer_ack (sended_position c2) c2
           in (e, c3, WriterWrite data # acts))
        else (None, c1, [WriterWrite data]))"

definition conn_send :: "conn_env \<Rightarrow> bytes \<Rightarrow> conn \<Rightarrow> bool \<times> conn \<times> conn_action list" where
  "conn_send env data c =
     (if \<not> has_writer c \<or> \<not> c_running c then (False, c, [])
      else let (e, c', acts) = write_and_ack env data c in (e = None, c', acts))"

definition send_to_writer :: "conn_env \<Rightarrow> bytes \<Rightarrow> conn \<Rightarrow> conn \<times> conn_action list" where
  "send_to_writer env data c =
     (if \<not> has_writer c \<or> \<not> c_running c then (c, [])
      else let (e, c', acts) = write_and_ack env data c
        in case e of None \<Rightarrow> (c', acts) | Some _ \<Rightarrow> (c'\<lparr>c_blocked := True\<rparr>, acts))"

subsection \<open>Stopping\<close>

definition stop_async :: "string \<Rightarrow> conn \<Rightarrow> conn \<times> conn_action list" where
  "stop_async reason c =
     (if \<not> c_running c \<and> reason \<noteq> ''reader_end'' then (c, [])
      else (c\<lparr>c_running := False, has_writer := False, has_sock := False\<rparr>,
            (if has_writer c then [WriterClose] else []) @ (if has_sock c then [SockClose] else [])
            @ [RemoveConn (conn_id c)]))"

subsection \<open>Commands from the peer\<close>

datatype cmd =
    CmdConnect nat bytes nat
  | CmdData bytes
  | CmdClose bytes
  | CmdAck nat
  | CmdUnknown nat

definition parse_cmd :: "read_buffer \<Rightarrow> exn + cmd" where
  "parse_cmd data =
     (let (b0, data1) = rb_get (Some 1) data in
      case unpack_u 1 b0 of
        Inl e \<Rightarrow> Inl e
      | Inr cmd_id \<Rightarrow>
          if cmd_id = 1 then Inr (CmdData (fst (rb_get None data1)))
          else if cmd_id = 3 then
            (case unpack_u 8 (fst (rb_get (Some 8) data1)) of
               Inl e \<Rightarrow> Inl e | Inr position \<Rightarrow> Inr (CmdAck position))
          else if cmd_id = 2 then Inr (CmdClose (fst (rb_get None data1)))
          else if cmd_id = 0 then
            (let (b1, data2) = rb_get (Some 1) data1 in
             case unpack_u 1 b1 of Inl e \<Rightarrow> Inl e | Inr sock_type \<Rightarrow>
             (let (b2, data3) = rb_get (Some 2) data2 in
              case unpack_u 2 b2 of Inl e \<Rightarrow> Inl e | Inr host_len \<Rightarrow>
              (let (host, data4) = rb_get (Some host_len) data3 in
               case unpack_u 2 (fst (rb_get (Some 2) data4)) of
                 Inl e \<Rightarrow> Inl e | Inr port \<Rightarrow> Inr (CmdConnect sock_type host port))))
          else Inr (CmdUnknown cmd_id))"

text \<open>Executing one command; the flag says whether the loop goes on.\<close>

definition do_cmd :: "conn_env \<Rightarrow> cmd \<Rightarrow> conn \<Rightarrow> exn option \<times> bool \<times> conn \<times> conn_action list" where
  "do_cmd env cmd c = (case cmd of
      CmdData payload \<Rightarrow> (let (c', acts) = send_to_writer env payload c in (None, True, c', acts))
    | CmdAck position \<Rightarrow>
        (None, True, (if int position > remote_acked_position c
                      then c\<lparr>remote_acked_position := int position\<rparr> else c), [])
    | CmdClose reason \<Rightarrow>
        (let (e, c1, acts1) = (if is_client c then transfer_peer_close ''finish'' c else (None, c, [])) in
         case e of
           Some x \<Rightarrow> (Some x, False, c1, acts1)
         | None \<Rightarrow>
            (let reset = (if is_client c1 \<and> contains ''exceed the max connection'' reason
                          then [SessionReset] else []);
                 (c2, acts2) = stop_async ''peer close'' c1
             in (None, False, c2, acts1 @ reset @ acts2)))
    | CmdConnect sock_type host port \<Rightarrow>
        (let c1 = c\<lparr>c_host := ascii_replace host, c_port := port\<rparr> in
         if \<not> connect_ok env (c_host c1) (c_port c1) then
           (let (e, c2, acts) = transfer_peer_close ''connect fail'' c1 in (e, e = None, c2, acts))
         else (None, True, c1\<lparr>has_sock := True, has_writer := accept_ok env \<or> has_writer c1\<rparr>,
               (if accept_ok env then [AddSock (conn_id c1)] else [])))
    | CmdUnknown i \<Rightarrow> (None, True, c, []))"

lemma transfer_queue [simp]:
  "transfer_peer_close r c = (e, c', a) \<Longrightarrow> cmd_queue c' = cmd_queue c"
  "transfer_ack p c = (e, c', a) \<Longrightarrow> cmd_queue c' = cmd_queue c"
  by (auto simp: transfer_peer_close_def transfer_ack_def Let_def split: if_splits sum.splits)

lemma send_to_writer_queue [simp]:
  "send_to_writer env d c = (c', a) \<Longrightarrow> cmd_queue c' = cmd_queue c"
  by (auto simp: send_to_writer_def write_and_ack_def Let_def
      split: if_splits prod.splits option.splits dest!: transfer_queue)

lemma stop_async_queue [simp]: "stop_async r c = (c', a) \<Longrightarrow> cmd_queue c' = cmd_queue c"
  by (auto simp: stop_async_def split: if_splits)

lemma do_cmd_queue: "do_cmd env cmd c = (e, go, c', a) \<Longrightarrow> cmd_queue c' = cmd_queue c"
proof (cases cmd)
  case (CmdClose reason)
  assume d: "do_cmd env cmd c = (e, go, c', a)"
  obtain e1 c1 a1 where t: "(if is_client c then transfer_peer_close ''finish'' c else (None, c, [])) = (e1, c1, a1)"
    by (cases "if is_client c then transfer_peer_close ''finish'' c else (None, c, [])") auto
  then have "cmd_queue c1 = cmd_queue c" by (auto split: if_splits)
  moreover have "cmd_queue c' = cmd_queue c1"
    using d CmdClose t
    by (auto simp: do_cmd_def Let_def split: option.splits prod.splits dest: stop_async_queue)
  ultimately show ?thesis by simp
qed (auto simp: do_cmd_def Let_def split: if_splits prod.splits dest: send_to_writer_queue transfer_queue)

text \<open>
  \<^verbatim>\<open>_process_next_cmd\<close>: the command is taken off the queue before it is parsed, the expected
  number goes up only after it has parsed.
\<close>

function process_next_cmd :: "conn_env \<Rightarrow> time \<Rightarrow> conn \<Rightarrow> conn_res" where
  "process_next_cmd env now c =
     (if \<not> c_running c then (None, c, [])
      else case dget (cmd_queue c) (next_cmd_seq c) of
        None \<Rightarrow> (None, c, [])
      | Some data \<Rightarrow>
          (let c1 = c\<lparr>cmd_queue := ddel (next_cmd_seq c) (cmd_queue c)\<rparr> in
           case parse_cmd data of
             Inl e \<Rightarrow> (Some e, c1, [])
           | Inr cmd \<Rightarrow>
               (let (e, go, c2, acts) =
                  do_cmd env cmd (c1\<lparr>next_cmd_seq := next_cmd_seq c1 + 1, last_active := now\<rparr>) in
                if e \<noteq> None \<or> \<not> go then (e, c2, acts)
                else let (e', c3, acts') = process_next_cmd env now c2 in (e', c3, acts @ acts'))))"
  by pat_completeness auto
termination
  by (relation "measure (\<lambda>(env, now, c). length (cmd_queue c))")
     (auto dest!: do_cmd_queue [OF sym] intro: length_ddel_Some)

declare process_next_cmd.simps [simp del]

definition put_cmd_data :: "conn_env \<Rightarrow> time \<Rightarrow> read_buffer \<Rightarrow> conn \<Rightarrow> conn_res" where
  "put_cmd_data env now data c =
     (if \<not> c_running c then (None, c, [])
      else let (h, data1) = rb_get (Some 4) data in
        case unpack_u 4 h of
          Inl e \<Rightarrow> (Some e, c, [])
        | Inr seq \<Rightarrow>
            if seq < next_cmd_seq c then (None, c, [])
            else let c1 = c\<lparr>cmd_queue := dset seq (fst (rb_get_buf None data1)) (cmd_queue c)\<rparr>
              in if seq = next_cmd_seq c1 then process_next_cmd env now c1 else (None, c1, []))"

subsection \<open>A whole connection\<close>

text \<open>What can happen to a connection: the events of its local socket, of the peer, of its owner.\<close>

datatype conn_event =
    FromSocket time bytes
  | ToSocket bytes
  | FromPeer time read_buffer
  | StopConn string

fun conn_step :: "conn_env \<Rightarrow> conn_event \<Rightarrow> conn \<Rightarrow> conn \<times> conn_action list" where
  "conn_step env (FromSocket now d) c = snd (on_data_received now d c)"
| "conn_step env (ToSocket d) c = snd (conn_send env d c)"
| "conn_step env (FromPeer now r) c = snd (put_cmd_data env now r c)"
| "conn_step env (StopConn reason) c = stop_async reason c"

fun conn_run :: "(conn_env \<times> conn_event) list \<Rightarrow> conn \<Rightarrow> conn \<times> conn_action list" where
  "conn_run [] c = (c, [])"
| "conn_run ((env, ev) # evs) c =
     (let (c1, a) = conn_step env ev c; (c2, b) = conn_run evs c1 in (c2, a @ b))"

subsection \<open>What holds for the steps holds for a run\<close>

text \<open>
  A relation between a connection before and after an operation and the actions emitted.  If it
  composes, does not look at the other fields, and holds for the four operations that send a
  message or write, it holds for a whole run.
\<close>

definition conn_core :: "conn \<Rightarrow> nat \<times> bool \<times> nat \<times> int \<times> int \<times> int" where
  "conn_core c = (next_recv_seq c, transferred_close c, conn_id c, sended_position c, sent_window_position c, windows_ack c)"

definition quiet_acts :: "conn_action list \<Rightarrow> bool" where
  "quiet_acts a \<longleftrightarrow> list_all (\<lambda>x. case x of SendConnData i m \<Rightarrow> False | WriterWrite d \<Rightarrow> False | _ \<Rightarrow> True) a"

lemma quiet_acts_simps [simp]:
  "quiet_acts []" "quiet_acts (SessionReset # a) = quiet_acts a" "quiet_acts (WriterClose # a) = quiet_acts a"
  "quiet_acts (SockClose # a) = quiet_acts a" "quiet_acts (RemoveConn i # a) = quiet_acts a" "quiet_acts (AddSock i # a) = quiet_acts a"
  by (simp_all add: quiet_acts_def)

locale conn_contract =
  fixes R :: "conn \<Rightarrow> conn \<Rightarrow> conn_action list \<Rightarrow> bool"
  assumes still: "conn_core c' = conn_core c \<Longrightarrow> quiet_acts a \<Longrightarrow> R c c' a"
    and compose: "R c c1 a \<Longrightarrow> R c1 c2 b \<Longrightarrow> R c c2 (a @ b)"
    and closing: "transfer_peer_close r c = (e, c', a) \<Longrightarrow> R c c' a"
    and receiving: "transfer_received_data d c = (e, c', a) \<Longrightarrow> R c c' a"
    and writing: "write_and_ack env d c = (e, c', a) \<Longrightarrow> R c c' a"
begin

lemma before: "R c1 c' a \<Longrightarrow> conn_core c1 = conn_core c \<Longrightarrow> R c c' a"
  using compose [OF still [of c1 c "[]"]] by simp

lemma after: "R c c1 a \<Longrightarrow> conn_core c' = conn_core c1 \<Longrightarrow> quiet_acts b \<Longrightarrow> R c c' (a @ b)"
  using compose [OF _ still [of c' c1 b]] by simp

lemma rel_on_data: "on_data_received now d c = (e, c', a) \<Longrightarrow> R c c' a"
  unfolding on_data_received_def by (drule receiving, erule before) (simp add: conn_core_def)

lemma rel_send: "conn_send env d c = (b, c', a) \<Longrightarrow> R c c' a"
  unfolding conn_send_def Let_def by (auto split: if_splits prod.splits intro: still writing)

lemma rel_send_to_writer: "send_to_writer env d c = (c', a) \<Longrightarrow> R c c' a"
proof -
  assume s: "send_to_writer env d c = (c', a)"
  obtain e c1 a1 where w: "write_and_ack env d c = (e, c1, a1)" by (cases "write_and_ack env d c")
  have "R c (c1\<lparr>c_blocked := True\<rparr>) a1" using after [OF writing [OF w], of "c1\<lparr>c_blocked := True\<rparr>" "[]"]
    by (simp add: conn_core_def)
  with s writing [OF w] still [of c c "[]"] show ?thesis by (auto simp: send_to_writer_def w split: if_splits option.splits)
qed

lemma stop_quiet: "stop_async r c = (c', a) \<Longrightarrow> conn_core c' = conn_core c \<and> quiet_acts a"
  by (auto simp: stop_async_def conn_core_def split: if_splits)

lemma rel_stop: "stop_async r c = (c', a) \<Longrightarrow> R c c' a"
  by (drule stop_quiet) (simp add: still)

lemma rel_do_cmd: "do_cmd env cmd c = (e, go, c', a) \<Longrightarrow> R c c' a"
proof (cases cmd)
  case (CmdClose reason)
  assume d: "do_cmd env cmd c = (e, go, c', a)"
  obtain e1 c1 a1 where t: "(if is_client c then transfer_peer_close ''finish'' c else (None, c, [])) = (e1, c1, a1)"
    by (cases "if is_client c then transfer_peer_close ''finish'' c else (None, c, [])") auto
  then have 1: "R c c1 a1" by (auto split: if_splits intro: closing still)
  obtain c2 a2 where st: "stop_async ''peer close'' c1 = (c2, a2)" by (cases "stop_async ''peer close'' c1")
  note 2 = stop_quiet [OF st]
  show ?thesis
    using d CmdClose t st 1 2 after [OF 1, of c2 a2] after [OF 1, of c2 "SessionReset # a2"]
    by (auto simp: do_cmd_def Let_def split: option.splits if_splits)
next
  case (CmdConnect st h p)
  assume d: "do_cmd env cmd c = (e, go, c', a)"
  let ?c1 = "c\<lparr>c_host := ascii_replace h, c_port := p\<rparr>"
  have "R c c2 as" if "transfer_peer_close ''connect fail'' ?c1 = (e2, c2, as)" for e2 c2 as
    using closing [OF that] by (rule before) (simp add: conn_core_def)
  with d CmdConnect show ?thesis
    by (auto simp: do_cmd_def Let_def conn_core_def split: if_splits prod.splits intro!: still)
next
  case (CmdAck p)
  assume "do_cmd env cmd c = (e, go, c', a)"
  with CmdAck show ?thesis by (auto simp: do_cmd_def conn_core_def split: if_splits intro!: still)
qed (auto simp: do_cmd_def split: prod.splits intro: still dest: rel_send_to_writer)

lemma rel_process: "process_next_cmd env now c = (e, c', a) \<Longrightarrow> R c c' a"
proof (induction env now c arbitrary: e c' a rule: process_next_cmd.induct)
  case (1 env now c)
  show ?case
  proof (cases "c_running c \<and> dget (cmd_queue c) (next_cmd_seq c) \<noteq> None")
    case False
    with "1.prems" show ?thesis by (auto simp: process_next_cmd.simps [of env now c] intro: still split: if_splits)
  next
    case True
    then obtain data where run: "\<not> \<not> c_running c" and q: "dget (cmd_queue c) (next_cmd_seq c) = Some data" by auto
    let ?c1 = "c\<lparr>cmd_queue := ddel (next_cmd_seq c) (cmd_queue c)\<rparr>"
    show ?thesis
    proof (cases "parse_cmd data")
      case (Inl x)
      with "1.prems" run q show ?thesis
        by (auto simp: process_next_cmd.simps [of env now c] Let_def conn_core_def intro!: still)
    next
      case (Inr cmd)
      let ?c2 = "?c1\<lparr>next_cmd_seq := next_cmd_seq ?c1 + 1, last_active := now\<rparr>"
      obtain e1 go c2 a1 where dc: "do_cmd env cmd ?c2 = (e1, go, c2, a1)"
        by (cases "do_cmd env cmd ?c2") auto
      have s1: "R c c2 a1" using rel_do_cmd [OF dc] by (rule before) (simp add: conn_core_def)
      show ?thesis
      proof (cases "e1 \<noteq> None \<or> \<not> go")
        case True
        with "1.prems" run q Inr dc s1 show ?thesis
          by (auto simp: process_next_cmd.simps [of env now c] Let_def)
      next
        case False
        obtain e3 c3 a3 where pn: "process_next_cmd env now c2 = (e3, c3, a3)"
          by (cases "process_next_cmd env now c2") auto
        have "R c2 c3 a3"
          using "1.IH"[OF run q refl Inr dc[symmetric] refl refl refl False pn] .
        with "1.prems" run q Inr dc False pn compose [OF s1] show ?thesis
          by (auto simp: process_next_cmd.simps [of env now c] Let_def)
      qed
    qed
  qed
qed

lemma rel_put_cmd: "put_cmd_data env now data c = (e, c', a) \<Longrightarrow> R c c' a"
proof -
  assume p: "put_cmd_data env now data c = (e, c', a)"
  have "R c c2 as" if "process_next_cmd env now (c\<lparr>cmd_queue := q\<rparr>) = (x, c2, as)" for q x c2 as
    using rel_process [OF that] by (rule before) (simp add: conn_core_def)
  with p show ?thesis
    by (auto simp: put_cmd_data_def Let_def conn_core_def intro!: still split: if_splits prod.splits sum.splits)
qed

lemma rel_step: "conn_step env ev c = (c', a) \<Longrightarrow> R c c' a"
proof (cases ev)
  case (FromSocket now d)
  then show "conn_step env ev c = (c', a) \<Longrightarrow> R c c' a"
    by (cases "on_data_received now d c") (auto dest: rel_on_data)
next
  case (ToSocket d)
  then show "conn_step env ev c = (c', a) \<Longrightarrow> R c c' a" by (cases "conn_send env d c") (auto dest: rel_send)
next
  case (FromPeer now r)
  then show "conn_step env ev c = (c', a) \<Longrightarrow> R c c' a" by (cases "put_cmd_data env now r c") (auto dest: rel_put_cmd)
qed (auto dest: rel_stop)

lemma rel_run: "conn_run evs c = (c', a) \<Longrightarrow> R c c' a"
proof (induction evs arbitrary: c a)
  case (Cons x evs)
  obtain env ev where x: "x = (env, ev)" by (cases x)
  obtain c1 a1 where s: "conn_step env ev c = (c1, a1)" by (cases "conn_step env ev c")
  obtain c2 a2 where r: "conn_run evs c1 = (c2, a2)" by (cases "conn_run evs c1")
  from Cons.prems x s r have "c' = c2" "a = a1 @ a2" by simp_all
  with compose [OF rel_step [OF s] Cons.IH [OF r [folded \<open>c' = c2\<close>]]] show ?case by simp
qed (auto intro: still)

end

subsection \<open>Message numbers\<close>

text \<open>
  The peer executes the messages of a connection in the order of the number in their first four
  bytes, so an operation must number its messages consecutively, and nothing may follow the
  close message (kind 2).  \<open>seq_ok\<close> states this for one operation and composes.
\<close>

fun msgs :: "conn_action list \<Rightarrow> bytes list" where
  "msgs [] = []"
| "msgs (SendConnData i m # as) = m # msgs as"
| "msgs (a # as) = msgs as"

definition msg_seq :: "bytes \<Rightarrow> nat" where
  "msg_seq m = le_nat (take 4 m)"

definition msg_kind :: "bytes \<Rightarrow> nat" where
  "msg_kind m = le_nat (slice 4 5 m)"

definition seq_ok :: "conn \<Rightarrow> conn \<Rightarrow> conn_action list \<Rightarrow> bool" where
  "seq_ok c c' as \<longleftrightarrow>
     map msg_seq (msgs as) = [next_recv_seq c..<next_recv_seq c'] \<and> next_recv_seq c \<le> next_recv_seq c'
   \<and> (transferred_close c \<longrightarrow> msgs as = [] \<and> transferred_close c')
   \<and> (\<forall>m \<in> set (butlast (msgs as)). msg_kind m \<noteq> 2)
   \<and> (msgs as \<noteq> [] \<and> msg_kind (last (msgs as)) = 2 \<longrightarrow> transferred_close c')
   \<and> conn_id c' = conn_id c"

lemma msgs_append [simp]: "msgs (a @ b) = msgs a @ msgs b"
  by (induction a rule: msgs.induct) auto

lemma seq_ok_silent [intro]:
  "msgs a = [] \<Longrightarrow> next_recv_seq c' = next_recv_seq c \<Longrightarrow> transferred_close c' = transferred_close c \<Longrightarrow>
   conn_id c' = conn_id c \<Longrightarrow> seq_ok c c' a"
  by (simp add: seq_ok_def)

lemma seq_ok_trans:
  assumes "seq_ok c c1 a" and "seq_ok c1 c2 b" shows "seq_ok c c2 (a @ b)"
proof (cases "msgs b = []")
  case True
  with assms(2) have "[next_recv_seq c1..<next_recv_seq c2] = []" "next_recv_seq c1 \<le> next_recv_seq c2"
    by (simp_all add: seq_ok_def)
  then have "next_recv_seq c2 = next_recv_seq c1" by (auto simp: upt_eq_Nil_conv)
  with True assms show ?thesis by (auto simp: seq_ok_def)
next
  case False
  with assms(2) have nt: "\<not> transferred_close c1" by (auto simp: seq_ok_def)
  have "msg_kind m \<noteq> 2" if "m \<in> set (msgs a)" for m
  proof (cases "msgs a" rule: rev_cases)
    case (snoc ms l)
    with assms(1) nt that show ?thesis by (auto simp: seq_ok_def)
  qed (use that in simp)
  then show ?thesis
    using assms False nt upt_split [of "next_recv_seq c" "next_recv_seq c1" "next_recv_seq c2"]
    by (auto simp: seq_ok_def butlast_append)
qed

lemma msg_head:
  assumes "pack_us ((4, n) # (1, k) # fs) = Inr cmd"
  shows "msg_seq (cmd @ r) = n" and "msg_kind (cmd @ r) = k"
proof -
  from assms have fit: "n < 256 ^ 4" "k < 256"
    and "cmd = le_bytes 4 n @ le_bytes 1 k @ concat (map (\<lambda>(k, n). le_bytes k n) fs)"
    unfolding pack_us_Inr by auto
  then have cmd: "cmd @ r = le_bytes 4 n @ char_of k # concat (map (\<lambda>(k, n). le_bytes k n) fs) @ r"
    by simp
  show "msg_seq (cmd @ r) = n" unfolding cmd msg_seq_def using fit by simp
  show "msg_kind (cmd @ r) = k" unfolding cmd msg_kind_def slice_def using fit by simp
qed

lemma seq_ok_peer_close: "transfer_peer_close r c = (e, c', a) \<Longrightarrow> seq_ok c c' a"
  using msg_head(1) [of "next_recv_seq c" 2 "[]"] msg_head(2) [of "next_recv_seq c" 2 "[]"]
  by (auto simp: transfer_peer_close_def Let_def seq_ok_def split: if_splits sum.splits)

lemma seq_ok_received: "transfer_received_data d c = (e, c', a) \<Longrightarrow> seq_ok c c' a"
  using msg_head(1) [of "next_recv_seq c" 1 "[]"] msg_head(2) [of "next_recv_seq c" 1 "[]"]
  by (auto simp: transfer_received_data_def Let_def seq_ok_def split: if_splits sum.splits)

lemma seq_ok_ack: "transfer_ack p c = (e, c', a) \<Longrightarrow> seq_ok c c' a"
  using msg_head(1) [of "next_recv_seq c" 3 "[(8, nat p)]" _ "[]"]
    msg_head(2) [of "next_recv_seq c" 3 "[(8, nat p)]" _ "[]"]
  by (auto simp: transfer_ack_def Let_def seq_ok_def split: if_splits sum.splits)

lemma seq_ok_write: "write_and_ack env d c = (e, c', a) \<Longrightarrow> seq_ok c c' a"
  unfolding write_and_ack_def Let_def
  by (auto split: if_splits prod.splits dest!: seq_ok_ack simp: seq_ok_def)

lemma quiet_msgs: "quiet_acts a \<Longrightarrow> msgs a = []"
  by (induction a rule: msgs.induct) (auto simp: quiet_acts_def)

lemma seq_ok_still: "conn_core c' = conn_core c \<Longrightarrow> quiet_acts a \<Longrightarrow> seq_ok c c' a"
  by (rule seq_ok_silent) (auto simp: quiet_msgs conn_core_def)

interpretation numbering: conn_contract seq_ok
  by unfold_locales (fact seq_ok_still seq_ok_trans seq_ok_peer_close seq_ok_received seq_ok_write)+

text \<open>
  C7. Whatever happens to a fresh connection, in whatever order, the messages it sends to the
  peer are numbered 1, 2, 3, \<dots> without a gap or a repetition, and the close message, if it is
  sent, is the last one.
\<close>

theorem messages_numbered:
  "case conn_run evs (conn_init now cid sock h p wsize wack client) of (c', acts) \<Rightarrow>
     map msg_seq (msgs acts) = [1..<next_recv_seq c'] \<and> 2 \<notin> msg_kind ` set (butlast (msgs acts))"
proof -
  obtain c' acts where r: "conn_run evs (conn_init now cid sock h p wsize wack client) = (c', acts)"
    by (cases "conn_run evs (conn_init now cid sock h p wsize wack client)")
  let ?c = "conn_init now cid sock h p wsize wack client"
  have "next_recv_seq ?c = 1" by (simp add: conn_init_def)
  with numbering.rel_run [OF r] have "map msg_seq (msgs acts) = [1..<next_recv_seq c']"
    "\<forall>m \<in> set (butlast (msgs acts)). msg_kind m \<noteq> 2"
    unfolding seq_ok_def by (metis, blast)
  then show ?thesis unfolding r by auto
qed

subsection \<open>What the peer reads\<close>

text \<open>A message as the peer's \<^verbatim>\<open>put_cmd_data\<close> and \<^verbatim>\<open>_process_next_cmd\<close> take it apart.\<close>

definition peer_parse :: "bytes \<Rightarrow> (exn + nat) \<times> (exn + cmd)" where
  "peer_parse m = (let (h, r) = rb_get (Some 4) (rb_init m 0 None)
     in (unpack_u 4 h, parse_cmd (fst (rb_get_buf None r))))"

lemma parse_first:
  assumes "rb_ok r" and "rb_to_bytes r = char_of k # b" and "k < 256"
  obtains h r1 where "rb_get (Some 1) r = (h, r1)" "unpack_u 1 h = Inr k" "rb_ok r1" "rb_to_bytes r1 = b"
  using rb.get_byte[OF assms] that [of "fst (rb_get (Some 1) r)" "snd (rb_get (Some 1) r)"] by simp

lemma parse_uint:
  assumes "rb_ok r" and "rb_to_bytes r = le_bytes n k @ b" and "k < 256 ^ n"
  obtains h r1 where "rb_get (Some n) r = (h, r1)" "unpack_u n h = Inr k" "rb_ok r1" "rb_to_bytes r1 = b"
  using rb.get_u[OF assms] that [of "fst (rb_get (Some n) r)" "snd (rb_get (Some n) r)"] by simp

lemma peer_parse_body:
  assumes n: "n < 256 ^ 4" and body: "\<And>r. rb_ok r \<Longrightarrow> rb_to_bytes r = body \<Longrightarrow> parse_cmd r = res"
  shows "peer_parse (le_bytes 4 n @ body) = (Inr n, res)"
proof -
  let ?r = "rb_init (le_bytes 4 n @ body) 0 None"
  have "rb_ok ?r" "rb_to_bytes ?r = le_bytes 4 n @ body" by (rule rb_init_spec)+
  then obtain h r1 where g: "rb_get (Some 4) ?r = (h, r1)" "unpack_u 4 h = Inr n" "rb_ok r1"
    "rb_to_bytes r1 = body" using n by (rule parse_uint)
  obtain r2 r3 where r2: "rb_get_buf None r1 = (r2, r3)" by (cases "rb_get_buf None r1")
  with rb_get_buf_all_spec[OF g(3)] g(4) have "parse_cmd r2 = res" by (auto intro: body)
  with g(1,2) r2 show ?thesis unfolding peer_parse_def by simp
qed

lemma rb_get_all: "rb_ok r \<Longrightarrow> fst (rb_get None r) = rb_to_bytes r"
  using rb_get_all_spec [of r] by (metis prod.collapse)

lemma parse_cmd_data:
  assumes "rb_ok r" "rb_to_bytes r = char_of (1::nat) # d" shows "parse_cmd r = Inr (CmdData d)"
proof -
  from assms obtain h r1 where "rb_get (Some 1) r = (h, r1)" "unpack_u 1 h = Inr 1" "rb_ok r1" "rb_to_bytes r1 = d"
    by (rule parse_first) simp
  then show ?thesis unfolding parse_cmd_def by (simp add: rb_get_all del: One_nat_def)
qed

lemma parse_cmd_close:
  assumes "rb_ok r" "rb_to_bytes r = char_of (2::nat) # d" shows "parse_cmd r = Inr (CmdClose d)"
proof -
  from assms obtain h r1 where "rb_get (Some 1) r = (h, r1)" "unpack_u 1 h = Inr 2" "rb_ok r1" "rb_to_bytes r1 = d"
    by (rule parse_first) simp
  then show ?thesis unfolding parse_cmd_def by (simp add: rb_get_all del: One_nat_def)
qed

lemma parse_cmd_ack:
  assumes "rb_ok r" "rb_to_bytes r = char_of (3::nat) # le_bytes 8 p" "p < 256 ^ 8"
  shows "parse_cmd r = Inr (CmdAck p)"
proof -
  from assms(1,2) obtain h r1 where r1: "rb_get (Some 1) r = (h, r1)" "unpack_u 1 h = Inr 3" "rb_ok r1"
    "rb_to_bytes r1 = le_bytes 8 p @ []" by (rule parse_first) simp_all
  from r1(3,4) assms(3) obtain h2 r2 where "rb_get (Some 8) r1 = (h2, r2)" "unpack_u 8 h2 = Inr p"
    by (rule parse_uint)
  with r1(1,2) show ?thesis unfolding parse_cmd_def by (simp del: One_nat_def)
qed

lemma parse_cmd_connect:
  assumes "rb_ok r"
    and "rb_to_bytes r = char_of (0::nat) # char_of st # le_bytes 2 (length h) @ h @ le_bytes 2 p"
    and "st < 256" "length h < 256 ^ 2" "p < 256 ^ 2"
  shows "parse_cmd r = Inr (CmdConnect st h p)"
proof -
  from assms(1,2) obtain h1 r1 where r1: "rb_get (Some 1) r = (h1, r1)" "unpack_u 1 h1 = Inr 0" "rb_ok r1"
    "rb_to_bytes r1 = char_of st # le_bytes 2 (length h) @ h @ le_bytes 2 p"
    by (rule parse_first) simp_all
  from r1(3,4) assms(3) obtain h2 r2 where r2: "rb_get (Some 1) r1 = (h2, r2)" "unpack_u 1 h2 = Inr st"
    "rb_ok r2" "rb_to_bytes r2 = le_bytes 2 (length h) @ h @ le_bytes 2 p" by (rule parse_first)
  from r2(3,4) assms(4) obtain h3 r3 where r3: "rb_get (Some 2) r2 = (h3, r3)"
    "unpack_u 2 h3 = Inr (length h)" "rb_ok r3" "rb_to_bytes r3 = h @ le_bytes 2 p" by (rule parse_uint)
  from rb.get_append[OF r3(3,4) refl] obtain r4 where r4: "rb_get (Some (length h)) r3 = (h, r4)" "rb_ok r4"
    "rb_to_bytes r4 = le_bytes 2 p @ []" by (metis prod.collapse append_Nil2)
  from r4(2,3) assms(5) obtain h5 r5 where "rb_get (Some 2) r4 = (h5, r5)" "unpack_u 2 h5 = Inr p"
    by (rule parse_uint)
  with r1(1,2) r2(1,2) r3(1,2) r4(1) show ?thesis
    unfolding parse_cmd_def by (simp del: One_nat_def)
qed

lemma read_data: "transfer_received_data d c = (None, c1, [SendConnData i m]) \<Longrightarrow> peer_parse m = (Inr (next_recv_seq c), Inr (CmdData d))"
proof -
  assume "transfer_received_data d c = (None, c1, [SendConnData i m])"
  then have "next_recv_seq c < 2 ^ 32" "m = le_bytes 4 (next_recv_seq c) @ char_of (1::nat) # d"
    by (auto simp: transfer_received_data_def pack_us_Inr split: if_splits sum.splits)
  then show ?thesis by (auto intro!: peer_parse_body parse_cmd_data)
qed

lemma read_close: "transfer_peer_close r c = (None, c2, [SendConnData i m]) \<Longrightarrow> peer_parse m = (Inr (next_recv_seq c), Inr (CmdClose r))"
proof -
  assume "transfer_peer_close r c = (None, c2, [SendConnData i m])"
  then have "next_recv_seq c < 2 ^ 32" "m = le_bytes 4 (next_recv_seq c) @ char_of (2::nat) # r"
    by (auto simp: transfer_peer_close_def Let_def pack_us_Inr split: if_splits sum.splits)
  then show ?thesis by (auto intro!: peer_parse_body parse_cmd_close)
qed

lemma read_ack: "transfer_ack p c = (None, c3, [SendConnData i m]) \<Longrightarrow> peer_parse m = (Inr (next_recv_seq c), Inr (CmdAck (nat p)))"
proof -
  assume "transfer_ack p c = (None, c3, [SendConnData i m])"
  then have "next_recv_seq c < 2 ^ 32" "nat p < 256 ^ 8"
    "m = le_bytes 4 (next_recv_seq c) @ char_of (3::nat) # le_bytes 8 (nat p)"
    by (auto simp: transfer_ack_def pack_us_Inr split: if_splits sum.splits)
  then show ?thesis by (auto intro!: peer_parse_body parse_cmd_ack)
qed

text \<open>
  C9. The messages a connection sends are read back by a peer as what was meant: data, a close
  with its reason, an acknowledged position, each under its own message number.
\<close>

theorem messages_roundtrip:
  "(transfer_received_data d c = (None, c1, [SendConnData i1 m1])
      \<longrightarrow> peer_parse m1 = (Inr (next_recv_seq c), Inr (CmdData d)))
   \<and> (transfer_peer_close r c = (None, c2, [SendConnData i2 m2])
      \<longrightarrow> peer_parse m2 = (Inr (next_recv_seq c), Inr (CmdClose r)))
   \<and> (transfer_ack p c = (None, c3, [SendConnData i3 m3])
      \<longrightarrow> peer_parse m3 = (Inr (next_recv_seq c), Inr (CmdAck (nat p))))"
  by (intro conjI impI) (erule read_data, erule read_close, erule read_ack)

lemma messages_roundtrip_witness:
  "\<exists>m c1. transfer_received_data ''hi'' (conn_init 0 2 True ''h'' 80 65536 40 True) = (None, c1, [SendConnData 2 m])
     \<and> peer_parse m = (Inr 1, Inr (CmdData ''hi''))"
proof -
  let ?c = "conn_init 0 2 True ''h'' 80 65536 40 True"
  have "\<exists>m c1. transfer_received_data ''hi'' ?c = (None, c1, [SendConnData 2 m])"
    by (simp add: transfer_received_data_def conn_init_def pack_us_fits)
  then obtain m c1 where t: "transfer_received_data ''hi'' ?c = (None, c1, [SendConnData 2 m])" by blast
  from messages_roundtrip [THEN conjunct1, THEN mp, OF t] t show ?thesis by (simp add: conn_init_def)
qed

subsection \<open>The acknowledgement window\<close>

text \<open>
  The bytes written to the local socket, the position that a message acknowledges when the peer
  reads it, and the last position told in a list of actions, \<open>p\<close> if there is none.
\<close>

fun bytes_out :: "conn_action list \<Rightarrow> nat" where
  "bytes_out [] = 0"
| "bytes_out (WriterWrite d # as) = length d + bytes_out as"
| "bytes_out (a # as) = bytes_out as"

definition peer_ack :: "bytes \<Rightarrow> nat option" where
  "peer_ack m = (case snd (peer_parse m) of Inr (CmdAck p) \<Rightarrow> Some p | _ \<Rightarrow> None)"

fun last_told :: "int \<Rightarrow> conn_action list \<Rightarrow> int" where
  "last_told p [] = p"
| "last_told p (SendConnData i m # as) = last_told (case peer_ack m of None \<Rightarrow> p | Some q \<Rightarrow> int q) as"
| "last_told p (a # as) = last_told p as"

text \<open>Every acknowledgement tells exactly what was written before it, \<open>n\<close> bytes before the list.\<close>

fun acks_exact :: "nat \<Rightarrow> conn_action list \<Rightarrow> bool" where
  "acks_exact n [] = True"
| "acks_exact n (WriterWrite d # as) = acks_exact (n + length d) as"
| "acks_exact n (SendConnData i m # as) = ((case peer_ack m of None \<Rightarrow> True | Some p \<Rightarrow> p = n) \<and> acks_exact n as)"
| "acks_exact n (a # as) = acks_exact n as"

lemma bytes_out_append [simp]: "bytes_out (a @ b) = bytes_out a + bytes_out b"
  by (induction a rule: bytes_out.induct) auto

lemma last_told_append [simp]: "last_told p (a @ b) = last_told (last_told p a) b"
  by (induction p a rule: last_told.induct) auto

lemma acks_exact_append [simp]: "acks_exact n (a @ b) \<longleftrightarrow> acks_exact n a \<and> acks_exact (n + bytes_out a) b"
  by (induction n a rule: acks_exact.induct) (auto simp: add.assoc)















end
