(* ===== verification/Session.thy ===== *)
theory Session
  imports Conn
begin

text \<open>
  The state of \<^verbatim>\<open>AsyncProxySession\<close> (x_tunnel/local/async_proxy_session.py) and its upload
  side: settings, speed, what goes into a request, and the request head.

  The connection objects live in an object store (\<open>s_objs\<close>), because the session's
  \<^verbatim>\<open>conn_list\<close>, the pipe's \<^verbatim>\<open>_conn_map\<close> and the running reader tasks refer to the same
  objects and lose their references at different moments.

  The clock is read once per atomic section and passed as \<open>now\<close>.  The module context \<^verbatim>\<open>ctx\<close>
  of x_tunnel/local/context.py is the record \<open>xctx\<close>; its attributes all exist, so the
  \<^verbatim>\<open>hasattr\<close> tests on it are true.
\<close>

subsection \<open>Settings\<close>

record raw_config =
  raw_max_payload :: "nat option"
  raw_windows_size :: "int option"
  raw_windows_ack :: "int option"
  raw_send_delay :: "real option"
  raw_ack_delay :: "real option"
  raw_resend_timeout :: "real option"
  raw_concurent_thread_num :: "int option"
  raw_min_on_road :: "int option"
  raw_roundtrip_timeout :: "nat option"
  raw_network_timeout :: "int option"
  raw_send_timeout_retry :: "int option"
  raw_server_time_max_deviation :: "real option"
  raw_server_download_timeout_retry :: "real option"

record session_cfg =
  cfg_max_payload :: nat
  cfg_windows_size :: int
  cfg_windows_ack :: int
  cfg_send_delay :: real
  cfg_ack_delay :: real
  cfg_resend_timeout :: real
  cfg_concurent_thread_num :: int
  cfg_min_on_road :: int
  cfg_roundtrip_timeout :: nat
  cfg_network_timeout :: int
  cfg_send_timeout_retry :: int
  cfg_server_time_max_deviation :: real
  cfg_server_download_timeout_retry :: real

definition setting :: "('c \<Rightarrow> 'a option) \<Rightarrow> 'a \<Rightarrow> 'c option \<Rightarrow> 'a" where
  "setting f d config = (case config of None \<Rightarrow> d | Some c \<Rightarrow> (case f c of None \<Rightarrow> d | Some v \<Rightarrow> v))"

definition session_settings :: "raw_config option \<Rightarrow> session_cfg" where
  "session_settings c = \<lparr>
     cfg_max_payload = setting raw_max_payload 65536 c,
     cfg_windows_size = setting raw_windows_size 65536 c,
     cfg_windows_ack = setting raw_windows_ack 40 c,
     cfg_send_delay = setting raw_send_delay 100 c / 1000,
     cfg_ack_delay = setting raw_ack_delay 100 c / 1000,
     cfg_resend_timeout = setting raw_resend_timeout 10000 c / 1000,
     cfg_concurent_thread_num = setting raw_concurent_thread_num 4 c,
     cfg_min_on_road = setting raw_min_on_road 2 c,
     cfg_roundtrip_timeout = setting raw_roundtrip_timeout 30 c,
     cfg_network_timeout = setting raw_network_timeout 30 c,
     cfg_send_timeout_retry = setting raw_send_timeout_retry 60 c,
     cfg_server_time_max_deviation = setting raw_server_time_max_deviation 5 c,
     cfg_server_download_timeout_retry = setting raw_server_download_timeout_retry 300 c\<rparr>"

subsection \<open>State\<close>

datatype api_error = NoApiError | LoginFail nat bytes | ApiStatus nat | ApiReason string

record xctx =
  x_server_host :: "string option"
  x_quota :: int
  x_roundtrip_num :: int
  x_slow_roundtrip :: int
  x_resend :: int
  x_protocol_version :: nat
  x_last_api_error :: api_error

datatype transfer_stat = Request | Timeout | Retry

text \<open>\<^verbatim>\<open>False\<close>, \<^verbatim>\<open>True\<close> or a server time; only the last two can be truthy.\<close>

datatype mark = Unset | Flag | Stamp time

fun truthy :: "mark \<Rightarrow> bool" where
  "truthy Unset = False"
| "truthy Flag = True"
| "truthy (Stamp t) = (t \<noteq> 0)"

fun mark_time :: "mark \<Rightarrow> time" where
  "mark_time Unset = 0"
| "mark_time Flag = 1"
| "mark_time (Stamp t) = t"

record transfer =
  t_session_id :: bytes
  t_transfer_no :: nat
  t_stat :: transfer_stat
  t_server_received :: mark
  t_server_sent :: mark
  t_start_time :: time
  t_server_timeout :: nat
  t_send_data :: bytes
  t_send_ack :: bytes
  t_download_timeout :: bytes
  t_request_session_id :: bytes
  t_retry :: nat

datatype wait_entry = Sent bytes time | Acked

record conn_pipe =
  p_running :: bool
  p_tasks :: "(nat, nat) dict"
  p_conn_map :: "(nat, nat) dict"

record sess =
  s_cfg :: session_cfg
  s_ctx :: xctx
  s_wait :: wait_queue
  s_send :: send_buffer
  s_recv :: "read_buffer receive_process"
  s_pipe :: conn_pipe
  s_objs :: "(nat, conn) dict"
  s_next_obj :: nat
  s_running :: bool
  s_tasks :: nat
  s_session_id :: bytes
  s_conn_list :: "(nat, nat) dict"
  s_last_conn_id :: nat
  s_last_transfer_no :: nat
  s_wait_ack :: "(nat, wait_entry) dict"
  s_ack_cont :: nat
  s_transfers :: "(nat, transfer) dict"
  s_traffic_up :: int
  s_traffic_down :: int
  s_last_traffic_up :: int
  s_last_traffic_down :: int
  s_last_traffic_reset :: time
  s_upload_speed :: real
  s_download_speed :: real
  s_last_send_time :: time
  s_last_receive_time :: time
  s_server_time_offset :: time
  s_server_time_deviation :: time
  s_target_on_roads :: int
  s_on_road_num :: int
  s_oldest_received :: time
  s_outs :: "conn_action list"

definition pipe_init :: conn_pipe where
  "pipe_init = \<lparr>p_running = False, p_tasks = [], p_conn_map = []\<rparr>"

definition sess_init :: "raw_config option \<Rightarrow> xctx \<Rightarrow> bytes \<Rightarrow> time \<Rightarrow> sess" where
  "sess_init config ctx sid now = (let cfg = session_settings config in \<lparr>
     s_cfg = cfg, s_ctx = ctx, s_wait = wq_init, s_send = sb_init (cfg_max_payload cfg) now,
     s_recv = rcv_init, s_pipe = pipe_init, s_objs = [], s_next_obj = 0,
     s_running = False, s_tasks = 0, s_session_id = sid, s_conn_list = [],
     s_last_conn_id = 0, s_last_transfer_no = 0,
     s_wait_ack = [], s_ack_cont = 0, s_transfers = [],
     s_traffic_up = 0, s_traffic_down = 0, s_last_traffic_up = 0, s_last_traffic_down = 0,
     s_last_traffic_reset = now, s_upload_speed = 0, s_download_speed = 0,
     s_last_send_time = 0, s_last_receive_time = 0, s_server_time_offset = 0,
     s_server_time_deviation = 9999, s_target_on_roads = 0, s_on_road_num = 0,
     s_oldest_received = 0, s_outs = []\<rparr>)"

definition is_idle :: "time \<Rightarrow> sess \<Rightarrow> bool" where
  "is_idle now s \<longleftrightarrow> now - s_last_send_time s > 60"

definition traffic_speed_calculation :: "time \<Rightarrow> sess \<Rightarrow> sess" where
  "traffic_speed_calculation now s =
     (let time_go = now - s_last_traffic_reset s in
      if time_go > 0.5 then
        s\<lparr>s_upload_speed := of_int (s_traffic_up s - s_last_traffic_up s) / time_go,
          s_download_speed := of_int (s_traffic_down s - s_last_traffic_down s) / time_go,
          s_last_traffic_reset := now,
          s_last_traffic_up := s_traffic_up s,
          s_last_traffic_down := s_traffic_down s\<rparr>
      else s)"

text \<open>\<^verbatim>\<open>traffic_readable\<close>: the scaled number and the unit that its text shows.\<close>

fun scale_units :: "real \<Rightarrow> string \<Rightarrow> string list \<Rightarrow> real \<times> string" where
  "scale_units num unit [] = (num, unit)"
| "scale_units num unit (u # us) = (if num \<ge> 1024 then scale_units (num / 1024) u us else (num, u))"

definition traffic_readable :: "real \<Rightarrow> real \<times> string" where
  "traffic_readable num = scale_units num '''' [''B'', ''KB'', ''MB'', ''GB'']"

definition trigger_more :: "sess \<Rightarrow> sess" where
  "trigger_more s =
     (let running_num = cfg_concurent_thread_num (s_cfg s) - wq_waiters (s_wait s);
          action_num = s_target_on_roads s - running_num
      in if action_num \<le> 0 then s else s\<lparr>s_wait := wq_notify_n (nat action_num) (s_wait s)\<rparr>)"

definition check_upload :: "sess \<Rightarrow> bool option \<times> sess" where
  "check_upload s = (if sb_pool_size (s_send s) > 0 then (Some True, s\<lparr>s_wait := wq_notify (s_wait s)\<rparr>)
                     else (None, s))"

text \<open>
  \<^verbatim>\<open>send_conn_data\<close>.  \<open>None\<close> is "does not return" (the cutting loop of the send buffer with
  \<open>max_payload = 0\<close>).
\<close>

definition send_conn_data :: "time \<Rightarrow> nat \<Rightarrow> bytes \<Rightarrow> sess \<Rightarrow> (exn option \<times> sess) option" where
  "send_conn_data now cid data s =
     (if \<not> s_running s then Some (None, s)
      else case pack_II cid (length data) of
        Inl e \<Rightarrow> Some (Some e, s)
      | Inr head \<Rightarrow>
          (case sb_add now (wb_bytes (wb_app data (wb_app head (wb_init None)))) (s_send s) of
             None \<Rightarrow> None
           | Some sb \<Rightarrow>
               (let s1 = s\<lparr>s_send := sb\<rparr> in
                Some (None, if s_oldest_received s1 = 0 then s1\<lparr>s_oldest_received := now\<rparr>
                      else if sb_pool_size (s_send s1) > int (cfg_max_payload (s_cfg s1))
                           then s1\<lparr>s_wait := wq_notify (s_wait s1)\<rparr> else s1))))"

subsection \<open>What a request carries\<close>

text \<open>
  \<^verbatim>\<open>get_data\<close>: blocks that the server has not acknowledged in time are sent again, oldest
  dictionary entry first, then at most one new block.  An over-long buffer is returned at once.
\<close>

fun resend_scan :: "time \<Rightarrow> session_cfg \<Rightarrow> (nat \<times> wait_entry) list \<Rightarrow> write_buffer \<Rightarrow> int \<Rightarrow>
    (nat, wait_entry) dict \<Rightarrow> (exn + bool) \<times> write_buffer \<times> int \<times> (nat, wait_entry) dict" where
  "resend_scan now cfg [] buf n wl = (Inr False, buf, n, wl)"
| "resend_scan now cfg ((sn, Acked) # items) buf n wl = resend_scan now cfg items buf n wl"
| "resend_scan now cfg ((sn, Sent payload send_time) # items) buf n wl =
     (if now - send_time > cfg_resend_timeout cfg then
        (case pack_II sn (length payload) of
           Inl e \<Rightarrow> (Inl e, buf, n + 1, wl)
         | Inr head \<Rightarrow>
             (let buf' = wb_app payload (wb_app head buf); wl' = dset sn (Sent payload now) wl in
              if string_len buf' > cfg_max_payload cfg then (Inr True, buf', n + 1, wl')
              else resend_scan now cfg items buf' (n + 1) wl'))
      else resend_scan now cfg items buf n wl)"

definition get_data_new :: "time \<Rightarrow> write_buffer \<Rightarrow> sess \<Rightarrow> (exn + write_buffer) \<times> sess" where
  "get_data_new now buf s =
     (let pool_size = sb_pool_size (s_send s) in
      if pool_size > int (cfg_max_payload (s_cfg s))
         \<or> (pool_size > 0 \<and> now - s_oldest_received s > cfg_send_delay (s_cfg s)) then
        (case sb_get (s_send s) of
           (Inl e, sb) \<Rightarrow> (Inl e, s\<lparr>s_send := sb\<rparr>)
         | (Inr (payload, sn), sb) \<Rightarrow>
             (let s1 = s\<lparr>s_send := sb\<rparr> in
              if payload_len payload > 0 \<and> sn > 0 then
                (let s2 = s1\<lparr>s_wait_ack := dset sn (Sent (payload_bytes payload) now) (s_wait_ack s1)\<rparr> in
                 case pack_II sn (length (payload_bytes payload)) of
                   Inl e \<Rightarrow> (Inl e, s2)
                 | Inr head \<Rightarrow>
                     (Inr (wb_app (payload_bytes payload) (wb_app head buf)),
                      if sb_pool_size (s_send s2) = 0 then s2\<lparr>s_oldest_received := 0\<rparr> else s2))
              else (Inr buf, s1)))
      else (Inr buf, s))"

definition get_data :: "time \<Rightarrow> sess \<Rightarrow> (exn + write_buffer) \<times> sess" where
  "get_data now s =
     (case resend_scan now (s_cfg s) (s_wait_ack s) (wb_init None) 0 (s_wait_ack s) of
        (r, buf, n, wl) \<Rightarrow>
          (let s1 = s\<lparr>s_wait_ack := wl, s_ctx := (s_ctx s)\<lparr>x_resend := x_resend (s_ctx s) + n\<rparr>\<rparr> in
           case r of
             Inl e \<Rightarrow> (Inl e, s1)
           | Inr True \<Rightarrow> (Inr buf, s1)
           | Inr False \<Rightarrow> get_data_new now buf s1))"

text \<open>A sequence of 32-bit numbers appended to a buffer; \<^verbatim>\<open>struct.pack("<I", sn)\<close> per number.\<close>

fun append_u32s :: "nat list \<Rightarrow> write_buffer \<Rightarrow> exn + write_buffer" where
  "append_u32s [] buf = Inr buf"
| "append_u32s (n # ns) buf = (case pack_us [(4, n)] of
      Inl e \<Rightarrow> Inl e | Inr b \<Rightarrow> append_u32s ns (wb_app b buf))"

definition get_ack :: "bool \<Rightarrow> time \<Rightarrow> sess \<Rightarrow> exn + write_buffer" where
  "get_ack force now s =
     (if force \<or> (s_last_receive_time s > s_last_send_time s
                  \<and> now - s_last_receive_time s > cfg_ack_delay (s_cfg s))
      then append_u32s ((next_sn (s_recv s) - 1) # dkeys (block_list (s_recv s))) (wb_init None)
      else Inr (wb_init (Some [])))"

definition get_down_sn_timeout_list_pack :: "time \<Rightarrow> sess \<Rightarrow> (exn + write_buffer) \<times> sess" where
  "get_down_sn_timeout_list_pack now s =
     (if s_server_time_deviation s > cfg_server_time_max_deviation (s_cfg s) then (Inr (wb_init None), s)
      else let server_time = of_int (py_int (now + s_server_time_offset s));
               (lst, rp) = get_timeout_list server_time (cfg_server_download_timeout_retry (s_cfg s)) (s_recv s);
               s1 = s\<lparr>s_recv := rp\<rparr>
           in (case append_u32s lst (wb_init None) of
                 Inl e \<Rightarrow> (Inl e, s1)
               | Inr buf \<Rightarrow>
                   (case pack_us [(4, length lst)] of
                      Inl e \<Rightarrow> (Inl e, s1)
                    | Inr b \<Rightarrow> (wb_insert (WBytes b) buf, s1))))"

text \<open>
  One pass of the loop of \<^verbatim>\<open>get_send_data\<close>: \<open>Some\<close> is the value returned, \<open>None\<close> means that the
  worker goes to sleep on the wait queue and tries again.
\<close>

definition get_send_data_pass :: "time \<Rightarrow> sess \<Rightarrow> (exn + (bytes \<times> bytes \<times> bytes) option) \<times> sess" where
  "get_send_data_pass now s =
     (if \<not> s_running s then (Inr (Some ([], [], [])), s)
      else case get_data now s of
        (Inl e, s1) \<Rightarrow> (Inl e, s1)
      | (Inr data, s1) \<Rightarrow>
         (case get_down_sn_timeout_list_pack now s1 of
            (Inl e, s2) \<Rightarrow> (Inl e, s2)
          | (Inr down, s2) \<Rightarrow>
             (let force = string_len data > 0 \<or> string_len down > 4
                          \<or> s_on_road_num s2 < s_target_on_roads s2
              in case get_ack force now s2 of
                   Inl e \<Rightarrow> (Inl e, s2)
                 | Inr ack \<Rightarrow>
                     if force \<or> string_len ack > 0
                     then (Inr (Some (wb_bytes data, wb_bytes ack, wb_bytes down)), s2)
                     else (Inr None, s2))))"

subsection \<open>Transfers\<close>

text \<open>
  \<^verbatim>\<open>get_upload_data\<close> up to the call that may sleep.  The scan returns the first timed-out
  transfer of this session; if there is none, the transfers of other sessions are dropped.
\<close>

fun find_retry :: "bytes \<Rightarrow> (nat \<times> transfer) list \<Rightarrow> (nat \<times> transfer) option" where
  "find_retry sid [] = None"
| "find_retry sid ((sn, t) # items) =
     (if t_session_id t \<noteq> sid then find_retry sid items
      else if t_stat t = Timeout then Some (sn, t) else find_retry sid items)"

definition upload_begin :: "time \<Rightarrow> sess \<Rightarrow> transfer option \<times> sess" where
  "upload_begin now s = (case find_retry (s_session_id s) (s_transfers s) of
      Some (sn, t) \<Rightarrow>
        (let t' = t\<lparr>t_stat := Retry, t_retry := t_retry t + 1, t_start_time := now\<rparr>
         in (Some t', s\<lparr>s_transfers := dset sn t' (s_transfers s)\<rparr>))
    | None \<Rightarrow> (None, s\<lparr>s_transfers :=
         filter (\<lambda>(sn, t). t_session_id t = s_session_id s) (s_transfers s)\<rparr>))"

definition upload_end :: "time \<Rightarrow> bytes \<times> bytes \<times> bytes \<Rightarrow> sess \<Rightarrow> transfer \<times> sess" where
  "upload_end now dat s =
     (let no = s_last_transfer_no s + 1;
          t = \<lparr>t_session_id = s_session_id s, t_transfer_no = no, t_stat = Request,
               t_server_received = Unset, t_server_sent = Unset, t_start_time = now,
               t_server_timeout = cfg_roundtrip_timeout (s_cfg s),
               t_send_data = fst dat, t_send_ack = fst (snd dat), t_download_timeout = snd (snd dat),
               t_request_session_id = s_session_id s, t_retry = 0\<rparr>
      in (t, s\<lparr>s_last_transfer_no := no, s_transfers := dset no t (s_transfers s)\<rparr>))"

text \<open>The part of \<^verbatim>\<open>roundtrip_task\<close> before the request is posted.\<close>

datatype pre_result = NoWork | PreRaised exn | Post bytes int

definition choose_server_timeout :: "transfer \<Rightarrow> sess \<Rightarrow> nat" where
  "choose_server_timeout t s =
     (if sb_pool_size (s_send s) > int (cfg_max_payload (s_cfg s))
         \<or> cfg_concurent_thread_num (s_cfg s) - s_on_road_num s < cfg_min_on_road (s_cfg s)
         \<or> s_server_time_deviation s > cfg_server_time_max_deviation (s_cfg s)
         \<or> t_stat t = Retry
      then 0 else cfg_roundtrip_timeout (s_cfg s))"

definition pad8 :: "bytes \<Rightarrow> bytes" where
  "pad8 b = take 8 (b @ replicate 8 (char_of (0::nat)))"

definition upload_head :: "nat \<Rightarrow> bytes \<Rightarrow> nat \<Rightarrow> nat \<Rightarrow> nat \<Rightarrow> nat \<Rightarrow> nat \<Rightarrow> exn + bytes" where
  "upload_head pv sid no server_timeout data_len ack_len down_len =
     (case pack_us [(1, of_char CHR ''P''), (1, pv), (1, 2)] of
        Inl e \<Rightarrow> Inl e
      | Inr a \<Rightarrow> (case pack_us [(4, no), (1, server_timeout), (4, data_len), (2, ack_len), (2, down_len)] of
          Inl e \<Rightarrow> Inl e
        | Inr b \<Rightarrow> Inr (a @ pad8 sid @ b)))"

definition roundtrip_pre :: "(bytes \<Rightarrow> bytes) \<Rightarrow> time \<Rightarrow> transfer \<Rightarrow> sess \<Rightarrow> pre_result \<times> sess" where
  "roundtrip_pre encrypt now t s =
     (if t_request_session_id t \<noteq> s_session_id s then (NoWork, s)
      else let no = t_transfer_no t; st = choose_server_timeout t s in
        case dget (s_transfers s) no of
          None \<Rightarrow> (NoWork, s)
        | Some t0 \<Rightarrow>
            (let s1 = s\<lparr>s_on_road_num := s_on_road_num s + 1,
                        s_transfers := dset no (t0\<lparr>t_server_timeout := st\<rparr>) (s_transfers s)\<rparr>
             in case upload_head (x_protocol_version (s_ctx s1)) (s_session_id s1) no st
                       (length (t_send_data t)) (length (t_send_ack t)) (length (t_download_timeout t)) of
                  Inl e \<Rightarrow> (PreRaised e, s1)
                | Inr head \<Rightarrow>
                    (let body = wb_bytes (wb_app (t_download_timeout t) (wb_app (t_send_ack t)
                                  (wb_app (t_send_data t) (wb_init (Some head)))));
                         rt = int st + cfg_network_timeout (s_cfg s1);
                         rt' = (if length (t_send_data t) > 0
                                then min rt (cfg_send_timeout_retry (s_cfg s1) + cfg_network_timeout (s_cfg s1))
                                else rt)
                     in (Post (encrypt body) rt', s1\<lparr>s_last_send_time := now\<rparr>))))"

definition check_timeout :: "time \<Rightarrow> sess \<Rightarrow> sess" where
  "check_timeout now s =
     (let threshold = now - of_int (cfg_send_timeout_retry (s_cfg s));
          late = (\<lambda>t. t_stat t \<noteq> Timeout \<and> t_start_time t + real (t_server_timeout t) < threshold);
          s1 = s\<lparr>s_transfers := dmap (\<lambda>no t. if late t then t\<lparr>t_stat := Timeout\<rparr> else t) (s_transfers s)\<rparr>;
          n = int (length (filter (\<lambda>(no, t). late t) (s_transfers s)))
      in if n \<noteq> 0 then
           trigger_more (s1\<lparr>s_target_on_roads :=
             min (cfg_concurent_thread_num (s_cfg s1) - cfg_min_on_road (s_cfg s1)) (s_target_on_roads s1 + n)\<rparr>)
         else s1)"

definition upload_late :: "sess \<Rightarrow> time \<Rightarrow> transfer \<Rightarrow> bool" where
  "upload_late s server_time t \<longleftrightarrow>
     t_stat t \<noteq> Timeout
   \<and> ((\<not> truthy (t_server_received t)
        \<and> (server_time - s_server_time_offset s) - t_start_time t > of_int (cfg_send_timeout_retry (s_cfg s)))
      \<or> (truthy (t_server_sent t)
        \<and> server_time - mark_time (t_server_sent t) > of_int (cfg_send_timeout_retry (s_cfg s))))"

definition check_upload_not_acked :: "time \<Rightarrow> sess \<Rightarrow> sess" where
  "check_upload_not_acked server_time s =
     (if s_server_time_deviation s > cfg_server_time_max_deviation (s_cfg s) then s
      else let s1 = s\<lparr>s_transfers := dmap (\<lambda>no t. if upload_late s server_time t then t\<lparr>t_stat := Timeout\<rparr> else t)
                                          (s_transfers s)\<rparr>;
               n = int (length (filter (\<lambda>(no, t). upload_late s server_time t) (s_transfers s)))
           in if n \<noteq> 0 then
                trigger_more (s1\<lparr>s_target_on_roads :=
                  min (cfg_concurent_thread_num (s_cfg s1) - cfg_min_on_road (s_cfg s1)) (s_target_on_roads s1 + n)\<rparr>)
              else s1)"

end
