(* ===== verification/Session_Conn.thy ===== *)
theory Session_Conn
  imports Session "HOL-Library.Monad_Syntax"
begin

text \<open>
  The session's connections: executing what a connection asks for, the pipe of local sockets
  (\<^verbatim>\<open>AsyncConnectionPipe\<close>), creating, feeding and stopping connections, session start and
  stop.

  An operation of type \<open>(exn option \<times> sess) option\<close> does not return when it is \<open>None\<close>: the send
  buffer loops, or a coroutine waits for a lock that its own caller holds.

  \<^verbatim>\<open>session.reset()\<close> requested by a connection cancels the task that runs it; it is recorded
  among the outputs and not executed here.
\<close>

type_synonym op_res = "(exn option \<times> sess) option"

definition remove_conn_async :: "nat \<Rightarrow> sess \<Rightarrow> sess" where
  "remove_conn_async cid s =
     (let s1 = s\<lparr>s_conn_list := ddel cid (s_conn_list s)\<rparr>
      in if length (s_conn_list s1) = 0 then s1\<lparr>s_target_on_roads := 0\<rparr> else s1)"

text \<open>The part of \<^verbatim>\<open>add_sock\<close> after the event loop has accepted the socket.\<close>

definition add_sock :: "nat \<Rightarrow> nat \<Rightarrow> sess \<Rightarrow> sess" where
  "add_sock cid a s = s\<lparr>s_pipe := (s_pipe s)\<lparr>p_conn_map := dset cid a (p_conn_map (s_pipe s)),
                                              p_tasks := dset cid a (p_tasks (s_pipe s))\<rparr>\<rparr>"

definition run_action :: "time \<Rightarrow> nat \<Rightarrow> conn_action \<Rightarrow> sess \<Rightarrow> op_res" where
  "run_action now a act s = (case act of
      SendConnData cid m \<Rightarrow> send_conn_data now cid m s
    | RemoveConn cid \<Rightarrow> Some (None, remove_conn_async cid s)
    | AddSock cid \<Rightarrow> Some (None, add_sock cid a s)
    | out \<Rightarrow> Some (None, s\<lparr>s_outs := s_outs s @ [out]\<rparr>))"

fun run_actions :: "time \<Rightarrow> nat \<Rightarrow> conn_action list \<Rightarrow> sess \<Rightarrow> op_res" where
  "run_actions now a [] s = Some (None, s)"
| "run_actions now a (act # acts) s = do {
     (e, s1) \<leftarrow> run_action now a act s;
     case e of None \<Rightarrow> run_actions now a acts s1 | Some x \<Rightarrow> Some (Some x, s1) }"

text \<open>
  Running an operation of the connection object \<open>a\<close>.  A socket is taken by the event loop only
  while the pipe runs.
\<close>

definition pipe_env :: "conn_env \<Rightarrow> sess \<Rightarrow> conn_env" where
  "pipe_env env s = env\<lparr>accept_ok := accept_ok env \<and> p_running (s_pipe s)\<rparr>"

definition conn_op :: "time \<Rightarrow> nat \<Rightarrow> (conn \<Rightarrow> conn_res) \<Rightarrow> sess \<Rightarrow> op_res" where
  "conn_op now a f s = (case dget (s_objs s) a of
      None \<Rightarrow> Some (Some (PyException ''no object''), s)
    | Some c \<Rightarrow> (case f c of (e, c', acts) \<Rightarrow> do {
        (e', s1) \<leftarrow> run_actions now a acts (s\<lparr>s_objs := dset a c' (s_objs s)\<rparr>);
        Some (if e' = None then e else e', s1) }))"

subsection \<open>Creating a connection\<close>

datatype host_arg = HostStr string | HostBytes bytes

definition encode_host :: "host_arg \<Rightarrow> exn + bytes" where
  "encode_host h = (case h of
      HostBytes b \<Rightarrow> Inr b
    | HostStr x \<Rightarrow> if \<forall>ch \<in> set x. (of_char ch :: nat) < 128 then Inr x
                   else Inl (PyException ''UnicodeEncodeError''))"

definition connect_cmd :: "bytes \<Rightarrow> nat \<Rightarrow> exn + bytes" where
  "connect_cmd host port = (case pack_us [(4, 0), (1, 0), (1, 0), (2, length host)] of
      Inl e \<Rightarrow> Inl e
    | Inr a \<Rightarrow> (case pack_us [(2, port)] of Inl e \<Rightarrow> Inl e | Inr b \<Rightarrow> Inr (a @ host @ b)))"

text \<open>\<^verbatim>\<open>AsyncConn.start\<close> on the fresh object: hand its socket to the pipe.\<close>

definition conn_start :: "conn_env \<Rightarrow> nat \<Rightarrow> nat \<Rightarrow> sess \<Rightarrow> sess" where
  "conn_start env cid a s =
     (if accept_ok env \<and> p_running (s_pipe s) then
        (case dget (s_objs s) a of
           None \<Rightarrow> s
         | Some c \<Rightarrow> add_sock cid a (s\<lparr>s_objs := dset a (c\<lparr>has_writer := True\<rparr>) (s_objs s)\<rparr>))
      else s)"

definition create_conn :: "conn_env \<Rightarrow> time \<Rightarrow> host_arg \<Rightarrow> nat \<Rightarrow> sess \<Rightarrow> ((exn + nat option) \<times> sess) option" where
  "create_conn env now host port s =
     (if \<not> s_running s then Some (Inr None, s)
      else let cid = s_last_conn_id s + 2; s1 = s\<lparr>s_last_conn_id := cid\<rparr> in
        case encode_host host of Inl e \<Rightarrow> Some (Inl e, s1) | Inr h \<Rightarrow>
        (case connect_cmd h port of Inl e \<Rightarrow> Some (Inl e, s1) | Inr data \<Rightarrow>
         do { (e, s2) \<leftarrow> send_conn_data now cid data s1;
              case e of Some x \<Rightarrow> Some (Inl x, s2) | None \<Rightarrow>
              (let c = conn_init now cid True (ascii_replace h) port (cfg_windows_size (s_cfg s2))
                         (cfg_windows_ack (s_cfg s2)) True;
                   a = s_next_obj s2;
                   s3 = s2\<lparr>s_objs := dset a c (s_objs s2), s_next_obj := a + 1,
                           s_conn_list := dset cid a (s_conn_list s2)\<rparr>;
                   s4 = s3\<lparr>s_target_on_roads :=
                     min (cfg_concurent_thread_num (s_cfg s3) - cfg_min_on_road (s_cfg s3)) (s_target_on_roads s3 + 2)\<rparr>
               in Some (Inr (Some cid), conn_start env cid a (trigger_more s4))) }))"

subsection \<open>Data from the server\<close>

definition on_conn_data :: "conn_env \<Rightarrow> time \<Rightarrow> nat \<Rightarrow> read_buffer \<Rightarrow> sess \<Rightarrow> op_res" where
  "on_conn_data env now cid data s = (case dget (s_conn_list s) cid of
      None \<Rightarrow> Some (None, s)
    | Some a \<Rightarrow> conn_op now a (put_cmd_data (pipe_env env s) now data) s)"

text \<open>The loop of \<^verbatim>\<open>download_data_processor\<close> inside its \<^verbatim>\<open>try\<close>, and the whole of it.\<close>

function dl_loop :: "conn_env \<Rightarrow> time \<Rightarrow> read_buffer \<Rightarrow> sess \<Rightarrow> op_res" where
  "dl_loop env now payload s =
     (if rb_size payload = 0 then Some (None, s)
      else let (h, p1) = rb_get (Some 8) payload in
        case xunpack_b unpack_II h of
          Inl e \<Rightarrow> Some (Some e, s)
        | Inr (cid, plen) \<Rightarrow>
            (let (conn_payload, p2) = rb_get_buf (Some plen) p1 in
             case dget (s_conn_list s) cid of
               None \<Rightarrow> dl_loop env now p2 s
             | Some a \<Rightarrow>
                (case conn_op now a (put_cmd_data (pipe_env env s) now conn_payload) s of
                   None \<Rightarrow> None
                 | Some (Some e, s1) \<Rightarrow> Some (Some e, s1)
                 | Some (None, s1) \<Rightarrow> dl_loop env now p2 s1)))"
  by pat_completeness auto
termination
  by (relation "measure (\<lambda>(env, now, p, s). rb_size p)")
     (auto simp: rb_get_def rb_get_buf_def rb_skip_def rb_clip_def Let_def split: if_splits)

declare dl_loop.simps [simp del]

definition download_data_processor :: "conn_env \<Rightarrow> time \<Rightarrow> read_buffer \<Rightarrow> sess \<Rightarrow> sess option" where
  "download_data_processor env now data s =
     (case dl_loop env now (rb_of_rb data 0 None) s of None \<Rightarrow> None | Some (e, s') \<Rightarrow> Some s')"

subsection \<open>The pipe of local sockets\<close>

text \<open>
  One step of \<^verbatim>\<open>_conn_reader_loop\<close> for the task of connection \<open>cid\<close>: what the read gave, then
  whether the loop goes on; every way out of the loop runs \<^verbatim>\<open>_remove_conn\<close>.
\<close>

datatype read_event = ReadData bytes | ReadEof | ReadError | ReadCancelled

definition remove_conn :: "time \<Rightarrow> nat \<Rightarrow> sess \<Rightarrow> op_res" where
  "remove_conn now cid s =
     (let s1 = s\<lparr>s_pipe := (s_pipe s)\<lparr>p_tasks := ddel cid (p_tasks (s_pipe s))\<rparr>\<rparr>
      in case dget (p_conn_map (s_pipe s1)) cid of
           None \<Rightarrow> Some (None, s1)
         | Some a \<Rightarrow> conn_op now a (\<lambda>c. (None, stop_async ''reader_end'' c))
             (s1\<lparr>s_pipe := (s_pipe s1)\<lparr>p_conn_map := ddel cid (p_conn_map (s_pipe s1))\<rparr>\<rparr>))"

definition loop_goes_on :: "nat \<Rightarrow> sess \<Rightarrow> bool" where
  "loop_goes_on a s \<longleftrightarrow> p_running (s_pipe s) \<and>
     (case dget (s_objs s) a of None \<Rightarrow> False | Some c \<Rightarrow> c_running c)"

definition reader_step :: "time \<Rightarrow> nat \<Rightarrow> nat \<Rightarrow> read_event \<Rightarrow> sess \<Rightarrow> op_res" where
  "reader_step now cid a ev s = (case ev of
      ReadData d \<Rightarrow>
        (if d = [] then remove_conn now cid s
         else do { (e, s1) \<leftarrow> conn_op now a (on_data_received now d) s;
                   if e = None \<and> loop_goes_on a s1 then Some (None, s1) else remove_conn now cid s1 })
    | _ \<Rightarrow> remove_conn now cid s)"

definition send_to_conn :: "conn_env \<Rightarrow> nat \<Rightarrow> bytes \<Rightarrow> sess \<Rightarrow> bool \<times> sess" where
  "send_to_conn env cid data s = (case dget (p_conn_map (s_pipe s)) cid of
      None \<Rightarrow> (False, s)
    | Some a \<Rightarrow> (case dget (s_objs s) a of
        None \<Rightarrow> (False, s)
      | Some c \<Rightarrow> if \<not> has_writer c then (False, s)
                  else if write_ok env (sended_position c) data
                  then (True, s\<lparr>s_outs := s_outs s @ [WriterWrite data]\<rparr>) else (False, s)))"

fun stop_listed :: "time \<Rightarrow> string \<Rightarrow> (nat \<times> nat) list \<Rightarrow> sess \<Rightarrow> sess option" where
  "stop_listed now reason [] s = Some s"
| "stop_listed now reason ((cid, a) # items) s = do {
     (e, s1) \<leftarrow> conn_op now a (\<lambda>c. (None, stop_async reason c)) s;
     stop_listed now reason items s1 }"

definition reset_all_connections :: "time \<Rightarrow> sess \<Rightarrow> sess option" where
  "reset_all_connections now s = do {
     s1 \<leftarrow> stop_listed now ''reset_all'' (p_conn_map (s_pipe s)) s;
     Some (s1\<lparr>s_pipe := (s_pipe s1)\<lparr>p_conn_map := [], p_tasks := []\<rparr>\<rparr>) }"

definition pipe_start :: "sess \<Rightarrow> sess" where
  "pipe_start s = s\<lparr>s_pipe := \<lparr>p_running = True, p_tasks = [], p_conn_map = []\<rparr>\<rparr>"

text \<open>
  \<^verbatim>\<open>stop\<close> cancels the reader tasks while it holds the pipe's lock, so their \<^verbatim>\<open>_remove_conn\<close>
  waits for that lock until the half second is over and is then cancelled: no connection is
  stopped here.
\<close>

definition pipe_stop :: "sess \<Rightarrow> sess" where
  "pipe_stop s = s\<lparr>s_pipe := \<lparr>p_running = False, p_tasks = [], p_conn_map = []\<rparr>\<rparr>"

subsection \<open>Stopping and starting the session\<close>

text \<open>
  \<^verbatim>\<open>close_all_connections\<close> holds \<^verbatim>\<open>self.lock\<close>.  A connection that runs ends its \<^verbatim>\<open>stop_async\<close>
  with \<^verbatim>\<open>session.remove_conn_async\<close>, which waits for the same lock, which is not reentrant: the
  coroutine never goes on.
\<close>

fun close_listed :: "(nat \<times> nat) list \<Rightarrow> sess \<Rightarrow> sess option" where
  "close_listed [] s = Some s"
| "close_listed ((cid, a) # items) s = (case dget (s_objs s) a of
      None \<Rightarrow> close_listed items s
    | Some c \<Rightarrow>
        (case stop_async ''session_stop'' c of (c', acts) \<Rightarrow>
           if RemoveConn (conn_id c) \<in> set acts then None
           else close_listed items (s\<lparr>s_objs := dset a c' (s_objs s), s_outs := s_outs s @ acts\<rparr>)))"

definition close_all_connections :: "sess \<Rightarrow> sess option" where
  "close_all_connections s = do {
     s1 \<leftarrow> close_listed (s_conn_list s) s; Some (s1\<lparr>s_conn_list := []\<rparr>) }"

definition session_stop :: "sess \<Rightarrow> sess option" where
  "session_stop s =
     (if \<not> s_running s then Some s
      else do {
        s1 \<leftarrow> close_all_connections (s\<lparr>s_running := False, s_wait := wq_stop (s_wait s), s_tasks := 0\<rparr>);
        Some (pipe_stop (s1\<lparr>s_send := sb_reset (s_send s1), s_recv := rcv_reset (s_recv s1)\<rparr>)) })"

text \<open>\<^verbatim>\<open>_parse_login_response\<close>; \<open>decrypt\<close> may raise.\<close>

definition parse_login_response :: "(bytes \<Rightarrow> exn + bytes) \<Rightarrow> bytes \<Rightarrow> sess \<Rightarrow> bool \<times> sess" where
  "parse_login_response decrypt content s = (case decrypt content of
      Inl e \<Rightarrow> (False, s)
    | Inr info \<Rightarrow> (case xunpack_b (unpack_us [1, 1, 1, 1, 2]) (take 6 info) of
        Inl e \<Rightarrow> (False, s)
      | Inr fs \<Rightarrow>
          if fs ! 0 \<noteq> of_char CHR ''P'' \<or> fs ! 1 \<noteq> x_protocol_version (s_ctx s) \<or> fs ! 2 \<noteq> 1 then (False, s)
          else if fs ! 3 \<noteq> 0
          then (False, s\<lparr>s_ctx := (s_ctx s)\<lparr>x_last_api_error := LoginFail (fs ! 3) (drop 6 info)\<rparr>\<rparr>)
          else (True, s\<lparr>s_ctx := (s_ctx s)\<lparr>x_last_api_error := NoApiError\<rparr>\<rparr>)))"

text \<open>
  \<^verbatim>\<open>login_session\<close>: each attempt has the clock at the loop test and the outcome of the posted
  request; the attempts end after 30 seconds.
\<close>

datatype login_outcome = LoginRaised | LoginReply nat bytes

fun login_attempts :: "(bytes \<Rightarrow> exn + bytes) \<Rightarrow> time \<Rightarrow> (time \<times> login_outcome) list \<Rightarrow> sess \<Rightarrow> bool \<times> sess" where
  "login_attempts decrypt t0 [] s = (False, s)"
| "login_attempts decrypt t0 ((now, out) # rest) s =
     (if \<not> now - t0 < 30 then (False, s)
      else case out of
        LoginRaised \<Rightarrow> login_attempts decrypt t0 rest s
      | LoginReply status content \<Rightarrow>
          if status = 521 then (False, s\<lparr>s_ctx := (s_ctx s)\<lparr>x_server_host := None\<rparr>\<rparr>)
          else if status \<noteq> 200 then login_attempts decrypt t0 rest s
          else if length content < 6 then login_attempts decrypt t0 rest s
          else parse_login_response decrypt content s)"

definition login_session :: "(bytes \<Rightarrow> exn + bytes) \<Rightarrow> time \<Rightarrow> (time \<times> login_outcome) list \<Rightarrow> sess \<Rightarrow> bool \<times> sess" where
  "login_session decrypt t0 attempts s =
     (if x_server_host (s_ctx s) = None \<or> x_server_host (s_ctx s) = Some '''' then (False, s)
      else login_attempts decrypt t0 attempts s)"

text \<open>The head of the login request.  A negative number does not pack.\<close>

definition pack_is :: "(nat \<times> int) list \<Rightarrow> exn + bytes" where
  "pack_is fs = (if \<exists>(k, n) \<in> set fs. n < 0 then Inl StructError else pack_us (map (\<lambda>(k, n). (k, nat n)) fs))"

definition pack_text :: "bytes \<Rightarrow> exn + bytes" where
  "pack_text b = (case pack_us [(2, length b)] of Inl e \<Rightarrow> Inl e | Inr h \<Rightarrow> Inr (h @ b))"

fun join_packed :: "(exn + bytes) list \<Rightarrow> exn + bytes" where
  "join_packed [] = Inr []"
| "join_packed (Inl e # bs) = Inl e"
| "join_packed (Inr b # bs) = (case join_packed bs of Inl e \<Rightarrow> Inl e | Inr r \<Rightarrow> Inr (b @ r))"

definition login_head :: "sess \<Rightarrow> bytes \<Rightarrow> bytes \<Rightarrow> bytes \<Rightarrow> exn + bytes" where
  "login_head s account password extra = (let cfg = s_cfg s in join_packed
     [pack_us [(1, of_char CHR ''P''), (1, x_protocol_version (s_ctx s)), (1, 1)],
      Inr (pad8 (s_session_id s)),
      pack_is [(4, int (cfg_max_payload cfg)), (2, py_int (cfg_send_delay cfg * 1000)),
               (4, cfg_windows_size cfg), (4, cfg_windows_ack cfg),
               (2, py_int (cfg_resend_timeout cfg * 1000)), (2, py_int (cfg_ack_delay cfg * 1000))],
      pack_text account, pack_text password, pack_text extra])"

definition start_reset :: "bytes \<Rightarrow> time \<Rightarrow> sess \<Rightarrow> sess" where
  "start_reset sid now s = s\<lparr>
     s_session_id := sid, s_last_conn_id := 0, s_last_transfer_no := 0, s_conn_list := [],
     s_transfers := [], s_wait_ack := [], s_ack_cont := 0, s_last_send_time := now,
     s_last_receive_time := 0, s_oldest_received := 0, s_target_on_roads := 0, s_on_road_num := 0,
     s_server_time_offset := 0, s_server_time_deviation := 9999,
     s_traffic_up := 0, s_traffic_down := 0, s_last_traffic_up := 0, s_last_traffic_down := 0,
     s_last_traffic_reset := now\<rparr>"

definition session_start ::
  "(bytes \<Rightarrow> exn + bytes) \<Rightarrow> bytes \<Rightarrow> time \<Rightarrow> (time \<times> login_outcome) list \<Rightarrow> sess \<Rightarrow> bool \<times> sess" where
  "session_start decrypt sid now attempts s =
     (if s_running s then (True, s)
      else case login_session decrypt now attempts (start_reset sid now s) of
        (False, s1) \<Rightarrow> (False, s1)
      | (True, s1) \<Rightarrow>
          (True, pipe_start (s1\<lparr>s_running := True, s_wait := wq_reset (s_wait s1),
             s_send := sb_reset (s_send s1), s_recv := rcv_reset (s_recv s1),
             s_tasks := s_tasks s1 + nat (cfg_concurent_thread_num (s_cfg s1)) + 1\<rparr>)))"

definition session_reset ::
  "(bytes \<Rightarrow> exn + bytes) \<Rightarrow> bytes \<Rightarrow> time \<Rightarrow> (time \<times> login_outcome) list \<Rightarrow> sess \<Rightarrow> (bool \<times> sess) option" where
  "session_reset decrypt sid now attempts s =
     do { s1 \<leftarrow> session_stop s; Some (session_start decrypt sid now attempts s1) }"

end
