(* ===== verification/Session_Reply.thy ===== *)
theory Session_Reply
  imports Session_Conn
begin

text \<open>
  What the session does with a reply: the acknowledgements for the upload direction, the
  blocks of the download direction, the marks on its transfers, the estimate of the server's
  clock, and the number of requests it wants on the road.  The loops keep what they changed
  before an exception, as the code does.
\<close>

subsection \<open>Acknowledgements\<close>

function ack_loop :: "read_buffer \<Rightarrow> (nat, wait_entry) dict \<Rightarrow> exn option \<times> (nat, wait_entry) dict" where
  "ack_loop ack wl =
     (if rb_size ack = 0 then (None, wl)
      else let (b, ack') = rb_get (Some 4) ack in
        case xunpack_b (unpack_u 4) b of
          Inl e \<Rightarrow> (Some e, wl)
        | Inr sn \<Rightarrow> ack_loop ack' (if dmem sn wl then dset sn Acked wl else wl))"
  by pat_completeness auto
termination
  by (relation "measure (\<lambda>(a, w). rb_size a)")
     (auto simp: rb_get_def rb_skip_def rb_clip_def Let_def split: if_splits)

declare ack_loop.simps [simp del]

function drop_acked :: "nat \<Rightarrow> (nat, wait_entry) dict \<Rightarrow> nat \<times> (nat, wait_entry) dict" where
  "drop_acked n wl = (if dget wl (n + 1) = Some Acked then drop_acked (n + 1) (ddel (n + 1) wl) else (n, wl))"
  by pat_completeness auto
termination
  by (relation "measure (\<lambda>(n, wl). length wl)") (auto intro: length_ddel_Some)

declare drop_acked.simps [simp del]

definition ack_process :: "read_buffer \<Rightarrow> sess \<Rightarrow> sess" where
  "ack_process ack s =
     (let (b, ack1) = rb_get (Some 4) ack in
      case xunpack_b (unpack_u 4) b of
        Inl e \<Rightarrow> s
      | Inr last_ack \<Rightarrow>
          (case ack_loop ack1 (s_wait_ack s) of
             (Some e, wl) \<Rightarrow> s\<lparr>s_wait_ack := wl\<rparr>
           | (None, wl) \<Rightarrow>
               (let wl1 = dmap (\<lambda>sn x. if sn > last_ack then x else Acked) wl;
                    (n, wl2) = drop_acked (s_ack_cont s) wl1
                in s\<lparr>s_wait_ack := wl2, s_ack_cont := n\<rparr>)))"

subsection \<open>Marks on the transfers\<close>

definition unpack_Id :: "bytes \<Rightarrow> exn + (nat \<times> real)" where
  "unpack_Id bs = (if length bs \<noteq> 12 then Inl StructError
     else case unpack_d (drop 4 bs) of Inl e \<Rightarrow> Inl e | Inr t \<Rightarrow> Inr (le_nat (take 4 bs), t))"

text \<open>\<^verbatim>\<open>for i in range(n)\<close> over 12-byte entries; \<open>upd\<close> is the assignment of the loop body.\<close>

fun stamp_loop :: "(time \<Rightarrow> 't \<Rightarrow> 't) \<Rightarrow> nat \<Rightarrow> read_buffer \<Rightarrow> (nat, 't) dict \<Rightarrow> exn option \<times> (nat, 't) dict" where
  "stamp_loop upd 0 r d = (None, d)"
| "stamp_loop upd (Suc n) r d =
     (let (b, r') = rb_get (Some 12) r in
      case xunpack_b unpack_Id b of
        Inl e \<Rightarrow> (Some e, d)
      | Inr (no, t) \<Rightarrow> stamp_loop upd n r'
          (case dget d no of None \<Rightarrow> d | Some x \<Rightarrow> dset no (upd t x) d))"

definition process_server_received_transfer_no :: "read_buffer \<Rightarrow> read_buffer \<Rightarrow> time \<Rightarrow> sess \<Rightarrow> sess" where
  "process_server_received_transfer_no rcvd sent server_time s =
     (let (b1, rcvd1) = rb_get (Some 4) rcvd in case xunpack_b (unpack_u 4) b1 of Inl e \<Rightarrow> s | Inr rno \<Rightarrow>
     (let (b2, sent1) = rb_get (Some 4) sent in case xunpack_b (unpack_u 4) b2 of Inl e \<Rightarrow> s | Inr sno \<Rightarrow>
     (let tl = dmap (\<lambda>no t. (let t1 = (if no < rno then t\<lparr>t_server_received := Flag\<rparr> else t)
                             in if no < sno then t1\<lparr>t_server_sent := Stamp server_time\<rparr> else t1)) (s_transfers s);
          s1 = s\<lparr>s_transfers := tl\<rparr>;
          (b3, rcvd2) = rb_get (Some 4) rcvd1
      in case xunpack_b (unpack_u 4) b3 of Inl e \<Rightarrow> s1 | Inr n \<Rightarrow>
         (case stamp_loop (\<lambda>t x. x\<lparr>t_server_received := Stamp t\<rparr>) n rcvd2 tl of
            (Some e, tl1) \<Rightarrow> s1\<lparr>s_transfers := tl1\<rparr>
          | (None, tl1) \<Rightarrow>
              (let s2 = s1\<lparr>s_transfers := tl1\<rparr>; (b4, sent2) = rb_get (Some 4) sent1 in
               case xunpack_b (unpack_u 4) b4 of Inl e \<Rightarrow> s2 | Inr m \<Rightarrow>
               s2\<lparr>s_transfers := snd (stamp_loop (\<lambda>t x. x\<lparr>t_server_sent := Stamp t\<rparr>) m sent2 tl1)\<rparr>)))))"

subsection \<open>Blocks the server misses an acknowledgement for\<close>

fun unacked_loop :: "time \<Rightarrow> real \<Rightarrow> nat \<Rightarrow> read_buffer \<Rightarrow> read_buffer receive_process \<Rightarrow> read_buffer receive_process" where
  "unacked_loop server_time limit 0 r rp = rp"
| "unacked_loop server_time limit (Suc n) r rp =
     (let (b, r') = rb_get (Some 12) r in
      case xunpack_b unpack_Id b of
        Inl e \<Rightarrow> rp
      | Inr (sn, t) \<Rightarrow> unacked_loop server_time limit n r'
          (if is_received sn rp then rp
           else if server_time - t > limit then mark_sn_timeout sn t server_time rp else rp))"

definition process_server_unacked_sent_sn :: "time \<Rightarrow> read_buffer \<Rightarrow> sess \<Rightarrow> sess" where
  "process_server_unacked_sent_sn now data s =
     (if s_server_time_deviation s > cfg_server_time_max_deviation (s_cfg s) then s
      else let server_time = now + s_server_time_offset s; (b, r) = rb_get (Some 4) data in
        case xunpack_b (unpack_u 4) b of
          Inl e \<Rightarrow> s
        | Inr n \<Rightarrow> s\<lparr>s_recv := unacked_loop server_time
                      (cfg_server_download_timeout_retry (s_cfg s)) n r (s_recv s)\<rparr>)"

subsection \<open>Blocks of the download direction\<close>

fun handle_all :: "conn_env \<Rightarrow> time \<Rightarrow> read_buffer list \<Rightarrow> sess \<Rightarrow> sess option" where
  "handle_all env now [] s = Some s"
| "handle_all env now (d # ds) s = do { s1 \<leftarrow> download_data_processor env now d s; handle_all env now ds s1 }"

definition receive_put :: "conn_env \<Rightarrow> time \<Rightarrow> nat \<Rightarrow> read_buffer \<Rightarrow> sess \<Rightarrow> sess option" where
  "receive_put env now sn pdata s =
     (let (ds, rp) = rcv_put sn pdata (s_recv s) in handle_all env now ds (s\<lparr>s_recv := rp\<rparr>))"

function data_loop :: "conn_env \<Rightarrow> time \<Rightarrow> read_buffer \<Rightarrow> sess \<Rightarrow> op_res" where
  "data_loop env now data s =
     (if rb_size data = 0 then Some (None, s)
      else let (h, d1) = rb_get (Some 8) data in
        case xunpack_b unpack_II h of
          Inl e \<Rightarrow> Some (Some e, s)
        | Inr (sn, plen) \<Rightarrow>
            (let (pdata, d2) = rb_get_buf (Some plen) d1 in
             case receive_put env now sn pdata s of None \<Rightarrow> None | Some s1 \<Rightarrow> data_loop env now d2 s1))"
  by pat_completeness auto
termination
  by (relation "measure (\<lambda>(env, now, p, s). rb_size p)")
     (auto simp: rb_get_def rb_get_buf_def rb_skip_def rb_clip_def Let_def split: if_splits)

declare data_loop.simps [simp del]

definition round_trip_process :: "conn_env \<Rightarrow> time \<Rightarrow> read_buffer \<Rightarrow> read_buffer \<Rightarrow> read_buffer \<Rightarrow> read_buffer \<Rightarrow>
    read_buffer \<Rightarrow> time \<Rightarrow> sess \<Rightarrow> op_res" where
  "round_trip_process env now data ack rcvd sent unack server_time s = do {
     (e, s1) \<leftarrow> data_loop env now data s;
     case e of
       Some x \<Rightarrow> Some (Some x, s1)
     | None \<Rightarrow> Some (None, process_server_unacked_sent_sn now unack
         (process_server_received_transfer_no rcvd sent server_time (ack_process ack s1))) }"

subsection \<open>A reply to a request\<close>

text \<open>
  \<^verbatim>\<open>roundtrip_task\<close> after the request came back.  \<open>reply_action\<close> says what the worker does
  next: return a value, or call stop, reset, or the login again.
\<close>

datatype http_outcome = HttpRaised | HttpReply nat bytes int

datatype reply_action = Done bool | CallStop | CallReset | CallRelogin

definition mark_timeout :: "nat \<Rightarrow> sess \<Rightarrow> sess" where
  "mark_timeout no s = (case dget (s_transfers s) no of
      None \<Rightarrow> s | Some t \<Rightarrow> s\<lparr>s_transfers := dset no (t\<lparr>t_stat := Timeout\<rparr>) (s_transfers s)\<rparr>)"

definition count_traffic :: "nat \<Rightarrow> nat \<Rightarrow> sess \<Rightarrow> sess" where
  "count_traffic up down s =
     (let traffic = int up + int down + 645; q = x_quota (s_ctx s) - traffic
      in s\<lparr>s_traffic_up := s_traffic_up s + int up + 645,
           s_traffic_down := s_traffic_down s + int down,
           s_ctx := (s_ctx s)\<lparr>x_quota := (if q < 0 then 0 else q)\<rparr>\<rparr>)"

text \<open>\<^verbatim>\<open>"<dIIIIIIII"\<close>, 40 bytes.\<close>

definition unpack_reply_head :: "bytes \<Rightarrow> exn + (real \<times> nat list)" where
  "unpack_reply_head bs = (if length bs \<noteq> 40 then Inl StructError
     else case unpack_d (take 8 bs) of Inl e \<Rightarrow> Inl e
       | Inr t \<Rightarrow> Inr (t, read_us [4, 4, 4, 4, 4, 4, 4, 4] (drop 8 bs)))"

definition server_error :: "nat \<Rightarrow> read_buffer \<Rightarrow> sess \<Rightarrow> exn + (reply_action \<times> sess)" where
  "server_error no payload s =
     (case xunpack_b (unpack_us [1, 2]) (fst (rb_get (Some 3) payload)) of
        Inl e \<Rightarrow> Inl e
      | Inr fs \<Rightarrow>
          if fs ! 0 = 1 then Inr (CallStop, s)
          else if fs ! 0 = 2 then Inr (Done False, mark_timeout no s)
          else if fs ! 0 = 3 then Inr (CallReset, s)
          else Inr (Done False, mark_timeout no s))"

definition adjust_clock :: "time \<Rightarrow> time \<Rightarrow> time \<Rightarrow> sess \<Rightarrow> sess" where
  "adjust_clock now roundtrip_time server_time s =
     (if roundtrip_time < s_server_time_deviation s
      then s\<lparr>s_server_time_offset := server_time - now, s_server_time_deviation := roundtrip_time\<rparr> else s)"

definition adjust_roads :: "nat \<Rightarrow> nat \<Rightarrow> sess \<Rightarrow> sess" where
  "adjust_roads content_len data_len s =
     (if length (s_conn_list s) = 0 then s\<lparr>s_target_on_roads := 0\<rparr>
      else if content_len \<ge> cfg_max_payload (s_cfg s) then
        s\<lparr>s_target_on_roads := min (cfg_concurent_thread_num (s_cfg s) - cfg_min_on_road (s_cfg s))
                                    (s_target_on_roads s + 10)\<rparr>
      else if data_len \<le> 200 then
        s\<lparr>s_target_on_roads := max (cfg_min_on_road (s_cfg s)) (s_target_on_roads s - 5)\<rparr>
      else s)"

text \<open>
  The body of the \<^verbatim>\<open>try\<close>.  The last test compares a checksum if more than 32 bytes are left,
  with \<^verbatim>\<open>payload.get(32).tobytes()\<close>; the buffer holds \<^verbatim>\<open>bytes\<close>, so that call raises.
\<close>

definition reply_body :: "(bytes \<Rightarrow> exn + bytes) \<Rightarrow> conn_env \<Rightarrow> time \<Rightarrow> time \<Rightarrow> nat \<Rightarrow> bytes \<Rightarrow> sess \<Rightarrow>
    ((exn + reply_action) \<times> sess) option" where
  "reply_body decrypt env now roundtrip_time no raw s =
     (let content_len = length raw in
      case decrypt raw of Inl e \<Rightarrow> Some (Inl e, s) | Inr content \<Rightarrow>
      (let (h, p1) = rb_get (Some 3) (rb_init content 0 None) in
       case xunpack_b (unpack_us [1, 1, 1]) h of Inl e \<Rightarrow> Some (Inl e, s) | Inr fs \<Rightarrow>
       if fs ! 0 \<noteq> of_char CHR ''P'' \<or> fs ! 1 \<noteq> x_protocol_version (s_ctx s) \<or> (fs ! 2 \<noteq> 2 \<and> fs ! 2 \<noteq> 3)
       then Some (Inr (Done False), mark_timeout no s)
       else if fs ! 2 = 3 then
         (case server_error no p1 s of Inl e \<Rightarrow> Some (Inl e, s) | Inr (act, s1) \<Rightarrow> Some (Inr act, s1))
       else
       (let (hd40, p2) = rb_get (Some 40) p1 in
        case xunpack_b unpack_reply_head hd40 of Inl e \<Rightarrow> Some (Inl e, s) | Inr (server_time, ns) \<Rightarrow>
        let data_len = ns ! 2; ack_len = ns ! 3; rcvd_len = ns ! 4; sent_len = ns ! 5; unack_len = ns ! 6; ext_len = ns ! 7;
            head_len = int content_len - int data_len - int ack_len - int rcvd_len - int sent_len - int unack_len - int ext_len
        in if head_len < 3 + 40 then Some (Inr (Done False), mark_timeout no s)
        else
        let (data, p3) = rb_get_buf (Some data_len) p2;
            (ack, p4) = rb_get_buf (Some ack_len) p3;
            (rcvd, p5) = rb_get_buf (Some rcvd_len) p4;
            (sent, p6) = rb_get_buf (Some sent_len) p5;
            (unack, p7) = rb_get_buf (Some unack_len) p6;
            (ext, p8) = rb_get_buf (Some ext_len) p7
        in if rb_size p8 > 32 then Some (Inl AttributeError, s)
        else
        let rtt = roundtrip_time - real (ns ! 0) / 1000;
            s1 = adjust_clock now roundtrip_time server_time s;
            s2 = (if rtt > 8000 then s1\<lparr>s_ctx := (s_ctx s1)\<lparr>x_slow_roundtrip := x_slow_roundtrip (s_ctx s1) + 1\<rparr>\<rparr> else s1);
            s3 = s2\<lparr>s_last_receive_time := now, s_transfers := ddel no (s_transfers s2)\<rparr>
        in do {
          (e, s4) \<leftarrow> round_trip_process env now data ack rcvd sent unack server_time s3;
          case e of
            Some x \<Rightarrow> Some (Inl x, s4)
          | None \<Rightarrow>
              (let s5 = trigger_more (adjust_roads content_len data_len (check_upload_not_acked server_time s4))
               in Some (Inr (Done True), s5\<lparr>s_wait := wq_notify (s_wait s5)\<rparr>)) })))"

definition roundtrip_post :: "(bytes \<Rightarrow> exn + bytes) \<Rightarrow> conn_env \<Rightarrow> time \<Rightarrow> transfer \<Rightarrow> nat \<Rightarrow> http_outcome \<Rightarrow> sess \<Rightarrow>
    (reply_action \<times> sess) option" where
  "roundtrip_post decrypt env now t posted_len out s =
     (let no = t_transfer_no t; road = (\<lambda>s. s\<lparr>s_on_road_num := s_on_road_num s - 1\<rparr>) in
      case out of
        HttpRaised \<Rightarrow> Some (Done False, road (mark_timeout no s))
      | HttpReply status content declared \<Rightarrow>
          (let s1 = road (count_traffic posted_len (length content) s);
               s2 = s1\<lparr>s_ctx := (s_ctx s1)\<lparr>x_roundtrip_num := x_roundtrip_num (s_ctx s1) + 1\<rparr>\<rparr>
           in if status = 521 then
                Some (CallRelogin, s2\<lparr>s_ctx := (s_ctx s2)\<lparr>x_server_host := None\<rparr>\<rparr>)
              else if status \<noteq> 200 then Some (Done False, mark_timeout no s2)
              else if length content < 6 \<or> (declared \<noteq> 0 \<and> declared \<noteq> int (length content))
              then Some (Done False, mark_timeout no s2)
              else (case reply_body decrypt env now (now - t_start_time t) no content s2 of
                      None \<Rightarrow> None
                    | Some (Inr act, s3) \<Rightarrow> Some (act, s3)
                    | Some (Inl e, s3) \<Rightarrow> Some (Done False, mark_timeout no s3))))"

end
