(* ===== verification/Session_Window.thy ===== *)
theory Session_Window
  imports Session_Reply
begin

text \<open>
  The upload window: what the session holds until the server has acknowledged it, how a request
  encodes blocks and acknowledgements, and what the other end reads out of them.
\<close>

subsection \<open>Acknowledgements: writing and reading\<close>

definition u32s :: "nat list \<Rightarrow> bytes" where
  "u32s ns = concat (map (le_bytes 4) ns)"

lemma u32s_simps [simp]: "u32s [] = []" "u32s (n # ns) = le_bytes 4 n @ u32s ns"
  by (simp_all add: u32s_def)

lemma wb_app_bytes [simp]: "wb_bytes (wb_app d w) = wb_bytes w @ d"
  by (simp add: wb_app_def wb_bytes_def wb_append_def)

lemma wb_init_bytes [simp]: "wb_bytes (wb_init None) = []" "wb_bytes (wb_init (Some b)) = b"
  by (simp_all add: wb_init_def wb_bytes_def wb_reset_def)

lemma append_u32s_Inr:
  "append_u32s ns buf = Inr buf' \<Longrightarrow> (\<forall>n \<in> set ns. n < 2 ^ 32) \<and> wb_bytes buf' = wb_bytes buf @ u32s ns"
proof (induction ns arbitrary: buf)
  case (Cons n ns)
  then obtain b where "pack_us [(4, n)] = Inr b" "append_u32s ns (wb_app b buf) = Inr buf'"
    by (auto split: sum.splits)
  with Cons.IH [of "wb_app b buf"] show ?case by (auto simp: pack_us_Inr)
qed simp

lemma append_u32s_fits:
  "\<forall>n \<in> set ns. n < 2 ^ 32 \<Longrightarrow> \<exists>buf'. append_u32s ns buf = Inr buf'"
  by (induction ns arbitrary: buf) (auto simp: pack_us_fits)

lemma ack_loop_step:
  assumes "rb_ok r" "rb_to_bytes r = u32s (n # ns)" "n < 2 ^ 32"
  obtains r1 where "rb_ok r1" "rb_to_bytes r1 = u32s ns"
    "ack_loop r wl = ack_loop r1 (if dmem n wl then dset n Acked wl else wl)"
proof -
  from assms obtain h r1 where g: "rb_get (Some 4) r = (h, r1)" "unpack_u 4 h = Inr n" "rb_ok r1"
    "rb_to_bytes r1 = u32s ns" using parse_uint [of r 4 n "u32s ns"] by auto
  have "rb_size r \<noteq> 0" using assms length_rb_to_bytes [of r] by auto
  with g(1,2) have "ack_loop r wl = ack_loop r1 (if dmem n wl then dset n Acked wl else wl)"
    by (subst ack_loop.simps) (simp add: xunpack_b_def)
  with g(3,4) show thesis by (rule that)
qed

lemma ack_loop_spec:
  "rb_ok r \<Longrightarrow> rb_to_bytes r = u32s ns \<Longrightarrow> \<forall>n \<in> set ns. n < 2 ^ 32 \<Longrightarrow>
   fst (ack_loop r wl) = None \<and>
   dget (snd (ack_loop r wl)) k = (if k \<in> set ns \<and> dget wl k \<noteq> None then Some Acked else dget wl k)"
proof (induction ns arbitrary: r wl)
  case Nil
  then have "rb_size r = 0" using length_rb_to_bytes [of r] by simp
  then show ?case by (simp add: ack_loop.simps)
next
  case (Cons n ns)
  then have small: "n < 2 ^ 32" "\<forall>n \<in> set ns. n < 2 ^ 32" by simp_all
  obtain r1 where r1: "rb_ok r1" "rb_to_bytes r1 = u32s ns"
    "ack_loop r wl = ack_loop r1 (if dmem n wl then dset n Acked wl else wl)"
    by (rule ack_loop_step [OF Cons.prems(1,2) small(1)])
  from Cons.IH [OF r1(1,2) small(2)] show ?case
    unfolding r1(3) by (auto simp: dmem_def simp del: dmem_iff)
qed

lemma drop_acked_all:
  "n \<le> fst (drop_acked n wl)
   \<and> (\<forall>k. dget (snd (drop_acked n wl)) k = (if n < k \<and> k \<le> fst (drop_acked n wl) then None else dget wl k))
   \<and> (\<forall>k. n < k \<and> k \<le> fst (drop_acked n wl) \<longrightarrow> dget wl k = Some Acked)
   \<and> dget wl (Suc (fst (drop_acked n wl))) \<noteq> Some Acked"
proof (induction n wl rule: drop_acked.induct)
  case (1 n wl)
  note s = drop_acked.simps [of n wl]
  show ?case
  proof (cases "dget wl (n + 1) = Some Acked")
    case False
    then have "drop_acked n wl = (n, wl)" by (simp add: s)
    with False show ?thesis by auto
  next
    case True
    let ?r = "drop_acked (n + 1) (ddel (n + 1) wl)"
    note IH = "1" [OF True]
    have "dget wl k = Some Acked" if "n < k" "k \<le> fst ?r" for k
      using IH True that by (cases "k = n + 1") (auto simp: dget_ddel split: if_splits)
    moreover have "dget (snd ?r) k = (if n < k \<and> k \<le> fst ?r then None else dget wl k)" for k
      using IH by (auto simp: dget_ddel)
    moreover have "dget wl (Suc (fst ?r)) \<noteq> Some Acked"
      using IH by (auto simp: dget_ddel split: if_splits)
    ultimately show ?thesis using IH True by (simp add: s)
  qed
qed

lemmas drop_acked_spec =
  drop_acked_all [THEN conjunct1]
  drop_acked_all [THEN conjunct2, THEN conjunct1, THEN spec]
  drop_acked_all [THEN conjunct2, THEN conjunct2, THEN conjunct1, THEN spec, THEN mp, OF conjI]
  drop_acked_all [THEN conjunct2, THEN conjunct2, THEN conjunct2]


subsection \<open>The session as reader and writer of acknowledgements\<close>

lemma ack_process_spec:
  fixes s :: sess
  assumes "rb_ok r" "rb_to_bytes r = u32s (la # ns)" "\<forall>n \<in> set (la # ns). n < 2 ^ 32"
  defines "wl \<equiv> s_wait_ack s" and "s' \<equiv> ack_process r s"
  shows "s_ack_cont s \<le> s_ack_cont s'"
    and "dget (s_wait_ack s') k =
      (if s_ack_cont s < k \<and> k \<le> s_ack_cont s' then None
       else if dget wl k \<noteq> None \<and> (k \<le> la \<or> k \<in> set ns) then Some Acked else dget wl k)"
    and "s_ack_cont s < k \<Longrightarrow> k \<le> s_ack_cont s' \<Longrightarrow>
      dget wl k = Some Acked \<or> (dget wl k \<noteq> None \<and> (k \<le> la \<or> k \<in> set ns))"
    and "s' = s\<lparr>s_wait_ack := s_wait_ack s', s_ack_cont := s_ack_cont s'\<rparr>"
proof -
  from assms(1-3) obtain h r1 where g: "rb_get (Some 4) r = (h, r1)" "unpack_u 4 h = Inr la" "rb_ok r1"
    "rb_to_bytes r1 = u32s ns" using parse_uint [of r 4 la "u32s ns"] by auto
  obtain wl1 where al: "ack_loop r1 wl = (None, wl1)"
    and wl1: "dget wl1 k = (if k \<in> set ns \<and> dget wl k \<noteq> None then Some Acked else dget wl k)" for k
  proof -
    have *: "\<forall>n \<in> set ns. n < 2 ^ 32" using assms(3) by simp
    show ?thesis
      using ack_loop_spec [OF g(3,4) *, of wl] that [of "snd (ack_loop r1 wl)"] by (metis prod.collapse)
  qed
  let ?wl2 = "dmap (\<lambda>sn x. if sn > la then x else Acked) wl1"
  obtain n wl3 where da: "drop_acked (s_ack_cont s) ?wl2 = (n, wl3)" by (cases "drop_acked (s_ack_cont s) ?wl2")
  have s': "s' = s\<lparr>s_wait_ack := wl3, s_ack_cont := n\<rparr>"
    using g(1,2) al da unfolding s'_def wl_def ack_process_def by (simp add: xunpack_b_def)
  note d = drop_acked_spec [where n = "s_ack_cont s" and wl = ?wl2, unfolded da fst_conv snd_conv]
  show "s_ack_cont s \<le> s_ack_cont s'" using d(1) s' by simp
  show "dget (s_wait_ack s') k = (if s_ack_cont s < k \<and> k \<le> s_ack_cont s' then None
       else if dget wl k \<noteq> None \<and> (k \<le> la \<or> k \<in> set ns) then Some Acked else dget wl k)"
    using d(2) [of k] wl1 [of k] s' by (auto simp: not_less option.map_ident)
  show "dget wl k = Some Acked \<or> (dget wl k \<noteq> None \<and> (k \<le> la \<or> k \<in> set ns))"
    if "s_ack_cont s < k" "k \<le> s_ack_cont s'"
    using d(3) [of k] that s' wl1 [of k] by (auto simp: not_less split: if_splits)
  show "s' = s\<lparr>s_wait_ack := s_wait_ack s', s_ack_cont := s_ack_cont s'\<rparr>" using s' by simp
qed

text \<open>
  C6. What \<^verbatim>\<open>get_ack\<close> writes is understood by \<^verbatim>\<open>ack_process\<close> exactly: a block that the other end
  waits for counts as acknowledged afterwards (marked, or dropped from the front) if and only
  if this end has received it or it was acknowledged before; every other entry is untouched.
\<close>

theorem acknowledgement_exact:
  fixes s p :: sess
  assumes "get_ack True now s = Inr buf" and "1 \<le> next_sn (s_recv s)"
    and "dget (s_wait_ack p) k = Some e" and "p' = ack_process (rb_init (wb_bytes buf) 0 None) p"
  shows "dget (s_wait_ack p') k =
      (if s_ack_cont p < k \<and> k \<le> s_ack_cont p' then None
       else if is_received k (s_recv s) then Some Acked else Some e)
    \<and> (s_ack_cont p < k \<and> k \<le> s_ack_cont p' \<longrightarrow> is_received k (s_recv s) \<or> e = Acked)"
proof -
  let ?la = "next_sn (s_recv s) - 1" and ?ns = "dkeys (block_list (s_recv s))"
  let ?r = "rb_init (wb_bytes buf) 0 None"
  have "append_u32s (?la # ?ns) (wb_init None) = Inr buf"
    using assms(1) by (simp only: get_ack_def if_True simp_thms)
  note app = append_u32s_Inr [OF this, unfolded wb_init_bytes append_Nil]
  note fit = app [THEN conjunct1] and b = app [THEN conjunct2]
  have r: "rb_ok ?r" "rb_to_bytes ?r = u32s (?la # ?ns)" using rb_init_spec [of "wb_bytes buf"] b by simp_all
  note a = ack_process_spec [OF r fit, of p, folded assms(4)]
  have rec: "is_received k (s_recv s) \<longleftrightarrow> k \<le> ?la \<or> k \<in> set ?ns"
    using assms(2) by (auto simp: is_received_def)
  show ?thesis
    using a(2,3) [of k] assms(3) unfolding rec by auto
qed


subsection \<open>The window\<close>

definition frame :: "nat \<Rightarrow> bytes \<Rightarrow> bytes" where
  "frame n d = le_bytes 4 n @ le_bytes 4 (length d) @ d"

definition frames :: "(nat \<times> bytes) list \<Rightarrow> bytes" where
  "frames bs = concat (map (\<lambda>(n, d). frame n d) bs)"

definition frames_fit :: "(nat \<times> bytes) list \<Rightarrow> bool" where
  "frames_fit bs \<longleftrightarrow> (\<forall>(n, d) \<in> set bs. n < 2 ^ 32 \<and> length d < 2 ^ 32)"

lemma frames_fit_simps [simp]:
  "frames_fit []" "frames_fit ((n, d) # bs) \<longleftrightarrow> n < 2 ^ 32 \<and> length d < 2 ^ 32 \<and> frames_fit bs"
  "frames_fit (bs @ cs) \<longleftrightarrow> frames_fit bs \<and> frames_fit cs"
  by (auto simp: frames_fit_def)

lemma frames_simps [simp]: "frames [] = []" "frames ((n, d) # bs) = frame n d @ frames bs"
  "frames (bs @ cs) = frames bs @ frames cs"
  by (simp_all add: frames_def)

definition resend_due :: "time \<Rightarrow> session_cfg \<Rightarrow> wait_entry \<Rightarrow> bool" where
  "resend_due now cfg e = (case e of Acked \<Rightarrow> False | Sent d t \<Rightarrow> now - t > cfg_resend_timeout cfg)"

lemma resend_scan_spec:
  "resend_scan now cfg items buf n wl = (r, buf', n', wl') \<Longrightarrow> distinct (map fst items) \<Longrightarrow>
   \<forall>(k, e) \<in> set items. dget wl k = Some e \<Longrightarrow>
   \<exists>bs. wb_bytes buf' = wb_bytes buf @ frames bs \<and> distinct (map fst bs)
     \<and> (\<forall>(k, d) \<in> set bs. k < 2 ^ 32 \<and> length d < 2 ^ 32 \<and> (\<exists>t. (k, Sent d t) \<in> set items \<and> now - t > cfg_resend_timeout cfg))
     \<and> (\<forall>k. dget wl' k = (case map_of bs k of None \<Rightarrow> dget wl k | Some d \<Rightarrow> Some (Sent d now)))
     \<and> dkeys wl' = dkeys wl
     \<and> (r = Inr False \<longrightarrow> (\<forall>(k, e) \<in> set items. resend_due now cfg e \<longrightarrow> k \<in> fst ` set bs))
     \<and> (r = Inr True \<longrightarrow> cfg_max_payload cfg < string_len buf')"
proof (induction now cfg items buf n wl rule: resend_scan.induct)
  case (1 now cfg buf n wl)
  then show ?case by (auto intro: exI [of _ "[]"])
next
  case (2 now cfg sn items buf n wl)
  then show ?case by (fastforce simp: resend_due_def)
next
  case (3 now cfg sn payload send_time items buf n wl)
  show ?case
  proof (cases "now - send_time > cfg_resend_timeout cfg")
    case False
    with 3 show ?thesis by (fastforce simp: resend_due_def)
  next
    case due: True
    show ?thesis
    proof (cases "pack_II sn (length payload)")
      case (Inl e)
      with 3 due show ?thesis by (auto intro!: exI [of _ "[]"])
    next
      case (Inr head)
      then have head: "sn < 2 ^ 32" "length payload < 2 ^ 32" "head @ payload = frame sn payload"
        by (auto simp: pack_II_Inr frame_def)
      let ?b = "wb_app payload (wb_app head buf)" and ?wl = "dset sn (Sent payload now) wl"
      have app: "wb_bytes ?b = wb_bytes buf @ frame sn payload" using head(3) by simp
      have keys: "dkeys ?wl = dkeys wl"
        using "3.prems"(3) by (force simp: update_keys dest: map_of_SomeD)
      show ?thesis
      proof (cases "string_len ?b > cfg_max_payload cfg")
        case True
        with "3.prems"(1) due Inr have "r = Inr True" "buf' = ?b" "wl' = ?wl" "string_len ?b > cfg_max_payload cfg" by (auto simp: Let_def)
        with head keys due show ?thesis
          by (intro exI [of _ "[(sn, payload)]"]) (auto simp: app simp del: wb_app_bytes)
      next
        case False
        have fresh: "sn \<notin> fst ` set items" using "3.prems"(2) by auto
        have "resend_scan now cfg items ?b (n + 1) ?wl = (r, buf', n', wl')"
          using "3.prems"(1) due Inr False by (simp add: Let_def)
        moreover have "\<forall>(k, e) \<in> set items. dget ?wl k = Some e"
        proof (clarify)
          fix k e assume "(k, e) \<in> set items"
          with fresh "3.prems"(3) show "dget ?wl k = Some e" by force
        qed
        ultimately obtain bs where bs: "wb_bytes buf' = wb_bytes ?b @ frames bs" "distinct (map fst bs)"
          "\<forall>(k, d) \<in> set bs. k < 2 ^ 32 \<and> length d < 2 ^ 32 \<and> (\<exists>t. (k, Sent d t) \<in> set items \<and> now - t > cfg_resend_timeout cfg)"
          "\<forall>k. dget wl' k = (case map_of bs k of None \<Rightarrow> dget ?wl k | Some d \<Rightarrow> Some (Sent d now))"
          "dkeys wl' = dkeys ?wl"
          "r = Inr False \<longrightarrow> (\<forall>(k, e) \<in> set items. resend_due now cfg e \<longrightarrow> k \<in> fst ` set bs)"
          "r = Inr True \<longrightarrow> cfg_max_payload cfg < string_len buf'"
          using "3.IH"(1) [OF due Inr refl refl False] "3.prems"(2) by auto
        have "sn \<notin> fst ` set bs" using bs(3) fresh by force
        then have nsn: "map_of bs sn = None" by (simp add: map_of_eq_None_iff)
        show ?thesis
        proof (intro exI [of _ "(sn, payload) # bs"] conjI)
          show "wb_bytes buf' = wb_bytes buf @ frames ((sn, payload) # bs)" using bs(1) app by simp
          show "distinct (map fst ((sn, payload) # bs))" using bs(2) \<open>sn \<notin> fst ` set bs\<close> by simp
          show "\<forall>(k, d) \<in> set ((sn, payload) # bs). k < 2 ^ 32 \<and> length d < 2 ^ 32 \<and>
             (\<exists>t. (k, Sent d t) \<in> set ((sn, Sent payload send_time) # items) \<and> now - t > cfg_resend_timeout cfg)"
            using bs(3) head due by fastforce
          show "\<forall>k. dget wl' k = (case map_of ((sn, payload) # bs) k of None \<Rightarrow> dget wl k | Some d \<Rightarrow> Some (Sent d now))"
            using bs(4) nsn by (auto split: option.splits)
          show "dkeys wl' = dkeys wl" using bs(5) keys by simp
          show "r = Inr False \<longrightarrow> (\<forall>(k, e) \<in> set ((sn, Sent payload send_time) # items).
              resend_due now cfg e \<longrightarrow> k \<in> fst ` set ((sn, payload) # bs))"
            using bs(6) by auto
          show "r = Inr True \<longrightarrow> cfg_max_payload cfg < string_len buf'" by (rule bs(7))
        qed
      qed
    qed
  qed
qed


text \<open>
  The invariant of the upload window: the entries are the blocks from the first one that is not
  acknowledged up to the last one taken from the send buffer, none missing.
\<close>

definition window_ok :: "sess \<Rightarrow> bool" where
  "window_ok s \<longleftrightarrow> sb_ok (s_send s) \<and> dict_ok (s_wait_ack s)
     \<and> s_ack_cont s < sb_tail_sn (s_send s)
     \<and> fst ` set (s_wait_ack s) = {s_ack_cont s <..< sb_tail_sn (s_send s)}"

lemma dict_ok_keys: "dkeys d = dkeys d' \<Longrightarrow> dict_ok d = dict_ok d' \<and> fst ` set d = fst ` set d'"
  by (metis set_map)

lemma get_data_new_spec:
  assumes "get_data_new now buf s = (Inr buf', s')" "window_ok s"
  shows "window_ok s' \<and>
    ((buf' = buf \<and> s_wait_ack s' = s_wait_ack s \<and> sb_stream (s_send s') = sb_stream (s_send s)) \<or>
     (\<exists>d. d \<noteq> [] \<and> sb_tail_sn (s_send s) < 2 ^ 32 \<and> length d < 2 ^ 32
        \<and> wb_bytes buf' = wb_bytes buf @ frame (sb_tail_sn (s_send s)) d
        \<and> s_wait_ack s' = dset (sb_tail_sn (s_send s)) (Sent d now) (s_wait_ack s)
        \<and> sb_stream (s_send s) = d @ sb_stream (s_send s')))"
proof -
  let ?b = "s_send s"
  from assms(2) have ok: "sb_ok ?b" by (simp add: window_ok_def)
  let ?due = "sb_pool_size ?b > int (cfg_max_payload (s_cfg s))
     \<or> (sb_pool_size ?b > 0 \<and> now - s_oldest_received s > cfg_send_delay (s_cfg s))"
  obtain r sb where sg: "sb_get ?b = (r, sb)" by (cases "sb_get ?b")
  consider "buf' = buf" "s' = s"
    | payload sn where "r = Inr (payload, sn)" "\<not> (payload_len payload > 0 \<and> sn > 0)"
        "buf' = buf" "s' = s\<lparr>s_send := sb\<rparr>"
    | payload sn head where "r = Inr (payload, sn)" "payload_len payload > 0 \<and> sn > 0"
        "pack_II sn (length (payload_bytes payload)) = Inr head"
        "buf' = wb_app (payload_bytes payload) (wb_app head buf)"
        "s_send s' = sb" "s_wait_ack s' = dset sn (Sent (payload_bytes payload) now) (s_wait_ack s)"
        "s_ack_cont s' = s_ack_cont s"
  proof (cases ?due)
    case False
    then have "get_data_new now buf s = (Inr buf, s)" by (simp only: get_data_new_def Let_def if_False)
    with assms(1) that(1) show ?thesis by simp
  next
    case due: True
    show ?thesis
    proof (cases r)
      case (Inl e)
      with due sg assms(1) show ?thesis by (simp add: get_data_new_def)
    next
      case (Inr ps)
      obtain payload sn where ps: "ps = (payload, sn)" by (cases ps)
      show ?thesis
      proof (cases "payload_len payload > 0 \<and> sn > 0")
        case False
        with due sg assms(1) Inr ps that(2) [of payload sn] show ?thesis by (simp add: get_data_new_def)
      next
        case True
        with due sg assms(1) Inr ps obtain head where "pack_II sn (length (payload_bytes payload)) = Inr head"
          by (cases "pack_II sn (length (payload_bytes payload))") (simp_all add: get_data_new_def Let_def)
        with True due sg assms(1) Inr ps that(3) [of payload sn head] show ?thesis
          by (auto simp: get_data_new_def Let_def)
      qed
    qed
  qed
  then show ?thesis
  proof cases
    case 1
    with assms(2) show ?thesis by simp
  next
    case 2
    with sg have "sb_take ?b = (None, sb)" by (simp add: sb_take_def)
    with sb_take_cases [OF ok] have "sb = ?b" by auto
    with 2 assms(2) show ?thesis by (simp add: window_ok_def)
  next
    case 3
    with sg have "sb_take ?b = (Some (sn, payload_bytes payload), sb)" by (simp add: sb_take_def)
    with sb_take_cases [OF ok] have sb: "sn = sb_tail_sn ?b" "sb_ok sb" "payload_bytes payload \<noteq> []"
      "sb_stream ?b = payload_bytes payload @ sb_stream sb" "sb_tail_sn sb = Suc sn" by auto
    have "head @ payload_bytes payload = frame sn (payload_bytes payload)"
      using 3(3) by (auto simp: pack_II_Inr frame_def)
    then have b: "wb_bytes buf' = wb_bytes buf @ frame (sb_tail_sn ?b) (payload_bytes payload)" using 3(4) sb(1) by simp
    have "window_ok s'"
      using assms(2) 3(5-7) sb by (auto simp: window_ok_def)
    moreover have "sn < 2 ^ 32" "length (payload_bytes payload) < 2 ^ 32" using 3(3) by (auto simp: pack_II_Inr)
    ultimately show ?thesis using b sb 3(5,6) by (intro conjI disjI2 exI [of _ "payload_bytes payload"]) auto
  qed
qed

lemma find_frame: "(n, d) \<in> set bs \<Longrightarrow> distinct (map fst bs) \<Longrightarrow> map_of bs n = Some d"
  by simp

lemma get_data_spec:
  assumes w: "window_ok s" and g: "get_data now s = (Inr buf, s')"
  shows "window_ok s' \<and> (\<exists>bs. wb_bytes buf = frames bs \<and> frames_fit bs \<and> distinct (map fst bs)
     \<and> (\<forall>n. dget (s_wait_ack s') n = (case map_of bs n of None \<Rightarrow> dget (s_wait_ack s) n | Some d \<Rightarrow> Some (Sent d now)))
     \<and> (\<forall>(n, d) \<in> set bs.
          if n = sb_tail_sn (s_send s) then sb_stream (s_send s) = d @ sb_stream (s_send s')
          else (\<exists>t. dget (s_wait_ack s) n = Some (Sent d t) \<and> now - t > cfg_resend_timeout (s_cfg s)))
     \<and> (sb_tail_sn (s_send s) \<notin> fst ` set bs \<longrightarrow> sb_stream (s_send s') = sb_stream (s_send s))
     \<and> (string_len buf \<le> cfg_max_payload (s_cfg s) \<longrightarrow>
         (\<forall>n e. dget (s_wait_ack s) n = Some e \<and> resend_due now (s_cfg s) e \<longrightarrow> n \<in> fst ` set bs)))"
proof -
  obtain r b1 n wl where sc: "resend_scan now (s_cfg s) (s_wait_ack s) (wb_init None) 0 (s_wait_ack s) = (r, b1, n, wl)"
    by (cases "resend_scan now (s_cfg s) (s_wait_ack s) (wb_init None) 0 (s_wait_ack s)") auto
  have dist: "distinct (map fst (s_wait_ack s))" using w by (simp add: window_ok_def)
  have all: "\<forall>(k, e) \<in> set (s_wait_ack s). dget (s_wait_ack s) k = Some e" using dist by auto
  from resend_scan_spec [OF sc dist all] obtain bs where
    B: "wb_bytes b1 = wb_bytes (wb_init None) @ frames bs" and B3: "\<forall>(k, d) \<in> set bs. k < 2 ^ 32 \<and> length d < 2 ^ 32
        \<and> (\<exists>t. (k, Sent d t) \<in> set (s_wait_ack s) \<and> now - t > cfg_resend_timeout (s_cfg s))"
      and B4: "\<forall>k. dget wl k = (case map_of bs k of None \<Rightarrow> dget (s_wait_ack s) k | Some d \<Rightarrow> Some (Sent d now))"
      and B': "distinct (map fst bs)" "dkeys wl = dkeys (s_wait_ack s)"
      "r = Inr False \<longrightarrow> (\<forall>(k, e) \<in> set (s_wait_ack s). resend_due now (s_cfg s) e \<longrightarrow> k \<in> fst ` set bs)"
      "r = Inr True \<longrightarrow> cfg_max_payload (s_cfg s) < string_len b1"
    by (elim exE conjE) (rule that; assumption)
  have B1: "wb_bytes b1 = frames bs" using B by simp
  have B2: "\<forall>(k, d) \<in> set bs. \<exists>t. (k, Sent d t) \<in> set (s_wait_ack s) \<and> now - t > cfg_resend_timeout (s_cfg s)"
    using B3 by blast
  have fit: "frames_fit bs" using B3 by (auto simp: frames_fit_def)
  note bs = B1 B'(1) B2 B4 [THEN spec] B'(2-4)
  let ?s1 = "s\<lparr>s_wait_ack := wl, s_ctx := (s_ctx s)\<lparr>x_resend := x_resend (s_ctx s) + n\<rparr>\<rparr>"
  let ?T = "sb_tail_sn (s_send s)"
  have w1: "window_ok ?s1" using w dict_ok_keys [OF bs(5)] by (simp add: window_ok_def)
  have old: "?T \<notin> fst ` set bs"
  proof
    assume "?T \<in> fst ` set bs"
    with bs(3) have "?T \<in> fst ` set (s_wait_ack s)" by force
    with w show False by (simp add: window_ok_def)
  qed
  have resent: "\<forall>(k, d) \<in> set bs. k \<noteq> ?T \<and> (\<exists>t. dget (s_wait_ack s) k = Some (Sent d t) \<and> now - t > cfg_resend_timeout (s_cfg s))"
  proof (clarify)
    fix k d assume m: "(k, d) \<in> set bs"
    with bs(3) obtain t where t: "(k, Sent d t) \<in> set (s_wait_ack s)" "now - t > cfg_resend_timeout (s_cfg s)" by blast
    from m old have "k \<noteq> ?T" by force
    moreover from t(1) all have "dget (s_wait_ack s) k = Some (Sent d t)" by blast
    ultimately show "k \<noteq> ?T \<and> (\<exists>t. dget (s_wait_ack s) k = Some (Sent d t) \<and> now - t > cfg_resend_timeout (s_cfg s))"
      using t(2) by blast
  qed
  have complete: "\<forall>n e. dget (s_wait_ack s) n = Some e \<and> resend_due now (s_cfg s) e \<longrightarrow> n \<in> fst ` set bs"
    if "r = Inr False" using bs(6) that by (auto dest!: map_of_SomeD)
  consider "r = Inr True" "buf = b1" "s' = ?s1" | "r = Inr False" "get_data_new now b1 ?s1 = (Inr buf, s')"
    using g sc by (auto simp: get_data_def Let_def split: sum.splits bool.splits)
  then show ?thesis
  proof cases
    case 1
    with w1 bs fit resent old show ?thesis by (intro conjI exI [of _ bs]) (auto split: option.splits)
  next
    case 2
    from get_data_new_spec [OF 2(2) w1] have w': "window_ok s'" by blast
    from get_data_new_spec [OF 2(2) w1] consider
      "buf = b1" "s_wait_ack s' = wl" "sb_stream (s_send s') = sb_stream (s_send s)"
      | d where "d \<noteq> []" "?T < 2 ^ 32" "length d < 2 ^ 32" "wb_bytes buf = wb_bytes b1 @ frame ?T d" "s_wait_ack s' = dset ?T (Sent d now) wl"
        "sb_stream (s_send s) = d @ sb_stream (s_send s')" by auto
    then show ?thesis
    proof cases
      case 1
      with w' bs fit resent old complete [OF \<open>r = Inr False\<close>] show ?thesis
        by (intro conjI exI [of _ bs]) (auto split: option.splits)
    next
      case (2 d)
      have "map_of bs ?T = None" using old by (simp add: map_of_eq_None_iff)
      with 2 w' bs fit resent old complete [OF \<open>r = Inr False\<close>] show ?thesis
        by (intro conjI exI [of _ "bs @ [(?T, d)]"]) (auto simp: map_add_def split: option.splits)
    qed
  qed
qed


lemma ack_loop_keys: "dkeys (snd (ack_loop r wl)) = dkeys wl"
proof (induction r wl rule: ack_loop.induct)
  case (1 ack wl)
  have k: "dkeys (if dmem sn wl then dset sn Acked wl else wl) = dkeys wl" for sn
    by (simp add: update_keys)
  show ?case
    using "1.IH" k
    by (subst ack_loop.simps) (auto simp: Let_def split: prod.splits sum.splits)
qed

lemma dict_ok_drop_acked: "dict_ok wl \<Longrightarrow> dict_ok (snd (drop_acked n wl))"
proof (induction n wl rule: drop_acked.induct)
  case (1 n wl)
  then show ?case by (subst drop_acked.simps) (auto simp: distinct_delete)
qed

lemma keys_dom: "fst ` set d = dom (map_of d)"
  by (simp add: dom_map_of_conv_image_fst)

lemma window_ok_ack: "window_ok s \<Longrightarrow> window_ok (ack_process r s)"
proof -
  assume w: "window_ok s"
  obtain b r1 where g: "rb_get (Some 4) r = (b, r1)" by (cases "rb_get (Some 4) r")
  show ?thesis
  proof (cases "unpack_u 4 b")
    case (Inl e)
    with g w show ?thesis by (simp add: ack_process_def xunpack_b_def)
  next
    case (Inr la)
    obtain e wl where al: "ack_loop r1 (s_wait_ack s) = (e, wl)" by (cases "ack_loop r1 (s_wait_ack s)")
    then have keys: "dkeys wl = dkeys (s_wait_ack s)" using ack_loop_keys [of r1 "s_wait_ack s"] by simp
    show ?thesis
    proof (cases e)
      case (Some x)
      with g Inr al w dict_ok_keys [OF keys] show ?thesis
        by (simp add: ack_process_def window_ok_def xunpack_b_def)
    next
      case None
      let ?wl = "dmap (\<lambda>sn x. if sn > la then x else Acked) wl"
      obtain n wl2 where da: "drop_acked (s_ack_cont s) ?wl = (n, wl2)" by (cases "drop_acked (s_ack_cont s) ?wl")
      note d = drop_acked_spec [where n = "s_ack_cont s" and wl = ?wl, unfolded da fst_conv snd_conv]
      have "dkeys ?wl = dkeys (s_wait_ack s)" using keys by (simp add: dkeys_dmap)
      note k = dict_ok_keys [OF this]
      have dom: "dom (map_of ?wl) = {s_ack_cont s <..< sb_tail_sn (s_send s)}"
        using k w by (simp add: window_ok_def flip: keys_dom)
      have "n < sb_tail_sn (s_send s)"
      proof (cases "n = s_ack_cont s")
        case False
        with d(1,3) have "dget ?wl n = Some Acked" by simp
        then have "n \<in> dom (map_of ?wl)" by blast
        with dom show ?thesis by simp
      qed (use w in \<open>simp add: window_ok_def\<close>)
      moreover have "fst ` set wl2 = {n <..< sb_tail_sn (s_send s)}"
      proof -
        have "x \<in> dom (map_of wl2) \<longleftrightarrow> x \<in> dom (map_of ?wl) \<and> \<not> (s_ack_cont s < x \<and> x \<le> n)" for x
          using d(2) [of x] by (auto simp: dom_def)
        with dom d(1) show ?thesis unfolding keys_dom by (intro set_eqI) (auto simp del: domIff)
      qed
      moreover have "dict_ok wl2" using dict_ok_drop_acked [of ?wl "s_ack_cont s"] k w da by (simp add: window_ok_def)
      ultimately show ?thesis
        using g Inr al None da w by (simp add: ack_process_def window_ok_def xunpack_b_def)
    qed
  qed
qed

lemma send_conn_data_fields:
  assumes "send_conn_data now cid d s = Some (e, s')"
  shows "s' = s\<lparr>s_send := s_send s', s_wait := s_wait s', s_oldest_received := s_oldest_received s'\<rparr>"
    and "(s_send s' = s_send s \<or> (s_running s \<and> e = None \<and> cid < 2 ^ 32 \<and> length d < 2 ^ 32
       \<and> sb_add now (frame cid d) (s_send s) = Some (s_send s')))"
proof -
  consider "s' = s" | h sb where "pack_II cid (length d) = Inr h" "sb_add now (h @ d) (s_send s) = Some sb"
      "s_running s" "e = None" "s_send s' = sb" "s' = s\<lparr>s_send := s_send s', s_wait := s_wait s', s_oldest_received := s_oldest_received s'\<rparr>"
    using assms
    by (auto simp: send_conn_data_def Let_def split: if_splits sum.splits option.splits)
  note * = this
  show "s' = s\<lparr>s_send := s_send s', s_wait := s_wait s', s_oldest_received := s_oldest_received s'\<rparr>"
    using * by cases auto
  show "(s_send s' = s_send s \<or> (s_running s \<and> e = None \<and> cid < 2 ^ 32 \<and> length d < 2 ^ 32
       \<and> sb_add now (frame cid d) (s_send s) = Some (s_send s')))"
    using *
  proof cases
    case 2
    then show ?thesis by (auto simp: pack_II_Inr frame_def)
  qed simp
qed


lemma window_ok_send:
  assumes "window_ok s" "send_conn_data now cid d s = Some (e, s')" shows "window_ok s'"
proof -
  note f = send_conn_data_fields [OF assms(2)]
  have same: "s_wait_ack s' = s_wait_ack s" "s_ack_cont s' = s_ack_cont s" by (subst f(1), simp)+
  from assms(1) have ok: "sb_ok (s_send s)" by (simp add: window_ok_def)
  from f(2) have "sb_ok (s_send s') \<and> sb_tail_sn (s_send s') = sb_tail_sn (s_send s)"
    using sb_add_spec [OF ok, of now "frame cid d"] ok by auto
  with assms(1) same show ?thesis by (simp add: window_ok_def)
qed

text \<open>
  The upload side as a state machine: bytes of connections come in, requests take blocks out,
  acknowledgements come back.
\<close>

inductive window_step :: "sess \<Rightarrow> sess \<Rightarrow> bool" where
  put: "send_conn_data now cid d s = Some (e, s') \<Longrightarrow> window_step s s'"
| take: "get_data now s = (Inr buf, s') \<Longrightarrow> window_step s s'"
| ack: "window_step s (ack_process r s)"

inductive_cases window_stepE: "window_step s s'"

inductive window_reachable :: "sess \<Rightarrow> bool" where
  start: "0 < cfg_max_payload (s_cfg s) \<Longrightarrow> sb_max_payload (s_send s) = cfg_max_payload (s_cfg s) \<Longrightarrow>
    session_start decrypt sid now attempts s = (True, s') \<Longrightarrow> \<not> s_running s \<Longrightarrow> window_reachable s'"
| step: "window_reachable s \<Longrightarrow> window_step s s' \<Longrightarrow> window_reachable s'"

lemma login_keeps:
  "login_session decrypt now attempts s = (b, s') \<Longrightarrow> s' = s\<lparr>s_ctx := s_ctx s'\<rparr>"
proof -
  have p: "parse_login_response decrypt c s = (b, s') \<Longrightarrow> s' = s\<lparr>s_ctx := s_ctx s'\<rparr>" for decrypt c b s s'
    by (auto simp: parse_login_response_def split: sum.splits if_splits)
  have a: "login_attempts decrypt t0 attempts s = (b, s') \<Longrightarrow> s' = s\<lparr>s_ctx := s_ctx s'\<rparr>" for decrypt t0 attempts b s s'
    by (induction decrypt t0 attempts s rule: login_attempts.induct)
       (auto split: if_splits login_outcome.splits intro: p)
  show "login_session decrypt now attempts s = (b, s') \<Longrightarrow> ?thesis"
    unfolding login_session_def by (auto split: if_splits intro: a)
qed

lemma sb_reset_fresh: "0 < sb_max_payload b \<Longrightarrow> sb_ok (sb_reset b)"
  by (simp add: sb_reset_def sb_ok_def sb_pre_def sb_stream_def wb_init_def wb_reset_def wb_ok_def wb_bytes_def)

lemma session_start_fields:
  assumes "session_start decrypt sid now attempts s = (True, s')" "\<not> s_running s"
  shows "s_running s'" "s_wait_ack s' = []" "s_ack_cont s' = 0" "s_send s' = sb_reset (s_send s)"
    "s_conn_list s' = []" "s_transfers s' = []" "s_recv s' = rcv_reset (s_recv s)" "s_cfg s' = s_cfg s"
    "s_on_road_num s' = 0" "s_target_on_roads s' = 0" "s_last_conn_id s' = 0"
proof -
  obtain s1 where l: "login_session decrypt now attempts (start_reset sid now s) = (True, s1)"
    using assms by (auto simp: session_start_def split: prod.splits bool.splits)
  note k = login_keeps [OF l]
  have s': "s' = pipe_start (s1\<lparr>s_running := True, s_wait := wq_reset (s_wait s1),
             s_send := sb_reset (s_send s1), s_recv := rcv_reset (s_recv s1),
             s_tasks := s_tasks s1 + nat (cfg_concurent_thread_num (s_cfg s1)) + 1\<rparr>)"
    using assms l by (simp add: session_start_def)
  show "s_running s'" "s_wait_ack s' = []" "s_ack_cont s' = 0" "s_send s' = sb_reset (s_send s)"
    "s_conn_list s' = []" "s_transfers s' = []" "s_recv s' = rcv_reset (s_recv s)" "s_cfg s' = s_cfg s"
    "s_on_road_num s' = 0" "s_target_on_roads s' = 0" "s_last_conn_id s' = 0"
    unfolding s' by (simp add: pipe_start_def, subst k, simp add: start_reset_def)+
qed

text \<open>
  C3. From a session start on, whatever mix of connection data, requests and (well-formed or
  malformed) acknowledgements happens, the unacknowledged blocks are exactly the ones between
  the acknowledged prefix and the send buffer's next number: no block is ever forgotten before
  the server has acknowledged it and everything before it.
\<close>

theorem window_never_has_gaps:
  assumes "window_reachable s"
  shows "fst ` set (s_wait_ack s) = {s_ack_cont s <..< sb_tail_sn (s_send s)} \<and> dict_ok (s_wait_ack s)"
proof -
  from assms have "window_ok s"
  proof (induction rule: window_reachable.induct)
    case (start s decrypt sid now attempts s')
    note f = session_start_fields [OF start(3,4)]
    have "sb_ok (s_send s')" using start(1,2) f(4) by (simp add: sb_reset_fresh)
    moreover have "sb_tail_sn (s_send s') = 1" using f(4) by (simp add: sb_reset_def)
    ultimately show ?case using f by (auto simp: window_ok_def)
  next
    case (step s s')
    from step.hyps(2) step.IH show ?case
      by (elim window_stepE) (auto dest: window_ok_send get_data_spec intro: window_ok_ack)
  qed
  then show ?thesis by (simp add: window_ok_def)
qed

text \<open>
  C4. A request's data is a sequence of block frames.  Every block in it is held, with the
  current time, until it is acknowledged; a block sent again carries the same bytes as before
  and was overdue; a new block has the next number and is the head of the byte stream; nothing
  else changes in the window, no overdue block is left out unless the request is full, and the
  window stays without gaps.
\<close>

theorem request_data:
  assumes w: "window_ok s" and g: "get_data now s = (Inr buf, s')"
  shows "window_ok s' \<and> (\<exists>bs. wb_bytes buf = frames bs \<and> frames_fit bs \<and> distinct (map fst bs)
     \<and> (\<forall>n. dget (s_wait_ack s') n = (case map_of bs n of None \<Rightarrow> dget (s_wait_ack s) n | Some d \<Rightarrow> Some (Sent d now)))
     \<and> (\<forall>(n, d) \<in> set bs.
          if n = sb_tail_sn (s_send s) then sb_stream (s_send s) = d @ sb_stream (s_send s')
          else (\<exists>t. dget (s_wait_ack s) n = Some (Sent d t) \<and> now - t > cfg_resend_timeout (s_cfg s)))
     \<and> (sb_tail_sn (s_send s) \<notin> fst ` set bs \<longrightarrow> sb_stream (s_send s') = sb_stream (s_send s))
     \<and> (string_len buf \<le> cfg_max_payload (s_cfg s) \<longrightarrow>
         (\<forall>n e. dget (s_wait_ack s) n = Some e \<and> resend_due now (s_cfg s) e \<longrightarrow> n \<in> fst ` set bs)))"
  using w g by (rule get_data_spec)

end
