(* ===== verification/Session_Props.thy ===== *)
theory Session_Props
  imports Session_Window
begin

text \<open>
  Properties of the session that rest on its other parts: framing and delivery of the download
  direction, requests on the road, retries, opening a connection, stopping.
\<close>

subsection \<open>Frames read back\<close>

lemma frame_split:
  assumes "rb_ok r" "rb_to_bytes r = frame n d @ rest" "n < 2 ^ 32" "length d < 2 ^ 32"
  obtains h r1 p r2 where "rb_get (Some 8) r = (h, r1)" "unpack_II h = Inr (n, length d)"
    "rb_get_buf (Some (length d)) r1 = (p, r2)" "rb_ok p" "rb_to_bytes p = d" "rb_ok r2" "rb_to_bytes r2 = rest"
    "rb_size r \<noteq> 0"
proof -
  obtain h r1 where g: "rb_get (Some 8) r = (h, r1)" by (cases "rb_get (Some 8) r")
  from rb_get_spec [OF g assms(1)] assms(2)
  have h: "h = le_bytes 4 n @ le_bytes 4 (length d)" "rb_to_bytes r1 = d @ rest" "rb_ok r1"
    by (simp_all add: frame_def)
  then have u: "unpack_II h = Inr (n, length d)"
    using unpack_II_pack_II [of n "length d" h] assms(3,4) by (simp add: pack_II_Inr)
  obtain p r2 where p: "rb_get_buf (Some (length d)) r1 = (p, r2)" by (cases "rb_get_buf (Some (length d)) r1")
  have "rb_size r \<noteq> 0" using assms(1,2) length_rb_to_bytes [of r] by (auto simp: frame_def)
  with rb_get_buf_spec [OF p h(3)] h(2) g u p show thesis by (auto intro!: that)
qed

fun put_all :: "conn_env \<Rightarrow> time \<Rightarrow> (nat \<times> read_buffer) list \<Rightarrow> sess \<Rightarrow> sess option" where
  "put_all env now [] s = Some s"
| "put_all env now ((n, p) # ps) s = (case receive_put env now n p s of None \<Rightarrow> None | Some s1 \<Rightarrow> put_all env now ps s1)"

fun op_all :: "conn_env \<Rightarrow> time \<Rightarrow> (nat \<times> read_buffer) list \<Rightarrow> sess \<Rightarrow> op_res" where
  "op_all env now [] s = Some (None, s)"
| "op_all env now ((cid, p) # ps) s = (case on_conn_data env now cid p s of
      None \<Rightarrow> None | Some (Some e, s1) \<Rightarrow> Some (Some e, s1) | Some (None, s1) \<Rightarrow> op_all env now ps s1)"

lemma empty_size: "rb_ok r \<Longrightarrow> rb_to_bytes r = [] \<Longrightarrow> rb_size r = 0"
  using length_rb_to_bytes [of r] by simp

lemma data_loop_frames:
  "rb_ok r \<Longrightarrow> rb_to_bytes r = frames bs \<Longrightarrow> frames_fit bs \<Longrightarrow>
   \<exists>ps. map (\<lambda>(n, p). (n, rb_to_bytes p)) ps = bs \<and> (\<forall>(n, p) \<in> set ps. rb_ok p)
     \<and> (\<forall>env now s. data_loop env now r s = map_option (Pair None) (put_all env now ps s))"
proof (induction bs arbitrary: r)
  case Nil
  then have "rb_size r = 0" by (simp add: empty_size)
  then show ?case by (intro exI [of _ "[]"]) (simp add: data_loop.simps [of _ _ r])
next
  case (Cons b bs)
  obtain n d where b: "b = (n, d)" by (cases b)
  from Cons.prems b have "rb_to_bytes r = frame n d @ frames bs" "n < 2 ^ 32" "length d < 2 ^ 32" "frames_fit bs"
    by auto
  with Cons.prems(1) obtain h r1 p r2 where f: "rb_get (Some 8) r = (h, r1)" "unpack_II h = Inr (n, length d)"
    "rb_get_buf (Some (length d)) r1 = (p, r2)" "rb_ok p" "rb_to_bytes p = d" "rb_ok r2" "rb_to_bytes r2 = frames bs"
    "rb_size r \<noteq> 0" by (metis frame_split)
  from Cons.IH [OF f(6,7) \<open>frames_fit bs\<close>] obtain ps where
    ps: "map (\<lambda>(n, p). (n, rb_to_bytes p)) ps = bs" "\<forall>(n, p) \<in> set ps. rb_ok p"
      "\<And>env now s. data_loop env now r2 s = map_option (Pair None) (put_all env now ps s)" by blast
  have "data_loop env now r s = map_option (Pair None) (put_all env now ((n, p) # ps) s)" for env now s
    using f(1,2,3,8) ps(3) by (subst data_loop.simps) (simp add: xunpack_b_def split: option.split)
  with ps f b show ?case by (intro exI [of _ "(n, p) # ps"]) auto
qed

lemma dl_loop_frames:
  "rb_ok r \<Longrightarrow> rb_to_bytes r = frames bs \<Longrightarrow> frames_fit bs \<Longrightarrow>
   \<exists>ps. map (\<lambda>(n, p). (n, rb_to_bytes p)) ps = bs \<and> (\<forall>(n, p) \<in> set ps. rb_ok p)
     \<and> (\<forall>env now s. dl_loop env now r s = op_all env now ps s)"
proof (induction bs arbitrary: r)
  case Nil
  then have "rb_size r = 0" by (simp add: empty_size)
  then show ?case by (intro exI [of _ "[]"]) (simp add: dl_loop.simps [of _ _ r])
next
  case (Cons b bs)
  obtain n d where b: "b = (n, d)" by (cases b)
  from Cons.prems b have "rb_to_bytes r = frame n d @ frames bs" "n < 2 ^ 32" "length d < 2 ^ 32" "frames_fit bs"
    by auto
  with Cons.prems(1) obtain h r1 p r2 where f: "rb_get (Some 8) r = (h, r1)" "unpack_II h = Inr (n, length d)"
    "rb_get_buf (Some (length d)) r1 = (p, r2)" "rb_ok p" "rb_to_bytes p = d" "rb_ok r2" "rb_to_bytes r2 = frames bs"
    "rb_size r \<noteq> 0" by (metis frame_split)
  from Cons.IH [OF f(6,7) \<open>frames_fit bs\<close>] obtain ps where
    ps: "map (\<lambda>(n, p). (n, rb_to_bytes p)) ps = bs" "\<forall>(n, p) \<in> set ps. rb_ok p"
      "\<And>env now s. dl_loop env now r2 s = op_all env now ps s" by blast
  have "dl_loop env now r s = op_all env now ((n, p) # ps) s" for env now s
    using f(1,2,3,8) ps(3)
    by (subst dl_loop.simps) (simp add: xunpack_b_def on_conn_data_def split: option.split)
  with ps f b show ?case by (intro exI [of _ "(n, p) # ps"]) auto
qed


text \<open>
  C5. What one end sends is what the other end's loop takes in: the data part of a request,
  read by \<^verbatim>\<open>round_trip_process\<close>, puts exactly the blocks that the sender now holds under
  their numbers into the receiver, in the order they were written, and leaves no rest.
\<close>

theorem request_data_delivered:
  assumes "window_ok s" "get_data now s = (Inr buf, s')" "rb_ok r" "rb_to_bytes r = wb_bytes buf"
  shows "\<exists>ps. (\<forall>(n, p) \<in> set ps. rb_ok p \<and> dget (s_wait_ack s') n = Some (Sent (rb_to_bytes p) now))
     \<and> frames (map (\<lambda>(n, p). (n, rb_to_bytes p)) ps) = wb_bytes buf
     \<and> (\<forall>env t q. data_loop env t r q = map_option (Pair None) (put_all env t ps q))"
proof -
  from get_data_spec [OF assms(1,2)] obtain bs where
    bs: "wb_bytes buf = frames bs" "frames_fit bs" "distinct (map fst bs)"
      "\<forall>n. dget (s_wait_ack s') n = (case map_of bs n of None \<Rightarrow> dget (s_wait_ack s) n | Some d \<Rightarrow> Some (Sent d now))"
    by blast
  with assms(3,4) obtain ps where ps: "map (\<lambda>(n, p). (n, rb_to_bytes p)) ps = bs" "\<forall>(n, p) \<in> set ps. rb_ok p"
    "\<forall>env t q. data_loop env t r q = map_option (Pair None) (put_all env t ps q)"
    using data_loop_frames [of r bs] by metis
  have "dget (s_wait_ack s') n = Some (Sent (rb_to_bytes p) now)" if "(n, p) \<in> set ps" for n p
  proof -
    from that ps(1) have "(n, rb_to_bytes p) \<in> set bs" by force
    with bs(3,4) show ?thesis by simp
  qed
  with ps bs(1) show ?thesis by (intro exI [of _ ps]) auto
qed

subsection \<open>What the connections' actions leave alone\<close>

definition core :: "sess \<Rightarrow> session_cfg \<times> xctx \<times> read_buffer receive_process \<times> bool \<times> bytes
    \<times> (nat, wait_entry) dict \<times> nat \<times> (nat, transfer) dict \<times> int \<times> nat \<times> nat" where
  "core s = (s_cfg s, s_ctx s, s_recv s, s_running s, s_session_id s, s_wait_ack s, s_ack_cont s,
     s_transfers s, s_on_road_num s, s_last_conn_id s, s_next_obj s)"

lemma core_send: "send_conn_data now cid d s = Some (e, s') \<Longrightarrow> core s' = core s"
  by (drule send_conn_data_fields(1), drule arg_cong [where f = core]) (simp add: core_def)

lemma core_action: "run_action now a act s = Some (e, s') \<Longrightarrow> core s' = core s"
  by (cases act) (auto simp: run_action_def remove_conn_async_def add_sock_def Let_def core_send
      split: if_splits, auto simp: core_def)

lemma core_actions: "run_actions now a acts s = Some (e, s') \<Longrightarrow> core s' = core s"
proof (induction acts arbitrary: s)
  case (Cons act acts)
  then obtain x s1 where x: "run_action now a act s = Some (x, s1)"
    "(case x of None \<Rightarrow> run_actions now a acts s1 | Some x \<Rightarrow> Some (Some x, s1)) = Some (e, s')"
    by (auto simp: bind_eq_Some_conv)
  from core_action [OF x(1)] x(2) Cons.IH [of s1] show ?case by (cases x) auto
qed simp

lemma core_conn_op: "conn_op now a f s = Some (e, s') \<Longrightarrow> core s' = core s"
  by (auto simp: conn_op_def bind_eq_Some_conv split: option.splits prod.splits dest!: core_actions)
     (auto simp: core_def)

lemma core_dl_loop: "dl_loop env now p s = Some (e, s') \<Longrightarrow> core s' = core s"
proof (induction env now p s arbitrary: e s' rule: dl_loop.induct)
  case (1 env now payload s)
  show ?case
    using "1.prems" "1.IH"
    by (subst (asm) dl_loop.simps)
       (auto simp: Let_def split: if_splits prod.splits sum.splits option.splits dest!: core_conn_op)
qed

lemma core_download: "download_data_processor env now d s = Some s' \<Longrightarrow> core s' = core s"
  by (auto simp: download_data_processor_def split: option.splits dest: core_dl_loop)

lemma core_handle_all: "handle_all env now ds s = Some s' \<Longrightarrow> core s' = core s"
  by (induction env now ds s rule: handle_all.induct) (auto simp: bind_eq_Some_conv dest: core_download)

text \<open>Delivering blocks changes of the core only the receiver.\<close>

definition core1 :: "sess \<Rightarrow> session_cfg \<times> xctx \<times> bool \<times> bytes
    \<times> (nat, wait_entry) dict \<times> nat \<times> (nat, transfer) dict \<times> int \<times> nat \<times> nat" where
  "core1 s = (s_cfg s, s_ctx s, s_running s, s_session_id s, s_wait_ack s, s_ack_cont s,
     s_transfers s, s_on_road_num s, s_last_conn_id s, s_next_obj s)"

lemma core_core1: "core s' = core s \<Longrightarrow> core1 s' = core1 s \<and> s_recv s' = s_recv s"
  by (simp add: core_def core1_def)

lemma core1_receive_put: "receive_put env now n p s = Some s' \<Longrightarrow>
   core1 s' = core1 s \<and> s_recv s' = snd (rcv_put n p (s_recv s))"
  unfolding receive_put_def
  by (auto simp: Let_def split: prod.splits dest!: core_handle_all core_core1) (auto simp: core1_def)

lemma core1_data_loop: "data_loop env now p s = Some (e, s') \<Longrightarrow> core1 s' = core1 s"
proof (induction env now p s arbitrary: e s' rule: data_loop.induct)
  case (1 env now payload s)
  show ?case
    using "1.prems" "1.IH"
    by (subst (asm) data_loop.simps)
       (auto simp: Let_def split: if_splits prod.splits sum.splits option.splits dest!: core1_receive_put)
qed

subsection \<open>Opening a connection\<close>

lemma connect_cmd_parse:
  assumes "connect_cmd h port = Inr m" shows "peer_parse m = (Inr 0, Inr (CmdConnect 0 h port))"
proof -
  from assms have fit: "length h < 256 ^ 2" "port < 256 ^ 2"
    and m: "m = le_bytes 4 0 @ char_of (0::nat) # char_of (0::nat) # le_bytes 2 (length h) @ h @ le_bytes 2 port"
    by (auto simp: connect_cmd_def pack_us_Inr split: sum.splits)
  show ?thesis unfolding m
    by (rule peer_parse_body, simp, rule parse_cmd_connect) (use fit in simp_all)
qed

lemma trigger_more_fields: "trigger_more s = s\<lparr>s_wait := s_wait (trigger_more s)\<rparr>"
  by (simp add: trigger_more_def Let_def)

lemma conn_start_fields:
  "conn_start env cid a s = s\<lparr>s_pipe := s_pipe (conn_start env cid a s), s_objs := s_objs (conn_start env cid a s)\<rparr>"
  by (simp add: conn_start_def add_sock_def split: option.split)

lemma conn_start_obj:
  "dget (s_objs s) a = Some c \<Longrightarrow> \<exists>w. dget (s_objs (conn_start env cid a s)) a = Some (c\<lparr>has_writer := w\<rparr>)"
  by (auto simp: conn_start_def add_sock_def intro: exI [of _ "has_writer c"])

lemma create_conn_spec:
  assumes "create_conn env now (HostBytes h) port s = Some (Inr (Some cid), s')"
  shows "s_running s \<and> s_running s' \<and> cid = s_last_conn_id s + 2 \<and> s_last_conn_id s' = cid
     \<and> dget (s_conn_list s') cid = Some (s_next_obj s)
     \<and> (\<exists>m w. connect_cmd h port = Inr m
          \<and> dget (s_objs s') (s_next_obj s) = Some (conn_init now cid True (ascii_replace h) port
              (cfg_windows_size (s_cfg s)) (cfg_windows_ack (s_cfg s)) True\<lparr>has_writer := w\<rparr>)
          \<and> cid < 2 ^ 32 \<and> length m < 2 ^ 32 \<and> sb_add now (frame cid m) (s_send s) = Some (s_send s'))"
proof -
  let ?cid = "s_last_conn_id s + 2" let ?s1 = "s\<lparr>s_last_conn_id := ?cid\<rparr>"
  have run: "s_running s" using assms by (auto simp: create_conn_def split: if_splits)
  obtain m where m: "connect_cmd h port = Inr m"
    using assms run by (auto simp: create_conn_def encode_host_def Let_def split: sum.splits)
  obtain e s2 where sd: "send_conn_data now ?cid m ?s1 = Some (e, s2)"
    using assms run m by (auto simp: create_conn_def encode_host_def Let_def bind_eq_Some_conv)
  have e: "e = None" and cid: "cid = ?cid"
    using assms run m sd by (auto simp: create_conn_def encode_host_def Let_def bind_eq_Some_conv split: option.splits)
  define a where "a = s_next_obj s2"
  define s3 where "s3 = s2\<lparr>s_objs := dset a (conn_init now ?cid True (ascii_replace h) port
      (cfg_windows_size (s_cfg s2)) (cfg_windows_ack (s_cfg s2)) True) (s_objs s2), s_next_obj := a + 1,
      s_conn_list := dset ?cid a (s_conn_list s2)\<rparr>"
  define s4 where "s4 = s3\<lparr>s_target_on_roads :=
      min (cfg_concurent_thread_num (s_cfg s3) - cfg_min_on_road (s_cfg s3)) (s_target_on_roads s3 + 2)\<rparr>"
  have s': "s' = conn_start env ?cid a (trigger_more s4)"
    using assms run m sd e unfolding a_def s3_def s4_def
    by (auto simp: create_conn_def encode_host_def Let_def)
  have c2: "core s2 = core ?s1" using core_send [OF sd] .
  then have a: "a = s_next_obj s" "s_cfg s2 = s_cfg s" by (simp_all add: a_def core_def)
  have add: "sb_add now (frame ?cid m) (s_send s) = Some (s_send s2) \<and> ?cid < 2 ^ 32 \<and> length m < 2 ^ 32"
    using sd run e by (auto simp: send_conn_data_def pack_II_Inr frame_def Let_def
        split: sum.splits option.splits if_splits)
  have send: "s_send s' = s_send s2"
    unfolding s' by (subst conn_start_fields, simp, subst trigger_more_fields, simp add: s4_def s3_def)
  have lst: "s_conn_list s' = s_conn_list s3" "s_last_conn_id s' = s_last_conn_id s2" "s_running s' = s_running s2"
    unfolding s' by (subst conn_start_fields, simp, subst trigger_more_fields, simp add: s4_def s3_def)+
  have "s_objs (trigger_more s4) = s_objs s3" by (subst trigger_more_fields) (simp add: s4_def)
  then have "dget (s_objs (trigger_more s4)) a = Some (conn_init now ?cid True (ascii_replace h) port
      (cfg_windows_size (s_cfg s2)) (cfg_windows_ack (s_cfg s2)) True)" by (simp add: s3_def)
  from conn_start_obj [OF this, of env ?cid] obtain w where
    "dget (s_objs s') a = Some (conn_init now ?cid True (ascii_replace h) port
      (cfg_windows_size (s_cfg s)) (cfg_windows_ack (s_cfg s)) True\<lparr>has_writer := w\<rparr>)"
    using s' a(2) by auto
  with run cid m add send lst a c2 show ?thesis by (auto simp: s3_def core_def)
qed

text \<open>
  C8. Opening a connection takes a fresh even-stepped number, registers a connection object
  under it, and puts exactly one framed message into the upload stream, which the peer reads as
  number 0: connect to that host and port; the object continues with number 1.
\<close>

theorem open_announced:
  assumes "create_conn env now (HostBytes h) port s = Some (Inr (Some cid), s')" and "sb_ok (s_send s)"
  shows "cid = s_last_conn_id s + 2 \<and> (\<exists>m a c. sb_stream (s_send s') = sb_stream (s_send s) @ frame cid m
     \<and> peer_parse m = (Inr 0, Inr (CmdConnect 0 h port))
     \<and> dget (s_conn_list s') cid = Some a \<and> dget (s_objs s') a = Some c
     \<and> conn_id c = cid \<and> next_recv_seq c = 1 \<and> next_cmd_seq c = 1 \<and> c_running c)"
proof -
  from create_conn_spec [OF assms(1)] obtain m w where *: "cid = s_last_conn_id s + 2"
    "dget (s_conn_list s') cid = Some (s_next_obj s)" "connect_cmd h port = Inr m"
    "dget (s_objs s') (s_next_obj s) = Some (conn_init now cid True (ascii_replace h) port
        (cfg_windows_size (s_cfg s)) (cfg_windows_ack (s_cfg s)) True\<lparr>has_writer := w\<rparr>)"
    "sb_add now (frame cid m) (s_send s) = Some (s_send s')" by blast
  have "sb_stream (s_send s') = sb_stream (s_send s) @ frame cid m"
    using sb_add_spec [OF assms(2), of now "frame cid m"] *(5) by auto
  with * connect_cmd_parse [OF *(3)] show ?thesis by (auto simp: conn_init_def)
qed

subsection \<open>Stopping\<close>

lemma stop_async_idle: "\<not> c_running c \<Longrightarrow> reason \<noteq> ''reader_end'' \<Longrightarrow> stop_async reason c = (c, [])"
  by (simp add: stop_async_def)

lemma stop_async_removes: "c_running c \<Longrightarrow> RemoveConn (conn_id c) \<in> set (snd (stop_async reason c))"
  by (simp add: stop_async_def)

lemma close_listed_None:
  "close_listed items s = None \<longleftrightarrow> (\<exists>(cid, a) \<in> set items. \<exists>c. dget (s_objs s) a = Some c \<and> c_running c)"
proof (induction items arbitrary: s)
  case (Cons i items)
  obtain cid a where i: "i = (cid, a)" by (cases i)
  show ?case
  proof (cases "dget (s_objs s) a")
    case None
    with Cons.IH i show ?thesis by simp
  next
    case (Some c)
    show ?thesis
    proof (cases "c_running c")
      case True
      obtain c' acts where "stop_async ''session_stop'' c = (c', acts)" by (cases "stop_async ''session_stop'' c")
      with stop_async_removes [OF True, of "''session_stop''"] i Some True show ?thesis by auto
    next
      case False
      have same: "dget (dset a c (s_objs s)) b = dget (s_objs s) b" for b using Some by simp
      have "close_listed (i # items) s = close_listed items (s\<lparr>s_objs := dset a c (s_objs s), s_outs := s_outs s @ []\<rparr>)"
        using stop_async_idle [OF False, of "''session_stop''"] i Some by simp
      with Cons.IH [of "s\<lparr>s_objs := dset a c (s_objs s), s_outs := s_outs s @ []\<rparr>"] False i Some
      show ?thesis by (simp add: same del: dget_dset)
    qed
  qed
qed simp

text \<open>
  C12. Stopping a running session never returns as long as one of its connections is running:
  the connection's own shutdown waits for the lock that the session's shutdown holds.  Without
  a running connection it returns, and the session is stopped and empty.
\<close>

theorem stop_deadlock:
  "(session_stop s = None \<longleftrightarrow>
      s_running s \<and> (\<exists>(cid, a) \<in> set (s_conn_list s). \<exists>c. dget (s_objs s) a = Some c \<and> c_running c))
   \<and> (case session_stop s of None \<Rightarrow> True | Some s' \<Rightarrow> \<not> s_running s'
        \<and> (s_running s \<longrightarrow> s_conn_list s' = [] \<and> sb_stream (s_send s') = [] \<and> next_sn (s_recv s') = 1
              \<and> \<not> p_running (s_pipe s')))"
proof -
  have run: "close_listed items s = Some s' \<Longrightarrow> s_running s' = s_running s" for items s s'
  proof (induction items arbitrary: s)
    case (Cons i items)
    then obtain s1 where "close_listed items s1 = Some s'" "s_running s1 = s_running s"
      by (cases i) (auto split: option.splits prod.splits if_splits)
    with Cons.IH [of s1] show ?case by simp
  qed simp
  show ?thesis
    using close_listed_None [of "s_conn_list s" "s\<lparr>s_running := False, s_wait := wq_stop (s_wait s), s_tasks := 0\<rparr>"]
    by (auto simp: session_stop_def close_all_connections_def pipe_stop_def sb_reset_def rcv_reset_def sb_stream_def
        bind_eq_None_conv split: bind_splits dest: run)
qed

subsection \<open>Requests on the road\<close>

lemma mark_timeout_fields: "mark_timeout no s = s\<lparr>s_transfers := s_transfers (mark_timeout no s)\<rparr>"
  by (simp add: mark_timeout_def split: option.split)

lemma ack_process_fields: "ack_process r s = s\<lparr>s_wait_ack := s_wait_ack (ack_process r s), s_ack_cont := s_ack_cont (ack_process r s)\<rparr>"
  by (simp add: ack_process_def Let_def split: sum.split option.split prod.split)

lemma received_no_fields:
  "process_server_received_transfer_no r t st s = s\<lparr>s_transfers := s_transfers (process_server_received_transfer_no r t st s)\<rparr>"
  unfolding process_server_received_transfer_no_def Let_def
  by (auto split: sum.split option.split prod.split)

lemma unacked_fields:
  "process_server_unacked_sent_sn now d s = s\<lparr>s_recv := s_recv (process_server_unacked_sent_sn now d s)\<rparr>"
  by (simp add: process_server_unacked_sent_sn_def Let_def split: sum.split option.split prod.split)

lemma check_upload_fields:
  "check_upload_not_acked t s = s\<lparr>s_transfers := s_transfers (check_upload_not_acked t s),
     s_target_on_roads := s_target_on_roads (check_upload_not_acked t s), s_wait := s_wait (check_upload_not_acked t s)\<rparr>"
  by (simp add: check_upload_not_acked_def trigger_more_def Let_def)

lemma adjust_roads_fields: "adjust_roads c d s = s\<lparr>s_target_on_roads := s_target_on_roads (adjust_roads c d s)\<rparr>"
  by (simp add: adjust_roads_def)

text \<open>The part of the state that every reply leaves alone.\<close>

definition road :: "sess \<Rightarrow> session_cfg \<times> bool \<times> bytes \<times> int \<times> nat \<times> nat" where
  "road s = (s_cfg s, s_running s, s_session_id s, s_on_road_num s, s_last_conn_id s, s_next_obj s)"

lemma road_simps [simp]:
  "road (mark_timeout no s) = road s" "road (ack_process r s) = road s"
  "road (process_server_received_transfer_no x y st s) = road s"
  "road (process_server_unacked_sent_sn now d s) = road s"
  "road (check_upload_not_acked t s) = road s" "road (adjust_roads c e s) = road s"
  "road (trigger_more s) = road s"
  by (subst mark_timeout_fields ack_process_fields received_no_fields unacked_fields check_upload_fields
        adjust_roads_fields trigger_more_fields; simp add: road_def)+

lemma core1_road: "core1 s' = core1 s \<Longrightarrow> road s' = road s"
  by (simp add: core1_def road_def)

lemma road_round_trip:
  "round_trip_process env now data ack rcvd sent unack st s = Some (e, s') \<Longrightarrow> road s' = road s"
  by (auto simp: round_trip_process_def bind_eq_Some_conv split: option.splits
      dest!: core1_data_loop core1_road)

lemma road_reply:
  "reply_body decrypt env now rtime no raw s = Some (r, s') \<Longrightarrow> road s' = road s"
proof -
  have upd: "road (s\<lparr>s_ctx := a\<rparr>) = road s" "road (s\<lparr>s_last_receive_time := t, s_transfers := tr\<rparr>) = road s"
    "road (s\<lparr>s_wait := w\<rparr>) = road s" "road (s\<lparr>s_server_time_offset := t, s_server_time_deviation := t'\<rparr>) = road s"
    for s a t t' tr w by (simp_all add: road_def)
  have err: "server_error no p s = Inr (act, s') \<Longrightarrow> road s' = road s" for p s act s'
    by (auto simp: server_error_def split: sum.splits if_splits)
  assume "reply_body decrypt env now rtime no raw s = Some (r, s')"
  then show ?thesis
    unfolding reply_body_def Let_def
    by (auto split: sum.splits prod.splits if_splits option.splits simp: bind_eq_Some_conv upd adjust_clock_def
        dest: err dest!: road_round_trip)
qed

text \<open>
  A run of the workers of one session: requests are posted, fail to be built, come back.  The
  counters beside the session say how many requests are in the hands of the HTTP client and
  how many could not be built.
\<close>

inductive road_run :: "sess \<Rightarrow> nat \<Rightarrow> nat \<Rightarrow> bool" where
  start: "session_start decrypt sid now attempts s = (True, s') \<Longrightarrow> \<not> s_running s \<Longrightarrow> road_run s' 0 0"
| posted: "road_run s n l \<Longrightarrow> roundtrip_pre encrypt now t s = (Post body rt, s') \<Longrightarrow> road_run s' (Suc n) l"
| raised: "road_run s n l \<Longrightarrow> roundtrip_pre encrypt now t s = (PreRaised e, s') \<Longrightarrow> road_run s' n (Suc l)"
| idle: "road_run s n l \<Longrightarrow> roundtrip_pre encrypt now t s = (NoWork, s') \<Longrightarrow> road_run s' n l"
| returned: "road_run s (Suc n) l \<Longrightarrow> roundtrip_post decrypt env now t up out s = Some (act, s') \<Longrightarrow> road_run s' n l"
| other: "road_run s n l \<Longrightarrow> road s' = road s \<Longrightarrow> road_run s' n l"

lemma pre_on_road: "roundtrip_pre encrypt now t s = (r, s') \<Longrightarrow>
   s_on_road_num s' = s_on_road_num s + (case r of NoWork \<Rightarrow> 0 | _ \<Rightarrow> 1)"
  by (auto simp: roundtrip_pre_def Let_def split: if_splits option.splits sum.splits)

lemma post_on_road:
  "roundtrip_post decrypt env now t up out s = Some (act, s') \<Longrightarrow> s_on_road_num s' = s_on_road_num s - 1"
proof -
  assume p: "roundtrip_post decrypt env now t up out s = Some (act, s')"
  have m: "s_on_road_num (mark_timeout no s) = s_on_road_num s" for no s
    using arg_cong [OF mark_timeout_fields, of s_on_road_num] by simp
  have r: "reply_body decrypt env now rt no raw s = Some (x, s') \<Longrightarrow> s_on_road_num s' = s_on_road_num s" for rt no raw s x s'
    by (drule road_reply) (simp add: road_def)
  from p show ?thesis
    by (auto simp: roundtrip_post_def Let_def m count_traffic_def split: http_outcome.splits if_splits option.splits sum.splits
        dest!: r)
qed

text \<open>
  C10. The counter of requests on the road is the number of requests in the hands of the HTTP
  client plus the number of requests whose head could not be packed: a request that comes back,
  whatever its outcome, is taken off exactly once, and one that fails while it is built never is.
\<close>

theorem on_road_counts:
  assumes "road_run s inflight leaked"
  shows "s_on_road_num s = int inflight + int leaked"
  using assms
proof induction
  case (start decrypt sid now attempts s s')
  then show ?case using session_start_fields(9) by simp
next
  case (returned s n l decrypt env now t up out act s')
  then show ?case by (simp add: post_on_road)
next
  case (other s n l s')
  then show ?case by (simp add: road_def)
qed (simp_all add: pre_on_road)

text \<open>
  C15. A reply with more than 32 bytes behind its last list is never accepted, whatever its
  checksum says: the transfer stays and is marked for a retry.  (The code reads the checksum
  with a method that \<^verbatim>\<open>bytes\<close> does not have.)
\<close>

theorem checksum_never_verified:
  assumes dec: "decrypt raw = Inr (head @ meta @ rest)" and pk: "length head = 3" "length meta = 40"
    and h: "unpack_us [1, 1, 1] head = Inr [80, x_protocol_version (s_ctx s), 2]"
    and m: "unpack_reply_head meta = Inr (t, [c, p, n1, n2, n3, n4, n5, n6])"
    and len: "length rest = n1 + n2 + n3 + n4 + n5 + n6 + extra" "extra > 32" "length raw = 43 + length rest"
    and tr: "dget (s_transfers s) no = Some x"
  shows "reply_body decrypt env now rtime no raw s = Some (Inl AttributeError, s)
    \<and> dget (s_transfers (mark_timeout no s)) no = Some (x\<lparr>t_stat := Timeout\<rparr>)"
proof -
  let ?c = "head @ meta @ rest" let ?r = "rb_init ?c 0 None"
  have g1: "rb_get (Some 3) ?r = (head, \<lparr>rb_buf = ?c, rb_begin = 3, rb_size = 40 + length rest\<rparr>)"
    using pk by (simp add: rb_get_def rb_init_def rb_clip_def rb_skip_def slice_def)
  have g2: "rb_get (Some 40) \<lparr>rb_buf = ?c, rb_begin = 3, rb_size = 40 + length rest\<rparr>
      = (meta, \<lparr>rb_buf = ?c, rb_begin = 43, rb_size = length rest\<rparr>)"
    using pk by (simp add: rb_get_def rb_clip_def rb_skip_def slice_def)
  have gb: "rb_get_buf (Some n) \<lparr>rb_buf = b, rb_begin = i, rb_size = k\<rparr>
      = (rb_init b i (Some n), \<lparr>rb_buf = b, rb_begin = i + n, rb_size = k - n\<rparr>)" if "n \<le> k" for n b i k
    using that by (simp add: rb_get_buf_def rb_clip_def rb_skip_def)
  have "xunpack_b (unpack_us [1, 1, 1]) head = Inr [80, x_protocol_version (s_ctx s), 2]"
    "xunpack_b unpack_reply_head meta = Inr (t, [c, p, n1, n2, n3, n4, n5, n6])" using h m by simp_all
  with g1 g2 len have "reply_body decrypt env now rtime no raw s = Some (Inl AttributeError, s)"
    unfolding reply_body_def by (simp add: dec gb Let_def xunpack_b_def)
  with tr show ?thesis by (simp add: mark_timeout_def)
qed

subsection \<open>Retries\<close>

lemma find_retry_Some:
  "find_retry sid items = Some (no, t) \<Longrightarrow> (no, t) \<in> set items \<and> t_session_id t = sid \<and> t_stat t = Timeout"
  by (induction sid items rule: find_retry.induct) (auto split: if_splits)

lemma find_retry_None:
  "find_retry sid items = None \<longleftrightarrow> (\<forall>(no, t) \<in> set items. t_session_id t = sid \<longrightarrow> t_stat t \<noteq> Timeout)"
  by (induction sid items rule: find_retry.induct) auto

text \<open>
  C11. A worker takes up a timed-out transfer of this session before it makes a new one: the
  same bytes under the same number, one retry more, and, since a retry must not be held back
  by the server, without a server timeout.  It makes a new transfer only if no transfer of
  this session is timed out.
\<close>

theorem retry_first:
  assumes "dict_ok (s_transfers s)" and "upload_begin now s = (r, s')"
  shows "(r = None \<longleftrightarrow> (\<forall>no t. dget (s_transfers s) no = Some t \<and> t_session_id t = s_session_id s \<longrightarrow> t_stat t \<noteq> Timeout))
    \<and> (\<forall>t'. r = Some t' \<longrightarrow> (\<exists>no t. dget (s_transfers s) no = Some t \<and> t_stat t = Timeout
          \<and> t' = t\<lparr>t_stat := Retry, t_retry := t_retry t + 1, t_start_time := now\<rparr>
          \<and> dget (s_transfers s') no = Some t' \<and> choose_server_timeout t' s' = 0))"
proof (cases "find_retry (s_session_id s) (s_transfers s)")
  case None
  with assms(2) have "r = None" by (simp add: upload_begin_def)
  with None find_retry_None [of "s_session_id s" "s_transfers s"] assms(1) show ?thesis by fastforce
next
  case (Some p)
  obtain no t where p: "p = (no, t)" by (cases p)
  with Some find_retry_Some have t: "(no, t) \<in> set (s_transfers s)" "t_session_id t = s_session_id s" "t_stat t = Timeout"
    by blast+
  then have d: "dget (s_transfers s) no = Some t" using assms(1) by simp
  from assms(2) Some p have "r = Some (t\<lparr>t_stat := Retry, t_retry := t_retry t + 1, t_start_time := now\<rparr>)"
    "dget (s_transfers s') no = r" by (auto simp: upload_begin_def Let_def)
  with t d show ?thesis by (auto simp: choose_server_timeout_def)
qed

subsection \<open>Asking again for lost blocks\<close>

inductive recv_reachable :: "time \<Rightarrow> 'd receive_process \<Rightarrow> bool" for timeout where
  start: "recv_reachable timeout rcv_init"
| put: "recv_reachable timeout r \<Longrightarrow> recv_reachable timeout (snd (rcv_put sn d r))"
| mark: "recv_reachable timeout r \<Longrightarrow> recv_reachable timeout (mark_sn_timeout sn t st r)"
| listed: "recv_reachable timeout r \<Longrightarrow> recv_reachable timeout (snd (get_timeout_list st timeout r))"
| reset: "recv_reachable timeout r \<Longrightarrow> recv_reachable timeout (rcv_reset r)"

definition never_asked :: "'d receive_process \<Rightarrow> bool" where
  "never_asked r \<longleftrightarrow> (\<forall>(sn, i) \<in> set (timeout_list r). retry_time i = None)"

lemma never_asked_overdue: "never_asked r \<Longrightarrow> 0 < timeout \<Longrightarrow> (sn, i) \<in> set (timeout_list r) \<Longrightarrow> \<not> overdue st timeout i"
  by (auto simp: never_asked_def overdue_def)

lemma never_asked_list: "never_asked r \<Longrightarrow> 0 < timeout \<Longrightarrow> get_timeout_list st timeout r = ([], r)"
proof -
  assume a: "never_asked r" "0 < timeout"
  then have "dmap (\<lambda>sn i. if overdue st timeout i then i\<lparr>retry_time := Some st\<rparr> else i) (timeout_list r) = timeout_list r"
    unfolding dmap_def by (intro map_idI) (auto simp: never_asked_overdue)
  moreover have "filter (\<lambda>(sn, i). overdue st timeout i) (timeout_list r) = []"
    using a by (auto simp: filter_empty_conv never_asked_overdue)
  ultimately show ?thesis by (simp add: get_timeout_list_def)
qed

lemma reachable_never_asked: "recv_reachable timeout r \<Longrightarrow> 0 < timeout \<Longrightarrow> never_asked r"
proof (induction rule: recv_reachable.induct)
  case (put r sn d)
  then have "timeout_list (snd (rcv_put sn d r)) = ddel sn (timeout_list r)"
    by (simp add: rcv_put_def Let_def split: prod.split)
  with put show ?case by (auto simp: never_asked_def AList.delete_eq)
next
  case (mark r sn t st)
  then have "never_asked r" by simp
  then show ?case
    using set_dset [of sn _ "timeout_list r"]
    by (fastforce simp: mark_sn_timeout_def never_asked_def split: option.splits dest: map_of_SomeD)
qed (auto simp: never_asked_list, auto simp: never_asked_def rcv_init_def rcv_reset_def)

text \<open>
  C14. However long a download block has been missing, the session never asks the server to send
  it again: the list of overdue blocks in a request is always empty, because the time of the
  last retry defaults to the present and so the second test of the scan always skips.
\<close>

theorem lost_blocks_never_requested:
  assumes "recv_reachable (cfg_server_download_timeout_retry (s_cfg s)) (s_recv s)"
    and "0 < cfg_server_download_timeout_retry (s_cfg s)"
    and "s_server_time_deviation s \<le> cfg_server_time_max_deviation (s_cfg s)"
  shows "\<exists>buf. get_down_sn_timeout_list_pack now s = (Inr buf, s) \<and> wb_bytes buf = le_bytes 4 0"
  using never_asked_list [OF reachable_never_asked [OF assms(1,2)] assms(2)] assms(3)
  by (simp add: get_down_sn_timeout_list_pack_def pack_us_fits wb_insert_def wb_init_def wb_reset_def wb_bytes_def)

subsection \<open>How many requests the session wants\<close>

definition target_ok :: "sess \<Rightarrow> bool" where
  "target_ok s \<longleftrightarrow> 0 \<le> s_target_on_roads s
     \<and> s_target_on_roads s \<le> max (cfg_concurent_thread_num (s_cfg s) - cfg_min_on_road (s_cfg s)) (cfg_min_on_road (s_cfg s))"

definition cfg_ok :: "session_cfg \<Rightarrow> bool" where
  "cfg_ok c \<longleftrightarrow> 0 \<le> cfg_min_on_road c \<and> cfg_min_on_road c \<le> cfg_concurent_thread_num c"

lemma trigger_more_target [simp]: "s_target_on_roads (trigger_more s) = s_target_on_roads s" "s_cfg (trigger_more s) = s_cfg s"
  by (simp_all add: trigger_more_def Let_def)

text \<open>
  Every operation that changes the number of wanted requests keeps it between 0 and the
  larger of the two bounds the code uses (threads less the reserve, and the reserve).
\<close>

theorem target_bounded:
  assumes "cfg_ok (s_cfg s)" "target_ok s"
  shows "target_ok (adjust_roads n d s) \<and> target_ok (check_timeout now s) \<and> target_ok (check_upload_not_acked st s)
    \<and> target_ok (remove_conn_async cid s)"
proof (intro conjI)
  show "target_ok (adjust_roads n d s)" "target_ok (remove_conn_async cid s)"
    using assms by (auto simp: target_ok_def cfg_ok_def adjust_roads_def remove_conn_async_def Let_def)
  have up: "target_ok (trigger_more (u\<lparr>s_target_on_roads :=
      min (cfg_concurent_thread_num (s_cfg u) - cfg_min_on_road (s_cfg u)) (s_target_on_roads u + int k)\<rparr>))"
    if "s_cfg u = s_cfg s" "s_target_on_roads u = s_target_on_roads s" for u k
    using assms that by (auto simp: target_ok_def cfg_ok_def)
  have keep: "target_ok (s\<lparr>s_transfers := tr\<rparr>)" for tr using assms(2) by (simp add: target_ok_def)
  show "target_ok (check_timeout now s)"
    unfolding check_timeout_def Let_def by (split if_split, intro conjI impI) (rule up, simp, simp, simp add: keep)
  show "target_ok (check_upload_not_acked st s)"
    unfolding check_upload_not_acked_def Let_def
    by (cases "s_server_time_deviation s > cfg_server_time_max_deviation (s_cfg s)")
       (simp add: assms(2), simp only: if_False, split if_split, intro conjI impI, rule up, simp, simp, simp add: keep)
qed

subsection \<open>Concrete runs\<close>

text \<open>A session with the default settings, logged in at time 0; the properties are applied to it.\<close>

definition ex_ctx :: xctx where
  "ex_ctx = \<lparr>x_server_host = Some ''srv'', x_quota = 1000, x_roundtrip_num = 0, x_slow_roundtrip = 0, x_resend = 0,
     x_protocol_version = 4, x_last_api_error = NoApiError\<rparr>"

definition ex0 :: sess where
  "ex0 = sess_init None ex_ctx ''00000000'' 0"

definition ex_login :: "(time \<times> login_outcome) list" where
  "ex_login = [(0, LoginReply 200 (map char_of [80::nat, 4, 1, 0, 0, 0]))]"

definition ex1 :: sess where
  "ex1 = snd (session_start Inr ''abcdefgh'' 0 ex_login ex0)"

lemmas ex_defs = ex0_def ex_ctx_def ex_login_def sess_init_def session_settings_def setting_def wq_init_def sb_init_def
  wb_init_def wb_reset_def rcv_init_def pipe_init_def

lemma ex_start: "session_start Inr ''abcdefgh'' 0 ex_login ex0 = (True, ex1)"
proof -
  have "fst (session_start Inr ''abcdefgh'' 0 ex_login ex0)"
    by (simp add: ex_defs session_start_def start_reset_def login_session_def parse_login_response_def xunpack_b_def
       unpack_us_def)
  then show ?thesis unfolding ex1_def by (metis prod.collapse)
qed

lemma ex0_fields: "\<not> s_running ex0" "sb_max_payload (s_send ex0) = 65536" "cfg_max_payload (s_cfg ex0) = 65536"
  "s_recv ex0 = rcv_init" "s_cfg ex0 = session_settings None" "s_send ex0 = sb_init 65536 0"
  by (simp_all add: ex_defs)

lemmas ex1_fields = session_start_fields [OF ex_start ex0_fields(1), unfolded ex0_fields]

lemma ex1_reachable: "window_reachable ex1"
  by (rule window_reachable.start [OF _ _ ex_start ex0_fields(1)])
     (simp_all add: ex0_fields session_settings_def setting_def sb_init_def)

lemma ex1_ok: "window_ok ex1"
proof -
  have "sb_ok (s_send ex1)" using ex1_fields(4) by (simp add: sb_reset_fresh sb_init_def)
  moreover have "sb_tail_sn (s_send ex1) = 1" using ex1_fields(4) by (simp add: sb_reset_def)
  ultimately show ?thesis using ex1_fields by (auto simp: window_ok_def)
qed

text \<open>The example after a connection to h:80 was opened at time 1.\<close>

lemma ex_open: "\<exists>s'. create_conn \<lparr>write_ok = \<lambda>_ _. True, connect_ok = \<lambda>_ _. True, accept_ok = True\<rparr> 1 (HostBytes ''h'') 80 ex1
    = Some (Inr (Some 2), s')"
proof -
  have ok: "sb_ok (s_send ex1)" using ex1_ok by (simp add: window_ok_def)
  have "\<exists>m. connect_cmd ''h'' 80 = Inr m \<and> length m = 11" by (simp add: connect_cmd_def pack_us_fits)
  then obtain m where m: "connect_cmd ''h'' 80 = Inr m" "length m = 11" by blast
  let ?s = "ex1\<lparr>s_last_conn_id := 2\<rparr>"
  obtain b where b: "sb_add 1 (frame 2 m) (s_send ex1) = Some b" using sb_add_spec [OF ok, of 1 "frame 2 m"] by blast
  have "\<exists>s2. send_conn_data 1 2 m ?s = Some (None, s2)"
    using b m(2) ex1_fields(1)
    by (simp add: send_conn_data_def pack_II_def pack_us_fits frame_def Let_def)
  with m ex1_fields show ?thesis
    by (auto simp: create_conn_def encode_host_def Let_def simp del: add_2_eq_Suc add_2_eq_Suc')
qed

lemma ex_sent: "\<exists>s'. send_conn_data 1 2 ''xy'' ex1 = Some (None, s') \<and> s_oldest_received s' = 1 \<and> window_ok s'
   \<and> sb_pool_size (s_send s') = 10 \<and> s_cfg s' = session_settings None \<and> s_wait_ack s' = [] \<and> s_running s'"
proof -
  have ok: "sb_ok (s_send ex1)" using ex1_ok by (simp add: window_ok_def)
  obtain b where b: "sb_add 1 (frame 2 ''xy'') (s_send ex1) = Some b" "sb_stream b = frame 2 ''xy''" "sb_ok b"
    using sb_add_spec [OF ok, of 1 "frame 2 ''xy''"] ex1_fields(4)
    by (auto simp: sb_reset_def sb_stream_def wb_init_def wb_reset_def wb_bytes_def)
  have o: "s_oldest_received ex1 = 0"
    unfolding ex1_def
    by (simp add: ex_defs session_start_def start_reset_def login_session_def parse_login_response_def xunpack_b_def
       unpack_us_def pipe_start_def)
  obtain s' where s': "send_conn_data 1 2 ''xy'' ex1 = Some (None, s')" "s_send s' = b" "s_oldest_received s' = 1"
    "s_cfg s' = s_cfg ex1" "s_wait_ack s' = s_wait_ack ex1" "s_running s' = s_running ex1"
    using b(1) ex1_fields(1) o
    by (simp add: send_conn_data_def pack_II_def pack_us_fits frame_def Let_def)
  have "sb_pool_size b = 10" using b by (simp add: sb_ok_def sb_pre_def frame_def)
  with s' window_ok_send [OF ex1_ok s'(1)] ex1_fields show ?thesis by auto
qed

lemma ex_request: "\<exists>s buf s'. window_ok s \<and> get_data 2 s = (Inr buf, s') \<and> wb_bytes buf \<noteq> []"
proof -
  from ex_sent obtain s where s: "window_ok s" "sb_pool_size (s_send s) = 10" "s_oldest_received s = 1"
    "s_cfg s = session_settings None" "s_wait_ack s = []" "send_conn_data 1 2 ''xy'' ex1 = Some (None, s)" by blast
  have ok: "sb_ok (s_send s)" "sb_ok (s_send ex1)" using s(1) ex1_ok by (simp_all add: window_ok_def)
  have "s_send s \<noteq> s_send ex1" using s(2) ex1_fields(4) by (auto simp: sb_reset_def)
  with send_conn_data_fields(2) [OF s(6)] have "sb_add 1 (frame 2 ''xy'') (s_send ex1) = Some (s_send s)" by simp
  with sb_add_spec [OF ok(2), of 1 "frame 2 ''xy''"] ex1_fields(4)
  have st: "sb_stream (s_send s) = frame 2 ''xy''" "sb_tail_sn (s_send s) = 1"
    by (auto simp: sb_reset_def sb_stream_def wb_init_def wb_reset_def wb_bytes_def)
  from sb_take_cases [OF ok(1)] st obtain d b where tk: "sb_take (s_send s) = (Some (1, d), b)" "d \<noteq> []"
    "frame 2 ''xy'' = d @ sb_stream b" by (auto simp: frame_def)
  then obtain p where g: "sb_get (s_send s) = (Inr (p, 1), b)" "payload_len p > 0" "payload_bytes p = d"
    by (auto simp: sb_take_def split: prod.splits sum.splits if_splits)
  have "length d \<le> 10" using arg_cong [OF tk(3), of length] by (simp add: frame_def)
  then have "\<exists>s' buf. get_data 2 s = (Inr buf, s') \<and> wb_bytes buf \<noteq> []"
    using s g tk(2) by (simp add: get_data_def get_data_new_def session_settings_def setting_def pack_II_def pack_us_fits Let_def)
  with s(1) show ?thesis by blast
qed

lemma acknowledgement_exact_witness:
  "\<exists>buf p'. get_ack True 0 ex1 = Inr buf \<and> p' = ack_process (rb_init (wb_bytes buf) 0 None) (ex1\<lparr>s_wait_ack := [(1, Sent ''x'' 0)]\<rparr>)
     \<and> dget (s_wait_ack p') 1 = Some (Sent ''x'' 0)"
proof -
  let ?p = "ex1\<lparr>s_wait_ack := [(1, Sent ''x'' 0)]\<rparr>"
  have r: "next_sn (s_recv ex1) = 1" "block_list (s_recv ex1) = []"
    using ex1_fields(7) by (simp_all add: rcv_reset_def)
  then obtain buf where b: "get_ack True 0 ex1 = Inr buf" by (simp add: get_ack_def pack_us_fits)
  have n: "\<not> is_received 1 (s_recv ex1)" using r by (simp add: is_received_def)
  from acknowledgement_exact [OF b, of ?p 1 "Sent ''x'' 0", OF _ _ refl] r n
  show ?thesis using b by auto
qed

lemma window_never_has_gaps_witness:
  "\<exists>s::sess. s_oldest_received s = 1 \<and> fst ` set (s_wait_ack s) = {s_ack_cont s <..< sb_tail_sn (s_send s)} \<and> dict_ok (s_wait_ack s)"
proof -
  from ex_sent obtain s where s: "send_conn_data 1 2 ''xy'' ex1 = Some (None, s)" "s_oldest_received s = 1" by blast
  have "window_reachable s" by (rule window_reachable.step [OF ex1_reachable window_step.put [OF s(1)]])
  from window_never_has_gaps [OF this] s(2) show ?thesis by blast
qed

lemma request_data_witness:
  "\<exists>s buf s' bs. get_data 2 s = (Inr buf, s') \<and> wb_bytes buf \<noteq> [] \<and> wb_bytes buf = frames bs \<and> window_ok s'"
proof -
  from ex_request obtain s buf s' where r: "window_ok s" "get_data 2 s = (Inr buf, s')" "wb_bytes buf \<noteq> []" by blast
  from request_data [OF r(1,2)] r(2,3) show ?thesis by blast
qed

lemma request_data_delivered_witness:
  "\<exists>s buf s' ps. get_data 2 s = (Inr buf, s') \<and> ps \<noteq> []
     \<and> data_loop \<lparr>write_ok = \<lambda>_ _. True, connect_ok = \<lambda>_ _. True, accept_ok = True\<rparr> 3 (rb_init (wb_bytes buf) 0 None) ex1
       = map_option (Pair None) (put_all \<lparr>write_ok = \<lambda>_ _. True, connect_ok = \<lambda>_ _. True, accept_ok = True\<rparr> 3 ps ex1)"
proof -
  from ex_request obtain s buf s' where r: "window_ok s" "get_data 2 s = (Inr buf, s')" "wb_bytes buf \<noteq> []" by blast
  from request_data_delivered [OF r(1,2) rb_init_spec] obtain ps where
    ps: "frames (map (\<lambda>(n, p). (n, rb_to_bytes p)) ps) = wb_bytes buf"
      "\<forall>env t q. data_loop env t (rb_init (wb_bytes buf) 0 None) q = map_option (Pair None) (put_all env t ps q)" by blast
  from ps(1) r(3) have "ps \<noteq> []" by auto
  with ps(2) r(2) show ?thesis by blast
qed

lemma open_announced_witness:
  "\<exists>s' m. create_conn \<lparr>write_ok = \<lambda>_ _. True, connect_ok = \<lambda>_ _. True, accept_ok = True\<rparr> 1 (HostBytes ''h'') 80 ex1
      = Some (Inr (Some 2), s')
    \<and> sb_stream (s_send s') = frame 2 m \<and> peer_parse m = (Inr 0, Inr (CmdConnect 0 ''h'' 80))"
proof -
  from ex_open obtain s' where o: "create_conn \<lparr>write_ok = \<lambda>_ _. True, connect_ok = \<lambda>_ _. True, accept_ok = True\<rparr> 1
      (HostBytes ''h'') 80 ex1 = Some (Inr (Some 2), s')" by blast
  have "sb_ok (s_send ex1)" using ex1_ok by (simp add: window_ok_def)
  moreover have "sb_stream (s_send ex1) = []"
    using ex1_fields(4) by (simp add: sb_reset_def sb_stream_def wb_init_def wb_reset_def wb_bytes_def)
  ultimately show ?thesis using open_announced [OF o] o by auto
qed

lemma stop_deadlock_witness:
  "\<exists>s'. create_conn \<lparr>write_ok = \<lambda>_ _. True, connect_ok = \<lambda>_ _. True, accept_ok = True\<rparr> 1 (HostBytes ''h'') 80 ex1
      = Some (Inr (Some 2), s') \<and> session_stop s' = None"
proof -
  from ex_open obtain s' where o: "create_conn \<lparr>write_ok = \<lambda>_ _. True, connect_ok = \<lambda>_ _. True, accept_ok = True\<rparr> 1
      (HostBytes ''h'') 80 ex1 = Some (Inr (Some 2), s')" by blast
  from create_conn_spec [OF o] have c: "dget (s_conn_list s') 2 = Some (s_next_obj ex1)"
    "\<exists>c. dget (s_objs s') (s_next_obj ex1) = Some c \<and> c_running c" "s_running s'" by (auto simp: conn_init_def)
  with c stop_deadlock [of s'] have "session_stop s' = None" by (force dest: map_of_SomeD)
  with o show ?thesis by blast
qed

definition ex_transfer :: transfer where
  "ex_transfer = \<lparr>t_session_id = ''abcdefgh'', t_transfer_no = 1, t_stat = Timeout, t_server_received = Unset,
     t_server_sent = Unset, t_start_time = 0, t_server_timeout = 0, t_send_data = ''d'', t_send_ack = [],
     t_download_timeout = [], t_request_session_id = ''abcdefgh'', t_retry = 0\<rparr>"

lemma ex1_sid: "s_session_id ex1 = ''abcdefgh'' \<and> x_protocol_version (s_ctx ex1) = 4 \<and> s_server_time_deviation ex1 = 9999"
  unfolding ex1_def
  by (simp add: ex_defs session_start_def start_reset_def login_session_def parse_login_response_def xunpack_b_def
       unpack_us_def pipe_start_def)

lemma on_road_counts_witness:
  "\<exists>s body rt. roundtrip_pre id 1 (ex_transfer\<lparr>t_stat := Retry\<rparr>) (ex1\<lparr>s_transfers := [(1, ex_transfer)]\<rparr>) = (Post body rt, s)
     \<and> s_on_road_num s = 1"
proof -
  let ?s = "ex1\<lparr>s_transfers := [(1, ex_transfer)]\<rparr>"
  have "\<exists>s body rt. roundtrip_pre id 1 (ex_transfer\<lparr>t_stat := Retry\<rparr>) ?s = (Post body rt, s)"
    using ex1_sid by (simp add: roundtrip_pre_def ex_transfer_def upload_head_def pack_us_fits choose_server_timeout_def Let_def)
  then obtain s body rt where r: "roundtrip_pre id 1 (ex_transfer\<lparr>t_stat := Retry\<rparr>) ?s = (Post body rt, s)" by blast
  have "road_run ?s 0 0"
    by (rule road_run.other [OF road_run.start [OF ex_start ex0_fields(1)]]) (simp add: road_def)
  from on_road_counts [OF road_run.posted [OF this r]] r show ?thesis by auto
qed

lemma retry_first_witness:
  "\<exists>t s. upload_begin 5 (ex1\<lparr>s_transfers := [(1, ex_transfer)]\<rparr>) = (Some t, s) \<and> t_retry t = 1 \<and> t_send_data t = ''d''
     \<and> choose_server_timeout t s = 0"
proof -
  let ?s = "ex1\<lparr>s_transfers := [(1, ex_transfer)]\<rparr>"
  obtain r s where u: "upload_begin 5 ?s = (r, s)" by (cases "upload_begin 5 ?s")
  have d: "dict_ok (s_transfers ?s)" by simp
  have "r \<noteq> None" using retry_first [OF d u] ex1_sid by (auto simp: ex_transfer_def)
  with retry_first [OF d u] show ?thesis using u by (auto simp: ex_transfer_def split: if_splits)
qed

lemma le_nat_zeros: "le_nat (replicate n (char_of (0::nat))) = 0"
  by (induction n) simp_all

lemma checksum_never_verified_witness:
  "\<exists>raw. reply_body Inr \<lparr>write_ok = \<lambda>_ _. True, connect_ok = \<lambda>_ _. True, accept_ok = True\<rparr> 1 1 1 raw
      (ex1\<lparr>s_transfers := [(1, ex_transfer)]\<rparr>) = Some (Inl AttributeError, ex1\<lparr>s_transfers := [(1, ex_transfer)]\<rparr>)"
proof -
  let ?s = "ex1\<lparr>s_transfers := [(1, ex_transfer)]\<rparr>"
  let ?z = "\<lambda>n. replicate n (char_of (0::nat))"
  have h: "unpack_us [1, 1, 1] (map char_of [80::nat, 4, 2]) = Inr [80, x_protocol_version (s_ctx ?s), 2]"
    using ex1_sid by (simp add: unpack_us_def)
  have m: "unpack_reply_head (?z 40) = Inr (0, [0, 0, 0, 0, 0, 0, 0, 0])"
    by (simp add: unpack_reply_head_def unpack_d_def le_nat_zeros)
  have "reply_body Inr \<lparr>write_ok = \<lambda>_ _. True, connect_ok = \<lambda>_ _. True, accept_ok = True\<rparr> 1 1 1
      (map char_of [80::nat, 4, 2] @ ?z 40 @ ?z 33) ?s = Some (Inl AttributeError, ?s)"
    by (rule checksum_never_verified [where head = "map char_of [80::nat, 4, 2]" and meta = "?z 40"
          and rest = "?z 33" and extra = 33, THEN conjunct1, OF _ _ _ h m]) simp_all
  then show ?thesis by blast
qed

lemma lost_blocks_never_requested_witness:
  "\<exists>buf. get_down_sn_timeout_list_pack 1000 (ex1\<lparr>s_server_time_deviation := 1,
       s_recv := mark_sn_timeout 3 10 20 rcv_init\<rparr>)
     = (Inr buf, ex1\<lparr>s_server_time_deviation := 1, s_recv := mark_sn_timeout 3 10 20 rcv_init\<rparr>)
     \<and> wb_bytes buf = le_bytes 4 0"
  by (rule lost_blocks_never_requested)
     (simp_all add: ex1_fields ex0_fields session_settings_def setting_def recv_reachable.start recv_reachable.mark)

lemma target_bounded_witness:
  "target_ok (adjust_roads 70000 0 ex1) \<and> target_ok (remove_conn_async 2 ex1)"
proof -
  have "cfg_ok (s_cfg ex1)" "target_ok ex1"
    using ex1_fields by (simp_all add: cfg_ok_def target_ok_def session_settings_def setting_def)
  from target_bounded [OF this] show ?thesis by blast
qed

end
