(* ===== verification/Py_Text.thy ===== *)
theory Py_Text
  imports Prelude
begin

text \<open>
  Python's text operations that the program uses: \<^verbatim>\<open>split\<close>, \<^verbatim>\<open>join\<close>, \<^verbatim>\<open>strip\<close>, \<^verbatim>\<open>int()\<close> of a
  text and \<^verbatim>\<open>str()\<close> of an integer, on ASCII text.
\<close>

fun split_on :: "char \<Rightarrow> string \<Rightarrow> string list" where
  "split_on c [] = [[]]"
| "split_on c (x # xs) = (if x = c then [] # split_on c xs
     else case split_on c xs of [] \<Rightarrow> [[x]] | p # ps \<Rightarrow> (x # p) # ps)"

fun join :: "string \<Rightarrow> string list \<Rightarrow> string" where
  "join sep [] = []"
| "join sep [p] = p"
| "join sep (p # ps) = p @ sep @ join sep ps"

definition is_digit :: "char \<Rightarrow> bool" where
  "is_digit c \<longleftrightarrow> 48 \<le> (of_char c :: nat) \<and> (of_char c :: nat) \<le> 57"

definition digit_val :: "char \<Rightarrow> nat" where
  "digit_val c = of_char c - 48"

definition digits_val :: "string \<Rightarrow> nat" where
  "digits_val s = foldl (\<lambda>a c. a * 10 + digit_val c) 0 s"

fun dec :: "nat \<Rightarrow> string" where
  "dec n = (if n < 10 then [char_of (48 + n)] else dec (n div 10) @ [char_of (48 + n mod 10)])"

declare dec.simps [simp del]

definition dec_int :: "int \<Rightarrow> string" where
  "dec_int i = (if i < 0 then ''-'' @ dec (nat (- i)) else dec (nat i))"

definition is_space :: "char \<Rightarrow> bool" where
  "is_space c \<longleftrightarrow> c = CHR '' '' \<or> (9 \<le> (of_char c :: nat) \<and> (of_char c :: nat) \<le> 13)"

definition lstrip :: "string \<Rightarrow> string" where
  "lstrip s = dropWhile is_space s"

definition strip :: "string \<Rightarrow> string" where
  "strip s = rev (lstrip (rev (lstrip s)))"

text \<open>The digits of an integer literal: single underscores may separate digits.\<close>

fun digit_groups :: "string \<Rightarrow> bool" where
  "digit_groups [] = False"
| "digit_groups [c] = is_digit c"
| "digit_groups (c # d # s) = (is_digit c \<and> (if d = CHR ''_'' then digit_groups s else digit_groups (d # s)))"

definition int_of_text :: "string \<Rightarrow> exn + int" where
  "int_of_text s0 =
     (let s = strip s0;
          (neg, t) = (case s of [] \<Rightarrow> (False, []) | c # r \<Rightarrow>
             if c = CHR ''-'' then (True, r) else if c = CHR ''+'' then (False, r) else (False, s))
      in if digit_groups t
         then Inr ((if neg then -1 else 1) * int (digits_val (filter (\<lambda>c. c \<noteq> CHR ''_'') t)))
         else Inl ValueError)"

subsection \<open>Splitting and joining\<close>

lemma split_on_nonempty [simp]: "split_on c s \<noteq> []"
  by (induction s) (auto split: list.split)

lemma split_on_no: "c \<notin> set s \<Longrightarrow> split_on c s = [s]"
  by (induction s) auto

lemma split_on_append: "c \<notin> set p \<Longrightarrow> split_on c (p @ c # s) = p # split_on c s"
  by (induction p) auto

lemma split_join:
  "ps \<noteq> [] \<Longrightarrow> \<forall>p \<in> set ps. c \<notin> set p \<Longrightarrow> split_on c (join [c] ps) = ps"
  by (induction "[c]" ps rule: join.induct) (auto simp: split_on_no split_on_append)

lemma join_split: "join [c] (split_on c s) = s"
proof (induction s)
  case (Cons x s)
  then show ?case
    by (cases "split_on c s" rule: remdups_adj.cases) (auto split: list.splits)
qed simp

lemma split_on_parts: "p \<in> set (split_on c s) \<Longrightarrow> c \<notin> set p"
  by (induction s arbitrary: p) (fastforce split: list.splits if_splits)+

subsection \<open>Decimal numbers\<close>

lemma of_char_digit: "d < 10 \<Longrightarrow> (of_char (char_of (48 + d :: nat)) :: nat) = 48 + d"
  by simp

lemma is_digit_char [simp]: "d < 10 \<Longrightarrow> is_digit (char_of (48 + d :: nat))"
  by (simp add: is_digit_def of_char_digit)

lemma digit_val_char [simp]: "d < 10 \<Longrightarrow> digit_val (char_of (48 + d :: nat)) = d"
  by (simp add: digit_val_def of_char_digit)

lemma dec_digits: "c \<in> set (dec n) \<Longrightarrow> is_digit c"
proof (induction n rule: dec.induct)
  case (1 n)
  then show ?case by (cases "n < 10") (auto simp: dec.simps [of n])
qed

lemma dec_nonempty [simp]: "dec n \<noteq> []"
  by (subst dec.simps) simp

lemma digits_val_snoc: "digits_val (s @ [c]) = digits_val s * 10 + digit_val c"
  by (simp add: digits_val_def)

lemma digits_val_dec [simp]: "digits_val (dec n) = n"
proof (induction n rule: dec.induct)
  case (1 n)
  show ?case
  proof (cases "n < 10")
    case True
    then show ?thesis by (simp add: dec.simps [of n] digits_val_def)
  next
    case False
    with 1 show ?thesis by (simp add: dec.simps [of n] digits_val_snoc)
  qed
qed

lemma digit_not:
  "is_digit c \<Longrightarrow> c \<noteq> CHR ''.''" "is_digit c \<Longrightarrow> c \<noteq> CHR ''_''" "is_digit c \<Longrightarrow> c \<noteq> CHR ''-''"
  "is_digit c \<Longrightarrow> c \<noteq> CHR ''+''" "is_digit c \<Longrightarrow> c \<noteq> CHR '':''" "is_digit c \<Longrightarrow> c \<noteq> CHR ''['' \<and> c \<noteq> CHR '']''"
  "is_digit c \<Longrightarrow> \<not> is_space c" "is_digit c \<Longrightarrow> c \<noteq> CHR ''/''" "is_digit c \<Longrightarrow> c \<noteq> CHR 0x0A"
  by (auto simp: is_digit_def is_space_def)

lemma dec_chars: "c \<in> set (dec n) \<Longrightarrow> c \<noteq> CHR ''.'' \<and> c \<noteq> CHR '':'' \<and> c \<noteq> CHR ''-'' \<and> c \<noteq> CHR ''/''"
  using dec_digits digit_not by blast

lemma strip_id: "\<forall>c \<in> set s. \<not> is_space c \<Longrightarrow> strip s = s"
proof -
  assume s: "\<forall>c \<in> set s. \<not> is_space c"
  have d: "dropWhile is_space t = t" if "\<forall>c \<in> set t. \<not> is_space c" for t
    using that by (cases t) auto
  from d [of s] d [of "rev s"] s show ?thesis by (simp add: strip_def lstrip_def)
qed

lemma digit_groups_digits: "s \<noteq> [] \<Longrightarrow> \<forall>c \<in> set s. is_digit c \<Longrightarrow> digit_groups s"
  by (induction s rule: digit_groups.induct) (auto dest: digit_not)

lemma int_of_digits: "s \<noteq> [] \<Longrightarrow> \<forall>c \<in> set s. is_digit c \<Longrightarrow> int_of_text s = Inr (int (digits_val s))"
proof -
  assume s: "s \<noteq> []" "\<forall>c \<in> set s. is_digit c"
  then have "strip s = s" by (intro strip_id) (auto dest: digit_not)
  moreover obtain c r where c: "s = c # r" "is_digit c" using s by (cases s) auto
  moreover have "filter (\<lambda>c. c \<noteq> CHR ''_'') s = s" using s by (auto simp: filter_id_conv dest: digit_not)
  ultimately show ?thesis using digit_groups_digits [OF s] digit_not [OF c(2)]
    by (simp add: int_of_text_def)
qed

lemma int_of_dec [simp]: "int_of_text (dec n) = Inr (int n)"
  using int_of_digits [of "dec n"] by (simp add: dec_digits)

lemma strip_newline: "\<forall>c \<in> set s. \<not> is_space c \<Longrightarrow> strip (s @ [CHR 0x0A]) = strip s"
proof -
  assume s: "\<forall>c \<in> set s. \<not> is_space c"
  show ?thesis
  proof (cases "s = []")
    case True
    then show ?thesis by (simp add: strip_def lstrip_def is_space_def)
  next
    case False
    then obtain c r where c: "s = c # r" by (cases s) auto
    have l: "lstrip (s @ [CHR 0x0A]) = s @ [CHR 0x0A]" "lstrip s = s" using s by (simp_all add: lstrip_def c)
    have n: "is_space (CHR 0x0A)" by (simp add: is_space_def)
    show ?thesis unfolding strip_def l by (simp add: lstrip_def n)
  qed
qed

lemma dec_int_chars: "c \<in> set (dec_int k) \<Longrightarrow> is_digit c \<or> c = CHR ''-''"
  by (auto simp: dec_int_def split: if_splits dest: dec_digits)

lemma dec_int_no_space: "c \<in> set (dec_int k) \<Longrightarrow> \<not> is_space c"
  using dec_int_chars [of c k] digit_not(7) by (auto simp: is_space_def)

lemma int_of_dec_int [simp]: "int_of_text (dec_int k) = Inr k"
proof (cases "k < 0")
  case True
  have "strip (dec_int k) = dec_int k" by (intro strip_id) (simp add: dec_int_no_space)
  moreover have "dec_int k = CHR ''-'' # dec (nat (- k))" using True by (simp add: dec_int_def)
  moreover have "digit_groups (dec (nat (- k)))" by (intro digit_groups_digits) (simp_all add: dec_digits)
  moreover have "filter (\<lambda>c. c \<noteq> CHR ''_'') (dec n) = dec n" for n
    by (auto simp: filter_id_conv dest!: dec_digits digit_not(2))
  ultimately show ?thesis using True by (simp add: int_of_text_def)
qed (simp add: dec_int_def)

lemma int_of_line_end: "\<forall>c \<in> set s. \<not> is_space c \<Longrightarrow> int_of_text (s @ [CHR 0x0A]) = int_of_text s"
  by (simp add: int_of_text_def strip_newline)

end
