(* ===== verification/Net_Text.thy ===== *)
theory Net_Text
  imports Py_Text
begin

text \<open>
  The address and version helpers of lib/noarch/utils.py.  Texts are ASCII; \<^verbatim>\<open>bytes\<close> and
  \<^verbatim>\<open>str\<close> arguments, which the code converts into each other, are the same lists here.
\<close>

unbundle bit_operations_syntax

subsection \<open>IPv4 numbers\<close>

fun ints_of :: "string list \<Rightarrow> exn + int list" where
  "ints_of [] = Inr []"
| "ints_of (p # ps) = (case int_of_text p of Inl e \<Rightarrow> Inl e
     | Inr i \<Rightarrow> (case ints_of ps of Inl e \<Rightarrow> Inl e | Inr is \<Rightarrow> Inr (i # is)))"

definition ip_string_to_num :: "string \<Rightarrow> exn + int" where
  "ip_string_to_num s = (case ints_of (split_on CHR ''.'' s) of
      Inl e \<Rightarrow> Inl e
    | Inr is \<Rightarrow> Inr (foldl (\<lambda>a b. push_bit 8 a OR b) (hd is) (tl is)))"

definition ip_num_to_string :: "int \<Rightarrow> string" where
  "ip_num_to_string ip = join ''.'' (map (\<lambda>n. dec_int (drop_bit n ip AND 0xFF)) [24, 16, 8, 0])"

definition private_ipv4_range :: "(string \<times> string) list" where
  "private_ipv4_range =
     [(''10.0.0.0'', ''10.255.255.255''), (''127.0.0.0'', ''127.255.255.255''),
      (''169.254.0.0'', ''169.254.255.255''), (''172.16.0.0'', ''172.31.255.255''),
      (''192.168.0.0'', ''192.168.255.255'')]"

definition private_ipv4_range_bin :: "(int \<times> int) list" where
  "private_ipv4_range_bin = map (\<lambda>(b, e). (case ip_string_to_num b of Inr i \<Rightarrow> i | Inl _ \<Rightarrow> 0,
                                            case ip_string_to_num e of Inr i \<Rightarrow> i | Inl _ \<Rightarrow> 0)) private_ipv4_range"

definition is_private_ip :: "string \<Rightarrow> bool" where
  "is_private_ip ip =
     (if CHR ''.'' \<in> set ip then
        (case ip_string_to_num ip of
           Inl e \<Rightarrow> False
         | Inr n \<Rightarrow> list_ex (\<lambda>(b, e). b \<le> n \<and> n \<le> e) private_ipv4_range_bin)
      else if ip = ''::1'' then True
      else if find_sub '':'' ip \<noteq> Some 4 then False
      else take 2 ip = ''fc'' \<or> take 2 ip = ''fd'')"

text \<open>\<^verbatim>\<open>ipv4_pattern\<close>: its \<^verbatim>\<open>$\<close> also matches before a final newline.\<close>

definition drop_newline :: "string \<Rightarrow> string" where
  "drop_newline s = (if s \<noteq> [] \<and> last s = CHR 0x0A then butlast s else s)"

definition ipv4_groups :: "string \<Rightarrow> string list option" where
  "ipv4_groups s = (let ps = split_on CHR ''.'' (drop_newline s) in
     if length ps = 4 \<and> list_all (\<lambda>p. 1 \<le> length p \<and> length p \<le> 3 \<and> list_all is_digit p) ps
     then Some ps else None)"

definition check_ip_valid4 :: "string \<Rightarrow> bool" where
  "check_ip_valid4 ip = (case ipv4_groups ip of
      None \<Rightarrow> False
    | Some ps \<Rightarrow> list_all (\<lambda>p. \<not> digits_val p > 255) ps)"

definition get_ip_maskc :: "string \<Rightarrow> string" where
  "get_ip_maskc ip_str = join ''.'' (butlast (split_on CHR ''.'' ip_str)) @ ''.0''"

subsection \<open>Address with port\<close>

text \<open>
  \<^verbatim>\<open>find\<close> gives -1 when the closing bracket is missing, and the slices then count from the end.
\<close>

definition get_ip_port :: "string \<Rightarrow> string \<Rightarrow> exn + (string \<times> int)" where
  "get_ip_port ip_str port =
     (let (ip, p) =
        (if CHR ''.'' \<in> set ip_str then
           (if CHR '':'' \<in> set ip_str then
              (let ps = split_on CHR '':'' ip_str in (ps ! 0, ps ! 1))
            else (ip_str, port))
         else if CHR ''['' \<in> set ip_str then
           (let p1 = the (find_sub ''['' ip_str) in
            case find_sub '']'' ip_str of
              Some p2 \<Rightarrow> (let port_str = drop (p2 + 1) ip_str
                          in (slice (p1 + 1) p2 ip_str, if length port_str > 0 then drop 1 port_str else port))
            | None \<Rightarrow> (drop (p1 + 1) (butlast ip_str), drop 1 ip_str))
         else (ip_str, port))
      in case int_of_text p of Inl e \<Rightarrow> Inl e | Inr n \<Rightarrow> Inr (ip, n))"

definition get_ip_str :: "string \<Rightarrow> int \<Rightarrow> string" where
  "get_ip_str ip port = (let ip' = (if CHR '':'' \<in> set ip then ''['' @ ip @ '']'' else ip)
     in ip' @ '':'' @ dec_int port)"

subsection \<open>Ranges\<close>

definition two_parts :: "string list \<Rightarrow> exn + (string \<times> string)" where
  "two_parts ps = (case ps of [a, b] \<Rightarrow> Inr (a, b) | _ \<Rightarrow> Inl ValueError)"

fun split_regions :: "string list \<Rightarrow> exn + (string \<times> string)" where
  "split_regions [] = Inr ([], [])"
| "split_regions (r # rs) =
     (case (if CHR ''-'' \<in> set r then two_parts (split_on CHR ''-'' r) else Inr (r, r)) of
        Inl e \<Rightarrow> Inl e
      | Inr (s, e) \<Rightarrow> (case split_regions rs of
          Inl x \<Rightarrow> Inl x
        | Inr (b, e') \<Rightarrow> Inr (''.'' @ s @ b, ''.'' @ e @ e')))"

definition before_last :: "char \<Rightarrow> string \<Rightarrow> string" where
  "before_last c s = (if c \<in> set s then rev (drop 1 (dropWhile (\<lambda>x. x \<noteq> c) (rev s))) else butlast s)"

definition split_ip :: "string \<Rightarrow> exn + (string \<times> string)" where
  "split_ip strline =
     (if CHR ''-'' \<in> set strline then
        (let num_regions = split_on CHR ''.'' strline in
         if length num_regions = 4 then
           (case split_regions num_regions of Inl e \<Rightarrow> Inl e | Inr (b, e) \<Rightarrow> Inr (drop 1 b, drop 1 e))
         else (case two_parts (split_on CHR ''-'' strline) of
             Inl e \<Rightarrow> Inl e
           | Inr (b, e) \<Rightarrow> Inr (b, if 1 \<le> length e \<and> length e \<le> 3
                                    then before_last CHR ''.'' b @ ''.'' @ e else e)))
      else if strline \<noteq> [] \<and> last strline = CHR ''.'' then Inr (strline @ ''0'', strline @ ''255'')
      else if CHR ''/'' \<in> set strline then
        (case two_parts (split_on CHR ''/'' strline) of
           Inl e \<Rightarrow> Inl e
         | Inr (ip, bits) \<Rightarrow>
             if \<not> check_ip_valid4 ip then Inr ([], [])
             else (case int_of_text bits of
                 Inl e \<Rightarrow> Inl e
               | Inr n \<Rightarrow> if \<not> (0 \<le> n \<and> n \<le> 32) then Inr ([], [])
                   else (case ip_string_to_num ip of Inl e \<Rightarrow> Inl e | Inr orgip \<Rightarrow>
                     (let end_bits = push_bit (nat (32 - n)) 1 - 1;
                          begin_bits = 0xFFFFFFFF XOR end_bits
                      in Inr (ip_num_to_string (orgip AND begin_bits), ip_num_to_string (orgip OR end_bits))))))
      else Inr (strline, strline))"

subsection \<open>Names and versions\<close>

definition domain_char :: "char \<Rightarrow> bool" where
  "domain_char c \<longleftrightarrow> (65 \<le> (of_char c :: nat) \<and> (of_char c :: nat) \<le> 90) \<or> is_digit c \<or> c = CHR ''-''"

definition domain_allowed :: "string \<Rightarrow> bool" where
  "domain_allowed x0 = (let x = drop_newline x0 in
     x \<noteq> [] \<and> length x \<le> 63 \<and> list_all domain_char x \<and> hd x \<noteq> CHR ''-'' \<and> last x \<noteq> CHR ''-'')"

definition check_domain_valid :: "string \<Rightarrow> bool" where
  "check_domain_valid hostname =
     (if length hostname > 255 then False
      else let h = (if hostname \<noteq> [] \<and> last hostname = CHR ''.'' then butlast hostname else hostname)
        in list_all domain_allowed (split_on CHR ''.'' h))"

definition split_domain :: "string \<Rightarrow> string \<times> string" where
  "split_domain host = (let hl = split_on CHR ''.'' host in (hd hl, join ''.'' (tl hl)))"

text \<open>The random bytes of the operating system are the argument.\<close>

definition generate_random_lowercase :: "nat list \<Rightarrow> bytes" where
  "generate_random_lowercase rnd = map (\<lambda>b. char_of (97 + b mod 26)) rnd"

text \<open>\<^verbatim>\<open>[0-9]+\.[0-9]+\.[0-9]+\<close> at the start of the text.\<close>

definition version_of :: "string \<Rightarrow> (nat \<times> nat \<times> nat) option" where
  "version_of s =
     (let a = takeWhile is_digit s; r1 = dropWhile is_digit s;
          b = takeWhile is_digit (drop 1 r1); r2 = dropWhile is_digit (drop 1 r1);
          c = takeWhile is_digit (drop 1 r2)
      in if a \<noteq> [] \<and> take 1 r1 = ''.'' \<and> b \<noteq> [] \<and> take 1 r2 = ''.'' \<and> c \<noteq> []
         then Some (digits_val a, digits_val b, digits_val c) else None)"

fun version_less :: "nat \<times> nat \<times> nat \<Rightarrow> nat \<times> nat \<times> nat \<Rightarrow> bool" where
  "version_less (a, b, c) (x, y, z) \<longleftrightarrow> a < x \<or> (a = x \<and> (b < y \<or> (b = y \<and> c < z)))"

definition compare_version :: "string \<Rightarrow> string \<Rightarrow> exn + int" where
  "compare_version v r = (case (version_of v, version_of r) of
      (Some a, Some b) \<Rightarrow> Inr (if version_less b a then 1 else if version_less a b then -1 else 0)
    | _ \<Rightarrow> Inl AttributeError)"

definition merge_two_dict :: "('k, 'v) dict \<Rightarrow> ('k, 'v) dict \<Rightarrow> ('k, 'v) dict" where
  "merge_two_dict x y = foldl (\<lambda>z (k, v). dset k v z) x y"

lemma merge_two_dict_get: "dict_ok y \<Longrightarrow> dget (merge_two_dict x y) k = (case dget y k of None \<Rightarrow> dget x k | Some v \<Rightarrow> Some v)"
proof (induction y arbitrary: x)
  case (Cons p y)
  obtain j v where p: "p = (j, v)" by (cases p)
  have "k = j \<Longrightarrow> dget y k = None" using Cons.prems p by (simp add: map_of_eq_None_iff)
  with Cons.IH [of "dset j v x"] Cons.prems p show ?case
    by (cases "k = j") (simp_all add: merge_two_dict_def split: option.split)
qed (simp add: merge_two_dict_def)

subsection \<open>Properties\<close>

lemma ints_of_decs: "ints_of (map dec ns) = Inr (map int ns)"
  by (induction ns) simp_all

lemma dec_int_nat [simp]: "dec_int (int n) = dec n"
  by (simp add: dec_int_def)

text \<open>One number is four bytes.\<close>

definition octets :: "nat \<Rightarrow> nat list" where
  "octets n = [n div 2 ^ 24 mod 256, n div 2 ^ 16 mod 256, n div 2 ^ 8 mod 256, n mod 256]"

lemma ip_num_octets: "ip_num_to_string (int n) = join ''.'' (map dec (octets n))"
proof -
  have b: "dec_int (drop_bit k (int n) AND 255) = dec (n div 2 ^ k mod 256)" for k
  proof -
    have "drop_bit k (int n) AND 255 = int (n div 2 ^ k mod 256)"
    proof -
      have "(255 :: int) = mask 8" by (simp add: mask_eq_exp_minus_1)
      then have "drop_bit k (int n) AND 255 = take_bit 8 (drop_bit k (int n))" by (simp only: take_bit_eq_mask)
      then show ?thesis by (simp add: take_bit_eq_mod drop_bit_eq_div zdiv_int zmod_int)
    qed
    then show ?thesis by simp
  qed
  show ?thesis by (simp add: ip_num_to_string_def octets_def b b [of 0, simplified])
qed

lemma push_or:
  fixes a b :: int assumes "0 \<le> b" "b < 256" shows "push_bit 8 a OR b = a * 256 + b"
proof -
  have b: "take_bit 8 b = b" using assms by (simp add: take_bit_eq_mod)
  have "\<not> bit (push_bit 8 a) i \<or> \<not> bit b i" for i
    by (subst b [symmetric]) (simp add: bit_push_bit_iff bit_take_bit_iff)
  then have "push_bit 8 a + b = push_bit 8 a OR b" by (rule disjunctive_add)
  then show ?thesis by (simp add: push_bit_eq_mult)
qed

lemma octets_less: "x \<in> set (octets n) \<Longrightarrow> x < 256"
  by (auto simp: octets_def)

lemma octets_sum: "((n div 2 ^ 24 mod 256 * 256 + n div 2 ^ 16 mod 256) * 256 + n div 2 ^ 8 mod 256) * 256 + n mod 256
   = n mod 2 ^ 32" for n :: nat
proof -
  have "n mod 2 ^ 32 = 256 * (n div 256 mod 2 ^ 24) + n mod 256"
    using mod_mult2_eq [of n 256 "2 ^ 24"] by simp
  moreover have "n div 256 mod 2 ^ 24 = 256 * (n div 2 ^ 16 mod 2 ^ 16) + n div 256 mod 256"
    using mod_mult2_eq [of "n div 256" 256 "2 ^ 16"] by (simp flip: div_mult2_eq)
  moreover have "n div 2 ^ 16 mod 2 ^ 16 = 256 * (n div 2 ^ 24 mod 256) + n div 2 ^ 16 mod 256"
    using mod_mult2_eq [of "n div 2 ^ 16" 256 256] by (simp flip: div_mult2_eq)
  ultimately show ?thesis by simp
qed

lemma num_of_octets: "ip_string_to_num (join ''.'' (map dec (octets n))) = Inr (int (n mod 2 ^ 32))"
proof -
  have "split_on CHR ''.'' (join ''.'' (map dec (octets n))) = map dec (octets n)"
    by (rule split_join) (auto simp: octets_def dest: dec_chars)
  then have "ip_string_to_num (join ''.'' (map dec (octets n)))
     = Inr (foldl (\<lambda>a b. push_bit 8 a OR b) (int (hd (octets n))) (map int (tl (octets n))))"
    by (simp only: ip_string_to_num_def ints_of_decs) (simp add: octets_def)
  also have "\<dots> = Inr (int (n mod 2 ^ 32))"
    using octets_sum [of n] by (simp add: octets_def push_or del: push_bit_of_nat flip: of_nat_add of_nat_mult)
  finally show ?thesis .
qed

lemma length_dec: "n < 10 ^ k \<Longrightarrow> 0 < k \<Longrightarrow> length (dec n) \<le> k"
proof (induction k arbitrary: n)
  case (Suc k)
  show ?case
  proof (cases "n < 10")
    case True
    then show ?thesis by (simp add: dec.simps [of n])
  next
    case False
    then have "0 < k" using Suc.prems by (cases k) auto
    moreover have "n div 10 < 10 ^ k" using Suc.prems by (simp add: less_mult_imp_div_less mult.commute)
    ultimately show ?thesis using Suc.IH [of "n div 10"] False by (simp add: dec.simps [of n])
  qed
qed simp

lemma octet_text: "x < 256 \<Longrightarrow> 1 \<le> length (dec x) \<and> length (dec x) \<le> 3 \<and> list_all is_digit (dec x)"
  using length_dec [of x 3] dec_nonempty [of x] dec_digits [of _ x]
  by (auto simp: list_all_iff Suc_le_eq)

lemma dotted_valid: "check_ip_valid4 (join ''.'' (map dec (octets n)))"
  and dotted_newline_valid: "check_ip_valid4 (join ''.'' (map dec (octets n)) @ [CHR 0x0A])"
proof -
  let ?s = "join ''.'' (map dec (octets n))"
  have sp: "split_on CHR ''.'' ?s = map dec (octets n)"
    by (rule split_join) (auto simp: octets_def dest: dec_chars)
  have g: "list_all (\<lambda>p. 1 \<le> length p \<and> length p \<le> 3 \<and> list_all is_digit p) (map dec (octets n))"
    "length (map dec (octets n)) = 4" "list_all (\<lambda>p. \<not> digits_val p > 255) (map dec (octets n))"
  proof -
    show "list_all (\<lambda>p. 1 \<le> length p \<and> length p \<le> 3 \<and> list_all is_digit p) (map dec (octets n))"
      unfolding list_all_iff [of _ "map dec (octets n)"] using octet_text octets_less by auto
    show "length (map dec (octets n)) = 4" by (simp add: octets_def)
    show "list_all (\<lambda>p. \<not> digits_val p > 255) (map dec (octets n))"
      unfolding list_all_iff using octets_less [of _ n] by force
  qed
  have "last ?s \<noteq> CHR 0x0A"
  proof -
    have "last ?s = last (dec (n mod 256))" by (simp add: octets_def)
    moreover have "is_digit (last (dec (n mod 256)))" by (rule dec_digits) (rule last_in_set, simp)
    ultimately show ?thesis using digit_not by auto
  qed
  then have d: "drop_newline ?s = ?s" "drop_newline (?s @ [CHR 0x0A]) = ?s" by (simp_all add: drop_newline_def)
  show "check_ip_valid4 ?s" "check_ip_valid4 (?s @ [CHR 0x0A])"
    using g by (simp_all add: check_ip_valid4_def ipv4_groups_def d sp Let_def del: map_map)
qed

text \<open>
  Writing any number as a dotted address gives text that the validity check accepts and
  that reads back as the number's low 32 bits; the check also accepts that text with a newline
  behind it.
\<close>

theorem ipv4_roundtrip:
  "ip_string_to_num (ip_num_to_string (int n)) = Inr (int (n mod 2 ^ 32))
   \<and> check_ip_valid4 (ip_num_to_string (int n)) \<and> check_ip_valid4 (ip_num_to_string (int n) @ [CHR 0x0A])"
  unfolding ip_num_octets using num_of_octets dotted_valid dotted_newline_valid by blast

lemma and_high: "k \<le> 32 \<Longrightarrow> m < 2 ^ 32 \<Longrightarrow>
   int m AND (0xFFFFFFFF XOR (push_bit k 1 - 1)) = int (m div 2 ^ k * 2 ^ k)"
proof -
  assume k: "k \<le> 32" "m < 2 ^ 32"
  have m32: "(0xFFFFFFFF :: int) = mask 32" by (simp add: mask_eq_exp_minus_1)
  have mk: "(push_bit k 1 - 1 :: int) = mask k" by (simp add: mask_eq_exp_minus_1 push_bit_eq_mult)
  have tm: "take_bit 32 (int m) = int m" using k(2) by (simp add: take_bit_eq_mod)
  have "int m AND (mask 32 XOR mask k) = push_bit k (drop_bit k (int m))"
  proof (rule bit_eqI)
    fix i
    have "bit (int m) i \<Longrightarrow> i < 32" by (subst (asm) tm [symmetric]) (simp add: bit_take_bit_iff)
    then show "bit (int m AND (mask 32 XOR mask k)) i \<longleftrightarrow> bit (push_bit k (drop_bit k (int m))) i"
      using k(1) by (auto simp: bit_and_iff bit_xor_iff bit_mask_iff bit_push_bit_iff bit_drop_bit_eq)
  qed
  also have "\<dots> = int (m div 2 ^ k * 2 ^ k)" by (simp add: push_bit_eq_mult drop_bit_eq_div zdiv_int)
  finally show ?thesis unfolding m32 mk .
qed

lemma or_low: "int m OR (push_bit k 1 - 1) = int (m div 2 ^ k * 2 ^ k + (2 ^ k - 1))"
proof -
  have mk: "(push_bit k 1 - 1 :: int) = mask k" by (simp add: mask_eq_exp_minus_1 push_bit_eq_mult)
  have "int m OR mask k = push_bit k (drop_bit k (int m)) OR mask k"
    by (rule bit_eqI) (auto simp: bit_or_iff bit_mask_iff bit_push_bit_iff bit_drop_bit_eq)
  also have "\<dots> = push_bit k (drop_bit k (int m)) + mask k"
    by (rule disjunctive_add [symmetric]) (auto simp: bit_mask_iff bit_push_bit_iff)
  also have "\<dots> = int (m div 2 ^ k * 2 ^ k + (2 ^ k - 1))"
  proof -
    have "int (2 ^ k - 1) = 2 ^ k - 1" by (simp add: of_nat_diff)
    then show ?thesis
      by (simp only: of_nat_add of_nat_mult zdiv_int of_nat_power of_nat_numeral push_bit_eq_mult drop_bit_eq_div
          mask_eq_exp_minus_1)
  qed
  finally show ?thesis unfolding mk .
qed

text \<open>
  A network in slash notation is split into its first and last address: the address with
  the host bits cleared and with the host bits set.
\<close>

theorem split_ip_cidr:
  assumes "m < 2 ^ 32" and "n \<le> 32"
  shows "split_ip (ip_num_to_string (int m) @ ''/'' @ dec n) =
    Inr (ip_num_to_string (int (m div 2 ^ (32 - n) * 2 ^ (32 - n))),
         ip_num_to_string (int (m div 2 ^ (32 - n) * 2 ^ (32 - n) + (2 ^ (32 - n) - 1))))"
proof -
  let ?a = "join ''.'' (map dec (octets m))" let ?s = "?a @ CHR ''/'' # dec n"
  have chars: "c \<in> set ?a \<Longrightarrow> c = CHR ''.'' \<or> is_digit c" for c
    by (auto simp: octets_def dec_digits)
  then have no: "CHR ''/'' \<notin> set ?a" "CHR ''-'' \<notin> set ?a" using digit_not by blast+
  have no2: "CHR ''-'' \<notin> set (dec n)" "CHR ''/'' \<notin> set (dec n)" using dec_chars by blast+
  have "last ?s = last (dec n)" by simp
  moreover have "is_digit (last (dec n))" by (rule dec_digits) (rule last_in_set, simp)
  ultimately have l: "last ?s \<noteq> CHR ''.''" using digit_not by auto
  have sp: "split_on CHR ''/'' ?s = [?a, dec n]"
    using split_on_append [OF no(1), of "dec n"] split_on_no [OF no2(2)] by simp
  have num: "ip_string_to_num ?a = Inr (int m)" using num_of_octets [of m] assms(1) by simp
  have k: "nat (32 - int n) = 32 - n" using assms(2) by (simp add: nat_diff_distrib)
  show ?thesis
    unfolding ip_num_octets [of m]
    using no no2 l assms dotted_valid [of m]
    by (simp add: split_ip_def sp two_parts_def num k Let_def and_high [OF _ assms(1), of "32 - n"] or_low [of m "32 - n"]
        del: push_bit_of_1)
qed

lemma split_ip_cidr_witness:
  "split_ip (ip_num_to_string 3232235786 @ ''/'' @ dec 24) = Inr (ip_num_to_string 3232235776, ip_num_to_string 3232236031)"
  using split_ip_cidr [of 3232235786 24] by simp

text \<open>
  An address and a port put together by \<^verbatim>\<open>get_ip_str\<close> are taken apart again by
  \<^verbatim>\<open>get_ip_port\<close>, for IPv4 addresses and names with dots as for IPv6 addresses, whatever the
  default port.
\<close>

theorem host_port_roundtrip:
  assumes "CHR ''['' \<notin> set ip" "CHR '']'' \<notin> set ip" "(CHR ''.'' \<in> set ip) \<noteq> (CHR '':'' \<in> set ip)"
  shows "get_ip_port (get_ip_str ip (int port)) dflt = Inr (ip, int port)"
proof (cases "CHR ''.'' \<in> set ip")
  case True
  with assms have c: "CHR '':'' \<notin> set ip" by simp
  have "split_on CHR '':'' (ip @ '':'' @ dec port) = [ip, dec port]"
    using split_on_append [OF c, of "dec port"] split_on_no [of "CHR '':''" "dec port"] dec_chars by auto
  with True c show ?thesis by (simp add: get_ip_str_def get_ip_port_def)
next
  case False
  with assms have c: "CHR '':'' \<in> set ip" by simp
  let ?s = "''['' @ ip @ '']:'' @ dec port"
  have nodot: "CHR ''.'' \<notin> set ?s" using False dec_chars by auto
  have p1: "find_sub ''['' ?s = Some 0" by simp
  have p2: "find_sub '']'' (xs @ '']'' @ r) = Some (length xs)" if "CHR '']'' \<notin> set xs" for xs r
    using that by (induction xs) auto
  have "find_sub '']'' ?s = Some (length ip + 1)" using p2 [of "CHR ''['' # ip" "'':'' @ dec port"] assms(2) by simp
  with nodot p1 c show ?thesis by (simp add: get_ip_str_def get_ip_port_def slice_def)
qed

lemma host_port_roundtrip_witness:
  "get_ip_port (get_ip_str ''ab01::1'' 8444) ''443'' = Inr (''ab01::1'', 8444)"
  using host_port_roundtrip [of "''ab01::1''" 8444 "''443''"] by simp

text \<open>
  A host name with a lower-case letter is never valid for \<^verbatim>\<open>check_domain_valid\<close>: its
  character class has only capitals, digits and the hyphen.
\<close>

theorem lower_case_names_rejected:
  assumes "c \<in> set host" "97 \<le> (of_char c :: nat)" "(of_char c :: nat) \<le> 122"
  shows "\<not> check_domain_valid host"
proof
  assume v: "check_domain_valid host"
  let ?h = "if host \<noteq> [] \<and> last host = CHR ''.'' then butlast host else host"
  have cc: "c \<noteq> CHR ''.''" "c \<noteq> CHR 0x0A" using assms(2) by auto
  have "c \<in> set ?h"
    using assms(1) cc by (cases host rule: rev_cases) auto
  then have "c \<in> set (join ''.'' (split_on CHR ''.'' ?h))" by (simp only: join_split)
  moreover have "c \<in> set (join ''.'' ps) \<Longrightarrow> \<exists>p \<in> set ps. c \<in> set p" for ps
    by (induction "''.''" ps rule: join.induct) (use cc in auto)
  ultimately obtain p where p: "p \<in> set (split_on CHR ''.'' ?h)" "c \<in> set p" by blast
  with v have "domain_allowed p" by (auto simp: check_domain_valid_def Let_def list_all_iff split: if_splits)
  moreover have "c \<in> set (drop_newline p)"
    using p(2) cc by (cases p rule: rev_cases) (auto simp: drop_newline_def)
  ultimately have "domain_char c" by (auto simp: domain_allowed_def Let_def list_all_iff)
  with assms(2,3) show False by (auto simp: domain_char_def is_digit_def)
qed

lemma lower_case_names_rejected_witness: "\<not> check_domain_valid ''xx-net.ORG''"
  by (rule lower_case_names_rejected [of "CHR ''x''"]) simp_all

end
