(* ===== verification/Ip_Manager.thy ===== *)
theory Ip_Manager
  imports Net_Text
begin

text \<open>
  lib/noarch/front_base/ip_manager.py: \<^verbatim>\<open>IpManagerBase\<close> (quality of an address: round trip
  time, speed, score) and \<^verbatim>\<open>IpManager\<close> (the pool of scanned addresses, who gets which address,
  and what happens when one fails).

  Files, threads, the local network test and the test connection to an address are outside:
  their outcomes are parameters, writing a file is counted or returned as text.  Each operation
  is one critical section of \<^verbatim>\<open>ip_lock\<close>; the clock is a parameter.
\<close>

subsection \<open>Quality of an address\<close>

record ip_state =
  traffic_cost_history :: "real list"
  traffic_history :: "real list"
  speed_history :: "real list"
  score_history :: "real list"
  rtt_history :: "real list"
  last_use :: time

record ip_quality_info =
  q_score :: real
  q_rtt :: real
  q_speed :: real

record quality_cfg =
  ip_initial_score :: real
  ip_initial_rtt :: real
  ip_initial_speed :: real
  http_query_history_size :: nat
  ip_cal_rtt_max_package_size :: real
  ip_cal_speed_min_package_size :: real
  ip_cal_expect_time_package_size :: real
  ip_speed_save_interval :: real

record ip_base =
  ip_str_states :: "(string, ip_state) dict"
  ip_str_info :: "(string, ip_quality_info) dict"
  info_last_save :: time
  info_saves :: nat
  default_info :: ip_quality_info
  base_ips :: "string list"

text \<open>
  The parsed file: \<open>None\<close> if it is missing or unreadable; an entry without a round trip time
  is \<open>None\<close> and makes the whole file worthless.
\<close>

definition load_ip_str_info :: "(string \<times> ip_quality_info option) list option \<Rightarrow> (string, ip_quality_info) dict" where
  "load_ip_str_info f = (case f of
      None \<Rightarrow> []
    | Some es \<Rightarrow> if list_ex (\<lambda>(k, i). i = None) es then [] else map (\<lambda>(k, i). (k, the i)) es)"

definition ip_base_init :: "quality_cfg \<Rightarrow> (string \<times> ip_quality_info option) list option \<Rightarrow> time \<Rightarrow> ip_base" where
  "ip_base_init cfg f now = \<lparr>ip_str_states = [], ip_str_info = load_ip_str_info f, info_last_save = now, info_saves = 0,
     default_info = \<lparr>q_score = ip_initial_score cfg, q_rtt = ip_initial_rtt cfg, q_speed = ip_initial_speed cfg\<rparr>,
     base_ips = []\<rparr>"

definition get_state :: "time \<Rightarrow> string \<Rightarrow> ip_base \<Rightarrow> ip_state \<times> ip_base" where
  "get_state now ip b = (case dget (ip_str_states b) ip of
      Some st \<Rightarrow> (st, b)
    | None \<Rightarrow> (let st = \<lparr>traffic_cost_history = [], traffic_history = [], speed_history = [], score_history = [],
                        rtt_history = [], last_use = now\<rparr>
              in (st, b\<lparr>ip_str_states := dset ip st (ip_str_states b)\<rparr>)))"

definition get_info :: "string \<Rightarrow> ip_base \<Rightarrow> ip_quality_info \<times> ip_base" where
  "get_info ip b = (case dget (ip_str_info b) ip of
      Some i \<Rightarrow> (i, b)
    | None \<Rightarrow> (default_info b, b\<lparr>ip_str_info := dset ip (default_info b) (ip_str_info b)\<rparr>))"

definition set_quality :: "string \<Rightarrow> ip_state \<Rightarrow> ip_quality_info \<Rightarrow> ip_base \<Rightarrow> ip_base" where
  "set_quality ip st i b = b\<lparr>ip_str_states := dset ip st (ip_str_states b), ip_str_info := dset ip i (ip_str_info b)\<rparr>"

definition report_traffic_timecost ::
  "quality_cfg \<Rightarrow> time \<Rightarrow> string \<Rightarrow> real \<Rightarrow> real \<Rightarrow> ip_base \<Rightarrow> (exn + real \<times> real) \<times> ip_base" where
  "report_traffic_timecost cfg now ip timecost traffic b0 =
     (let n = http_query_history_size cfg;
          (st0, b1) = get_state now ip b0;
          st1 = st0\<lparr>last_use := now\<rparr>;
          st2 = (if traffic < ip_cal_rtt_max_package_size cfg
                 then st1\<lparr>rtt_history := push_capped n timecost (rtt_history st1)\<rparr> else st1);
          (i0, b2) = get_info ip b1;
          (min_rtt, mean_rtt) = (if length (rtt_history st2) > 0
             then (Min (set (rtt_history st2)), sum_list (rtt_history st2) / real (length (rtt_history st2)))
             else (min (q_rtt i0) timecost, min (q_rtt i0) timecost));
          i1 = i0\<lparr>q_rtt := min_rtt\<rparr>;
          st3 = (if traffic > ip_cal_speed_min_package_size cfg
                 then st2\<lparr>traffic_cost_history := push_capped n (timecost - min_rtt) (traffic_cost_history st2),
                          traffic_history := push_capped n traffic (traffic_history st2)\<rparr> else st2)
      in if q_speed i1 = 0 then (Inl ZeroDivisionError, set_quality ip st3 i1 b2)
         else let virtual_traffic_cost = ip_cal_expect_time_package_size cfg / q_speed i1;
                  all_traffic = sum_list (traffic_history st3) + ip_cal_expect_time_package_size cfg;
                  all_traffic_cost = sum_list (traffic_cost_history st3) + virtual_traffic_cost
           in if all_traffic_cost = 0 then (Inl ZeroDivisionError, set_quality ip st3 i1 b2)
              else let speed = all_traffic / all_traffic_cost;
                       st4 = st3\<lparr>speed_history := push_capped n speed (speed_history st3)\<rparr>;
                       b3 = set_quality ip st4 (i1\<lparr>q_speed := speed\<rparr>) b2;
                       b4 = (if now - info_last_save b3 > ip_speed_save_interval cfg
                             then b3\<lparr>info_saves := info_saves b3 + 1, info_last_save := now\<rparr> else b3)
                in (Inr (mean_rtt, speed), b4))"

definition update_score :: "quality_cfg \<Rightarrow> time \<Rightarrow> string \<Rightarrow> real \<Rightarrow> ip_base \<Rightarrow> ip_base" where
  "update_score cfg now ip score b0 =
     (let (st, b1) = get_state now ip b0; (i, b2) = get_info ip b1
      in set_quality ip (st\<lparr>score_history := push_capped (http_query_history_size cfg) score (score_history st)\<rparr>)
           (i\<lparr>q_score := score\<rparr>) b2)"

definition get_score :: "string \<Rightarrow> ip_base \<Rightarrow> real \<times> ip_base" where
  "get_score ip b = (let (i, b') = get_info ip b in (q_score i, b'))"

definition get_speed :: "string \<Rightarrow> ip_base \<Rightarrow> (real \<times> real) \<times> ip_base" where
  "get_speed ip b = (let (i, b') = get_info ip b in ((q_speed i, q_rtt i), b'))"

text \<open>\<^verbatim>\<open>random.choice\<close> picks by an index of the operating system.\<close>

definition base_get_ip :: "nat \<Rightarrow> ip_base \<Rightarrow> string" where
  "base_get_ip r b = (if base_ips b = [] then '''' else base_ips b ! (r mod length (base_ips b)))"

subsection \<open>The pool\<close>

datatype hist_info = HText string | HNum int

record ip_info =
  handshake_time :: int
  fail_times :: int
  ip_domain :: "string option"
  ip_server :: string
  ip_history :: "(time \<times> hist_info) list"
  fail_time :: time
  success_time :: time
  get_time :: time
  ip_links :: int
  down_fail :: int
  down_fail_time :: time
  ip_last_active :: time

datatype use_ipv6 = ForceV6 | ForceV4 | AutoIp

record ipm_cfg =
  max_scan_ip_thread_num :: int
  auto_adjust_scan_ip_thread_num :: bool
  target_handshake_time :: real
  cfg_use_ipv6 :: use_ipv6
  long_fail_threshold :: real
  long_fail_connect_interval :: real
  short_fail_connect_interval :: real
  down_fail_connect_interval :: real
  active_connect_interval :: real
  shuffle_ip_on_first_load :: bool
  cfg_max_links_per_ip :: int
  cfg_max_good_ip_num :: int
  cfg_ip_connect_interval :: real
  cfg_record_ip_history :: bool
  has_ip_source :: bool

record ipm =
  im_cfg :: ipm_cfg
  ip_pointer :: nat
  ip_pointer_reset_time :: time
  scan_thread_count :: int
  scan_fail_count :: int
  scan_recheck_interval :: real
  iplist_need_save :: bool
  iplist_saved_time :: time
  last_sort_time :: time
  good_ip_num :: int
  good_ipv4_num :: int
  good_ipv6_num :: int
  ip_dict :: "(string, ip_info) dict"
  ip_list :: "string list"
  scan_ip_thread_num :: int
  auto_adjust_scan_ip_pointer :: int
  started_threads :: int

definition is_ip_enough :: "ipm \<Rightarrow> bool" where
  "is_ip_enough m \<longleftrightarrow> int (length (ip_list m)) \<ge> cfg_max_good_ip_num (im_cfg m)"

definition ip_rate :: "ip_info \<Rightarrow> int" where
  "ip_rate i = handshake_time i + fail_times i * 500 + down_fail i * 500"

definition is_v4 :: "string \<Rightarrow> bool" where
  "is_v4 ip \<longleftrightarrow> CHR ''.'' \<in> set ip"

definition add_ip_num :: "string \<Rightarrow> int \<Rightarrow> ipm \<Rightarrow> ipm" where
  "add_ip_num ip n m =
     (let m1 = (if is_v4 ip then m\<lparr>good_ipv4_num := good_ipv4_num m + n\<rparr>
                else m\<lparr>good_ipv6_num := good_ipv6_num m + n\<rparr>)
      in m1\<lparr>good_ip_num := good_ip_num m1 + n\<rparr>)"

definition search_more_ip :: "ipm \<Rightarrow> ipm" where
  "search_more_ip m =
     (if \<not> has_ip_source (im_cfg m) then m
      else let m1 = (if scan_ip_thread_num m > max_scan_ip_thread_num (im_cfg m)
                     then m\<lparr>scan_ip_thread_num := max_scan_ip_thread_num (im_cfg m)\<rparr> else m);
               n = scan_ip_thread_num m1 - scan_thread_count m1
        in if n < 1 then m1
           else m1\<lparr>scan_thread_count := scan_thread_count m1 + n, started_threads := started_threads m1 + n\<rparr>)"

text \<open>The number of scan threads; \<open>None\<close> where the code gives up with an exception.\<close>

definition wanted_threads :: "ipm \<Rightarrow> int option" where
  "wanted_threads m =
     (let cfg = im_cfg m; ip_num = int (length (ip_list m)); mx = real_of_int (max_scan_ip_thread_num cfg);
          good = real_of_int (cfg_max_good_ip_num cfg)
      in if \<not> auto_adjust_scan_ip_thread_num cfg then Some (max_scan_ip_thread_num cfg)
         else if ip_num < cfg_max_good_ip_num cfg then Some (py_int (mx * (1.5 - real_of_int ip_num / good)))
         else if ip_list m = [] then None
         else let last_ip = (if ip_num > auto_adjust_scan_ip_pointer m
                             then ip_list m ! nat (auto_adjust_scan_ip_pointer m) else last (ip_list m))
           in (case dget (ip_dict m) last_ip of
                 None \<Rightarrow> None
               | Some i \<Rightarrow> Some (py_int ((real_of_int (ip_rate i) - target_handshake_time cfg) / 2 * mx / 50
                              * good / real_of_int (max (good_ip_num m) 1)))))"

definition adjust_scan_thread_num :: "ipm \<Rightarrow> ipm" where
  "adjust_scan_thread_num m =
     (let mx = max_scan_ip_thread_num (im_cfg m); mn = (if mx \<noteq> 0 then 1 else 0) in
      case wanted_threads m of
        None \<Rightarrow> m
      | Some w \<Rightarrow>
          (let n = (if w > mx then mx else if w < mn then mn else w) in
           if n > mx then m
           else if n \<noteq> scan_ip_thread_num m then search_more_ip (m\<lparr>scan_ip_thread_num := n\<rparr>) else m))"

definition eligible :: "ipm_cfg \<Rightarrow> string \<Rightarrow> ip_info \<Rightarrow> bool" where
  "eligible cfg ip i \<longleftrightarrow> \<not> (is_v4 ip \<and> cfg_use_ipv6 cfg = ForceV6) \<and> \<not> (\<not> is_v4 ip \<and> cfg_use_ipv6 cfg = ForceV4)
     \<and> contains ''gws'' (ip_server i)"

definition try_sort_ip :: "bool \<Rightarrow> time \<Rightarrow> ipm \<Rightarrow> ipm" where
  "try_sort_ip force now m =
     (if now - last_sort_time m < 10 \<and> \<not> force then m
      else let es = filter (\<lambda>(ip, i). eligible (im_cfg m) ip i) (ip_dict m);
               m0 = m\<lparr>last_sort_time := now, good_ip_num := 0, good_ipv4_num := 0, good_ipv6_num := 0\<rparr>;
               m1 = foldl (\<lambda>x (ip, i). if fail_times i = 0 then add_ip_num ip 1 x else x) m0 es
           in adjust_scan_thread_num
                (m1\<lparr>ip_list := map fst (sort_key (\<lambda>(ip, i). ip_rate i) es)\<rparr>))"

text \<open>\<^verbatim>\<open>ip_quality\<close> counts down from an index that is one too high.\<close>

fun quality_scan :: "ipm \<Rightarrow> nat \<Rightarrow> int" where
  "quality_scan m 0 = 9999"
| "quality_scan m (Suc i) =
     (if \<not> Suc i < length (ip_list m) then 9999
      else case dget (ip_dict m) (ip_list m ! Suc i) of
        None \<Rightarrow> 9999
      | Some x \<Rightarrow> if fail_times x > 0 then quality_scan m i else handshake_time x)"

definition ip_quality :: "nat \<Rightarrow> ipm \<Rightarrow> int" where
  "ip_quality num m = quality_scan m (min num (length (ip_list m)))"

definition append_history :: "time \<Rightarrow> string \<Rightarrow> hist_info \<Rightarrow> ipm \<Rightarrow> ipm" where
  "append_history now ip h m =
     (if cfg_record_ip_history (im_cfg m) then
        (case dget (ip_dict m) ip of None \<Rightarrow> m
         | Some i \<Rightarrow> m\<lparr>ip_dict := dset ip (i\<lparr>ip_history := ip_history i @ [(now, h)]\<rparr>) (ip_dict m)\<rparr>)
      else m)"

definition upd_ip :: "string \<Rightarrow> (ip_info \<Rightarrow> ip_info) \<Rightarrow> ipm \<Rightarrow> ipm" where
  "upd_ip ip f m = (case dget (ip_dict m) ip of None \<Rightarrow> m | Some i \<Rightarrow> m\<lparr>ip_dict := dset ip (f i) (ip_dict m)\<rparr>)"

subsection \<open>Handing out an address\<close>

text \<open>Where the pointer stands in this round; \<open>None\<close> is the second of sleep at the end of the list.\<close>

definition move_pointer :: "time \<Rightarrow> nat \<Rightarrow> ipm \<Rightarrow> ipm option" where
  "move_pointer now n m =
     (if ip_pointer m \<ge> n then
        (if now - ip_pointer_reset_time m < 1 then None
         else Some (m\<lparr>ip_pointer := 0, ip_pointer_reset_time := now\<rparr>))
      else if ip_pointer m > 0 \<and> now - ip_pointer_reset_time m > 3
      then Some (m\<lparr>ip_pointer := 0, ip_pointer_reset_time := now\<rparr>) else Some m)"

definition rested :: "ipm_cfg \<Rightarrow> bool \<Rightarrow> real \<Rightarrow> time \<Rightarrow> ip_info \<Rightarrow> bool" where
  "rested cfg to_recheck interval now i \<longleftrightarrow>
     \<not> now - get_time i < interval
   \<and> (to_recheck \<or>
       (\<not> now - fail_time i < (if now - success_time i > long_fail_threshold cfg
                              then long_fail_connect_interval cfg else short_fail_connect_interval cfg)
       \<and> \<not> now - down_fail_time i < down_fail_connect_interval cfg
       \<and> \<not> now - ip_last_active i < active_connect_interval cfg))
   \<and> \<not> ip_links i \<ge> cfg_max_links_per_ip cfg"

definition hand_out :: "bool \<Rightarrow> time \<Rightarrow> string \<Rightarrow> ipm \<Rightarrow> ipm" where
  "hand_out to_recheck now ip m =
     (let m2 = append_history now ip (HText ''get'') m;
          m3 = upd_ip ip (\<lambda>i. i\<lparr>get_time := now, ip_links := ip_links i + (if to_recheck then 0 else 1)\<rparr>) m2
      in m3\<lparr>ip_pointer := ip_pointer m3 + 1\<rparr>)"

text \<open>\<open>host\<close> is the host manager's \<^verbatim>\<open>get_sni_host\<close>; \<open>None\<close> if it raises.\<close>

fun get_loop :: "(string \<Rightarrow> (string \<times> string) option) \<Rightarrow> bool \<Rightarrow> real \<Rightarrow> (nat \<Rightarrow> time) \<Rightarrow> nat \<Rightarrow> nat \<Rightarrow> ipm \<Rightarrow>
    (string \<times> string \<times> string) option \<times> ipm" where
  "get_loop host rc interval clk n 0 m = (None, m)"
| "get_loop host rc interval clk n (Suc k) m =
     (let now = clk k in
      case move_pointer now n m of
        None \<Rightarrow> get_loop host rc interval clk n k m
      | Some m1 \<Rightarrow>
          (let ip = ip_list m1 ! ip_pointer m1; cfg = im_cfg m1 in
           if is_v4 ip \<and> cfg_use_ipv6 cfg = ForceV6 then get_loop host rc interval clk n k m1
           else if \<not> is_v4 ip \<and> cfg_use_ipv6 cfg = ForceV4 then get_loop host rc interval clk n k m1
           else case dget (ip_dict m1) ip of
             None \<Rightarrow> (None, m1)
           | Some i \<Rightarrow>
               if \<not> rested cfg rc interval now i
               then get_loop host rc interval clk n k (m1\<lparr>ip_pointer := ip_pointer m1 + 1\<rparr>)
               else let m4 = hand_out rc now ip m1
                    in (case host ip of None \<Rightarrow> (None, m4) | Some (sni, h) \<Rightarrow> (Some (ip, sni, h), m4))))"

definition get_ip_sni_host ::
  "(string \<Rightarrow> (string \<times> string) option) \<Rightarrow> bool \<Rightarrow> time \<Rightarrow> (nat \<Rightarrow> time) \<Rightarrow> ipm \<Rightarrow> (string \<times> string \<times> string) option \<times> ipm" where
  "get_ip_sni_host host to_recheck now clk m0 =
     (let m = (if to_recheck then m0 else try_sort_ip False now m0); n = length (ip_list m) in
      if n = 0 then (None, m)
      else get_loop host to_recheck
             (if to_recheck then real n * scan_recheck_interval m + 200 else cfg_ip_connect_interval (im_cfg m)) clk n n m)"

subsection \<open>Reports about an address\<close>

definition add_ip :: "time \<Rightarrow> string \<Rightarrow> real \<Rightarrow> string option \<Rightarrow> string \<Rightarrow> int \<Rightarrow> int \<Rightarrow> bool \<Rightarrow> ipm \<Rightarrow> bool option \<times> ipm" where
  "add_ip now ip hs domain server fails down scan_result m =
     (let success = (if scan_result then now else 0); h = py_int hs in
      case dget (ip_dict m) ip of
        Some i \<Rightarrow>
          (let m1 = upd_ip ip (\<lambda>i. i\<lparr>success_time := success, handshake_time := h, fail_times := fails\<rparr>) m;
               m2 = (if fail_time i > 0 then add_ip_num ip 1 (upd_ip ip (\<lambda>i. i\<lparr>fail_time := 0\<rparr>) m1) else m1)
           in (Some False, append_history now ip (HNum h) m2))
      | None \<Rightarrow>
          (let m1 = add_ip_num ip 1 (m\<lparr>iplist_need_save := True\<rparr>);
               m2 = m1\<lparr>ip_dict := dset ip \<lparr>handshake_time = h, fail_times = fails, ip_domain = domain,
                     ip_server = server, ip_history = [(now, HNum h)], fail_time = 0, success_time = success,
                     get_time = 0, ip_links = 0, down_fail = down, down_fail_time = 0, ip_last_active = 0\<rparr> (ip_dict m1)\<rparr>
           in if \<not> contains ''gws'' server then (None, m2)
              else (Some True, m2\<lparr>ip_list := ip_list m2 @ [ip]\<rparr>)))"

definition update_ip :: "time \<Rightarrow> string \<Rightarrow> real \<Rightarrow> ipm \<Rightarrow> ipm" where
  "update_ip now ip hs m =
     (let h = py_int hs in
      if h < 5 then m
      else case dget (ip_dict m) ip of
        None \<Rightarrow> m
      | Some i \<Rightarrow>
          (let m1 = upd_ip ip (\<lambda>i. i\<lparr>handshake_time := (if h - handshake_time i > 500 then handshake_time i + 500 else h),
                                    success_time := now\<rparr>) m;
               m2 = (if fail_times i > 0 then add_ip_num ip 1 m1 else m1);
               m3 = append_history now ip (HNum h) (upd_ip ip (\<lambda>i. i\<lparr>fail_times := 0\<rparr>) m2)
           in (upd_ip ip (\<lambda>i. i\<lparr>fail_time := 0\<rparr>) m3)\<lparr>iplist_need_save := True\<rparr>))"

definition bare_ip :: "string \<Rightarrow> exn + string" where
  "bare_ip ip_str = (case get_ip_port ip_str ''443'' of Inl e \<Rightarrow> Inl e | Inr (ip, p) \<Rightarrow> Inr ip)"

definition forget_ip :: "string \<Rightarrow> ipm \<Rightarrow> ipm" where
  "forget_ip ip m = m\<lparr>ip_dict := ddel ip (ip_dict m), ip_list := remove1 ip (ip_list m)\<rparr>"

text \<open>\<open>net_ok\<close> is the local network test after the failure was reported to it.\<close>

definition report_connect_fail :: "time \<Rightarrow> bool \<Rightarrow> string \<Rightarrow> bool \<Rightarrow> ipm \<Rightarrow> ipm" where
  "report_connect_fail now net_ok ip_str force_remove m =
     (let save = (\<lambda>m. m\<lparr>iplist_need_save := True\<rparr>);
          finish = (\<lambda>m. let m' = save m in if is_ip_enough m' then m' else search_more_ip m')
      in case bare_ip ip_str of
        Inl e \<Rightarrow> finish m
      | Inr ip \<Rightarrow>
         (case dget (ip_dict m) ip of
            None \<Rightarrow> save m
          | Some i \<Rightarrow>
              if force_remove then
                save (forget_ip ip (if fail_times i = 0 then add_ip_num ip (-1) m else m))
              else let m1 = upd_ip ip (\<lambda>i. if ip_links i > 0 then i\<lparr>ip_links := ip_links i - 1\<rparr> else i) m in
                if \<not> net_ok then save m1
                else if now - fail_time i < 1 then save m1
                else let m2 = (if fail_times i = 0 then add_ip_num ip (-1) m1 else m1);
                         m3 = append_history now ip (HText ''fail'') (upd_ip ip (\<lambda>i. i\<lparr>fail_times := fail_times i + 1\<rparr>) m2)
                     in finish (upd_ip ip (\<lambda>i. i\<lparr>fail_time := now\<rparr>) m3)))"

definition report_connect_closed :: "time \<Rightarrow> string \<Rightarrow> string \<Rightarrow> ipm \<Rightarrow> ipm" where
  "report_connect_closed now ip_str reason m = (case bare_ip ip_str of
      Inl e \<Rightarrow> m
    | Inr ip \<Rightarrow> (case dget (ip_dict m) ip of
        None \<Rightarrow> m
      | Some i \<Rightarrow>
          if reason \<noteq> ''down fail'' \<and> \<not> is_prefix ''status '' reason
          then upd_ip ip (\<lambda>i. i\<lparr>ip_last_active := now\<rparr>) m
          else let m1 = (if down_fail i = 0 then add_ip_num ip (-1) m else m);
                   m2 = append_history now ip (HText reason) (upd_ip ip (\<lambda>i. i\<lparr>down_fail := down_fail i + 1\<rparr>) m1)
               in upd_ip ip (\<lambda>i. i\<lparr>down_fail_time := now\<rparr>) m2))"

definition ssl_closed :: "time \<Rightarrow> string \<Rightarrow> string \<Rightarrow> ipm \<Rightarrow> ipm" where
  "ssl_closed now ip_str reason m = (case bare_ip ip_str of
      Inl e \<Rightarrow> m
    | Inr ip \<Rightarrow> if \<not> dmem ip (ip_dict m) then m else append_history now ip (HText (''C['' @ reason @ '']'')) m)"

subsection \<open>Keeping the pool\<close>

fun drop_slowest :: "nat \<Rightarrow> ipm \<Rightarrow> ipm" where
  "drop_slowest 0 m = m"
| "drop_slowest (Suc k) m =
     (if \<not> int (Suc k) > cfg_max_good_ip_num (im_cfg m) then m
      else if \<not> k < length (ip_list m) then m
      else let ip = ip_list m ! k in
        case dget (ip_dict m) ip of
          None \<Rightarrow> m
        | Some i \<Rightarrow> drop_slowest k (forget_ip ip (if fail_times i = 0 then add_ip_num ip (-1) m else m)))"

definition remove_slowest_ip :: "time \<Rightarrow> ipm \<Rightarrow> ipm" where
  "remove_slowest_ip now m =
     (if int (length (ip_list m)) \<le> cfg_max_good_ip_num (im_cfg m) then m
      else let m1 = try_sort_ip True now m in drop_slowest (length (ip_list m1)) m1)"

datatype check_result = NoResult | CheckBad | CheckOk real string

text \<open>
  \<^verbatim>\<open>recheck_ip\<close> calls itself while an address with more than two failures gives no result.
  Each round has its clock, the two answers of the network test and the test of the address;
  rounds beyond the list did not happen yet.
\<close>

fun recheck_ip :: "(time \<times> bool \<times> bool \<times> check_result) list \<Rightarrow> string \<Rightarrow> bool \<Rightarrow> ipm \<Rightarrow> ipm" where
  "recheck_ip [] ip first_report m = m"
| "recheck_ip ((now, net0, net1, res) # rounds) ip first_report m =
     (if \<not> net0 then m
      else let m1 = (if first_report then report_connect_fail now net1 ip False m else m) in
        case dget (ip_dict m1) ip of
          None \<Rightarrow> m1
        | Some i \<Rightarrow>
            if res = NoResult \<and> first_report then
              (if fail_times i \<le> 2 then m1 else recheck_ip rounds ip True m1)
            else (case res of
                CheckOk t d \<Rightarrow> snd (add_ip now ip t (Some d) ''gws'' 0 0 True m1)
              | _ \<Rightarrow> report_connect_fail now net1 ip True m1))"

definition scan_exist_one :: "time \<Rightarrow> bool \<Rightarrow> check_result \<Rightarrow> string \<Rightarrow> ipm \<Rightarrow> ipm" where
  "scan_exist_one now net_ok res ip m = (case res of
      NoResult \<Rightarrow> (case dget (ip_dict m) ip of
          None \<Rightarrow> m
        | Some i \<Rightarrow> upd_ip ip (\<lambda>i. i\<lparr>fail_times := fail_times i + 1, fail_time := now\<rparr>)
                      (if fail_times i = 0 then add_ip_num ip (-1) m else m))
    | CheckOk t d \<Rightarrow> snd (add_ip now ip t (Some d) ''gws'' 0 0 True m)
    | CheckBad \<Rightarrow> report_connect_fail now net_ok ip True m)"

definition clean_failed_ips :: "time \<Rightarrow> ipm \<Rightarrow> ipm" where
  "clean_failed_ips now m =
     try_sort_ip True now (m\<lparr>ip_dict := filter (\<lambda>(ip, i). \<not> fail_times i > 0) (ip_dict m)\<rparr>)"

definition update_ips :: "time \<Rightarrow> string list \<Rightarrow> ipm \<Rightarrow> ipm" where
  "update_ips now ips m =
     (let m1 = foldl (\<lambda>x ip. if dmem ip (ip_dict x) then x
                             else snd (add_ip now ip 100 None ''gws'' 0 0 False x)) m ips
      in try_sort_ip True now (m1\<lparr>ip_dict := filter (\<lambda>(ip, i). ip \<in> set ips) (ip_dict m1)\<rparr>))"

subsection \<open>The list on disk\<close>

definition show_domain :: "string option \<Rightarrow> string" where
  "show_domain d = (case d of None \<Rightarrow> ''None'' | Some x \<Rightarrow> x)"

definition format_ip_line :: "string \<Rightarrow> ip_info \<Rightarrow> string" where
  "format_ip_line ip i = join '' '' [ip, show_domain (ip_domain i), ip_server i, dec_int (handshake_time i),
     dec_int (fail_times i), dec_int (down_fail i) @ [CHR 0x0A]]"

definition save_ip_list :: "ipm \<Rightarrow> string list" where
  "save_ip_list m = map (\<lambda>(ip, i). format_ip_line ip i)
     (sort_key (\<lambda>(ip, i). handshake_time i + fail_times i * 1000) (ip_dict m))"

definition save :: "bool \<Rightarrow> time \<Rightarrow> ipm \<Rightarrow> string list option \<times> ipm" where
  "save force now m =
     (if \<not> force \<and> (\<not> iplist_need_save m \<or> now - iplist_saved_time m < 10) then (None, m)
      else (Some (save_ip_list m), m\<lparr>iplist_saved_time := now, iplist_need_save := False\<rparr>))"

text \<open>One line of a list file; \<open>first_time\<close> is the random time a shuffled default list gives.\<close>

definition parse_ip_line :: "int option \<Rightarrow> string \<Rightarrow> exn + (string \<times> string \<times> string \<times> int \<times> int \<times> int) option" where
  "parse_ip_line first_time line =
     (if is_prefix ''#'' line then Inr None
      else let l = split_on CHR '' '' line in
        if length l < 4 then Inr None
        else case (case first_time of Some t \<Rightarrow> Inr t | None \<Rightarrow> int_of_text (l ! 3)) of
            Inl e \<Rightarrow> Inl e | Inr hs \<Rightarrow>
          (case (if length l > 4 then int_of_text (l ! 4) else Inr 0) of
             Inl e \<Rightarrow> Inl e | Inr fails \<Rightarrow>
             (case (if length l > 5 then int_of_text (l ! 5) else Inr 0) of
                Inl e \<Rightarrow> Inl e | Inr down \<Rightarrow> Inr (Some (l ! 0, l ! 1, l ! 2, hs, fails, down)))))"

definition load_line :: "time \<Rightarrow> int option \<Rightarrow> string \<Rightarrow> ipm \<Rightarrow> ipm" where
  "load_line now first_time line m = (case parse_ip_line first_time line of
      Inr (Some (ip, d, srv, hs, fails, down)) \<Rightarrow> snd (add_ip now ip (real_of_int hs) (Some d) srv fails down False m)
    | _ \<Rightarrow> m)"

text \<open>The first file that has lines is used: the saved list, else the default list.\<close>

definition load_ip :: "time \<Rightarrow> string list option \<Rightarrow> string list option \<Rightarrow> (string \<Rightarrow> int) \<Rightarrow> (string list \<Rightarrow> string list) \<Rightarrow>
    ipm \<Rightarrow> ipm" where
  "load_ip now saved dflt rnd shuffle m =
     (case saved of
        Some (l # ls) \<Rightarrow> try_sort_ip True now (foldl (\<lambda>x line. load_line now None line x) m (l # ls))
      | _ \<Rightarrow> (case dflt of
          Some (l # ls) \<Rightarrow>
            if shuffle_ip_on_first_load (im_cfg m) then
              (let m1 = foldl (\<lambda>x line. load_line now (Some (rnd line)) line x) m (l # ls)
               in m1\<lparr>ip_list := shuffle (ip_list m1)\<rparr>)
            else try_sort_ip True now (foldl (\<lambda>x line. load_line now None line x) m (l # ls))
        | _ \<Rightarrow> m))"

text \<open>One entry of \<^verbatim>\<open>to_check_ip_queue\<close>, once its time has come.\<close>

definition check_ip_item :: "time \<Rightarrow> bool \<Rightarrow> check_result \<Rightarrow> string \<Rightarrow> ipm \<Rightarrow> ipm" where
  "check_ip_item now net_ok res ip m =
     (if \<not> net_ok then
        (case dget (ip_dict m) ip of
           None \<Rightarrow> m
         | Some i \<Rightarrow> if fail_times i \<noteq> 0 then add_ip_num ip 1 (upd_ip ip (\<lambda>i. i\<lparr>fail_times := 0\<rparr>) m) else m)
      else case res of
        CheckOk t d \<Rightarrow> snd (add_ip now ip t (Some d) ''gws'' 0 0 True m)
      | _ \<Rightarrow> m)"

text \<open>
  One turn of a scan thread: the flag is the thread's \<^verbatim>\<open>recheck_ip\<close>.  First a known address may be
  checked again (which ends the turn), else a new one from the source is tried.
\<close>

record scan_env =
  se_now :: time
  se_net :: bool
  se_net_ip :: bool
  se_host :: "string \<Rightarrow> (string \<times> string) option"
  se_clk :: "nat \<Rightarrow> time"
  se_recheck :: "(time \<times> bool \<times> bool \<times> check_result) list"
  se_source :: "string option"
  se_result :: check_result

definition scan_again :: "ipm \<Rightarrow> bool \<Rightarrow> bool \<Rightarrow> bool" where
  "scan_again m recheck net \<longleftrightarrow>
     (recheck \<or> scan_ip_thread_num m = 1 \<and> max_scan_ip_thread_num (im_cfg m) > 1) \<and> net"

definition scan_known :: "scan_env \<Rightarrow> bool \<Rightarrow> ipm \<Rightarrow> bool \<times> ipm" where
  "scan_known e recheck m =
     (if \<not> scan_again m recheck (se_net e) then (False, m)
      else if real_of_int (good_ip_num m) \<ge> real_of_int (cfg_max_good_ip_num (im_cfg m)) * 0.6
              \<and> real (length (ip_list m)) \<ge> real_of_int (cfg_max_good_ip_num (im_cfg m)) * 0.9
      then (case get_ip_sni_host (se_host e) False (se_now e) (se_clk e) m of
              (None, m1) \<Rightarrow> (False, m1)
            | (Some (ip, sni, h), m1) \<Rightarrow>
                if ip \<noteq> [] \<and> se_net_ip e then (True, recheck_ip (se_recheck e) ip False m1) else (False, m1))
      else (False, adjust_scan_thread_num m))"

definition scan_new :: "scan_env \<Rightarrow> ipm \<Rightarrow> bool \<times> ipm" where
  "scan_new e m = (case se_source e of
      None \<Rightarrow> (False, m)
    | Some ip \<Rightarrow>
        if ip = [] \<or> dmem ip (ip_dict m) then (False, m)
        else let (again, m1) =
               (if se_result e \<noteq> NoResult then (False, m\<lparr>scan_fail_count := 0\<rparr>)
                else let m0 = m\<lparr>scan_fail_count := scan_fail_count m + 1\<rparr> in
                  if scan_thread_count m0 \<noteq> 0
                     \<and> real_of_int (scan_fail_count m0) / real_of_int (scan_thread_count m0) > 3
                  then (True, m0\<lparr>scan_fail_count := 0\<rparr>) else (False, m0))
          in (case se_result e of
                CheckOk t d \<Rightarrow>
                  (case add_ip (se_now e) ip t (Some d) ''gws'' 0 0 True m1 of
                     (Some True, m2) \<Rightarrow> (again, snd (save False (se_now e) (remove_slowest_ip (se_now e) m2)))
                   | (_, m2) \<Rightarrow> (again, m2))
              | _ \<Rightarrow> (again, m1)))"

definition scan_round :: "scan_env \<Rightarrow> bool \<Rightarrow> ipm \<Rightarrow> bool \<times> ipm" where
  "scan_round e recheck m =
     (case scan_known e recheck m of (True, m1) \<Rightarrow> (False, m1) | (False, m1) \<Rightarrow> scan_new e m1)"

text \<open>The thread runs while there are not too many threads; then it counts itself out.\<close>

fun scan_worker :: "scan_env list \<Rightarrow> bool \<Rightarrow> ipm \<Rightarrow> ipm" where
  "scan_worker [] recheck m = m"
| "scan_worker (e # es) recheck m =
     (if scan_thread_count m \<le> scan_ip_thread_num m
      then let (again, m1) = scan_round e recheck m in scan_worker es again m1
      else m\<lparr>scan_thread_count := scan_thread_count m - 1\<rparr>)"

text \<open>All known addresses, in the order in which the fifty threads finish them.\<close>

definition scan_all_exist_ip :: "time \<Rightarrow> (time \<times> bool \<times> check_result \<times> string) list \<Rightarrow> ipm \<Rightarrow> ipm" where
  "scan_all_exist_ip now rs m =
     (let m1 = foldl (\<lambda>x (t, net, res, ip). scan_exist_one t net res ip x) (m\<lparr>scan_ip_thread_num := 0\<rparr>) rs
      in adjust_scan_thread_num (snd (save True now (try_sort_ip False now m1))))"

definition ipm_reset :: "ipm_cfg \<Rightarrow> ipm" where
  "ipm_reset cfg = \<lparr>im_cfg = cfg, ip_pointer = 0, ip_pointer_reset_time = 0, scan_thread_count = 0, scan_fail_count = 0,
     scan_recheck_interval = 3, iplist_need_save = False, iplist_saved_time = 0, last_sort_time = 0,
     good_ip_num = 0, good_ipv4_num = 0, good_ipv6_num = 0, ip_dict = [], ip_list = [],
     scan_ip_thread_num = max_scan_ip_thread_num cfg,
     auto_adjust_scan_ip_pointer = py_int (30 + real_of_int (cfg_max_good_ip_num cfg) * 0.1), started_threads = 0\<rparr>"

subsection \<open>The invariant of the pool\<close>

definition links_ok :: "ipm_cfg \<Rightarrow> ip_info \<Rightarrow> bool" where
  "links_ok cfg i \<longleftrightarrow> 0 \<le> ip_links i \<and> ip_links i \<le> max 0 (cfg_max_links_per_ip cfg)"

definition pool_ok :: "ipm \<Rightarrow> bool" where
  "pool_ok m \<longleftrightarrow> dict_ok (ip_dict m) \<and> distinct (ip_list m) \<and> set (ip_list m) \<subseteq> fst ` set (ip_dict m)
     \<and> good_ip_num m = good_ipv4_num m + good_ipv6_num m
     \<and> (\<forall>(ip, i) \<in> set (ip_dict m). links_ok (im_cfg m) i)"

text \<open>What the invariant reads; operations that leave it alone keep the invariant.\<close>

definition pool :: "ipm \<Rightarrow> (string, ip_info) dict \<times> string list \<times> ipm_cfg" where
  "pool m = (ip_dict m, ip_list m, im_cfg m)"

lemma pool_ok_cong: "pool m' = pool m \<Longrightarrow> good_ip_num m' - good_ipv4_num m' - good_ipv6_num m'
    = good_ip_num m - good_ipv4_num m - good_ipv6_num m \<Longrightarrow> pool_ok m \<Longrightarrow> pool_ok m'"
  by (auto simp: pool_def pool_ok_def)

lemma add_ip_num_pool [simp]: "pool (add_ip_num ip n m) = pool m"
  "ip_dict (add_ip_num ip n m) = ip_dict m" "ip_list (add_ip_num ip n m) = ip_list m" "im_cfg (add_ip_num ip n m) = im_cfg m"
  by (simp_all add: add_ip_num_def pool_def Let_def)

lemma add_ip_num_sum: "good_ip_num (add_ip_num ip n m) - good_ipv4_num (add_ip_num ip n m) - good_ipv6_num (add_ip_num ip n m)
    = good_ip_num m - good_ipv4_num m - good_ipv6_num m"
  by (simp add: add_ip_num_def Let_def)

lemma pool_ok_add_num [wf_intros]: "pool_ok m \<Longrightarrow> pool_ok (add_ip_num ip n m)"
  by (rule pool_ok_cong [OF add_ip_num_pool(1) add_ip_num_sum])

lemma search_more_ip_keeps: "search_more_ip m = m\<lparr>scan_ip_thread_num := scan_ip_thread_num (search_more_ip m),
   scan_thread_count := scan_thread_count (search_more_ip m), started_threads := started_threads (search_more_ip m)\<rparr>"
  by (simp add: search_more_ip_def Let_def)

lemma pool_ok_search [wf_intros]: "pool_ok m \<Longrightarrow> pool_ok (search_more_ip m)"
  by (subst search_more_ip_keeps) (simp add: pool_ok_def)

lemma adjust_cases: "adjust_scan_thread_num m = m \<or> (\<exists>n. adjust_scan_thread_num m = search_more_ip (m\<lparr>scan_ip_thread_num := n\<rparr>))"
  by (auto simp: adjust_scan_thread_num_def Let_def split: option.split)

lemma pool_ok_adjust [wf_intros]: "pool_ok m \<Longrightarrow> pool_ok (adjust_scan_thread_num m)"
proof -
  assume p: "pool_ok m"
  then have "pool_ok (m\<lparr>scan_ip_thread_num := n\<rparr>)" for n by (simp add: pool_ok_def)
  with p adjust_cases [of m] show ?thesis by (metis pool_ok_search)
qed

lemma pool_ok_upd: "pool_ok m \<Longrightarrow> (\<And>i. links_ok (im_cfg m) i \<Longrightarrow> links_ok (im_cfg m) (f i)) \<Longrightarrow> pool_ok (upd_ip ip f m)"
proof (cases "dget (ip_dict m) ip")
  case (Some i)
  assume p: "pool_ok m" and f: "\<And>i. links_ok (im_cfg m) i \<Longrightarrow> links_ok (im_cfg m) (f i)"
  from Some p have l: "links_ok (im_cfg m) i" by (auto simp: pool_ok_def dest: map_of_SomeD)
  from Some have k: "ip \<in> fst ` set (ip_dict m)" by (force dest: map_of_SomeD)
  have "\<forall>(ip, i) \<in> set (dset ip (f i) (ip_dict m)). links_ok (im_cfg m) i"
    using p f [OF l] set_dset [of ip "f i" "ip_dict m"] by (fastforce simp: pool_ok_def)
  with p k Some show ?thesis by (auto simp: upd_ip_def pool_ok_def set_dkeys_dset)
qed (simp add: upd_ip_def)


lemma upd_ip_keeps [simp]: "ip_list (upd_ip ip f m) = ip_list m" "im_cfg (upd_ip ip f m) = im_cfg m"
  "fst ` set (ip_dict (upd_ip ip f m)) = fst ` set (ip_dict m)"
  by (auto simp: upd_ip_def split: option.split dest: map_of_SomeD) (force dest: map_of_SomeD)

lemma append_history_upd: "append_history now ip h m =
   (if cfg_record_ip_history (im_cfg m) then upd_ip ip (\<lambda>i. i\<lparr>ip_history := ip_history i @ [(now, h)]\<rparr>) m else m)"
  by (simp add: append_history_def upd_ip_def)

lemma append_history_keeps [simp]: "ip_list (append_history now ip h m) = ip_list m"
  "im_cfg (append_history now ip h m) = im_cfg m" "fst ` set (ip_dict (append_history now ip h m)) = fst ` set (ip_dict m)"
  by (simp_all add: append_history_upd)

lemma pool_ok_history [wf_intros]: "pool_ok m \<Longrightarrow> pool_ok (append_history now ip h m)"
  unfolding append_history_upd by (auto intro!: pool_ok_upd simp: links_ok_def)

lemma pool_ok_save [wf_intros]: "pool_ok m \<Longrightarrow> pool_ok (m\<lparr>iplist_need_save := b\<rparr>)"
  by (simp add: pool_ok_def)

lemma pool_ok_pointer [wf_intros]: "pool_ok m \<Longrightarrow> pool_ok (m\<lparr>ip_pointer := p\<rparr>)"
  "pool_ok m \<Longrightarrow> pool_ok (m\<lparr>ip_pointer := p, ip_pointer_reset_time := t\<rparr>)"
  by (simp_all add: pool_ok_def)

lemma pool_ok_forget [wf_intros]: "pool_ok m \<Longrightarrow> pool_ok (forget_ip ip m)"
proof -
  have "set (ddel ip d) \<subseteq> set d" for d :: "(string, ip_info) dict" by (auto simp: AList.delete_eq)
  then show "pool_ok m \<Longrightarrow> pool_ok (forget_ip ip m)"
    by (fastforce simp: pool_ok_def forget_ip_def distinct_delete)
qed

lemma pool_ok_add_ip [wf_intros]: "pool_ok m \<Longrightarrow> pool_ok (snd (add_ip now ip hs d srv f df sr m))"
proof (cases "dget (ip_dict m) ip")
  case (Some i)
  assume p: "pool_ok m"
  show ?thesis using p Some
    by (auto simp: add_ip_def Let_def links_ok_def intro!: pool_ok_history pool_ok_add_num pool_ok_upd)
next
  case None
  assume p: "pool_ok m"
  then have fresh: "ip \<notin> fst ` set (ip_dict m)" using None by (simp add: map_of_eq_None_iff)
  let ?i = "\<lparr>handshake_time = py_int hs, fail_times = f, ip_domain = d, ip_server = srv,
     ip_history = [(now, HNum (py_int hs))], fail_time = 0, success_time = (if sr then now else 0),
     get_time = 0, ip_links = 0, down_fail = df, down_fail_time = 0, ip_last_active = 0\<rparr>"
  let ?m1 = "add_ip_num ip 1 (m\<lparr>iplist_need_save := True\<rparr>)"
  have p1: "pool_ok ?m1" using p by (intro wf_intros)
  have l: "links_ok c ?i" for c by (simp add: links_ok_def)
  have "\<forall>(k, j) \<in> set (dset ip ?i (ip_dict ?m1)). links_ok (im_cfg ?m1) j"
    using p1 set_dset [of ip ?i "ip_dict ?m1"] l by (fastforce simp: pool_ok_def)
  then have "pool_ok (?m1\<lparr>ip_dict := dset ip ?i (ip_dict ?m1)\<rparr>)"
    "pool_ok (?m1\<lparr>ip_dict := dset ip ?i (ip_dict ?m1), ip_list := ip_list ?m1 @ [ip]\<rparr>)"
    using p1 fresh by (auto simp: pool_ok_def)
  then show ?thesis using None by (simp add: add_ip_def Let_def)
qed

lemma pool_ok_update_ip [wf_intros]: "pool_ok m \<Longrightarrow> pool_ok (update_ip now ip hs m)"
  by (simp add: update_ip_def Let_def split: option.split)
     (auto intro!: pool_ok_save pool_ok_upd pool_ok_history pool_ok_add_num simp: links_ok_def)

lemma pool_ok_fail [wf_intros]: "pool_ok m \<Longrightarrow> pool_ok (report_connect_fail now net ip fr m)"
  by (simp add: report_connect_fail_def Let_def split: sum.split option.split)
     (auto intro!: pool_ok_save pool_ok_search pool_ok_upd pool_ok_history pool_ok_add_num pool_ok_forget
       simp: links_ok_def)

lemma pool_ok_closed [wf_intros]: "pool_ok m \<Longrightarrow> pool_ok (report_connect_closed now ip r m)"
  by (simp add: report_connect_closed_def Let_def split: sum.split option.split)
     (auto intro!: pool_ok_upd pool_ok_history pool_ok_add_num simp: links_ok_def)

lemma pool_ok_ssl [wf_intros]: "pool_ok m \<Longrightarrow> pool_ok (ssl_closed now ip r m)"
  by (simp add: ssl_closed_def split: sum.split) (auto intro!: pool_ok_history)

lemma add_ip_num_good [simp]: "good_ip_num (add_ip_num ip n m) = good_ip_num m + n"
  by (simp add: add_ip_num_def Let_def)

lemma foldl_add_num:
  defines "step \<equiv> \<lambda>x (ip, i). if fail_times i = 0 then add_ip_num ip 1 x else x"
  shows "pool (foldl step m es) = pool m"
    and "good_ip_num (foldl step m es) = good_ip_num m + int (length (filter (\<lambda>(ip, i). fail_times i = 0) es))"
    and "good_ip_num (foldl step m es) - good_ipv4_num (foldl step m es) - good_ipv6_num (foldl step m es)
         = good_ip_num m - good_ipv4_num m - good_ipv6_num m"
proof -
  have s: "pool (step x e) = pool x" "good_ip_num (step x e) = good_ip_num x + (if fail_times (snd e) = 0 then 1 else 0)"
    "good_ip_num (step x e) - good_ipv4_num (step x e) - good_ipv6_num (step x e)
     = good_ip_num x - good_ipv4_num x - good_ipv6_num x" for x e
    subgoal by (cases e) (simp add: step_def)
    subgoal by (cases e) (simp add: step_def)
    subgoal by (cases e) (simp add: step_def add_ip_num_def Let_def)
    done
  show "pool (foldl step m es) = pool m" by (induction es arbitrary: m) (simp_all add: s(1))
  show "good_ip_num (foldl step m es) = good_ip_num m + int (length (filter (\<lambda>(ip, i). fail_times i = 0) es))"
    by (induction es arbitrary: m) (auto simp: s(2))
  show "good_ip_num (foldl step m es) - good_ipv4_num (foldl step m es) - good_ipv6_num (foldl step m es)
         = good_ip_num m - good_ipv4_num m - good_ipv6_num m"
  proof (induction es arbitrary: m)
    case (Cons e es)
    from Cons.IH [of "step m e"] s(3) [of m e] show ?case by simp
  qed simp
qed

lemma adjust_pool: "pool (adjust_scan_thread_num m) = pool m" "good_ip_num (adjust_scan_thread_num m) = good_ip_num m"
proof -
  have "pool (search_more_ip x) = pool x" "good_ip_num (search_more_ip x) = good_ip_num x" for x
    by (subst search_more_ip_keeps, simp add: pool_def)+
  then show "pool (adjust_scan_thread_num m) = pool m" "good_ip_num (adjust_scan_thread_num m) = good_ip_num m"
    using adjust_cases [of m] by (auto simp: pool_def)
qed

text \<open>What a forced sort leaves: the eligible addresses, best first, and the right counter.\<close>

lemma sort_spec:
  fixes m :: ipm and now :: time
  defines "es \<equiv> filter (\<lambda>(ip, i). eligible (im_cfg m) ip i) (ip_dict m)" and "m' \<equiv> try_sort_ip True now m"
  shows "ip_list m' = map fst (sort_key (\<lambda>(ip, i). ip_rate i) es)" and "ip_dict m' = ip_dict m" and "im_cfg m' = im_cfg m"
    and "good_ip_num m' = int (length (filter (\<lambda>(ip, i). fail_times i = 0) es))"
    and "good_ip_num m' = good_ipv4_num m' + good_ipv6_num m'"
proof -
  let ?m0 = "m\<lparr>last_sort_time := now, good_ip_num := 0, good_ipv4_num := 0, good_ipv6_num := 0\<rparr>"
  let ?m1 = "foldl (\<lambda>x (ip, i). if fail_times i = 0 then add_ip_num ip 1 x else x) ?m0 es"
  let ?m2 = "?m1\<lparr>ip_list := map fst (sort_key (\<lambda>(ip, i). ip_rate i) es)\<rparr>"
  have m': "m' = adjust_scan_thread_num ?m2" unfolding m'_def es_def by (simp add: try_sort_ip_def Let_def)
  note f = foldl_add_num [of ?m0 es]
  show "ip_list m' = map fst (sort_key (\<lambda>(ip, i). ip_rate i) es)" "ip_dict m' = ip_dict m" "im_cfg m' = im_cfg m"
    using adjust_pool(1) [of ?m2] f unfolding m' by (auto simp: pool_def)
  show "good_ip_num m' = int (length (filter (\<lambda>(ip, i). fail_times i = 0) es))"
    using adjust_pool(2) [of ?m2] f unfolding m' by simp
  have "pool_ok (m\<lparr>ip_dict := [], ip_list := [], good_ip_num := 0, good_ipv4_num := 0, good_ipv6_num := 0\<rparr>)" by (simp add: pool_ok_def)
  have "good_ip_num (adjust_scan_thread_num x) - good_ipv4_num (adjust_scan_thread_num x) - good_ipv6_num (adjust_scan_thread_num x)
     = good_ip_num x - good_ipv4_num x - good_ipv6_num x" for x
  proof -
    have "good_ipv4_num (search_more_ip y) = good_ipv4_num y" "good_ipv6_num (search_more_ip y) = good_ipv6_num y"
      "good_ip_num (search_more_ip y) = good_ip_num y" for y
      by (subst search_more_ip_keeps, simp)+
    then show ?thesis using adjust_cases [of x] by auto
  qed
  from this [of ?m2] f show "good_ip_num m' = good_ipv4_num m' + good_ipv6_num m'" unfolding m' by simp
qed

lemma pool_ok_sort [wf_intros]: "pool_ok m \<Longrightarrow> pool_ok (try_sort_ip force now m)"
proof (cases "now - last_sort_time m < 10 \<and> \<not> force")
  case False
  assume p: "pool_ok m"
  have "try_sort_ip force now m = try_sort_ip True now m" 
    using False unfolding try_sort_ip_def by (simp only: if_False simp_thms if_cancel HOL.simp_thms)
  moreover have "pool_ok (try_sort_ip True now m)"
    using p sort_spec [of now m] unfolding pool_ok_def
    by (auto simp: distinct_map_filter distinct_map intro: inj_on_subset)
  ultimately show ?thesis by simp
qed (simp add: try_sort_ip_def)

text \<open>
  The sort also repairs a pool whose list names addresses that are gone, which
  \<^verbatim>\<open>clean_failed_ips\<close> and \<^verbatim>\<open>update_ips\<close> rely on.
\<close>

lemma pool_ok_sort_filtered:
  "pool_ok m \<Longrightarrow> pool_ok (try_sort_ip True now (m\<lparr>ip_dict := filter P (ip_dict m)\<rparr>))"
proof -
  assume p: "pool_ok m"
  let ?m = "m\<lparr>ip_dict := filter P (ip_dict m)\<rparr>"
  have d: "dict_ok (filter P (ip_dict m))" using p by (simp add: pool_ok_def distinct_map_filter)
  show ?thesis
    using p d sort_spec [of now ?m] unfolding pool_ok_def
    by (auto simp: distinct_map_filter distinct_map intro: inj_on_subset)
qed

lemma pool_ok_drop: "pool_ok m \<Longrightarrow> pool_ok (drop_slowest k m)"
proof (induction k m rule: drop_slowest.induct)
  case (2 k m)
  let ?ip = "ip_list m ! k"
  show ?case
  proof (cases "int (Suc k) > cfg_max_good_ip_num (im_cfg m) \<and> k < length (ip_list m)")
    case True
    show ?thesis
    proof (cases "dget (ip_dict m) ?ip")
      case (Some i)
      have "pool_ok (forget_ip ?ip (if fail_times i = 0 then add_ip_num ?ip (- 1) m else m))"
        using 2(2) by (simp add: wf_intros)
      with 2(1) [of ?ip i] True Some show ?thesis by (simp add: Let_def)
    qed (use True 2(2) in \<open>simp add: Let_def\<close>)
  qed (use 2(2) in auto)
qed simp

lemma pool_ok_remove_slowest [wf_intros]: "pool_ok m \<Longrightarrow> pool_ok (remove_slowest_ip now m)"
  by (simp add: remove_slowest_ip_def Let_def pool_ok_drop pool_ok_sort)

lemma pool_ok_recheck [wf_intros]: "pool_ok m \<Longrightarrow> pool_ok (recheck_ip rounds ip fr m)"
  by (induction rounds ip fr m rule: recheck_ip.induct)
     (auto simp: Let_def intro!: pool_ok_fail pool_ok_add_ip split: option.split check_result.split)

lemma pool_ok_scan_exist [wf_intros]: "pool_ok m \<Longrightarrow> pool_ok (scan_exist_one now net res ip m)"
  by (simp add: scan_exist_one_def split: check_result.split option.split)
     (auto intro!: pool_ok_upd pool_ok_fail pool_ok_add_ip pool_ok_add_num simp: links_ok_def)

lemma pool_ok_clean [wf_intros]: "pool_ok m \<Longrightarrow> pool_ok (clean_failed_ips now m)"
  by (simp add: clean_failed_ips_def pool_ok_sort_filtered)

lemma pool_ok_update_ips [wf_intros]: "pool_ok m \<Longrightarrow> pool_ok (update_ips now ips m)"
proof -
  assume p: "pool_ok m"
  have "pool_ok m \<Longrightarrow> pool_ok (foldl (\<lambda>x ip. if dmem ip (ip_dict x) then x
      else snd (add_ip now ip 100 None ''gws'' 0 0 False x)) m ips)" for m
    by (induction ips arbitrary: m) (simp_all add: pool_ok_add_ip del: dmem_iff)
  from pool_ok_sort_filtered [OF this [OF p]] show ?thesis by (simp add: update_ips_def Let_def)
qed

lemma move_pointer_pool: "move_pointer now n m = Some m' \<Longrightarrow> pool_ok m \<Longrightarrow> pool_ok m' \<and> ip_list m' = ip_list m
    \<and> ip_dict m' = ip_dict m \<and> im_cfg m' = im_cfg m \<and> (0 < n \<longrightarrow> ip_pointer m' < n)"
  by (auto simp: move_pointer_def pool_ok_def split: if_splits)

lemma move_pointer_Some: "move_pointer now n m = Some m' \<Longrightarrow> 0 < n \<Longrightarrow>
   \<exists>p t. m' = m\<lparr>ip_pointer := p, ip_pointer_reset_time := t\<rparr> \<and> p < n"
  unfolding move_pointer_def
  by (auto split: if_splits) (metis (mono_tags) ipm.surjective ipm.update_convs(2,3) not_le)+

definition wrong_version :: "ipm_cfg \<Rightarrow> string \<Rightarrow> bool" where
  "wrong_version cfg ip \<longleftrightarrow> is_v4 ip \<and> cfg_use_ipv6 cfg = ForceV6 \<or> \<not> is_v4 ip \<and> cfg_use_ipv6 cfg = ForceV4"

text \<open>The loop over the list only moves the pointer, and ends by handing out a rested address or with nothing.\<close>

lemma get_loop_cases:
  assumes "n = length (ip_list m)" and "0 < n" and "get_loop host rc iv clk n k m = (r, m')"
  shows "\<exists>p t. r = None \<and> m' = m\<lparr>ip_pointer := p, ip_pointer_reset_time := t\<rparr>
     \<or> (\<exists>ip i j. ip \<in> set (ip_list m) \<and> dget (ip_dict m) ip = Some i \<and> j < k \<and> rested (im_cfg m) rc iv (clk j) i \<and> \<not> wrong_version (im_cfg m) ip
          \<and> r = map_option (\<lambda>(sni, h). (ip, sni, h)) (host ip)
          \<and> m' = hand_out rc (clk j) ip (m\<lparr>ip_pointer := p, ip_pointer_reset_time := t\<rparr>))"
  using assms
proof (induction k arbitrary: m)
  case 0
  then show ?case by (intro exI [of _ "ip_pointer m"] exI [of _ "ip_pointer_reset_time m"]) simp
next
  case (Suc k)
  let ?P = "\<lambda>m k. \<exists>p t. r = None \<and> m' = m\<lparr>ip_pointer := p, ip_pointer_reset_time := t\<rparr>
     \<or> (\<exists>ip i j. ip \<in> set (ip_list m) \<and> dget (ip_dict m) ip = Some i \<and> j < k \<and> rested (im_cfg m) rc iv (clk j) i \<and> \<not> wrong_version (im_cfg m) ip
          \<and> r = map_option (\<lambda>(sni, h). (ip, sni, h)) (host ip)
          \<and> m' = hand_out rc (clk j) ip (m\<lparr>ip_pointer := p, ip_pointer_reset_time := t\<rparr>))"
  have next_round: "?P m (Suc k)"
    if "get_loop host rc iv clk n k (m\<lparr>ip_pointer := p, ip_pointer_reset_time := t\<rparr>) = (r, m')" for p t
    using Suc.IH [OF _ Suc.prems(2) that] Suc.prems(1) by simp (blast intro: less_SucI)
  show ?case
  proof (cases "move_pointer (clk k) n m")
    case None
    with Suc.prems(3) next_round [where p = "ip_pointer m" and t = "ip_pointer_reset_time m"] show ?thesis by (simp add: Let_def)
  next
    case (Some m1)
    then obtain p t where m1: "m1 = m\<lparr>ip_pointer := p, ip_pointer_reset_time := t\<rparr>" "p < n"
      using move_pointer_Some Suc.prems(2) by blast
    have mem: "ip_list m ! p \<in> set (ip_list m)" using m1(2) Suc.prems(1) by simp
    note eq = Suc.prems(3) [simplified Let_def get_loop.simps Some option.case m1(1)]
    show ?thesis
    proof (cases "dget (ip_dict m) (ip_list m ! p)")
      case None
      with eq next_round [where p = p and t = t] show ?thesis by (auto split: if_splits)
    next
      case i: (Some i)
      let ?skip = "wrong_version (im_cfg m) (ip_list m ! p)"
      consider "?skip" | "\<not> ?skip" "\<not> rested (im_cfg m) rc iv (clk k) i" | "\<not> ?skip" "rested (im_cfg m) rc iv (clk k) i"
        by blast
      then show ?thesis
      proof cases
        case 1
        with eq next_round [where p = p and t = t] show ?thesis by (auto simp: wrong_version_def split: if_splits)
      next
        case 2
        have sw: "m\<lparr>ip_pointer_reset_time := t, ip_pointer := Suc p\<rparr> = m\<lparr>ip_pointer := Suc p, ip_pointer_reset_time := t\<rparr>"
          by (cases m) simp
        have "get_loop host rc iv clk n k (m\<lparr>ip_pointer_reset_time := t, ip_pointer := Suc p\<rparr>) = (r, m')"
          using 2 eq i by (auto simp: wrong_version_def split: if_splits)
        from next_round [OF this [unfolded sw]] show ?thesis .
      next
        case 3
        then have "m' = hand_out rc (clk k) (ip_list m ! p) m1 \<and> r = map_option (\<lambda>(sni, h). (ip_list m ! p, sni, h)) (host (ip_list m ! p))"
          using eq i m1(1) by (auto simp: wrong_version_def split: if_splits option.splits)
        with i mem 3 m1(1) show ?thesis by blast
      qed
    qed
  qed
qed

lemma pool_ok_hand_out: "pool_ok m \<Longrightarrow> dget (ip_dict m) ip = Some i \<Longrightarrow> rested (im_cfg m) rc iv now i \<Longrightarrow> pool_ok (hand_out rc now ip m)"
proof -
  assume ok: "pool_ok m" and i: "dget (ip_dict m) ip = Some i" and r: "rested (im_cfg m) rc iv now i"
  let ?f = "\<lambda>i. i\<lparr>get_time := now, ip_links := ip_links i + (if rc then 0 else 1)\<rparr>"
  let ?h = "\<lambda>i. i\<lparr>ip_history := ip_history i @ [(now, HText ''get'')]\<rparr>"
  have "links_ok (im_cfg m) i" using ok i by (auto simp: pool_ok_def dest: map_of_SomeD)
  with r have l: "links_ok (im_cfg m) (?f i)" "links_ok (im_cfg m) (?f (?h i))"
    by (auto simp: rested_def links_ok_def)
  have e: "upd_ip ip ?f (append_history now ip (HText ''get'') m)
      = upd_ip ip (\<lambda>_. ?f (if cfg_record_ip_history (im_cfg m) then ?h i else i)) m"
    by (auto simp: append_history_def upd_ip_def i)
  have "pool_ok (upd_ip ip ?f (append_history now ip (HText ''get'') m))"
    unfolding e using l by (intro pool_ok_upd [OF ok]) auto
  then show ?thesis unfolding hand_out_def Let_def by (rule pool_ok_pointer)
qed

lemma pool_ok_get_loop:
  assumes "pool_ok m" and "n = length (ip_list m)" and "0 < n"
  shows "pool_ok (snd (get_loop host rc iv clk n k m))"
proof -
  obtain r m' where g: "get_loop host rc iv clk n k m = (r, m')" by fastforce
  have ok: "pool_ok (m\<lparr>ip_pointer := p, ip_pointer_reset_time := t\<rparr>)" for p t
    using assms(1) by (rule pool_ok_pointer)
  from get_loop_cases [OF assms(2,3) g] show ?thesis
    unfolding g by (auto intro!: ok pool_ok_hand_out [OF ok])
qed

lemma pool_ok_get [wf_intros]: "pool_ok m \<Longrightarrow> pool_ok (snd (get_ip_sni_host host rc now clk m))"
  by (auto simp: get_ip_sni_host_def Let_def pool_ok_get_loop pool_ok_sort)

lemma pool_ok_load_line: "pool_ok m \<Longrightarrow> pool_ok (load_line now ft line m)"
  by (auto simp: load_line_def intro!: pool_ok_add_ip split: sum.split option.split)

lemma pool_ok_load [wf_intros]:
  assumes "pool_ok m" and "\<And>xs. distinct xs \<Longrightarrow> distinct (shuffle xs) \<and> set (shuffle xs) = set xs"
  shows "pool_ok (load_ip now saved dflt rnd shuffle m)"
proof -
  have "pool_ok m \<Longrightarrow> pool_ok (foldl (\<lambda>x line. load_line now (f line) line x) m ls)" for f ls m
    by (induction ls arbitrary: m) (simp_all add: pool_ok_load_line)
  note all = this [OF assms(1)]
  have sh: "pool_ok (x\<lparr>ip_list := shuffle (ip_list x)\<rparr>)" if "pool_ok x" for x
    using that assms(2) [of "ip_list x"] by (auto simp: pool_ok_def)
  show ?thesis
    unfolding load_ip_def Let_def
    by (auto simp del: foldl.simps split: option.split list.split intro!: assms(1) pool_ok_sort sh all)
qed

lemma pool_ok_reset: "pool_ok (ipm_reset cfg)"
  by (simp add: ipm_reset_def pool_ok_def)

lemma pool_ok_saved [wf_intros]: "pool_ok m \<Longrightarrow> pool_ok (snd (save force now m))"
  by (simp add: save_def pool_ok_def)

lemma pool_ok_counts: "pool_ok m \<Longrightarrow> pool_ok (m\<lparr>scan_fail_count := n\<rparr>)" "pool_ok m \<Longrightarrow> pool_ok (m\<lparr>scan_thread_count := k\<rparr>)"
  "pool_ok m \<Longrightarrow> pool_ok (m\<lparr>scan_ip_thread_num := k\<rparr>)"
  by (simp_all add: pool_ok_def)

lemma pool_ok_check_item [wf_intros]: "pool_ok m \<Longrightarrow> pool_ok (check_ip_item now net res ip m)"
  by (auto simp: check_ip_item_def links_ok_def intro!: pool_ok_add_num pool_ok_upd pool_ok_add_ip
      split: option.split check_result.split)

lemma pool_ok_scan_known: "pool_ok m \<Longrightarrow> pool_ok (snd (scan_known e recheck m))"
  using pool_ok_get [of m "se_host e" False "se_now e" "se_clk e"]
  by (auto simp: scan_known_def pool_ok_adjust pool_ok_recheck split: prod.split option.split)

lemma pool_ok_scan_new: "pool_ok m \<Longrightarrow> pool_ok (snd (scan_new e m))"
proof -
  assume ok: "pool_ok m"
  have a: "pool_ok (snd (add_ip now ip t d s f df sr (m\<lparr>scan_fail_count := n\<rparr>)))" for now ip t d s f df sr n
    using ok by (intro pool_ok_add_ip pool_ok_counts)
  then have "add_ip now ip t d s f df sr (m\<lparr>scan_fail_count := n\<rparr>) = (r, m2) \<Longrightarrow> pool_ok m2" for now ip t d s f df sr n r m2
    by (metis snd_conv)
  with ok show ?thesis
    by (auto simp: scan_new_def Let_def split: option.split check_result.split prod.split bool.split
        intro!: pool_ok_counts pool_ok_saved pool_ok_remove_slowest)
qed

lemma pool_ok_scan_round: "pool_ok m \<Longrightarrow> pool_ok (snd (scan_round e recheck m))"
  using pool_ok_scan_known [of m e recheck] by (auto simp: scan_round_def pool_ok_scan_new split: prod.split bool.split)

lemma pool_ok_worker [wf_intros]: "pool_ok m \<Longrightarrow> pool_ok (scan_worker es recheck m)"
proof (induction es recheck m rule: scan_worker.induct)
  case (2 e es recheck m)
  with pool_ok_scan_round [of m e recheck] show ?case by (auto intro: pool_ok_counts split: prod.split)
qed simp

lemma pool_ok_scan_all [wf_intros]: "pool_ok m \<Longrightarrow> pool_ok (scan_all_exist_ip now rs m)"
proof -
  have "pool_ok m \<Longrightarrow> pool_ok (foldl (\<lambda>x (t, net, res, ip). scan_exist_one t net res ip x) m rs)" for m
    by (induction rs arbitrary: m) (auto intro: pool_ok_scan_exist)
  then show "pool_ok m \<Longrightarrow> pool_ok (scan_all_exist_ip now rs m)"
    by (simp add: scan_all_exist_ip_def Let_def pool_ok_counts pool_ok_sort pool_ok_saved pool_ok_adjust)
qed

subsection \<open>Every pool the program can reach\<close>

inductive pool_reach :: "ipm \<Rightarrow> bool" where
  reset: "pool_reach (ipm_reset cfg)"
| load: "pool_reach m \<Longrightarrow> (\<And>xs. distinct xs \<Longrightarrow> distinct (shuffle xs) \<and> set (shuffle xs) = set xs)
    \<Longrightarrow> pool_reach (load_ip now saved dflt rnd shuffle m)"
| sort: "pool_reach m \<Longrightarrow> pool_reach (try_sort_ip force now m)"
| get: "pool_reach m \<Longrightarrow> pool_reach (snd (get_ip_sni_host host rc now clk m))"
| add: "pool_reach m \<Longrightarrow> pool_reach (snd (add_ip now ip hs d srv f df sr m))"
| update: "pool_reach m \<Longrightarrow> pool_reach (update_ip now ip hs m)"
| fail: "pool_reach m \<Longrightarrow> pool_reach (report_connect_fail now net ip fr m)"
| closed: "pool_reach m \<Longrightarrow> pool_reach (report_connect_closed now ip r m)"
| ssl: "pool_reach m \<Longrightarrow> pool_reach (ssl_closed now ip r m)"
| slowest: "pool_reach m \<Longrightarrow> pool_reach (remove_slowest_ip now m)"
| recheck: "pool_reach m \<Longrightarrow> pool_reach (recheck_ip rounds ip fr m)"
| scan: "pool_reach m \<Longrightarrow> pool_reach (scan_exist_one now net res ip m)"
| clean: "pool_reach m \<Longrightarrow> pool_reach (clean_failed_ips now m)"
| update_all: "pool_reach m \<Longrightarrow> pool_reach (update_ips now ips m)"
| adjust: "pool_reach m \<Longrightarrow> pool_reach (adjust_scan_thread_num m)"
| search: "pool_reach m \<Longrightarrow> pool_reach (search_more_ip m)"
| check_item: "pool_reach m \<Longrightarrow> pool_reach (check_ip_item now net res ip m)"
| worker: "pool_reach m \<Longrightarrow> pool_reach (scan_worker es recheck m)"
| scan_all: "pool_reach m \<Longrightarrow> pool_reach (scan_all_exist_ip now rs m)"
| saved: "pool_reach m \<Longrightarrow> pool_reach (snd (save force now m))"

lemma pool_reach_ok: "pool_reach m \<Longrightarrow> pool_ok m"
  by (induction rule: pool_reach.induct) (auto intro: wf_intros pool_ok_reset)

definition pool_cfg_ex :: ipm_cfg where
  "pool_cfg_ex = \<lparr>max_scan_ip_thread_num = 0, auto_adjust_scan_ip_thread_num = False, target_handshake_time = 600,
     cfg_use_ipv6 = AutoIp, long_fail_threshold = 300, long_fail_connect_interval = 180,
     short_fail_connect_interval = 10, down_fail_connect_interval = 60, active_connect_interval = 0,
     shuffle_ip_on_first_load = False, cfg_max_links_per_ip = 1, cfg_max_good_ip_num = 1,
     cfg_ip_connect_interval = 5, cfg_record_ip_history = False, has_ip_source = False\<rparr>"

definition pool_ex :: ipm where
  "pool_ex = snd (add_ip 7 ''1.2.3.4'' 90 None ''gws'' 0 0 True (ipm_reset pool_cfg_ex))"

lemma pool_ex_reach: "pool_reach pool_ex"
  unfolding pool_ex_def by (intro pool_reach.intros)

text \<open>
  C16. In every pool that the operations of \<^verbatim>\<open>IpManager\<close> can reach, no address stands twice in the
  sorted list, every listed address has its record in the dictionary, the counter of good
  addresses is the sum of the IPv4 and IPv6 counters, and the number of links of every address
  is between 0 and the configured limit.
\<close>

theorem pool_invariant:
  assumes "pool_reach m"
  shows "distinct (ip_list m) \<and> (\<forall>ip \<in> set (ip_list m). \<exists>i. dget (ip_dict m) ip = Some i)
    \<and> good_ip_num m = good_ipv4_num m + good_ipv6_num m
    \<and> (\<forall>ip i. dget (ip_dict m) ip = Some i \<longrightarrow> 0 \<le> ip_links i \<and> ip_links i \<le> max 0 (cfg_max_links_per_ip (im_cfg m)))"
proof -
  note ok = pool_reach_ok [OF assms, unfolded pool_ok_def]
  have "\<exists>i. dget (ip_dict m) ip = Some i" if "ip \<in> set (ip_list m)" for ip
    using ok that by (metis map_of_eq_None_iff option.exhaust subsetD)
  with ok show ?thesis by (auto simp: links_ok_def dest!: map_of_SomeD)
qed

theorem pool_invariant_witness: "distinct (ip_list pool_ex) \<and> ip_list pool_ex = [''1.2.3.4'']"
  using pool_invariant [OF pool_ex_reach]
  by (simp add: pool_ex_def add_ip_def ipm_reset_def pool_cfg_ex_def add_ip_num_def Let_def contains_def)

subsection \<open>Which address is handed out\<close>

lemma hand_out_changes:
  assumes "dget (ip_dict m) ip = Some i"
  shows "\<exists>i'. dget (ip_dict (hand_out rc now ip m)) ip = Some i' \<and> ip_links i' = ip_links i + (if rc then 0 else 1)
      \<and> get_time i' = now"
    and "j \<noteq> ip \<Longrightarrow> dget (ip_dict (hand_out rc now ip m)) j = dget (ip_dict m) j"
  using assms by (auto simp: hand_out_def append_history_def upd_ip_def Let_def)

lemma hand_out_list [simp]: "ip_list (hand_out rc now ip m) = ip_list m"
  by (simp add: hand_out_def append_history_def upd_ip_def Let_def split: option.split)

lemma get_ip_cases:
  assumes "get_ip_sni_host host False now clk m = (r, m')"
  shows "ip_list m' = ip_list (try_sort_ip False now m) \<and> ((r = None \<and> ip_dict m' = ip_dict m) \<or>
    (\<exists>ip \<in> set (ip_list m'). \<exists>k < length (ip_list m'). \<exists>i i'. dget (ip_dict m) ip = Some i
       \<and> rested (im_cfg m) False (cfg_ip_connect_interval (im_cfg m)) (clk k) i \<and> \<not> wrong_version (im_cfg m) ip
       \<and> r = map_option (\<lambda>(sni, h). (ip, sni, h)) (host ip)
       \<and> dget (ip_dict m') ip = Some i' \<and> ip_links i' = ip_links i + 1 \<and> get_time i' = clk k
       \<and> ip_links i' \<le> cfg_max_links_per_ip (im_cfg m)
       \<and> (\<forall>j. j \<noteq> ip \<longrightarrow> dget (ip_dict m') j = dget (ip_dict m) j)))"
proof -
  let ?m = "try_sort_ip False now m"
  have sorted_same: "ip_dict ?m = ip_dict m" "im_cfg ?m = im_cfg m"
    using sort_spec(2,3) [of now m] by (auto simp: try_sort_ip_def)
  show ?thesis
  proof (cases "ip_list ?m = []")
    case True
    with assms sorted_same show ?thesis by (auto simp: get_ip_sni_host_def Let_def)
  next
    case False
    let ?n = "length (ip_list ?m)"
    from False assms have "get_loop host False (cfg_ip_connect_interval (im_cfg ?m)) clk ?n ?n ?m = (r, m')"
      by (auto simp: get_ip_sni_host_def Let_def)
    from get_loop_cases [OF refl _ this] False obtain p t where
      "(r = None \<and> m' = ?m\<lparr>ip_pointer := p, ip_pointer_reset_time := t\<rparr>)
       \<or> (\<exists>ip i j. ip \<in> set (ip_list ?m) \<and> dget (ip_dict ?m) ip = Some i \<and> j < ?n
            \<and> rested (im_cfg ?m) False (cfg_ip_connect_interval (im_cfg ?m)) (clk j) i \<and> \<not> wrong_version (im_cfg ?m) ip
            \<and> r = map_option (\<lambda>(sni, h). (ip, sni, h)) (host ip)
            \<and> m' = hand_out False (clk j) ip (?m\<lparr>ip_pointer := p, ip_pointer_reset_time := t\<rparr>))"
      by blast
    then show ?thesis
    proof (elim disjE exE conjE)
      fix ip i j
      assume mem: "ip \<in> set (ip_list ?m)" "j < ?n" and i: "dget (ip_dict ?m) ip = Some i"
        and rd: "rested (im_cfg ?m) False (cfg_ip_connect_interval (im_cfg ?m)) (clk j) i" "\<not> wrong_version (im_cfg ?m) ip"
        and r: "r = map_option (\<lambda>(sni, h). (ip, sni, h)) (host ip)"
        and m': "m' = hand_out False (clk j) ip (?m\<lparr>ip_pointer := p, ip_pointer_reset_time := t\<rparr>)"
      have i2: "dget (ip_dict (?m\<lparr>ip_pointer := p, ip_pointer_reset_time := t\<rparr>)) ip = Some i" using i by simp
      have l: "ip_list m' = ip_list ?m" by (simp add: m')
      have "ip_links i + 1 \<le> cfg_max_links_per_ip (im_cfg m)" using rd sorted_same by (auto simp: rested_def)
      with hand_out_changes [OF i2, where rc = False and now = "clk j", folded m'] mem i rd r l sorted_same show ?thesis
        by (intro conjI disjI2 bexI [of _ ip] exI [of _ j]) auto
    qed (use sorted_same in simp)
  qed
qed

text \<open>
  C17. \<^verbatim>\<open>get_ip_sni_host\<close> never adds or removes an address.  It either changes no record and hands out
  nothing, or it takes exactly one address: one that is in the sorted list, of an IP version that
  the settings allow, and rested at a clock reading of its loop, that is not used within the connect
  interval, not failed recently, and with fewer links than the limit.  Only the record of that
  address changes: it gains one link, within the limit, and that reading becomes its time of use.  The
  address is handed out with the name and host that the host manager gives for it; if that
  raises, nothing is handed out although the link has been counted.
\<close>

theorem get_ip_hands_out_rested:
  assumes "get_ip_sni_host host False now clk m = (r, m')"
  shows "ip_list m' = ip_list (try_sort_ip False now m) \<and> ((r = None \<and> ip_dict m' = ip_dict m) \<or>
    (\<exists>ip \<in> set (ip_list m'). \<exists>k < length (ip_list m'). \<exists>i i'. dget (ip_dict m) ip = Some i
       \<and> rested (im_cfg m) False (cfg_ip_connect_interval (im_cfg m)) (clk k) i \<and> \<not> wrong_version (im_cfg m) ip
       \<and> r = map_option (\<lambda>(sni, h). (ip, sni, h)) (host ip)
       \<and> dget (ip_dict m') ip = Some i' \<and> ip_links i' = ip_links i + 1 \<and> get_time i' = clk k
       \<and> ip_links i' \<le> cfg_max_links_per_ip (im_cfg m)
       \<and> (\<forall>j. j \<noteq> ip \<longrightarrow> dget (ip_dict m') j = dget (ip_dict m) j)))"
  using assms by (rule get_ip_cases)

theorem get_ip_hands_out_rested_witness:
  "\<exists>i'. dget (ip_dict (snd (get_ip_sni_host (\<lambda>ip. Some (''s'', ''h'')) False 9 (\<lambda>k. 500) pool_ex))) ''1.2.3.4'' = Some i'
     \<and> ip_links i' = 1"
proof -
  let ?g = "get_ip_sni_host (\<lambda>ip. Some (''s'', ''h'')) False 9 (\<lambda>k. 500) pool_ex"
  have g: "fst ?g = Some (''1.2.3.4'', ''s'', ''h'')"
    by (simp add: get_ip_sni_host_def pool_ex_def add_ip_def ipm_reset_def pool_cfg_ex_def add_ip_num_def Let_def
        contains_def try_sort_ip_def move_pointer_def is_v4_def rested_def eligible_def adjust_scan_thread_num_def
        wanted_threads_def search_more_ip_def)
  have l: "dget (ip_dict pool_ex) ip = Some i \<Longrightarrow> ip_links i = 0 \<and> ip = ''1.2.3.4''" for ip i
    by (auto simp: pool_ex_def add_ip_def ipm_reset_def pool_cfg_ex_def add_ip_num_def Let_def contains_def split: if_splits)
  from get_ip_hands_out_rested [of "\<lambda>ip. Some (''s'', ''h'')" 9 "\<lambda>k. 500" pool_ex, OF prod.collapse [symmetric]] g
  obtain ip i i' where "dget (ip_dict pool_ex) ip = Some i" "dget (ip_dict (snd ?g)) ip = Some i'" "ip_links i' = ip_links i + 1"
    by auto
  with l show ?thesis by auto
qed

subsection \<open>The slowest addresses go\<close>

lemma remove1_last: "distinct xs \<Longrightarrow> Suc k = length xs \<Longrightarrow> remove1 (xs ! k) xs = take k xs"
proof -
  assume d: "distinct xs" and k: "Suc k = length xs"
  have xs: "xs = take k xs @ [xs ! k]" using k by (metis lessI take_Suc_conv_app_nth take_all order_refl)
  then have "distinct (take k xs @ [xs ! k])" using d by metis
  then have "xs ! k \<notin> set (take k xs)" by simp
  then have "remove1 (xs ! k) (take k xs @ [xs ! k]) = take k xs" by (simp add: remove1_append)
  with xs show ?thesis by metis
qed

lemma drop_slowest_spec:
  assumes "pool_ok m" and "k = length (ip_list m)" and "0 \<le> cfg_max_good_ip_num (im_cfg m)"
  shows "ip_list (drop_slowest k m) = take (nat (cfg_max_good_ip_num (im_cfg m))) (ip_list m)
    \<and> dget (ip_dict (drop_slowest k m)) ip
      = (if ip \<in> set (drop (nat (cfg_max_good_ip_num (im_cfg m))) (ip_list m)) then None else dget (ip_dict m) ip)"
  using assms
proof (induction k arbitrary: m)
  case (Suc k)
  let ?n = "nat (cfg_max_good_ip_num (im_cfg m))" and ?ip = "ip_list m ! k"
  show ?case
  proof (cases "int (Suc k) > cfg_max_good_ip_num (im_cfg m)")
    case True
    then have n: "?n \<le> k" by simp
    have xs: "ip_list m = take k (ip_list m) @ [?ip]"
      using Suc.prems(2) by (metis lessI take_Suc_conv_app_nth take_all order_refl)
    have "?ip \<in> set (ip_list m)" using Suc.prems(2) by simp
    then obtain i where i: "dget (ip_dict m) ?ip = Some i"
      using Suc.prems(1) unfolding pool_ok_def by (metis map_of_eq_None_iff option.exhaust subsetD)
    let ?m = "forget_ip ?ip (if fail_times i = 0 then add_ip_num ?ip (- 1) m else m)"
    have c: "im_cfg ?m = im_cfg m" "ip_list ?m = take k (ip_list m)" "ip_dict ?m = ddel ?ip (ip_dict m)"
      using Suc.prems(1,2) remove1_last [of "ip_list m" k] by (auto simp: forget_ip_def pool_ok_def)
    have ok: "pool_ok ?m" using Suc.prems(1) by (simp add: wf_intros)
    have st: "drop_slowest (Suc k) m = drop_slowest k ?m"
      using True i Suc.prems(2) by (subst drop_slowest.simps) (simp add: Let_def)
    have dr: "set (drop ?n (ip_list m)) = insert ?ip (set (drop ?n (take k (ip_list m))))"
      using n Suc.prems(2) by (subst xs) simp
    from Suc.IH [of ?m, unfolded c] ok Suc.prems(2,3) n show ?thesis
      unfolding st by (auto simp: dr min_def)
  next
    case False
    then have "drop_slowest (Suc k) m = m" by simp
    moreover have "length (ip_list m) \<le> ?n" using False Suc.prems(2) by simp
    ultimately show ?thesis by simp
  qed
qed simp

lemma try_sort_list: "set (ip_list (try_sort_ip True now m)) \<subseteq> fst ` set (ip_dict m)"
  using sort_spec(1) [of now m] by auto

text \<open>
  When the list is longer than the configured number, \<^verbatim>\<open>remove_slowest_ip\<close> keeps exactly the
  best that many eligible addresses in the order of their rating (round trip time plus 500 per
  failure), and deletes exactly the others of the sorted list from the dictionary.
\<close>

theorem slowest_removed:
  assumes "pool_reach m" and "0 \<le> cfg_max_good_ip_num (im_cfg m)"
    and "int (length (ip_list m)) > cfg_max_good_ip_num (im_cfg m)"
  shows "ip_list (remove_slowest_ip now m)
      = take (nat (cfg_max_good_ip_num (im_cfg m)))
          (map fst (sort_key (\<lambda>(ip, i). ip_rate i) (filter (\<lambda>(ip, i). eligible (im_cfg m) ip i) (ip_dict m))))
    \<and> dget (ip_dict (remove_slowest_ip now m)) ip =
      (if ip \<in> set (drop (nat (cfg_max_good_ip_num (im_cfg m)))
          (map fst (sort_key (\<lambda>(ip, i). ip_rate i) (filter (\<lambda>(ip, i). eligible (im_cfg m) ip i) (ip_dict m)))))
       then None else dget (ip_dict m) ip)"
proof -
  let ?m = "try_sort_ip True now m"
  have ok: "pool_ok ?m" using pool_reach_ok [OF assms(1)] by (rule pool_ok_sort)
  note s = sort_spec(1-3) [of now m]
  from drop_slowest_spec [OF ok refl, of ip] assms(2,3)
  show ?thesis
    by (auto simp: remove_slowest_ip_def Let_def s)
qed

theorem slowest_removed_witness:
  "ip_list (remove_slowest_ip 20 (snd (add_ip 8 ''5.6.7.8'' 40 None ''gws'' 0 0 True pool_ex))) = [''5.6.7.8'']"
proof -
  let ?m = "snd (add_ip 8 ''5.6.7.8'' 40 None ''gws'' 0 0 True pool_ex)"
  have m: "pool_reach ?m" using pool_ex_reach by (rule pool_reach.add)
  have l: "ip_list ?m = [''1.2.3.4'', ''5.6.7.8'']" "cfg_max_good_ip_num (im_cfg ?m) = 1"
    by (simp_all add: pool_ex_def add_ip_def ipm_reset_def pool_cfg_ex_def add_ip_num_def Let_def contains_def)
  from slowest_removed [OF m, of 20] l show ?thesis
    by (simp add: pool_ex_def add_ip_def ipm_reset_def pool_cfg_ex_def add_ip_num_def Let_def contains_def
        eligible_def is_v4_def ip_rate_def)
qed

lemma closed_keeps_links:
  "dget (ip_dict m) ip = Some i \<Longrightarrow> \<exists>j. dget (ip_dict (report_connect_closed t a r m)) ip = Some j \<and> ip_links j = ip_links i"
  "im_cfg (report_connect_closed t a r m) = im_cfg m"
  by (auto simp: report_connect_closed_def append_history_def upd_ip_def Let_def split: sum.split option.split)

lemma ssl_closed_keeps_links:
  "dget (ip_dict m) ip = Some i \<Longrightarrow> \<exists>j. dget (ip_dict (ssl_closed t a r m)) ip = Some j \<and> ip_links j = ip_links i"
  "im_cfg (ssl_closed t a r m) = im_cfg m"
  by (auto simp: ssl_closed_def append_history_def split: sum.split option.split)

lemma closings_keep_links:
  "dget (ip_dict m) ip = Some i \<Longrightarrow>
   \<exists>j. dget (ip_dict (foldl (\<lambda>x (t, a, r). ssl_closed t a r (report_connect_closed t a r x)) m closings)) ip = Some j
     \<and> ip_links j = ip_links i
     \<and> im_cfg (foldl (\<lambda>x (t, a, r). ssl_closed t a r (report_connect_closed t a r x)) m closings) = im_cfg m"
proof (induction closings arbitrary: m i)
  case (Cons c closings)
  obtain t a r where c: "c = (t, a, r)" by (cases c)
  from closed_keeps_links (1) [OF Cons.prems] ssl_closed_keeps_links(1) obtain j where
    "dget (ip_dict (ssl_closed t a r (report_connect_closed t a r m))) ip = Some j" "ip_links j = ip_links i"
    by metis
  from Cons.IH [OF this(1)] this(2) show ?case by (simp add: c closed_keeps_links(2) ssl_closed_keeps_links(2))
qed simp

subsection \<open>Links are not given back\<close>

text \<open>
  C18. The number of links of an address goes down only when a connection attempt fails: closing
  connections never gives one back.  So an address with as many links as allowed is not handed
  out again, however many of its connections are closed.
\<close>

theorem closed_links_leak:
  assumes "dget (ip_dict m) ip = Some i" and "ip_links i \<ge> cfg_max_links_per_ip (im_cfg m)"
    and "get_ip_sni_host host False now clk
      (foldl (\<lambda>x (t, a, r). ssl_closed t a r (report_connect_closed t a r x)) m closings) = (Some (ip', g), m')"
  shows "ip' \<noteq> ip"
proof
  assume eq: "ip' = ip"
  let ?x = "foldl (\<lambda>x (t, a, r). ssl_closed t a r (report_connect_closed t a r x)) m closings"
  obtain j where j: "dget (ip_dict ?x) ip = Some j" "ip_links j = ip_links i" "im_cfg ?x = im_cfg m"
    using closings_keep_links [OF assms(1)] by blast
  let ?n = "length (ip_list (try_sort_ip False now ?x))"
  have srt: "ip_dict (try_sort_ip False now ?x) = ip_dict ?x" "im_cfg (try_sort_ip False now ?x) = im_cfg ?x"
    using sort_spec(2,3) [of now ?x] by (auto simp: try_sort_ip_def)
  from assms(3) have n: "?n > 0" and
    g: "get_loop host False (cfg_ip_connect_interval (im_cfg (try_sort_ip False now ?x))) clk ?n ?n (try_sort_ip False now ?x) = (Some (ip', g), m')"
    by (auto simp: get_ip_sni_host_def Let_def split: if_splits)
  from get_loop_cases [OF refl n g] obtain a k t where "dget (ip_dict ?x) a = Some k"
    "rested (im_cfg ?x) False (cfg_ip_connect_interval (im_cfg ?x)) t k" "a = ip'"
    unfolding srt by (cases "host ip'") (fastforce simp: map_option_case split: option.splits)+
  with eq j assms(2) show False by (simp add: rested_def)
qed

theorem closed_links_leak_witness:
  "\<nexists>g. fst (get_ip_sni_host (\<lambda>ip. Some (''s'', ''h'')) False 9 (\<lambda>k. 900)
     (foldl (\<lambda>x (t, a, r). ssl_closed t a r (report_connect_closed t a r x))
        (hand_out False 8 ''1.2.3.4'' pool_ex) [(20, ''1.2.3.4:443'', ''idle timeout'')])) = Some (''1.2.3.4'', g)"
proof (rule notI, elim exE)
  fix g
  let ?m = "hand_out False 8 ''1.2.3.4'' pool_ex"
  let ?G = "get_ip_sni_host (\<lambda>ip. Some (''s'', ''h'')) False 9 (\<lambda>k. 900)
     (foldl (\<lambda>x (t, a, r). ssl_closed t a r (report_connect_closed t a r x)) ?m [(20, ''1.2.3.4:443'', ''idle timeout'')])"
  assume h: "fst ?G = Some (''1.2.3.4'', g)"
  have G: "?G = (Some (''1.2.3.4'', g), snd ?G)" by (intro prod_eqI) (simp_all only: h fst_conv snd_conv)
  obtain j where j: "dget (ip_dict pool_ex) ''1.2.3.4'' = Some j" "ip_links j = 0"
    by (simp add: pool_ex_def add_ip_def ipm_reset_def add_ip_num_def Let_def contains_def)
  have c: "cfg_max_links_per_ip (im_cfg ?m) = 1"
    by (simp add: hand_out_def Let_def pool_ex_def add_ip_def ipm_reset_def pool_cfg_ex_def add_ip_num_def contains_def)
  from hand_out_changes(1) [OF j(1), where rc = False and now = 8] j(2) obtain i where
    "dget (ip_dict ?m) ''1.2.3.4'' = Some i" "ip_links i \<ge> cfg_max_links_per_ip (im_cfg ?m)"
    unfolding c by auto
  from closed_links_leak [OF this G] show False by simp
qed

subsection \<open>Saving and loading\<close>

text \<open>
  A line that \<^verbatim>\<open>save\<close> writes for an address is read back by \<^verbatim>\<open>load_ip\<close> with the same address,
  server, handshake time and failure counts, when the three texts hold no space and the address
  does not start a comment; a missing domain comes back as the text \<^verbatim>\<open>None\<close>.
\<close>

theorem saved_line_roundtrip:
  assumes "CHR '' '' \<notin> set ip" and "\<not> is_prefix ''#'' ip" and "ip \<noteq> []"
    and "CHR '' '' \<notin> set (show_domain (ip_domain i))" and "CHR '' '' \<notin> set (ip_server i)"
  shows "parse_ip_line None (format_ip_line ip i)
    = Inr (Some (ip, show_domain (ip_domain i), ip_server i, handshake_time i, fail_times i, down_fail i))"
proof -
  let ?ps = "[ip, show_domain (ip_domain i), ip_server i, dec_int (handshake_time i), dec_int (fail_times i),
      dec_int (down_fail i) @ [CHR 0x0A]]"
  have ns: "CHR '' '' \<notin> set (dec_int k)" for k using dec_int_no_space [of "CHR '' ''" k] by (auto simp: is_space_def)
  have sp: "split_on (CHR '' '') (format_ip_line ip i) = ?ps"
    unfolding format_ip_line_def by (rule split_join) (use assms ns in simp_all)
  have "\<not> is_prefix ''#'' (format_ip_line ip i)"
    using assms(2,3) by (cases ip) (auto simp: format_ip_line_def)
  moreover have "int_of_text (dec_int (down_fail i) @ [CHR 0x0A]) = Inr (down_fail i)"
    by (subst int_of_line_end) (simp_all add: dec_int_no_space)
  ultimately show ?thesis by (simp add: parse_ip_line_def sp)
qed

theorem saved_line_roundtrip_witness:
  "\<exists>i. parse_ip_line None (format_ip_line ''1.2.3.4'' i) = Inr (Some (''1.2.3.4'', ''None'', ''gws'', 90, 2, 1)) \<and> ip_domain i = None"
proof -
  let ?i = "\<lparr>handshake_time = 90, fail_times = 2, ip_domain = None, ip_server = ''gws'', ip_history = [], fail_time = 0,
     success_time = 0, get_time = 0, ip_links = 0, down_fail = 1, down_fail_time = 0, ip_last_active = 0\<rparr>"
  from saved_line_roundtrip [of "''1.2.3.4''" ?i] show ?thesis
    by (intro exI [of _ ?i]) (simp add: show_domain_def)
qed

end
