(* ===== verification/Http_Task.thy ===== *)
theory Http_Task
  imports Prelude
begin

text \<open>
  lib/noarch/front_base/http_common.py, class \<^verbatim>\<open>Task\<close>: one request with the queue its body
  arrives on.  The reader of \<^verbatim>\<open>body_queue\<close> waits up to the task's timeout; what arrives during
  that wait is modelled as being in the queue when the wait begins, so an empty queue is a
  timeout.  The empty text in the queue is the end mark.
\<close>

subsection \<open>Readers\<close>

text \<open>
  The contract of everything in the program that hands out a byte stream piece by piece: a
  piece is taken off the front of what is left, and nothing else is lost.
\<close>

locale byte_reader =
  fixes left :: "'s \<Rightarrow> bytes"
    and ok :: "'s \<Rightarrow> bool"
    and get :: "nat \<Rightarrow> 's \<Rightarrow> bytes \<times> 's"
  assumes get_front: "ok s \<Longrightarrow> left s = fst (get n s) @ left (snd (get n s))"
    and get_ok: "ok s \<Longrightarrow> ok (snd (get n s))"
begin

fun gets :: "nat list \<Rightarrow> 's \<Rightarrow> bytes list \<times> 's" where
  "gets [] s = ([], s)"
| "gets (n # ns) s = (let (d, s1) = get n s; (ds, s2) = gets ns s1 in (d # ds, s2))"

lemma gets_in_order: "ok s \<Longrightarrow> left s = concat (fst (gets ns s)) @ left (snd (gets ns s)) \<and> ok (snd (gets ns s))"
proof (induction ns arbitrary: s)
  case (Cons n ns)
  from get_front [OF Cons.prems, of n] get_ok [OF Cons.prems, of n] Cons.IH [of "snd (get n s)"]
  show ?case by (simp add: case_prod_beta Let_def)
qed simp

lemma gets_prefix: "ok s \<Longrightarrow> \<exists>r. left s = concat (fst (gets ns s)) @ r"
  using gets_in_order by blast

end

subsection \<open>Tasks\<close>

record http_response =
  rs_status :: int
  rs_headers :: "(string, string) dict"
  rs_text :: string

record task =
  t_method :: string
  t_host :: string
  t_path :: string
  t_headers :: "(string, string) dict"
  t_body :: bytes
  t_has_queue :: bool
  t_replies :: "http_response list"
  t_timeout :: real
  t_start :: time
  t_trace :: "(time \<times> string) list"
  body_queue :: "bytes list"
  body_len :: nat
  body_readed :: int
  content_length :: "int option"
  read_buffers :: "bytes list"
  read_buffer_len :: nat
  responsed :: bool
  finished :: bool
  retry_count :: nat

definition task_init ::
  "string \<Rightarrow> string \<Rightarrow> string \<Rightarrow> (string, string) dict \<Rightarrow> bytes \<Rightarrow> bool \<Rightarrow> real \<Rightarrow> time \<Rightarrow> task" where
  "task_init method host path headers body has_queue timeout now =
     \<lparr>t_method = method, t_host = host, t_path = path, t_headers = headers, t_body = body,
      t_has_queue = has_queue, t_replies = [], t_timeout = timeout, t_start = now, t_trace = [],
      body_queue = [], body_len = 0, body_readed = 0, content_length = None, read_buffers = [],
      read_buffer_len = 0, responsed = False, finished = False, retry_count = 0\<rparr>"

definition put_data :: "bytes \<Rightarrow> task \<Rightarrow> task" where
  "put_data d t = t\<lparr>body_queue := body_queue t @ [d], body_len := body_len t + length d\<rparr>"

definition dequeue :: "task \<Rightarrow> bytes option \<times> task" where
  "dequeue t = (case body_queue t of [] \<Rightarrow> (None, t) | d # q \<Rightarrow> (Some d, t\<lparr>body_queue := q\<rparr>))"

text \<open>The loop that fetches blocks until \<open>sz\<close> bytes are buffered; \<open>False\<close> if it gave up.\<close>

fun fill_buffers :: "nat \<Rightarrow> bytes list \<Rightarrow> bytes list \<Rightarrow> nat \<Rightarrow> bool \<times> bytes list \<times> bytes list \<times> nat" where
  "fill_buffers sz [] bufs n = (n \<ge> sz, [], bufs, n)"
| "fill_buffers sz (d # q) bufs n =
     (if n \<ge> sz then (True, d # q, bufs, n)
      else if d = [] then (False, q, bufs, n)
      else fill_buffers sz q (bufs @ [d]) (n + length d))"

definition cut_buffers :: "nat \<Rightarrow> bytes list \<Rightarrow> nat \<Rightarrow> exn + (bytes \<times> bytes list \<times> nat)" where
  "cut_buffers sz bufs n = (case bufs of
      [] \<Rightarrow> Inl IndexError
    | b # bs \<Rightarrow>
        if length b = sz then Inr (b, bs, n - sz)
        else if length b > sz then Inr (take sz b, drop sz b # bs, n - sz)
        else let buff = concat bufs in
          if n = sz then Inr (buff, [], 0)
          else Inr (take sz buff, [drop sz buff], n - sz))"

definition read_sized :: "nat \<Rightarrow> task \<Rightarrow> (exn + bytes) \<times> task" where
  "read_sized sz t =
     (let (got, q, bufs, n) = fill_buffers sz (body_queue t) (read_buffers t) (read_buffer_len t);
          t1 = t\<lparr>body_queue := q, read_buffers := bufs, read_buffer_len := n\<rparr>
      in if \<not> got then (Inr [], t1)
         else case cut_buffers sz bufs n of
           Inl e \<Rightarrow> (Inl e, t1)
         | Inr (d, bufs', n') \<Rightarrow>
             (Inr d, t1\<lparr>read_buffers := bufs', read_buffer_len := n', body_readed := body_readed t1 + int (length d)\<rparr>))"

definition read_next :: "task \<Rightarrow> bytes \<times> task" where
  "read_next t = (case read_buffers t of
      d # bufs \<Rightarrow> (d, t\<lparr>read_buffers := bufs, read_buffer_len := read_buffer_len t - length d,
                       body_readed := body_readed t + int (length d)\<rparr>)
    | [] \<Rightarrow> (case dequeue t of
        (None, t1) \<Rightarrow> ([], t1)
      | (Some d, t1) \<Rightarrow> if d = [] then ([], t1) else (d, t1\<lparr>body_readed := body_readed t1 + int (length d)\<rparr>)))"

definition task_read :: "nat option \<Rightarrow> task \<Rightarrow> (exn + bytes) \<times> task" where
  "task_read sz t =
     (if content_length t = Some (body_readed t) then (Inr [], t)
      else case sz of
        Some n \<Rightarrow> if n = 0 then (let (d, t') = read_next t in (Inr d, t')) else read_sized n t
      | None \<Rightarrow> (let (d, t') = read_next t in (Inr d, t')))"

text \<open>\<^verbatim>\<open>read()\<close> without a size, as \<^verbatim>\<open>read_all\<close> calls it.\<close>

definition read_piece :: "task \<Rightarrow> bytes \<times> task" where
  "read_piece t = (if content_length t = Some (body_readed t) then ([], t) else read_next t)"

lemma task_read_None: "task_read None t = (let (d, t') = read_piece t in (Inr d, t'))"
  by (simp add: task_read_def read_piece_def)

definition pieces :: "task \<Rightarrow> nat" where
  "pieces t = length (read_buffers t) + length (body_queue t)"

lemma read_piece_less: "fst (read_piece t) \<noteq> [] \<Longrightarrow> pieces (snd (read_piece t)) < pieces t"
  by (auto simp: read_piece_def read_next_def dequeue_def pieces_def split: list.split if_splits)

function read_rest :: "task \<Rightarrow> bytes list \<times> task" where
  "read_rest t = (case read_piece t of (d, t1) \<Rightarrow>
     if d = [] then ([], t1) else (let (ds, t2) = read_rest t1 in (d # ds, t2)))"
  by pat_completeness auto
termination
  by (relation "measure pieces") (use read_piece_less in \<open>auto, metis fst_conv snd_conv\<close>)

declare read_rest.simps [simp del]

text \<open>
  Copying into the buffer of \<open>left\<close> bytes at \<open>p\<close>: a block that does not fit is a
  \<^verbatim>\<open>ValueError\<close> of the memory view.
\<close>

function read_fill :: "nat \<Rightarrow> bytes \<Rightarrow> task \<Rightarrow> (exn + bytes) \<times> task" where
  "read_fill cap out t =
     (if \<not> length out < cap then (Inr out, t)
      else case read_piece t of (d, t1) \<Rightarrow>
        if d = [] then (Inr out, t1)
        else if length out + length d > cap then (Inl ValueError, t1)
        else read_fill cap (out @ d) t1)"
  by pat_completeness auto
termination
  by (relation "measure (\<lambda>(_, _, t). pieces t)") (use read_piece_less in \<open>auto, metis fst_conv snd_conv\<close>)

declare read_fill.simps [simp del]

definition read_all :: "task \<Rightarrow> (exn + bytes) \<times> task" where
  "read_all t = (case content_length t of
      Some c \<Rightarrow>
        if c \<noteq> 0 then
          (let left_body = c - body_readed t in
           if left_body < 0 then (Inl ValueError, t)
           else if int (length (concat (read_buffers t))) > left_body then (Inl ValueError, t)
           else case read_fill (nat left_body) (concat (read_buffers t)) (t\<lparr>read_buffers := [], read_buffer_len := 0\<rparr>) of
               (Inl e, t1) \<Rightarrow> (Inl e, t1)
             | (Inr out, t1) \<Rightarrow> (Inr out, t1\<lparr>body_readed := body_readed t1 + int (length out)\<rparr>))
        else (let (ds, t1) = read_rest t in (Inr (concat ds), t1))
    | None \<Rightarrow> (let (ds, t1) = read_rest t in (Inr (concat ds), t1)))"

definition set_state :: "time \<Rightarrow> string \<Rightarrow> task \<Rightarrow> task" where
  "set_state now stat t = t\<lparr>t_trace := t_trace t @ [(now, stat)]\<rparr>"

definition finish :: "task \<Rightarrow> task" where
  "finish t = (if finished t then t else (put_data [] t)\<lparr>finished := True\<rparr>)"

definition response_fail :: "string \<Rightarrow> task \<Rightarrow> task" where
  "response_fail reason t =
     (if responsed t then put_data [] t
      else let t1 = t\<lparr>responsed := True\<rparr>;
               res = \<lparr>rs_status = 601, rs_headers = [], rs_text = ''response_fail:'' @ reason\<rparr>;
               t2 = (if t_has_queue t1 then t1\<lparr>t_replies := t_replies t1 @ [res]\<rparr> else t1)
           in finish t2)"

subsection \<open>What is left to read\<close>

fun only_ends :: "bytes list \<Rightarrow> bool" where
  "only_ends [] = True"
| "only_ends (d # q) = (if d = [] then length (concat q) = 0 else only_ends q)"

lemma only_ends_empty: "length (concat q) = 0 \<Longrightarrow> only_ends q"
  by (induction q) auto

text \<open>Nothing but end marks follows an end mark, and the buffered length is right.\<close>

definition task_ok :: "task \<Rightarrow> bool" where
  "task_ok t \<longleftrightarrow> read_buffer_len t = length (concat (read_buffers t)) \<and> [] \<notin> set (read_buffers t)
     \<and> only_ends (body_queue t)"

definition unread :: "task \<Rightarrow> bytes" where
  "unread t = concat (read_buffers t) @ concat (body_queue t)"

lemma fill_buffers_spec:
  "fill_buffers sz q bufs n = (got, q', bufs', n') \<Longrightarrow> n = length (concat bufs) \<Longrightarrow> [] \<notin> set bufs
   \<Longrightarrow> only_ends q
   \<Longrightarrow> n' = length (concat bufs') \<and> [] \<notin> set bufs' \<and> only_ends q'
      \<and> concat bufs' @ concat q' = concat bufs @ concat q
      \<and> (got \<longleftrightarrow> sz \<le> length (concat bufs @ concat q)) \<and> (got \<longrightarrow> sz \<le> n') \<and> (\<not> got \<longrightarrow> concat q' = [])"
proof (induction sz q bufs n arbitrary: got q' bufs' n' rule: fill_buffers.induct)
  case (2 sz d q bufs n)
  show ?case
  proof (cases "n \<ge> sz")
    case True
    then have "got = True" "q' = d # q" "bufs' = bufs" "n' = n" using 2(2) by simp_all
    then show ?thesis using True 2(3-5) by simp
  next
    case False
    show ?thesis
    proof (cases "d = []")
      case True
      with 2(5) have "length (concat q) = 0" by (simp only: only_ends.simps if_True simp_thms)
      then have "only_ends q" and "concat q = []" by (rule only_ends_empty, simp only: length_0_conv)
      moreover have "got = False" "q' = q" "bufs' = bufs" "n' = n" using False True 2(2) by simp_all
      ultimately show ?thesis using False True 2(3,4) by (simp del: concat_eq_Nil_conv)
    next
      case d: False
      with False 2(2) have "fill_buffers sz q (bufs @ [d]) (n + length d) = (got, q', bufs', n')" by simp
      with 2(1) [OF False d this] 2(3-5) d show ?thesis by auto
    qed
  qed
qed auto

lemma cut_buffers_spec:
  "n = length (concat bufs) \<Longrightarrow> [] \<notin> set bufs \<Longrightarrow> 0 < sz \<Longrightarrow> sz \<le> n \<Longrightarrow>
   \<exists>bufs'. cut_buffers sz bufs n = Inr (take sz (concat bufs), bufs', n - sz)
     \<and> concat bufs' = drop sz (concat bufs) \<and> [] \<notin> set bufs' \<and> n - sz = length (concat bufs')"
  by (cases bufs) (auto simp: cut_buffers_def Let_def)

lemma read_sized_spec:
  assumes "task_ok t" and "0 < n"
  shows "\<exists>t'. read_sized n t = (Inr (if n \<le> length (unread t) then take n (unread t) else []), t') \<and> task_ok t'
     \<and> unread t' = (if n \<le> length (unread t) then drop n (unread t) else unread t)
     \<and> body_readed t' = body_readed t + (if n \<le> length (unread t) then int n else 0)
     \<and> content_length t' = content_length t"
proof -
  obtain got q bufs m where f: "fill_buffers n (body_queue t) (read_buffers t) (read_buffer_len t) = (got, q, bufs, m)"
    by (cases "fill_buffers n (body_queue t) (read_buffers t) (read_buffer_len t)") auto
  have ok: "read_buffer_len t = length (concat (read_buffers t))" "[] \<notin> set (read_buffers t)" "only_ends (body_queue t)"
    using assms(1) unfolding task_ok_def by blast+
  note fs = fill_buffers_spec [OF f ok]
  have s: "m = length (concat bufs)" "[] \<notin> set bufs" "only_ends q" "concat bufs @ concat q = unread t"
    "got \<longleftrightarrow> n \<le> length (unread t)" "got \<Longrightarrow> n \<le> m" "\<not> got \<Longrightarrow> concat q = []"
    unfolding unread_def using fs by (blast+)
  show ?thesis
  proof (cases got)
    case False
    with s(4,5) show ?thesis
      by (simp only: read_sized_def f Let_def split if_True if_False simp_thms) (simp add: task_ok_def unread_def s(1-4))
  next
    case True
    with cut_buffers_spec [OF s(1,2) assms(2)] s(6) obtain bufs' where
      c: "cut_buffers n bufs m = Inr (take n (concat bufs), bufs', m - n)" "concat bufs' = drop n (concat bufs)"
        "[] \<notin> set bufs'" "m - n = length (concat bufs')" by blast
    have un: "take n (unread t) = take n (concat bufs)" "drop n (unread t) = drop n (concat bufs) @ concat q"
      "length (take n (concat bufs)) = n"
      using s(1,4) s(6) [OF True] by (simp_all flip: s(4))
    show ?thesis
      using True s(3,5) c un by (simp add: read_sized_def f task_ok_def unread_def)
  qed
qed

lemma read_next_spec: "task_ok t \<Longrightarrow> read_next t = (d, t') \<Longrightarrow> task_ok t' \<and> unread t = d @ unread t'"
  by (cases "read_buffers t"; cases "body_queue t")
     (auto simp: read_next_def dequeue_def task_ok_def unread_def only_ends_empty split: if_splits)

definition task_get :: "nat \<Rightarrow> task \<Rightarrow> bytes \<times> task" where
  "task_get n t = (case task_read (Some n) t of (Inl e, t') \<Rightarrow> ([], t') | (Inr d, t') \<Rightarrow> (d, t'))"

lemma task_get_spec: "task_ok t \<Longrightarrow> task_ok (snd (task_get n t)) \<and> unread t = fst (task_get n t) @ unread (snd (task_get n t))"
proof (cases "content_length t = Some (body_readed t)")
  case False
  assume ok: "task_ok t"
  show ?thesis
  proof (cases "n = 0")
    case True
    with False read_next_spec [OF ok, of "fst (read_next t)" "snd (read_next t)"] show ?thesis
      by (simp add: task_get_def task_read_def case_prod_beta)
  next
    case n: False
    with read_sized_spec [OF ok, of n] False show ?thesis by (auto simp: task_get_def task_read_def)
  qed
qed (simp add: task_get_def task_read_def)

interpretation task_reader: byte_reader unread task_ok task_get
  by unfold_locales (use task_get_spec in blast)+

lemma task_init_ok: "task_ok (task_init m h p hs b q to now)"
  by (simp add: task_init_def task_ok_def)

lemma only_ends_snoc: "only_ends q \<Longrightarrow> d = [] \<or> [] \<notin> set q \<Longrightarrow> only_ends (q @ [d])"
  by (induction q) auto

lemma put_data_ok: "task_ok t \<Longrightarrow> d = [] \<or> [] \<notin> set (body_queue t) \<Longrightarrow> task_ok (put_data d t)"
  by (simp add: task_ok_def put_data_def only_ends_snoc)

lemma finish_ok: "task_ok t \<Longrightarrow> task_ok (finish t)"
  using put_data_ok [of t "[]"] by (simp add: finish_def task_ok_def)

text \<open>
  C22. Whatever sizes the body of a task is read in, the pieces come in the order in which the
  data arrived, without gaps or repetition: what was unread before is the pieces followed by
  what is still unread.  No such read raises an exception.
\<close>

theorem task_reads_in_order:
  assumes "task_ok t"
  shows "unread t = concat (fst (task_reader.gets ns t)) @ unread (snd (task_reader.gets ns t))
    \<and> (\<exists>d. fst (task_read (Some n) t) = Inr d)"
  using task_reader.gets_in_order [OF assms, of ns] read_sized_spec [OF assms, of n]
  by (auto simp: task_read_def case_prod_beta)

theorem task_reads_in_order_witness:
  "let t = put_data ''cdef'' (put_data ''ab'' (task_init ''GET'' ''h'' ''/'' [] [] True 10 0)) in
   ''abcdef'' = concat (fst (task_reader.gets [3, 1] t)) @ unread (snd (task_reader.gets [3, 1] t))"
  using task_reads_in_order [of "put_data ''cdef'' (put_data ''ab'' (task_init ''GET'' ''h'' ''/'' [] [] True 10 0))" "[3, 1]" 1]
    put_data_ok [of "put_data ''ab'' (task_init ''GET'' ''h'' ''/'' [] [] True 10 0)" "''cdef''"]
    put_data_ok [OF task_init_ok, of "''ab''" "''GET''" "''h''" "''/''" "[]" "[]" True 10 0]
  by (simp add: unread_def put_data_def task_init_def Let_def del: task_reader.gets.simps)

text \<open>
  Reading a given number of bytes gives exactly the next that many when they are there, and
  otherwise nothing, after the timeout, with everything kept for the next read.
\<close>

theorem sized_read_exact:
  assumes "task_ok t" and "0 < n" and "content_length t \<noteq> Some (body_readed t)"
  shows "\<exists>t'. task_read (Some n) t = (Inr (if n \<le> length (unread t) then take n (unread t) else []), t')
     \<and> unread t' = (if n \<le> length (unread t) then drop n (unread t) else unread t) \<and> task_ok t'"
  using read_sized_spec [OF assms(1,2)] assms(2,3) by (auto simp: task_read_def)

theorem sized_read_exact_witness:
  "\<exists>t'. task_read (Some 3) (put_data ''cdef'' (put_data ''ab'' (task_init ''GET'' ''h'' ''/'' [] [] True 10 0)))
    = (Inr ''abc'', t') \<and> unread t' = ''def''"
proof -
  let ?t = "put_data ''cdef'' (put_data ''ab'' (task_init ''GET'' ''h'' ''/'' [] [] True 10 0))"
  have "task_ok ?t" by (simp add: task_ok_def put_data_def task_init_def)
  moreover have "unread ?t = ''abcdef''" "content_length ?t = None" by (simp_all add: unread_def put_data_def task_init_def)
  ultimately show ?thesis using sized_read_exact [of ?t 3] by auto
qed

subsection \<open>Reading everything\<close>

lemma read_fill_spec:
  assumes "read_buffers t = []" and "[] \<notin> set (body_queue t)" and "content_length t = Some (body_readed t + int (length (concat (body_queue t))))"
    and "cap = length out + length (concat (body_queue t))"
  shows "\<exists>t'. read_fill cap out t = (Inr (out @ concat (body_queue t)), t') \<and> body_queue t' = [] \<and> content_length t' = content_length t
     \<and> body_readed t' = body_readed t + int (length (concat (body_queue t))) \<and> read_buffers t' = []"
  using assms
proof (induction "body_queue t" arbitrary: t out)
  case Nil
  then show ?case by (subst read_fill.simps) auto
next
  case (Cons d q)
  note q = Cons.hyps(2) [symmetric]
  let ?t = "t\<lparr>body_queue := q, body_readed := body_readed t + int (length d)\<rparr>"
  have d: "d \<noteq> []" using Cons.prems(2) q by auto
  then have "int (length d) + int k \<noteq> 0" for k by (cases d) auto
  then have "content_length t \<noteq> Some (body_readed t)" using Cons.prems(3) q by simp
  then have p: "read_piece t = (d, ?t)"
    using Cons.prems(1) q d by (simp add: read_piece_def read_next_def dequeue_def)
  have "\<exists>t'. read_fill cap (out @ d) ?t = (Inr ((out @ d) @ concat (body_queue ?t)), t') \<and> body_queue t' = [] \<and> content_length t' = content_length ?t
     \<and> body_readed t' = body_readed ?t + int (length (concat (body_queue ?t))) \<and> read_buffers t' = []"
    by (rule Cons.hyps(1)) (use Cons.prems q in auto)
  moreover have "read_fill cap out t = read_fill cap (out @ d) ?t"
    using d Cons.prems(4) q by (subst read_fill.simps) (simp add: p)
  ultimately show ?case using q by auto
qed

text \<open>
  When exactly the announced body has arrived, \<^verbatim>\<open>read_all\<close> returns it whole; but it counts
  every byte twice in \<^verbatim>\<open>body_readed\<close>, so that the next read does not see that the body is
  finished and waits for more.
\<close>

theorem read_all_counts_twice:
  assumes "read_buffers t = []" and "[] \<notin> set (body_queue t)" and "body_queue t \<noteq> []" and "body_readed t = 0"
    and "content_length t = Some (int (length (concat (body_queue t))))"
  shows "\<exists>t'. read_all t = (Inr (concat (body_queue t)), t')
     \<and> body_readed t' = 2 * int (length (concat (body_queue t))) \<and> content_length t' \<noteq> Some (body_readed t')"
proof -
  let ?t = "t\<lparr>read_buffers := [], read_buffer_len := 0\<rparr>"
  have n: "0 < length (concat (body_queue t))" using assms(2,3) by (cases "body_queue t") auto
  have e: "read_buffers ?t = []" "[] \<notin> set (body_queue ?t)" "body_queue ?t = body_queue t" "content_length ?t = content_length t"
    "body_readed ?t = 0" "content_length ?t = Some (body_readed ?t + int (length (concat (body_queue ?t))))"
    using assms by simp_all
  have "length (concat (body_queue t)) = length [] + length (concat (body_queue ?t))" by simp
  from read_fill_spec [OF e(1,2,6) this, unfolded e(3-5)]
  obtain t' where t': "read_fill (length (concat (body_queue t))) [] ?t = (Inr (concat (body_queue t)), t')"
    "content_length t' = content_length t" "body_readed t' = int (length (concat (body_queue t)))"
    by (metis append_Nil add_0)
  have "read_all t = (Inr (concat (body_queue t)), t'\<lparr>body_readed := body_readed t' + int (length (concat (body_queue t)))\<rparr>)"
    using assms(1,4,5) n t'(1) by (simp add: read_all_def)
  with n t'(2,3) assms(5) show ?thesis by simp
qed

theorem read_all_counts_twice_witness:
  "\<exists>t'. read_all ((put_data ''ab'' (task_init ''GET'' ''h'' ''/'' [] [] True 10 0))\<lparr>content_length := Some 2\<rparr>) = (Inr ''ab'', t')
     \<and> body_readed t' = 4"
  using read_all_counts_twice [of "(put_data ''ab'' (task_init ''GET'' ''h'' ''/'' [] [] True 10 0))\<lparr>content_length := Some 2\<rparr>"]
  by (simp add: put_data_def task_init_def) blast

end
