(* ===== verification/Http_Worker.thy ===== *)
theory Http_Worker
  imports Http_Task Py_Text
begin

text \<open>
  The parts shared by the HTTP/1.1 and HTTP/2 workers: \<^verbatim>\<open>HttpWorker\<close> of
  lib/noarch/front_base/http_common.py, and the helpers of lib/noarch/hyper_compat that the
  HTTP/2 worker is built on: the flow control manager, the buffered socket and the header map.
\<close>

subsection \<open>Worker\<close>

record worker_cfg =
  connection_max_life :: nat
  expect_package_size :: real
  max_continue_fail :: nat
  http1_max_process_tasks :: nat
  http2_max_process_tasks :: nat
  http1_idle_time :: real
  http2_idle_ping_min_interval :: real
  http2_max_concurrent :: nat
  http2_status_to_close :: "int list"

record worker =
  w_http1 :: bool
  w_adjust :: real
  w_accept_task :: bool
  w_keep_running :: bool
  w_processed :: nat
  w_score :: real
  w_continue_fail :: nat
  w_last_request :: time
  w_last_recv :: time
  w_last_send :: time
  w_life_end :: time

text \<open>What closing a worker does outside: the socket, the report about the address, the dispatcher.\<close>

datatype worker_out = SockClosed string | ConnClosedReport string | WorkerClosed

text \<open>
  \<open>lens\<close> are the lengths of the answer and of what has arrived of it for every open stream, and
  \<open>stored\<close> receives the score of an HTTP/1.1 worker (the address manager keeps it).
\<close>

fun expected_body :: "real \<Rightarrow> (real \<times> real) list \<Rightarrow> real" where
  "expected_body mean [] = mean"
| "expected_body mean ((len, got) # ss) = expected_body mean ss + (if len = 0 then mean else len - got)"

definition calculate_score :: "worker_cfg \<Rightarrow> real \<Rightarrow> real \<Rightarrow> (real \<times> real) list \<Rightarrow> worker \<Rightarrow> exn + (worker \<times> real option)" where
  "calculate_score cfg rtt speed lens w =
     (let mean = expect_package_size cfg in
      if speed = 0 then Inl ZeroDivisionError
      else let score = rtt + (if w_http1 w then mean else expected_body mean lens) / speed;
               w' = w\<lparr>w_score := score + w_adjust w\<rparr>
           in Inr (w', if w_http1 w then Some (w_score w') else None))"

text \<open>\<open>life\<close> is the random lifetime; \<^verbatim>\<open>version\<close> is still 0 when the first score is computed.\<close>

definition worker_init :: "worker_cfg \<Rightarrow> real \<Rightarrow> time \<Rightarrow> nat \<Rightarrow> real \<Rightarrow> real \<Rightarrow> exn + (worker \<times> real option)" where
  "worker_init cfg adj create_time life rtt speed =
     calculate_score cfg rtt speed []
       \<lparr>w_http1 = False, w_adjust = adj, w_accept_task = True, w_keep_running = True, w_processed = 0, w_score = 0,
        w_continue_fail = 0, w_last_request = create_time, w_last_recv = create_time, w_last_send = create_time,
        w_life_end = create_time + real life\<rparr>"

definition worker_get_score :: "real \<Rightarrow> worker \<Rightarrow> real" where
  "worker_get_score stored w = (if w_http1 w then stored else w_score w)"

definition worker_close :: "string \<Rightarrow> worker \<Rightarrow> worker_out list \<times> worker" where
  "worker_close reason w =
     (if \<not> w_keep_running w then ([], w)
      else ([SockClosed reason, ConnClosedReport reason, WorkerClosed],
            w\<lparr>w_accept_task := False, w_keep_running := False\<rparr>))"

definition is_life_end :: "worker_cfg \<Rightarrow> time \<Rightarrow> worker \<Rightarrow> string option" where
  "is_life_end cfg now w =
     (if now > w_life_end w then Some ''life_end_time''
      else if now - w_last_recv w > 230 then Some ''last_recv_time''
      else if w_continue_fail w > max_continue_fail cfg then Some ''continue_fail''
      else if w_processed w > http2_max_process_tasks cfg then Some ''processed_tasks''
      else if w_http1 w then
        (if w_processed w > http1_max_process_tasks cfg then Some ''http1 max_process_tasks''
         else if now - w_last_recv w > http1_idle_time cfg then Some ''http1 last_recv_time''
         else None)
      else None)"

definition is_active_timeout :: "worker_cfg \<Rightarrow> time \<Rightarrow> real \<Rightarrow> nat \<Rightarrow> worker \<Rightarrow> bool" where
  "is_active_timeout cfg now task_timeout n_streams w =
     (if w_http1 w \<or> \<not> w_keep_running w then False
      else if n_streams \<le> 1 then False
      else let window = (if task_timeout \<noteq> 0 then min (max task_timeout 1) (http2_idle_ping_min_interval cfg)
                         else http2_idle_ping_min_interval cfg)
           in now - w_last_recv w < window)"

definition get_host :: "string \<Rightarrow> string \<Rightarrow> string" where
  "get_host sock_host task_host = (if task_host \<noteq> [] then task_host else sock_host)"

subsection \<open>Flow control\<close>

record flow_control =
  fc_initial :: int
  fc_window :: int

definition fc_init :: "int \<Rightarrow> flow_control" where
  "fc_init n = \<lparr>fc_initial = n, fc_window = n\<rparr>"

definition increase_window_size :: "int \<Rightarrow> flow_control \<Rightarrow> int" where
  "increase_window_size frame_size f =
     (let future = fc_window f - frame_size in
      if real_of_int future < real_of_int (fc_initial f) * 3 / 4 \<or> future < 1000 then fc_initial f - future else 0)"

definition handle_frame :: "int \<Rightarrow> flow_control \<Rightarrow> int \<times> flow_control" where
  "handle_frame frame_size f =
     (let f' = f\<lparr>fc_window := fc_window f - frame_size\<rparr> in (increase_window_size frame_size f', f'))"

definition fc_blocked :: "flow_control \<Rightarrow> int" where
  "fc_blocked f = fc_initial f - fc_window f"

text \<open>A sequence of frames: the increments granted, and the manager afterwards.\<close>

fun handle_frames :: "int list \<Rightarrow> flow_control \<Rightarrow> int list \<times> flow_control" where
  "handle_frames [] f = ([], f)"
| "handle_frames (s # ss) f = (let (i, f1) = handle_frame s f; (is, f2) = handle_frames ss f1 in (i # is, f2))"

subsection \<open>Buffered socket\<close>

text \<open>
  What the peer sends arrives as a list of segments, one per call of the operating system's
  \<^verbatim>\<open>recv\<close>; an exhausted list is the end of the stream.
\<close>

record buffered_socket =
  bs_limit :: nat
  bs_buffer :: bytes
  bs_segments :: "bytes list"
  bytes_received :: nat
  bytes_sent :: nat

definition os_recv :: "nat \<Rightarrow> bytes list \<Rightarrow> bytes \<times> bytes list" where
  "os_recv n segs = (case segs of
      [] \<Rightarrow> ([], [])
    | s # ss \<Rightarrow> if length s > n then (take n s, drop n s # ss) else (s, ss))"

definition bs_recv :: "nat \<Rightarrow> buffered_socket \<Rightarrow> bytes \<times> buffered_socket" where
  "bs_recv n b =
     (if bs_buffer b \<noteq> [] then (take n (bs_buffer b), b\<lparr>bs_buffer := drop n (bs_buffer b)\<rparr>)
      else let (d, segs) = os_recv (bs_limit b) (bs_segments b);
               b1 = b\<lparr>bs_segments := segs, bytes_received := bytes_received b + length d\<rparr>
           in if length d > n then (take n d, b1\<lparr>bs_buffer := drop n d\<rparr>) else (d, b1))"

text \<open>\<open>accepted\<close> is how many bytes the operating system takes; nothing is kept of the rest.\<close>

definition bs_send :: "nat \<Rightarrow> bytes \<Rightarrow> buffered_socket \<Rightarrow> bytes \<times> buffered_socket" where
  "bs_send accepted d b = (take accepted d, b\<lparr>bytes_sent := bytes_sent b + min accepted (length d)\<rparr>)"

definition bs_left :: "buffered_socket \<Rightarrow> bytes" where
  "bs_left b = bs_buffer b @ concat (bs_segments b)"

lemma os_recv_front: "concat segs = fst (os_recv n segs) @ concat (snd (os_recv n segs))"
  by (auto simp: os_recv_def split: list.split)

interpretation socket_reader: byte_reader bs_left "\<lambda>b. True" bs_recv
proof unfold_locales
  fix b n
  show "bs_left b = fst (bs_recv n b) @ bs_left (snd (bs_recv n b))"
    using os_recv_front [of "bs_segments b" "bs_limit b"]
    by (auto simp: bs_recv_def bs_left_def case_prod_beta Let_def)
qed simp

subsection \<open>Header map\<close>

text \<open>\<^verbatim>\<open>HTTPHeaderMap\<close>: keys are folded to lower case; one value per key.\<close>

definition lower_char :: "char \<Rightarrow> char" where
  "lower_char c = (if 65 \<le> (of_char c :: nat) \<and> (of_char c :: nat) \<le> 90 then char_of ((of_char c :: nat) + 32) else c)"

definition norm_key :: "string \<Rightarrow> string" where
  "norm_key k = map lower_char k"

definition hm_set :: "string \<Rightarrow> string \<Rightarrow> (string, string) dict \<Rightarrow> (string, string) dict" where
  "hm_set k v h = dset (norm_key k) v h"

definition hm_get :: "string \<Rightarrow> (string, string) dict \<Rightarrow> string option" where
  "hm_get k h = dget h (norm_key k)"

definition header_map :: "(string \<times> string) list \<Rightarrow> (string, string) dict" where
  "header_map kvs = foldl (\<lambda>h (k, v). hm_set k v h) [] kvs"

definition strip_headers :: "(string, string) dict \<Rightarrow> (string, string) dict" where
  "strip_headers h = filter (\<lambda>(k, v). \<not> is_prefix '':'' k) h"

text \<open>\<^verbatim>\<open>rsplit(':', 1)\<close>.\<close>

definition rsplit_colon :: "string \<Rightarrow> string \<times> string" where
  "rsplit_colon s = (let r = rev s in
     (rev (drop 1 (dropWhile (\<lambda>c. c \<noteq> CHR '':'') r)), rev (takeWhile (\<lambda>c. c \<noteq> CHR '':'') r)))"

definition to_host_port_tuple :: "string \<Rightarrow> int \<Rightarrow> string \<times> int" where
  "to_host_port_tuple host_port default_port =
     (if CHR '':'' \<in> set host_port \<and> \<not> is_prefix ''['' host_port
      then let (host, port_str) = rsplit_colon host_port in
        (case int_of_text port_str of Inr p \<Rightarrow> (host, p) | Inl e \<Rightarrow> (host, default_port))
      else (host_port, default_port))"

end
