(* ===== verification/Http2.thy ===== *)
theory Http2
  imports Http_Worker
begin

text \<open>
  lib/noarch/front_base/http2_stream.py and http2_connection.py: the HTTP/2 client.

  Frames are values with the fields the code reads and writes; turning them into bytes and back
  (hyperframe), and the header compression (hpack), are parameters.  A stream refers to its
  connection and calls back into it, so its operations work on the connection state \<open>h2\<close>.  The
  debug trace of a task is not kept here.  What a connection does outside (asking for a retry,
  reporting a speed, telling the dispatcher that it is idle) is a list of outputs.
\<close>

subsection \<open>Frames\<close>

datatype frame =
    DataF (frame_sid: nat) (frame_data: bytes) (end_stream: bool) (padding: nat)
  | HeadersF (frame_sid: nat) (frame_data: bytes) (end_stream: bool) (end_headers: bool)
  | ContinuationF (frame_sid: nat) (frame_data: bytes) (end_headers: bool)
  | WindowF (frame_sid: nat) (increment: int)
  | SettingsF (is_ack: bool) (settings: "(nat, int) dict")
  | PingF (is_ack: bool) (frame_data: bytes)
  | GoAwayF (frame_data: bytes)
  | RstF (frame_sid: nat) (error_code: nat)
  | PushF (frame_sid: nat)
  | BlockedF (frame_sid: nat)
  | RawF (frame_data: bytes)
  | OtherF (frame_sid: nat)

definition HEADER_TABLE_SIZE :: nat where "HEADER_TABLE_SIZE = 1"
definition ENABLE_PUSH :: nat where "ENABLE_PUSH = 2"
definition INITIAL_WINDOW_SIZE :: nat where "INITIAL_WINDOW_SIZE = 4"
definition MAX_FRAME_SIZE :: nat where "MAX_FRAME_SIZE = 5"
definition FRAME_MAX_LEN :: int where "FRAME_MAX_LEN = 16384"
definition FRAME_MAX_ALLOWED_LEN :: int where "FRAME_MAX_ALLOWED_LEN = 16777215"
definition DEFAULT_WINDOW_SIZE :: int where "DEFAULT_WINDOW_SIZE = 65535"

fun sid_of :: "frame \<Rightarrow> nat" where
  "sid_of (DataF s d e p) = s"
| "sid_of (HeadersF s d e h) = s"
| "sid_of (ContinuationF s d h) = s"
| "sid_of (WindowF s i) = s"
| "sid_of (RstF s c) = s"
| "sid_of (PushF s) = s"
| "sid_of (BlockedF s) = s"
| "sid_of (OtherF s) = s"
| "sid_of f = 0"

text \<open>The frames that \<^verbatim>\<open>_send_cb\<close> counts against the window of the connection.\<close>

fun counted :: "frame \<Rightarrow> nat option" where
  "counted (DataF s d e p) = Some (length d)"
| "counted (HeadersF s d e h) = Some (length d)"
| "counted f = None"

fun ends_headers :: "frame \<Rightarrow> bool" where
  "ends_headers (HeadersF s d e h) = h"
| "ends_headers (ContinuationF s d h) = h"
| "ends_headers f = False"

fun ends_stream :: "frame \<Rightarrow> bool" where
  "ends_stream (DataF s d e p) = e"
| "ends_stream (HeadersF s d e h) = e"
| "ends_stream f = False"

subsection \<open>State\<close>

datatype stream_state = Idle | Opened | HalfClosedLocal | HalfClosedRemote | Closed

record h2_stream =
  s_id :: nat
  s_task :: task
  s_state :: stream_state
  s_receive_window :: flow_control
  s_remote_window :: int
  s_max_frame :: int
  s_left :: int
  s_sended :: bool
  s_header_datas :: "bytes list option"
  s_response_headers :: "(string, string) dict option"
  s_start :: time
  s_start_point :: nat

datatype h2_out =
    RetryTask task
  | TaskLeft task
  | IdleCall
  | WorkerOut worker_out
  | SpeedReport real nat nat

record h2 =
  h_worker :: worker
  h_cfg :: worker_cfg
  next_stream_id :: nat
  streams :: "(nat, h2_stream) dict"
  ping_on_way :: int
  send_queue :: "frame option list"
  blocked_frames :: "frame list"
  local_window :: flow_control
  remote_initial :: int
  remote_max_frame :: int
  remote_table_size :: "int option"
  remote_window :: int
  continue_timeout :: nat
  last_ping :: time
  h_sock :: buffered_socket
  h_outs :: "h2_out list"

abbreviation emit :: "h2_out list \<Rightarrow> h2 \<Rightarrow> h2" where
  "emit os h \<equiv> h\<lparr>h_outs := h_outs h @ os\<rparr>"

abbreviation set_accept :: "bool \<Rightarrow> h2 \<Rightarrow> h2" where
  "set_accept b h \<equiv> h\<lparr>h_worker := (h_worker h)\<lparr>w_accept_task := b\<rparr>\<rparr>"

definition local_closed :: "h2_stream \<Rightarrow> bool" where
  "local_closed s \<longleftrightarrow> s_state s = Closed \<or> s_state s = HalfClosedLocal"

definition remote_closed :: "h2_stream \<Rightarrow> bool" where
  "remote_closed s \<longleftrightarrow> s_state s = Closed \<or> s_state s = HalfClosedRemote"

definition close_local :: "h2_stream \<Rightarrow> h2_stream" where
  "close_local s = s\<lparr>s_state := (if s_state s = Opened then HalfClosedLocal else Closed)\<rparr>"

definition close_remote :: "h2_stream \<Rightarrow> h2_stream" where
  "close_remote s = s\<lparr>s_state := (if s_state s = Opened then HalfClosedRemote else Closed)\<rparr>"

subsection \<open>Sending frames\<close>

definition send_cb :: "frame \<Rightarrow> h2 \<Rightarrow> h2" where
  "send_cb f h = (case counted f of
      Some n \<Rightarrow>
        if int n > remote_window h then set_accept False (h\<lparr>blocked_frames := blocked_frames h @ [f]\<rparr>)
        else h\<lparr>remote_window := remote_window h - int n, send_queue := send_queue h @ [Some f]\<rparr>
    | None \<Rightarrow> h\<lparr>send_queue := send_queue h @ [Some f]\<rparr>)"

fun send_blocked :: "frame list \<Rightarrow> h2 \<Rightarrow> bool \<times> h2" where
  "send_blocked [] h = (True, h\<lparr>blocked_frames := []\<rparr>)"
| "send_blocked (f # fs) h =
     (let n = int (length (frame_data f)) in
      if n > remote_window h then (False, h\<lparr>blocked_frames := f # fs\<rparr>)
      else send_blocked fs (h\<lparr>remote_window := remote_window h - n, send_queue := send_queue h @ [Some f]\<rparr>))"

text \<open>The dispatcher is told when this connection can take tasks again.\<close>

definition may_accept :: "h2 \<Rightarrow> bool" where
  "may_accept h \<longleftrightarrow> w_keep_running (h_worker h) \<and> length (streams h) < http2_max_concurrent (h_cfg h)
     \<and> remote_window h > 10000"

definition increase_remote_window_size :: "int \<Rightarrow> h2 \<Rightarrow> h2" where
  "increase_remote_window_size inc h =
     (case send_blocked (blocked_frames h) (h\<lparr>remote_window := remote_window h + inc\<rparr>) of
        (False, h1) \<Rightarrow> h1
      | (True, h1) \<Rightarrow>
          if may_accept h1 \<and> \<not> w_accept_task (h_worker h1) then emit [IdleCall] (set_accept True h1) else h1)"

subsection \<open>Closing\<close>

definition close_worker :: "string \<Rightarrow> h2 \<Rightarrow> h2" where
  "close_worker reason h =
     (let (os, w) = worker_close reason (h_worker h)
      in emit (map WorkerOut os) (h\<lparr>send_queue := send_queue h @ [None], streams := [], h_worker := w\<rparr>))"

text \<open>
  \<^verbatim>\<open>_close_stream_cb\<close>: when the last stream of a connection at the end of its life goes, the
  connection is closed, at a moment where it has no stream left.
\<close>

definition close_stream_cb :: "time \<Rightarrow> nat \<Rightarrow> h2 \<Rightarrow> h2" where
  "close_stream_cb now sid h0 =
     (let h1 = h0\<lparr>streams := ddel sid (streams h0),
                  h_worker := (h_worker h0)\<lparr>w_processed := w_processed (h_worker h0) + 1\<rparr>\<rparr>
      in if streams h1 = [] \<and> is_life_end (h_cfg h1) now (h_worker h1) \<noteq> None then close_worker ''life end'' h1
         else if may_accept h1 then emit [IdleCall] (set_accept True h1) else h1)"

text \<open>The part of \<^verbatim>\<open>Stream.close\<close> that concerns the stream and its task.\<close>

definition stream_end :: "time \<Rightarrow> h2_stream \<Rightarrow> h2_out list \<times> h2_stream" where
  "stream_end now s =
     (let t = s_task s in
      if \<not> responsed t
      then ((if t_start t + t_timeout t > now then [RetryTask t] else []), close_remote s)
      else (let s1 = s\<lparr>s_task := finish t\<rparr> in ([], close_remote s1)))"

definition stream_close :: "time \<Rightarrow> h2_stream \<Rightarrow> h2 \<Rightarrow> h2_stream \<times> h2" where
  "stream_close now s h =
     (let (os, s1) = stream_end now s
      in (s1, close_stream_cb now (s_id s) (emit (TaskLeft (s_task s1) # os) h)))"

definition close_or_retry :: "time \<Rightarrow> h2_stream \<Rightarrow> h2 \<Rightarrow> h2_stream \<times> h2" where
  "close_or_retry now s h =
     (let t = s_task s in
      if responsed t \<or> t_start t + t_timeout t < now then stream_close now s h
      else (s, emit [RetryTask t] h))"

definition h2_close :: "time \<Rightarrow> string \<Rightarrow> h2 \<Rightarrow> h2" where
  "h2_close now reason h =
     (let h1 = foldl (\<lambda>x s. snd (close_or_retry now s x)) (h\<lparr>send_queue := send_queue h @ [None]\<rparr>) (map snd (streams h));
          (os, w) = worker_close reason (h_worker h1)
      in emit (map WorkerOut os) (h1\<lparr>streams := [], h_worker := w\<rparr>))"

text \<open>
  A stream that is being worked on while it closes its own connection: it is stored first, and
  what the closing did to it is read off afterwards.
\<close>

definition h2_close_from :: "time \<Rightarrow> string \<Rightarrow> h2_stream \<Rightarrow> h2 \<Rightarrow> h2_stream \<times> h2" where
  "h2_close_from now reason s h =
     (if dmem (s_id s) (streams h)
      then (fst (close_or_retry now s h), h2_close now reason (h\<lparr>streams := dset (s_id s) s (streams h)\<rparr>))
      else (s, h2_close now reason h))"

subsection \<open>Sending the body of a request\<close>

text \<open>
  The loop of \<^verbatim>\<open>send_left_body\<close> as the list of frames it sends.  The slice of the body is
  Python's: with a negative window the bounds are negative and count from the end.  The fuel is
  one more than the bytes that are left, which is enough: every turn sends at least one byte,
  or is the last (\<open>body_frames_enough\<close> below); only a frame limit of 0 would keep the loop going.
\<close>

fun body_frames :: "nat \<Rightarrow> bytes \<Rightarrow> h2_stream \<Rightarrow> frame list \<times> h2_stream" where
  "body_frames 0 body s = ([], s)"
| "body_frames (Suc k) body s =
     (if s_remote_window s = 0 \<or> s_sended s then ([], s)
      else let sz = min (min (s_remote_window s) (s_left s)) (s_max_frame s);
               start = int (length body) - s_left s;
               d = py_slice start (start + sz) body;
               s1 = s\<lparr>s_remote_window := s_remote_window s - sz, s_left := s_left s - sz\<rparr>;
               f = DataF (s_id s) d (s_left s1 = 0) 0;
               s2 = (if s_left s1 = 0 then close_local (s1\<lparr>s_sended := True\<rparr>) else s1);
               (fs, s3) = body_frames k body s2
           in (f # fs, s3))"

lemma body_frames_over: "s_remote_window s = 0 \<or> s_sended s \<Longrightarrow> body_frames k body s = ([], s)"
  by (cases k) auto

lemma body_frames_enough:
  assumes "0 < s_max_frame s" and "0 \<le> s_left s" and "s_left s < int k"
  shows "body_frames (k + j) body s = body_frames k body s"
  using assms
proof (induction k arbitrary: s)
  case (Suc k)
  show ?case
  proof (cases "s_remote_window s = 0 \<or> s_sended s")
    case True
    then show ?thesis by (simp only: body_frames_over)
  next
    case False
    let ?sz = "min (min (s_remote_window s) (s_left s)) (s_max_frame s)"
    let ?s1 = "s\<lparr>s_remote_window := s_remote_window s - ?sz, s_left := s_left s - ?sz\<rparr>"
    let ?s2 = "if s_left ?s1 = 0 then close_local (?s1\<lparr>s_sended := True\<rparr>) else ?s1"
    have "body_frames (k + j) body ?s2 = body_frames k body ?s2"
    proof (cases "s_left ?s1 = 0 \<or> s_remote_window s < 0")
      case True
      then have "s_remote_window ?s2 = 0 \<or> s_sended ?s2"
        using Suc.prems by (auto simp: close_local_def min_def split: if_splits)
      then show ?thesis by (simp only: body_frames_over)
    next
      case 2: False
      with False Suc.prems have "0 < ?sz" "?sz \<le> s_left s" by auto
      then have "0 \<le> s_left s - ?sz" "s_left s - ?sz < int k" using Suc.prems(3) by linarith+
      then have "0 < s_max_frame ?s1" "0 \<le> s_left ?s1" "s_left ?s1 < int k" using Suc.prems(1) by simp_all
      note ih = Suc.IH [OF this]
      have n: "s_left ?s1 \<noteq> 0" using 2 by blast
      show ?thesis unfolding if_not_P [OF n] by (rule ih)
    qed
    then show ?thesis using False by (simp add: Let_def)
  qed
qed simp

definition send_left_body :: "h2_stream \<Rightarrow> h2 \<Rightarrow> h2_stream \<times> h2" where
  "send_left_body s h =
     (let (fs, s') = body_frames (nat (s_left s) + 1) (t_body (s_task s)) s
      in (s', foldl (\<lambda>x f. send_cb f x) h fs))"

subsection \<open>Requests\<close>

definition default_headers :: "string list" where
  "default_headers = ['':method'', '':scheme'', '':authority'', '':path'']"

text \<open>
  \<^verbatim>\<open>add_header\<close> with \<^verbatim>\<open>replace\<close> calls a method that the header map does not have.
\<close>

fun add_headers :: "(string \<times> string) list \<Rightarrow> (string, string) dict \<Rightarrow> exn + (string, string) dict" where
  "add_headers [] hs = Inr hs"
| "add_headers ((k, v) # kvs) hs =
     (if k \<in> set default_headers then Inl AttributeError else add_headers kvs (hm_set k v hs))"

definition request_header_map :: "string \<Rightarrow> task \<Rightarrow> exn + (string, string) dict" where
  "request_header_map sock_host t =
     add_headers (t_headers t)
       (header_map [('':method'', t_method t), ('':scheme'', ''https''),
                    ('':authority'', get_host sock_host (t_host t)), ('':path'', t_path t)])"

definition stream_init :: "time \<Rightarrow> nat \<Rightarrow> task \<Rightarrow> int \<Rightarrow> h2 \<Rightarrow> h2_stream" where
  "stream_init now sid t local_initial h =
     \<lparr>s_id = sid, s_task = t, s_state = Idle, s_receive_window = fc_init local_initial,
      s_remote_window = remote_initial h, s_max_frame = remote_max_frame h,
      s_left = int (length (t_body t)), s_sended = False, s_header_datas = Some [],
      s_response_headers = None, s_start = now, s_start_point = bytes_received (h_sock h)\<rparr>"

text \<open>\<open>enc\<close> is the header encoder of the connection.\<close>

definition start_request ::
  "((string, string) dict \<Rightarrow> bytes) \<Rightarrow> string \<Rightarrow> h2_stream \<Rightarrow> h2 \<Rightarrow> exn option \<times> h2_stream \<times> h2" where
  "start_request enc sock_host s h =
     (case request_header_map sock_host (s_task s) of
        Inl e \<Rightarrow> (Some e, s, h)
      | Inr hs \<Rightarrow>
          let d = enc hs in
          if int (length d) > FRAME_MAX_LEN then (Some ValueError, s, h)
          else let h1 = send_cb (HeadersF (s_id s) d (s_left s = 0) True) h;
                   s1 = s\<lparr>s_state := Opened\<rparr>
               in if s_left s1 > 0 then (let (s2, h2) = send_left_body s1 h1 in (None, s2, h2))
                  else (None, s1, h1))"

definition local_initial_window :: int where "local_initial_window = 16 * 1024 * 1024"
definition local_max_frame :: int where "local_max_frame = 256 * 1024"
definition connection_window :: int where "connection_window = 32 * 1024 * 1024"

text \<open>The stream is in the table before its request starts, and stays there if that fails.\<close>

definition request_task ::
  "((string, string) dict \<Rightarrow> bytes) \<Rightarrow> string \<Rightarrow> time \<Rightarrow> task \<Rightarrow> h2 \<Rightarrow> exn option \<times> h2" where
  "request_task enc sock_host now t h0 =
     (let sid = next_stream_id h0;
          h = h0\<lparr>next_stream_id := sid + 2\<rparr>;
          s = stream_init now sid t local_initial_window h;
          (e, s1, h1) = start_request enc sock_host s (h\<lparr>streams := dset sid s (streams h)\<rparr>)
      in (e, h1\<lparr>streams := dset sid s1 (streams h1)\<rparr>))"

definition request ::
  "((string, string) dict \<Rightarrow> bytes) \<Rightarrow> string \<Rightarrow> time \<Rightarrow> task \<Rightarrow> h2 \<Rightarrow> exn option \<times> h2" where
  "request enc sock_host now t h =
     (if \<not> w_keep_running (h_worker h) then (None, emit [RetryTask t] h)
      else request_task enc sock_host now t
             (if length (streams h) > http2_max_concurrent (h_cfg h) then set_accept False h else h))"

subsection \<open>Opening a connection\<close>

definition send_preamble :: "h2 \<Rightarrow> h2" where
  "send_preamble h =
     (let h1 = h\<lparr>send_queue := send_queue h @ [Some (RawF (''PRI * HTTP/2.0'' @ crlf @ crlf @ ''SM'' @ crlf @ crlf))]\<rparr>;
          h2 = send_cb (SettingsF False [(ENABLE_PUSH, 0), (INITIAL_WINDOW_SIZE, local_initial_window), (MAX_FRAME_SIZE, local_max_frame)]) h1
      in send_cb (WindowF 0 (connection_window - DEFAULT_WINDOW_SIZE)) h2)"

definition h2_init :: "worker_cfg \<Rightarrow> worker \<Rightarrow> buffered_socket \<Rightarrow> time \<Rightarrow> h2" where
  "h2_init cfg w sock now = send_preamble
     \<lparr>h_worker = w\<lparr>w_accept_task := False\<rparr>, h_cfg = cfg, next_stream_id = 1, streams = [], ping_on_way = 0, send_queue = [],
      blocked_frames = [], local_window = fc_init connection_window, remote_initial = DEFAULT_WINDOW_SIZE,
      remote_max_frame = FRAME_MAX_LEN, remote_table_size = None, remote_window = connection_window,
      continue_timeout = 0, last_ping = now, h_sock = sock, h_outs = []\<rparr>"

text \<open>The payload is the clock as eight bytes.\<close>

definition send_ping :: "(time \<Rightarrow> bytes) \<Rightarrow> time \<Rightarrow> h2 \<Rightarrow> h2" where
  "send_ping pack now h =
     (let h1 = send_cb (PingF False (pack now)) h in h1\<lparr>last_ping := now, ping_on_way := ping_on_way h1 + 1\<rparr>)"

subsection \<open>Frames of a stream\<close>

text \<open>What the environment supplies while frames are handled.\<close>

record h2_env =
  e_now :: time
  e_decode :: "bytes \<Rightarrow> exn + (string \<times> string) list"
  e_float :: "string \<Rightarrow> real option"
  e_speed :: "real \<Rightarrow> nat \<Rightarrow> exn + (real \<times> real)"
  e_title :: "string \<Rightarrow> string"
  e_recv_fails :: "string option"
  e_payload_fails :: bool

text \<open>\<^verbatim>\<open>BaseResponse\<close> writes the header names in title case.\<close>

definition base_response :: "(string \<Rightarrow> string) \<Rightarrow> int \<Rightarrow> (string, string) dict \<Rightarrow> string \<Rightarrow> http_response" where
  "base_response title status headers body =
     \<lparr>rs_status = status, rs_headers = foldl (\<lambda>d (k, v). dset (title k) v d) [] headers, rs_text = body\<rparr>"

definition response_status :: "(string, string) dict \<Rightarrow> exn + int" where
  "response_status hs = (case hm_get '':status'' hs of
      None \<Rightarrow> Inr 502
    | Some v \<Rightarrow> if v = [] then Inr 502 else int_of_text v)"

definition send_response :: "h2_env \<Rightarrow> h2_stream \<Rightarrow> h2 \<Rightarrow> exn option \<times> h2_stream \<times> h2" where
  "send_response env s h =
     (if responsed (s_task s) then
        (let (s1, h1) = stream_close (e_now env) s h in (None, s1, h1))
      else let hs = (case s_response_headers s of Some x \<Rightarrow> x | None \<Rightarrow> []);
               s1 = s\<lparr>s_task := (s_task s)\<lparr>responsed := True\<rparr>\<rparr>
        in case response_status hs of
             Inl e \<Rightarrow> (Some e, s1, h)
           | Inr status \<Rightarrow>
               (let hs' = strip_headers hs; t = s_task s1;
                    res = base_response (e_title env) status hs' [];
                    t' = (if t_has_queue t then t\<lparr>t_replies := t_replies t @ [res]\<rparr> else t);
                    s2 = s1\<lparr>s_response_headers := Some hs', s_task := t'\<rparr>
                in if status \<in> set (http2_status_to_close (h_cfg h))
                   then (let (s3, h1) = h2_close_from (e_now env) (''status '' @ dec_int status) s2 h in (None, s3, h1))
                   else (None, s2, h)))"

definition content_length_of :: "(string, string) dict \<Rightarrow> exn + int option" where
  "content_length_of hs = (case hm_get ''Content-Length'' hs of
      None \<Rightarrow> Inr None
    | Some v \<Rightarrow> (case int_of_text v of Inl e \<Rightarrow> Inl e | Inr n \<Rightarrow> Inr (Some n)))"

definition headers_done :: "h2_env \<Rightarrow> h2_stream \<Rightarrow> h2 \<Rightarrow> exn option \<times> h2_stream \<times> h2" where
  "headers_done env s h =
     (if s_response_headers s \<noteq> None then (Some ProtocolError, s, h)
      else case e_decode env (concat (case s_header_datas s of Some ds \<Rightarrow> ds | None \<Rightarrow> [])) of
        Inl e \<Rightarrow> (Some e, s, h)
      | Inr kvs \<Rightarrow>
          let hs = header_map (foldl (\<lambda>d (k, v). dset k v d) [] kvs);
              s1 = s\<lparr>s_response_headers := Some hs, s_header_datas := None\<rparr>
          in (case content_length_of hs of
                Inl e \<Rightarrow> (Some e, s1, h)
              | Inr len \<Rightarrow>
                  if finished (s_task s1) then (None, s1, h)
                  else send_response env (s1\<lparr>s_task := (s_task s1)\<lparr>content_length := len\<rparr>\<rparr>) h))"

definition stream_cost :: "h2_env \<Rightarrow> (string, string) dict \<Rightarrow> exn + real" where
  "stream_cost env hs = (case hm_get ''X-Cost'' hs of
      None \<Rightarrow> Inr (- 1)
    | Some v \<Rightarrow> (case e_float env v of None \<Rightarrow> Inl ValueError | Some x \<Rightarrow> Inr x))"

text \<open>\<^verbatim>\<open>update_speed\<close>: the address manager answers with a round trip time and a speed.\<close>

definition update_speed :: "h2_env \<Rightarrow> real \<Rightarrow> nat \<Rightarrow> nat \<Rightarrow> h2 \<Rightarrow> exn option \<times> h2" where
  "update_speed env cost sent received h =
     (case e_speed env cost (sent + received) of
        Inl e \<Rightarrow> (Some e, h)
      | Inr (rtt, speed) \<Rightarrow>
          (case calculate_score (h_cfg h) rtt speed (map (\<lambda>(i, s). (0, real (body_len (s_task s)))) (streams h)) (h_worker h) of
             Inl e \<Rightarrow> (Some e, h)
           | Inr (w, st) \<Rightarrow> (None, emit [SpeedReport cost sent received] (h\<lparr>h_worker := w\<rparr>))))"

definition report_cost :: "h2_env \<Rightarrow> real \<Rightarrow> h2_stream \<Rightarrow> h2 \<Rightarrow> exn option \<times> h2" where
  "report_cost env xcost s h =
     (let rtt = e_now env - s_start s - xcost in
      if rtt > 0 \<and> \<not> finished (s_task s) \<and> xcost \<ge> 0
      then update_speed env rtt (length (t_body (s_task s))) (bytes_received (h_sock h) - s_start_point s) h else (None, h))"

definition stream_done :: "h2_env \<Rightarrow> h2_stream \<Rightarrow> h2 \<Rightarrow> exn option \<times> h2_stream \<times> h2" where
  "stream_done env s h = (case s_response_headers s of
      None \<Rightarrow> (Some AttributeError, s, h)
    | Some hs \<Rightarrow> (case stream_cost env hs of
        Inl e \<Rightarrow> (Some e, s, h)
      | Inr xcost \<Rightarrow>
          (case report_cost env xcost s h of
             (Some x, h1) \<Rightarrow> (Some x, s, h1)
           | (None, h1) \<Rightarrow>
               (let (s1, h2) = stream_close (e_now env) (close_remote s) h1
                in (None, s1, if finished (s_task s1) then h2 else h2\<lparr>continue_timeout := 0\<rparr>)))))"

text \<open>One frame, before its flags are looked at.\<close>

definition stream_frame :: "h2_env \<Rightarrow> frame \<Rightarrow> h2_stream \<Rightarrow> h2 \<Rightarrow> exn option \<times> h2_stream \<times> h2" where
  "stream_frame env f s h = (case f of
      WindowF sid inc \<Rightarrow>
        (let (s1, h1) = send_left_body (s\<lparr>s_remote_window := s_remote_window s + inc\<rparr>) h in (None, s1, h1))
    | HeadersF sid d e eh \<Rightarrow>
        (case s_header_datas s of
           None \<Rightarrow> (Some AttributeError, s, h)
         | Some ds \<Rightarrow> (None, s\<lparr>s_header_datas := Some (ds @ [d])\<rparr>, h))
    | ContinuationF sid d eh \<Rightarrow>
        (case s_header_datas s of
           None \<Rightarrow> (Some AttributeError, s, h)
         | Some ds \<Rightarrow> (None, s\<lparr>s_header_datas := Some (ds @ [d])\<rparr>, h))
    | DataF sid d e pad \<Rightarrow>
        (let s1 = (if finished (s_task s) then s else s\<lparr>s_task := put_data d (s_task s)\<rparr>) in
         if e then (None, s1, h)
         else let (inc, w) = handle_frame (int (length d) + int pad) (s_receive_window s1);
                  s2 = s1\<lparr>s_receive_window := w\<rparr>
              in (None, s2, if inc \<noteq> 0 \<and> \<not> remote_closed s2 then send_cb (WindowF (s_id s) inc) h else h))
    | BlockedF sid \<Rightarrow> (Some AttributeError, s, h)
    | RstF sid c \<Rightarrow> (let (s1, h1) = h2_close_from (e_now env) ''RESET'' s h in (None, s1, h1))
    | _ \<Rightarrow> (None, s, h))"

definition stream_receive :: "h2_env \<Rightarrow> frame \<Rightarrow> h2_stream \<Rightarrow> h2 \<Rightarrow> exn option \<times> h2_stream \<times> h2" where
  "stream_receive env f s h = (case stream_frame env f s h of
      (Some e, s1, h1) \<Rightarrow> (Some e, s1, h1)
    | (None, s1, h1) \<Rightarrow>
        (case (if ends_headers f then headers_done env s1 h1 else (None, s1, h1)) of
           (Some e, s2, h2) \<Rightarrow> (Some e, s2, h2)
         | (None, s2, h2) \<Rightarrow> if ends_stream f then stream_done env s2 h2 else (None, s2, h2)))"

definition h2_check_timeout :: "time \<Rightarrow> nat \<Rightarrow> h2 \<Rightarrow> h2" where
  "h2_check_timeout now sid h = (case dget (streams h) sid of
      None \<Rightarrow> h
    | Some s \<Rightarrow>
        if now - s_start s < t_timeout (s_task s) \<or> remote_closed s then h
        else let t = s_task s; t' = (if responsed t then finish t else response_fail ''timeout'' t)
             in h\<lparr>streams := dset sid (s\<lparr>s_task := t'\<rparr>) (streams h), continue_timeout := continue_timeout h + 1\<rparr>)"

subsection \<open>Frames of the connection\<close>

definition update_settings :: "time \<Rightarrow> (nat, int) dict \<Rightarrow> h2 \<Rightarrow> h2" where
  "update_settings now st h0 =
     (let h1 = (case dget st HEADER_TABLE_SIZE of None \<Rightarrow> h0 | Some n \<Rightarrow> h0\<lparr>remote_table_size := Some n\<rparr>);
          h2 = (case dget st INITIAL_WINDOW_SIZE of None \<Rightarrow> h1 | Some n \<Rightarrow>
                  h1\<lparr>streams := dmap (\<lambda>i s. s\<lparr>s_remote_window := s_remote_window s + (n - remote_initial h1)\<rparr>) (streams h1),
                     remote_initial := n\<rparr>)
      in (case dget st MAX_FRAME_SIZE of
            None \<Rightarrow> h2
          | Some n \<Rightarrow>
              if \<not> (FRAME_MAX_LEN \<le> n \<and> n \<le> FRAME_MAX_ALLOWED_LEN) then h2_close now ''bad max frame size'' h2
              else h2\<lparr>remote_max_frame := n,
                      streams := dmap (\<lambda>i s. s\<lparr>s_max_frame := s_max_frame s + n\<rparr>) (streams h2)\<rparr>))"

text \<open>The texts of the closing reason that quote the frame or the clock are shortened.\<close>

definition conn_frame :: "h2_env \<Rightarrow> frame \<Rightarrow> h2 \<Rightarrow> h2" where
  "conn_frame env f h = (case f of
      WindowF sid inc \<Rightarrow> increase_remote_window_size inc h
    | PingF ack d \<Rightarrow>
        if ack then (let h1 = h\<lparr>ping_on_way := ping_on_way h - 1\<rparr>
          in if w_keep_running (h_worker h1) \<and> ping_on_way h1 = 0 then set_accept True h1 else h1)
        else send_cb (PingF True d) h
    | SettingsF ack st \<Rightarrow>
        if \<not> ack then update_settings (e_now env) st (send_cb (SettingsF True []) h)
        else emit [IdleCall] (set_accept True h)
    | GoAwayF d \<Rightarrow> h2_close (e_now env) (''GoAway:'' @ d) h
    | _ \<Rightarrow> h)"

definition count_received :: "frame \<Rightarrow> h2 \<Rightarrow> h2" where
  "count_received f h = (case f of
      DataF sid d e pad \<Rightarrow>
        (let (inc, w) = handle_frame (int (length d) + int pad) (local_window h); h1 = h\<lparr>local_window := w\<rparr>
         in if inc > 0 then send_cb (WindowF 0 inc) h1 else h1)
    | _ \<Rightarrow> h)"

definition unknown_stream :: "frame \<Rightarrow> h2 \<Rightarrow> h2" where
  "unknown_stream f h = (case f of
      WindowF sid i \<Rightarrow> h
    | RstF sid c \<Rightarrow> h
    | _ \<Rightarrow> send_cb (RstF (sid_of f) 2) h)"

definition store_stream :: "nat \<Rightarrow> h2_stream \<Rightarrow> h2 \<Rightarrow> h2" where
  "store_stream i s h = (if dmem i (streams h) then h\<lparr>streams := dset i s (streams h)\<rparr> else h)"

text \<open>A stream that was closed while it handled the frame is not put back.\<close>

definition consume_frame :: "h2_env \<Rightarrow> frame \<Rightarrow> h2 \<Rightarrow> exn option \<times> h2" where
  "consume_frame env f h0 =
     (let h = count_received f h0
      in if sid_of f \<noteq> 0 then
           (case dget (streams h) (sid_of f) of
              None \<Rightarrow> (None, unknown_stream f h)
            | Some s \<Rightarrow> (case stream_receive env f s h of (e, s1, h1) \<Rightarrow> (e, store_stream (sid_of f) s1 h1)))
         else (None, conn_frame env f h))"

subsection \<open>The two loops\<close>

text \<open>
  Reading the payload: the loop asks for the rest until it is there or the stream of bytes
  ends; a short payload is handed to the parser.
\<close>

function recv_payload :: "nat \<Rightarrow> buffered_socket \<Rightarrow> bytes \<times> buffered_socket" where
  "recv_payload n b =
     (if n = 0 then ([], b)
      else let (d, b1) = bs_recv n b in
        if d = [] then ([], b1)
        else (let (r, b2) = recv_payload (n - length d) b1 in (d @ r, b2)))"
  by pat_completeness auto
termination by (relation "measure fst") auto

declare recv_payload.simps [simp del]

text \<open>The parser gives the length of the payload from the header, then the frame from both.\<close>

record frame_parser =
  parse_header :: "bytes \<Rightarrow> exn + nat"
  parse_body :: "bytes \<Rightarrow> bytes \<Rightarrow> exn + frame"

definition consume_single_frame :: "frame_parser \<Rightarrow> h2_env \<Rightarrow> h2 \<Rightarrow> exn option \<times> h2" where
  "consume_single_frame p env h =
     (case e_recv_fails env of
        Some reason \<Rightarrow> (None, h2_close (e_now env) reason h)
      | None \<Rightarrow>
        let (header, b1) = bs_recv 9 (h_sock h); h1 = h\<lparr>h_sock := b1\<rparr> in
        if length header < 9 then (None, h2_close (e_now env) (''recv.short_header:'' @ dec (length header)) h1)
        else let h2 = h1\<lparr>h_worker := (h_worker h1)\<lparr>w_last_recv := e_now env\<rparr>\<rparr> in
          case parse_header p header of
            Inl e \<Rightarrow> (Some e, h2)
          | Inr n \<Rightarrow>
              if e_payload_fails env then (None, h2_close (e_now env) ''ConnectionReset'' h2)
              else (let (d, b2) = recv_payload n (h_sock h2); h3 = h2\<lparr>h_sock := b2\<rparr>
                in case parse_body p header d of
                     Inl e \<Rightarrow> (Some e, h3)
                   | Inr f \<Rightarrow> consume_frame env f h3))"

definition recv_step :: "frame_parser \<Rightarrow> h2_env \<Rightarrow> h2 \<Rightarrow> h2" where
  "recv_step p env h =
     (if \<not> w_keep_running (h_worker h) then h
      else case consume_single_frame p env h of
        (None, h1) \<Rightarrow> h1
      | (Some e, h1) \<Rightarrow> h2_close (e_now env) ''recv fail'' h1)"

text \<open>
  One turn of the sender: \<open>ser\<close> turns a frame into bytes, \<open>took\<close> is what the operating system
  accepts (\<open>None\<close> if sending fails).  The result is what reached the wire; the flag tells whether the loop
  goes on.
\<close>

definition send_step :: "(frame \<Rightarrow> bytes) \<Rightarrow> nat option \<Rightarrow> time \<Rightarrow> h2 \<Rightarrow> bool \<times> bytes \<times> h2" where
  "send_step ser took now h =
     (if \<not> w_keep_running (h_worker h) then (False, [], h)
      else case send_queue h of
        [] \<Rightarrow> (True, [], h)
      | None # q \<Rightarrow> (False, [], h\<lparr>send_queue := q\<rparr>)
      | Some f # q \<Rightarrow>
          (let h1 = h\<lparr>send_queue := q\<rparr> in
           case took of
             None \<Rightarrow> (True, [], h2_close now ''send fail'' h1)
           | Some n \<Rightarrow>
               (let (wire, b) = bs_send n (ser f) (h_sock h1); h2 = h1\<lparr>h_sock := b\<rparr>
                in (True, wire, if q \<noteq> [] then h2
                                else h2\<lparr>h_worker := (h_worker h2)\<lparr>w_last_send := now\<rparr>\<rparr>))))"

end
