(* ===== verification/Http2_Invariant.thy ===== *)
theory Http2_Invariant
  imports Http2
begin

text \<open>
  Invariants of an HTTP/2 connection under every operation: the table of streams and the window
  of the connection; and what closing a connection does with the tasks of its streams.
\<close>

subsection \<open>Streams and windows stay consistent\<close>

definition table_ok :: "(nat, h2_stream) dict \<Rightarrow> nat \<Rightarrow> bool" where
  "table_ok d n \<longleftrightarrow> dict_ok d \<and> odd n \<and> (\<forall>(i, s) \<in> set d. s_id s = i \<and> odd i \<and> i < n)"

definition credit_ok :: "int \<Rightarrow> frame list \<Rightarrow> bool" where
  "credit_ok w fs \<longleftrightarrow> 0 \<le> w \<and> (\<forall>f \<in> set fs. counted f = Some (length (frame_data f)))
     \<and> (fs \<noteq> [] \<longrightarrow> w < int (length (frame_data (hd fs))))"

definition h2_ok :: "h2 \<Rightarrow> bool" where
  "h2_ok h \<longleftrightarrow> table_ok (streams h) (next_stream_id h) \<and> credit_ok (remote_window h) (blocked_frames h)"

lemma h2_ok_fields:
  "h2_ok h \<Longrightarrow> streams h' = streams h \<Longrightarrow> next_stream_id h' = next_stream_id h \<Longrightarrow> remote_window h' = remote_window h
   \<Longrightarrow> blocked_frames h' = blocked_frames h \<Longrightarrow> h2_ok h'"
  by (simp add: h2_ok_def)

lemma table_ok_dset: "table_ok d n \<Longrightarrow> s_id s = i \<Longrightarrow> i \<in> fst ` set d \<Longrightarrow> table_ok (dset i s d) n"
  using set_dset [of i s d] by (fastforce simp: table_ok_def)

lemma table_ok_new: "table_ok d n \<Longrightarrow> s_id s = n \<Longrightarrow> table_ok (dset n s d) (n + 2)"
  using set_dset [of n s d] by (fastforce simp: table_ok_def)

lemma table_ok_ddel: "table_ok d n \<Longrightarrow> table_ok (ddel i d) n"
proof -
  have "set (ddel i d) \<subseteq> set d" by (auto simp: AList.delete_eq)
  then show "table_ok d n \<Longrightarrow> table_ok (ddel i d) n" by (auto simp: table_ok_def distinct_delete)
qed

lemma table_ok_Nil: "table_ok d n \<Longrightarrow> table_ok [] n"
  by (simp add: table_ok_def)

lemma table_ok_dmap: "table_ok d n \<Longrightarrow> (\<And>i s. s_id (f i s) = s_id s) \<Longrightarrow> table_ok (dmap f d) n"
  by (fastforce simp: table_ok_def dmap_def case_prod_beta image_iff comp_def)

lemma table_ok_get: "table_ok d n \<Longrightarrow> dget d i = Some s \<Longrightarrow> s_id s = i \<and> i \<in> fst ` set d"
  by (force simp: table_ok_def dest: map_of_SomeD)

lemma counted_length: "counted f = Some n \<Longrightarrow> length (frame_data f) = n"
  by (cases f) auto

lemma send_cb_keeps [simp]: "streams (send_cb f h) = streams h" "next_stream_id (send_cb f h) = next_stream_id h"
  "h_outs (send_cb f h) = h_outs h"
  by (simp_all add: send_cb_def split: option.split)

lemma credit_ok_send: "credit_ok (remote_window h) (blocked_frames h) \<Longrightarrow>
   credit_ok (remote_window (send_cb f h)) (blocked_frames (send_cb f h))"
proof (cases "counted f")
  case (Some n)
  assume ok: "credit_ok (remote_window h) (blocked_frames h)"
  show ?thesis
  proof (cases "int n > remote_window h")
    case True
    have "credit_ok (remote_window h) (blocked_frames h @ [f])"
      using ok True Some counted_length [OF Some] by (cases "blocked_frames h") (simp_all add: credit_ok_def)
    then show ?thesis by (simp add: send_cb_def Some True)
  next
    case False
    then show ?thesis using ok by (auto simp: send_cb_def Some credit_ok_def)
  qed
qed (simp add: send_cb_def)

lemma h2_ok_send [wf_intros]: "h2_ok h \<Longrightarrow> h2_ok (send_cb f h)"
  by (simp add: h2_ok_def credit_ok_send)

lemma foldl_send_keeps [simp]: "streams (foldl (\<lambda>x f. send_cb f x) h fs) = streams h"
  "next_stream_id (foldl (\<lambda>x f. send_cb f x) h fs) = next_stream_id h"
  "h_outs (foldl (\<lambda>x f. send_cb f x) h fs) = h_outs h"
  by (induction fs arbitrary: h) simp_all

lemma h2_ok_foldl_send: "h2_ok h \<Longrightarrow> h2_ok (foldl (\<lambda>x f. send_cb f x) h fs)"
  by (induction fs arbitrary: h) (simp_all add: h2_ok_send)

lemma body_frames_id: "s_id (snd (body_frames k body s)) = s_id s"
proof (induction k arbitrary: s)
  case (Suc k)
  show ?case by (simp add: Let_def case_prod_beta Suc close_local_def)
qed simp

lemma send_left_keeps: "send_left_body s h = (s', h') \<Longrightarrow> s_id s' = s_id s \<and> streams h' = streams h
   \<and> next_stream_id h' = next_stream_id h \<and> h_outs h' = h_outs h \<and> (h2_ok h \<longrightarrow> h2_ok h')"
  using body_frames_id [of "nat (s_left s) + 1" "t_body (s_task s)" s]
  by (auto simp: send_left_body_def h2_ok_foldl_send split: prod.splits)

lemma start_request_keeps: "start_request enc host s h = (e, s', h') \<Longrightarrow> s_id s' = s_id s \<and> streams h' = streams h
   \<and> next_stream_id h' = next_stream_id h \<and> (h2_ok h \<longrightarrow> h2_ok h')"
  by (auto simp: start_request_def Let_def h2_ok_send dest!: send_left_keeps split: sum.splits if_splits prod.splits)

lemma h2_ok_request_task [wf_intros]: "h2_ok h \<Longrightarrow> h2_ok (snd (request_task enc host now t h))"
proof -
  assume ok: "h2_ok h"
  let ?h = "h\<lparr>next_stream_id := next_stream_id h + 2\<rparr>"
  let ?s = "stream_init now (next_stream_id h) t local_initial_window ?h"
  let ?g = "?h\<lparr>streams := dset (next_stream_id h) ?s (streams ?h)\<rparr>"
  obtain e s1 h1 where r: "start_request enc host ?s ?g = (e, s1, h1)" by (metis prod_cases3)
  have id: "s_id ?s = next_stream_id h" by (simp add: stream_init_def)
  have g: "h2_ok ?g" using ok table_ok_new [OF _ id] by (simp add: h2_ok_def)
  from start_request_keeps [OF r] g id have k: "h2_ok h1" "s_id s1 = next_stream_id h" "next_stream_id h \<in> fst ` set (streams h1)"
    by simp_all
  then have "h2_ok (h1\<lparr>streams := dset (next_stream_id h) s1 (streams h1)\<rparr>)"
    by (simp add: h2_ok_def table_ok_dset)
  then show ?thesis by (simp only: request_task_def Let_def r prod.case snd_conv)
qed

lemma h2_ok_request [wf_intros]: "h2_ok h \<Longrightarrow> h2_ok (snd (request enc host now t h))"
  by (auto simp: request_def intro!: h2_ok_request_task) (simp_all add: h2_ok_def)

lemma h2_ok_ping [wf_intros]: "h2_ok h \<Longrightarrow> h2_ok (send_ping pack now h)"
  using h2_ok_send [of h] by (simp add: send_ping_def Let_def h2_ok_def)

lemma h2_ok_init: "h2_ok (h2_init cfg w sock now)"
  by (simp add: h2_init_def send_preamble_def send_cb_def h2_ok_def table_ok_def credit_ok_def Let_def connection_window_def)

lemma h2_ok_close_worker: "h2_ok h \<Longrightarrow> h2_ok (close_worker r h)"
  by (auto simp: close_worker_def h2_ok_def table_ok_def Let_def split: prod.split)

lemma h2_ok_close_cb: "h2_ok h \<Longrightarrow> h2_ok (close_stream_cb now sid h)"
proof -
  assume ok: "h2_ok h"
  let ?h1 = "h\<lparr>streams := ddel sid (streams h), h_worker := (h_worker h)\<lparr>w_processed := w_processed (h_worker h) + 1\<rparr>\<rparr>"
  have o1: "h2_ok ?h1" using ok by (simp add: h2_ok_def table_ok_ddel)
  then have "h2_ok (emit [IdleCall] (set_accept True ?h1))" by (rule h2_ok_fields) simp_all
  with o1 h2_ok_close_worker [OF o1] show ?thesis by (simp only: close_stream_cb_def Let_def split: if_split) simp
qed

lemma stream_end_id: "stream_end now s = (os, s') \<Longrightarrow> s_id s' = s_id s"
  by (auto simp: stream_end_def close_remote_def Let_def split: if_splits)

lemma stream_close_keeps: "stream_close now s h = (s', h') \<Longrightarrow> s_id s' = s_id s \<and> (h2_ok h \<longrightarrow> h2_ok h')"
  by (auto simp: stream_close_def split: prod.splits dest: stream_end_id intro!: h2_ok_close_cb) (simp add: h2_ok_def)

lemma close_or_retry_keeps: "s_id (fst (close_or_retry now s h)) = s_id s \<and> (h2_ok h \<longrightarrow> h2_ok (snd (close_or_retry now s h)))"
proof -
  have "h2_ok h \<Longrightarrow> h2_ok (emit [RetryTask (s_task s)] h)" by (rule h2_ok_fields) simp_all
  with stream_close_keeps [of now s h "fst (stream_close now s h)" "snd (stream_close now s h)"] show ?thesis
    by (simp add: close_or_retry_def Let_def)
qed

lemma h2_ok_close [wf_intros]: "h2_ok h \<Longrightarrow> h2_ok (h2_close now r h)"
proof -
  assume ok: "h2_ok h"
  have "h2_ok x \<Longrightarrow> h2_ok (foldl (\<lambda>x s. snd (close_or_retry now s x)) x ss)" for x ss
    by (induction ss arbitrary: x) (simp_all add: close_or_retry_keeps)
  from this [of "h\<lparr>send_queue := send_queue h @ [None]\<rparr>"] ok show ?thesis
    by (simp add: h2_close_def Let_def h2_ok_def table_ok_Nil split: prod.split) (metis table_ok_Nil)
qed

lemma h2_close_from_keeps: "h2_close_from now r s h = (s', h') \<Longrightarrow> s_id s' = s_id s \<and> (h2_ok h \<longrightarrow> h2_ok h')"
proof -
  assume c: "h2_close_from now r s h = (s', h')"
  have "h2_ok h \<Longrightarrow> dmem (s_id s) (streams h) \<Longrightarrow> h2_ok (h\<lparr>streams := dset (s_id s) s (streams h)\<rparr>)"
    by (simp add: h2_ok_def table_ok_dset)
  with c close_or_retry_keeps [of now s h] show ?thesis
    by (auto simp: h2_close_from_def h2_ok_close simp del: dmem_iff split: if_splits)
qed

lemma send_response_keeps: "send_response env s h = (e, s', h') \<Longrightarrow> s_id s' = s_id s \<and> (h2_ok h \<longrightarrow> h2_ok h')"
  by (auto simp: send_response_def Let_def dest!: stream_close_keeps h2_close_from_keeps
      split: if_splits prod.splits sum.splits option.splits)

lemma headers_done_keeps: "headers_done env s h = (e, s', h') \<Longrightarrow> s_id s' = s_id s \<and> (h2_ok h \<longrightarrow> h2_ok h')"
  by (auto simp: headers_done_def Let_def dest!: send_response_keeps split: if_splits sum.splits)

lemma update_speed_ok: "h2_ok h \<Longrightarrow> h2_ok (snd (update_speed env c a b h))"
  by (simp add: update_speed_def h2_ok_def split: sum.split prod.split)

lemma stream_done_keeps: "stream_done env s h = (e, s', h') \<Longrightarrow> s_id s' = s_id s \<and> (h2_ok h \<longrightarrow> h2_ok h')"
proof -
  assume d: "stream_done env s h = (e, s', h')"
  show ?thesis
  proof (cases "s_response_headers s")
    case None
    with d show ?thesis by (simp add: stream_done_def)
  next
    case hs: (Some hs)
    show ?thesis
    proof (cases "stream_cost env hs")
      case (Inl x)
      with d hs show ?thesis by (simp add: stream_done_def)
    next
      case c: (Inr xcost)
      obtain r h1 where r: "report_cost env xcost s h = (r, h1)" by fastforce
      have ok1: "h2_ok h \<Longrightarrow> h2_ok h1" using r update_speed_ok by (auto simp: report_cost_def Let_def split: if_splits)
          (metis snd_conv update_speed_ok)
      obtain s1 h2 where cl: "stream_close (e_now env) (close_remote s) h1 = (s1, h2)" by fastforce
      have k: "s_id s1 = s_id s" "h2_ok h \<Longrightarrow> h2_ok h2" "h2_ok h \<Longrightarrow> h2_ok (h2\<lparr>continue_timeout := 0\<rparr>)"
        using stream_close_keeps [OF cl] ok1 by (simp_all add: close_remote_def h2_ok_def)
      show ?thesis using d k ok1 by (cases r; cases "finished (s_task s1)") (auto simp: stream_done_def hs c r cl)
    qed
  qed
qed

lemma stream_frame_keeps: "stream_frame env f s h = (e, s', h') \<Longrightarrow> s_id s' = s_id s \<and> (h2_ok h \<longrightarrow> h2_ok h')"
proof -
  assume r: "stream_frame env f s h = (e, s', h')"
  show ?thesis
  proof (cases f)
    case (WindowF sid inc)
    with r send_left_keeps [of "s\<lparr>s_remote_window := s_remote_window s + inc\<rparr>" h] show ?thesis
      by (auto simp: stream_frame_def split: prod.splits)
  next
    case (DataF sid d b pad)
    with r show ?thesis by (auto simp: stream_frame_def Let_def h2_ok_send split: if_splits prod.splits)
  next
    case (RstF sid c)
    with r h2_close_from_keeps [of "e_now env" "''RESET''" s h] show ?thesis
      by (auto simp: stream_frame_def split: prod.splits)
  qed (use r in \<open>auto simp: stream_frame_def split: option.splits\<close>)
qed

lemma stream_receive_keeps: "stream_receive env f s h = (e, s', h') \<Longrightarrow> s_id s' = s_id s \<and> (h2_ok h \<longrightarrow> h2_ok h')"
  by (auto simp: stream_receive_def dest!: stream_frame_keeps headers_done_keeps stream_done_keeps
      split: prod.splits option.splits if_splits)

lemma h2_ok_check_timeout [wf_intros]: "h2_ok h \<Longrightarrow> h2_ok (h2_check_timeout now sid h)"
  by (auto simp: h2_check_timeout_def Let_def h2_ok_def intro!: table_ok_dset split: option.split dest: table_ok_get)

lemma h2_ok_update_settings [wf_intros]: "h2_ok h \<Longrightarrow> h2_ok (update_settings now st h)"
proof -
  assume ok: "h2_ok h"
  define h1 where "h1 = (case dget st HEADER_TABLE_SIZE of None \<Rightarrow> h | Some n \<Rightarrow> h\<lparr>remote_table_size := Some n\<rparr>)"
  define h2 where "h2 = (case dget st INITIAL_WINDOW_SIZE of None \<Rightarrow> h1 | Some n \<Rightarrow>
                  h1\<lparr>streams := dmap (\<lambda>i s. s\<lparr>s_remote_window := s_remote_window s + (n - remote_initial h1)\<rparr>) (streams h1),
                     remote_initial := n\<rparr>)"
  have "h2_ok h1" using ok by (simp add: h1_def h2_ok_def split: option.split)
  then have ok2: "h2_ok h2" by (simp add: h2_def h2_ok_def table_ok_dmap split: option.split)
  then have m: "h2_ok (h2\<lparr>remote_max_frame := n, streams := dmap (\<lambda>i s. s\<lparr>s_max_frame := s_max_frame s + n\<rparr>) (streams h2)\<rparr>)" for n
    by (simp add: h2_ok_def table_ok_dmap)
  show ?thesis
    unfolding update_settings_def Let_def h1_def [symmetric] h2_def [symmetric]
    by (auto split: option.split simp: ok2 m h2_ok_close)
qed

lemma send_blocked_ok:
  "send_blocked fs h = (b, h') \<Longrightarrow> 0 \<le> remote_window h \<Longrightarrow> \<forall>f \<in> set fs. counted f = Some (length (frame_data f))
   \<Longrightarrow> credit_ok (remote_window h') (blocked_frames h') \<and> streams h' = streams h \<and> next_stream_id h' = next_stream_id h"
proof (induction fs arbitrary: h)
  case (Cons f fs)
  show ?case
  proof (cases "int (length (frame_data f)) > remote_window h")
    case True
    with Cons.prems show ?thesis by (auto simp: credit_ok_def)
  next
    case False
    with Cons.prems Cons.IH [of "h\<lparr>remote_window := remote_window h - int (length (frame_data f)), send_queue := send_queue h @ [Some f]\<rparr>"]
    show ?thesis by auto
  qed
qed (auto simp: credit_ok_def)

lemma h2_ok_increase: "h2_ok h \<Longrightarrow> 0 \<le> inc \<Longrightarrow> h2_ok (increase_remote_window_size inc h)"
proof -
  assume ok: "h2_ok h" and inc: "0 \<le> inc"
  obtain b h1 where s: "send_blocked (blocked_frames h) (h\<lparr>remote_window := remote_window h + inc\<rparr>) = (b, h1)" by fastforce
  from send_blocked_ok [OF s] ok inc have "h2_ok h1" by (simp add: h2_ok_def credit_ok_def)
  then show ?thesis by (cases b) (simp_all add: increase_remote_window_size_def s h2_ok_def)
qed

text \<open>The protocol's window updates are positive.\<close>

fun sane :: "frame \<Rightarrow> bool" where
  "sane (WindowF sid inc) = (0 \<le> inc)"
| "sane f = True"

lemma h2_ok_conn_frame: "h2_ok h \<Longrightarrow> sane f \<Longrightarrow> h2_ok (conn_frame env f h)"
proof -
  assume ok: "h2_ok h" and f: "sane f"
  have p: "h2_ok (h\<lparr>ping_on_way := n\<rparr>)" for n using ok by (simp add: h2_ok_def)
  have a: "h2_ok (set_accept b x)" "h2_ok (emit os x)" if "h2_ok x" for b os x using that by (simp_all add: h2_ok_def)
  show ?thesis
  proof (cases f)
    case (SettingsF ack st)
    have "h2_ok (emit [IdleCall] (set_accept True h))" by (intro a ok)
    with SettingsF ok show ?thesis by (cases ack) (simp_all add: conn_frame_def h2_ok_update_settings h2_ok_send)
  next
    case (PingF ack d)
    have "h2_ok (h\<lparr>ping_on_way := n, h_worker := w\<rparr>)" for n w using ok by (simp add: h2_ok_def)
    with PingF ok p show ?thesis by (cases ack) (auto simp: conn_frame_def Let_def h2_ok_send)
  qed (use f in \<open>simp_all add: conn_frame_def ok h2_ok_increase h2_ok_close\<close>)
qed

lemma h2_ok_consume: "h2_ok h \<Longrightarrow> sane f \<Longrightarrow> h2_ok (snd (consume_frame env f h))"
proof -
  assume ok: "h2_ok h" and f: "sane f"
  define g where "g = count_received f h"
  have "h2_ok (h\<lparr>local_window := w\<rparr>)" for w using ok by (simp add: h2_ok_def)
  then have g: "h2_ok g" using ok unfolding g_def count_received_def
    by (auto simp: Let_def h2_ok_send split: frame.split prod.split)
  then have u: "h2_ok (unknown_stream f g)" by (simp add: unknown_stream_def h2_ok_send split: frame.split)
  have r: "h2_ok (store_stream (sid_of f) s1 h1)"
    if s: "dget (streams g) (sid_of f) = Some s" and "stream_receive env f s g = (e, s1, h1)" for s e s1 h1
  proof -
    from stream_receive_keeps [OF that(2)] g have "s_id s1 = s_id s" "h2_ok h1" by simp_all
    moreover have "s_id s = sid_of f" using table_ok_get [OF _ s, of "next_stream_id g"] g by (simp add: h2_ok_def)
    ultimately show ?thesis by (auto simp: store_stream_def h2_ok_def table_ok_dset)
  qed
  show ?thesis
    unfolding consume_frame_def g_def [symmetric] Let_def
    using h2_ok_conn_frame [OF g f] u r by (auto split: option.split prod.split)
qed

lemma h2_ok_recv: "h2_ok h \<Longrightarrow> (\<And>hd d f. parse_body p hd d = Inr f \<Longrightarrow> sane f) \<Longrightarrow> h2_ok (recv_step p env h)"
proof -
  assume ok: "h2_ok h" and p: "\<And>hd d f. parse_body p hd d = Inr f \<Longrightarrow> sane f"
  have s: "h2_ok (h\<lparr>h_sock := b\<rparr>)" "h2_ok (h\<lparr>h_sock := b, h_worker := w\<rparr>)" "h2_ok (h\<lparr>h_worker := w, h_sock := b\<rparr>)" for b w
    using ok by (simp_all add: h2_ok_def)
  have "h2_ok (snd (consume_single_frame p env h))"
    unfolding consume_single_frame_def Let_def
    by (auto split: option.split prod.split sum.split intro!: h2_ok_close ok s h2_ok_consume dest: p)
  then show ?thesis using ok by (auto simp: recv_step_def split: prod.split option.split intro: h2_ok_close)
qed

lemma h2_ok_send_step [wf_intros]: "h2_ok h \<Longrightarrow> h2_ok (snd (snd (send_step ser took now h)))"
proof -
  assume ok: "h2_ok h"
  have q: "h2_ok (h\<lparr>send_queue := q\<rparr>)" "h2_ok (h\<lparr>send_queue := q, h_sock := b\<rparr>)" "h2_ok (h\<lparr>send_queue := q, h_sock := b, h_worker := w\<rparr>)" for q b w
    using ok by (simp_all add: h2_ok_def)
  show ?thesis unfolding send_step_def Let_def
    by (auto split: list.split option.split prod.split intro!: ok q h2_ok_close)
qed

subsection \<open>Every connection the program can reach\<close>

inductive h2_reach :: "h2 \<Rightarrow> bool" where
  opened: "h2_reach (h2_init cfg w sock now)"
| requested: "h2_reach h \<Longrightarrow> h2_reach (snd (request enc host now t h))"
| pinged: "h2_reach h \<Longrightarrow> h2_reach (send_ping pack now h)"
| timed_out: "h2_reach h \<Longrightarrow> h2_reach (h2_check_timeout now sid h)"
| received: "h2_reach h \<Longrightarrow> (\<And>hd d f. parse_body p hd d = Inr f \<Longrightarrow> sane f) \<Longrightarrow> h2_reach (recv_step p env h)"
| sent: "h2_reach h \<Longrightarrow> h2_reach (snd (snd (send_step ser took now h)))"
| closed: "h2_reach h \<Longrightarrow> h2_reach (h2_close now reason h)"

lemma h2_reach_ok: "h2_reach h \<Longrightarrow> h2_ok h"
  by (induction rule: h2_reach.induct) (auto intro: wf_intros h2_ok_init h2_ok_recv)

text \<open>
  C19. In every connection that can arise while the peer sends window updates that are not negative,
  each stream stands in the table under its own number, the numbers are odd and below the next
  one to be used, the window of the connection is never overdrawn, and a frame that waits is one
  that the window does not admit.
\<close>

theorem h2_invariant:
  assumes "h2_reach h"
  shows "(\<forall>i s. dget (streams h) i = Some s \<longrightarrow> s_id s = i \<and> odd i \<and> i < next_stream_id h)
    \<and> 0 \<le> remote_window h
    \<and> (\<forall>f fs. blocked_frames h = f # fs \<longrightarrow> remote_window h < int (length (frame_data f)))"
  using h2_reach_ok [OF assms] by (fastforce simp: h2_ok_def table_ok_def credit_ok_def dest: map_of_SomeD)

subsection \<open>What closing does with the tasks\<close>

fun task_out :: "h2_out \<Rightarrow> bool" where
  "task_out (RetryTask t) = True"
| "task_out (TaskLeft t) = True"
| "task_out out = False"

definition fate :: "time \<Rightarrow> task \<Rightarrow> h2_out" where
  "fate now t = (if responsed t then TaskLeft (finish t)
     else if t_start t + t_timeout t < now then TaskLeft t else RetryTask t)"

lemma no_task_outs: "filter task_out (map WorkerOut os) = []"
  by (induction os) simp_all

lemma close_cb_outs: "filter task_out (h_outs (close_stream_cb now sid h)) = filter task_out (h_outs h)"
proof -
  have w: "filter task_out (h_outs (close_worker r x)) = filter task_out (h_outs x)" for r x
    by (simp add: close_worker_def no_task_outs split: prod.split)
  show ?thesis unfolding close_stream_cb_def Let_def
    by (simp split: if_split) (simp add: w)
qed

lemma close_or_retry_outs:
  "filter task_out (h_outs (snd (close_or_retry now s h))) = filter task_out (h_outs h) @ [fate now (s_task s)]"
  by (auto simp: close_or_retry_def stream_close_def stream_end_def fate_def close_cb_outs close_remote_def Let_def)

lemma h2_close_task_outs:
  "filter task_out (h_outs (h2_close now reason h)) = filter task_out (h_outs h) @ map (\<lambda>(i, s). fate now (s_task s)) (streams h)"
proof -
  have f: "filter task_out (h_outs (foldl (\<lambda>x s. snd (close_or_retry now s x)) h ss))
      = filter task_out (h_outs h) @ map (\<lambda>s. fate now (s_task s)) ss" for ss h
    by (induction ss arbitrary: h) (simp_all add: close_or_retry_outs)
  have m: "map (\<lambda>s. fate now (s_task s)) (map snd (streams h)) = map (\<lambda>(i, s). fate now (s_task s)) (streams h)"
    by (simp add: case_prod_beta)
  show ?thesis
    using f [of "h\<lparr>send_queue := send_queue h @ [None]\<rparr>" "map snd (streams h)"]
    by (simp add: h2_close_def Let_def no_task_outs m split: prod.split)
qed

text \<open>A running worker that is closed tells the dispatcher.\<close>

lemma close_or_retry_told:
  "w_keep_running (h_worker h) \<or> WorkerOut WorkerClosed \<in> set (h_outs h) \<Longrightarrow>
   w_keep_running (h_worker (snd (close_or_retry now s h))) \<or> WorkerOut WorkerClosed \<in> set (h_outs (snd (close_or_retry now s h)))"
  by (auto simp: close_or_retry_def stream_close_def close_stream_cb_def close_worker_def worker_close_def Let_def may_accept_def
      split: prod.split)

lemma h2_close_told:
  assumes "w_keep_running (h_worker h)"
  shows "WorkerOut WorkerClosed \<in> set (h_outs (h2_close now reason h))"
proof -
  let ?P = "\<lambda>h. w_keep_running (h_worker h) \<or> WorkerOut WorkerClosed \<in> set (h_outs h)"
  have f: "?P h \<Longrightarrow> ?P (foldl (\<lambda>x s. snd (close_or_retry now s x)) h ss)" for ss h
    by (induction ss arbitrary: h) (use close_or_retry_told in simp_all)
  show ?thesis using f [of "h\<lparr>send_queue := send_queue h @ [None]\<rparr>" "map snd (streams h)"] assms
    by (auto simp: h2_close_def worker_close_def Let_def)
qed

text \<open>
  C21. Closing a connection settles every one of its tasks exactly once, in the order of the streams:
  an answered task is finished, a task with time left is given back for a retry, and a task that
  has run out of time is let go without any answer.  Afterwards the connection has no stream, takes
  no task and does not run.
\<close>

theorem close_settles_tasks:
  "filter task_out (h_outs (h2_close now reason h)) = filter task_out (h_outs h) @ map (\<lambda>(i, s). fate now (s_task s)) (streams h)
   \<and> streams (h2_close now reason h) = [] \<and> \<not> w_keep_running (h_worker (h2_close now reason h))"
  using h2_close_task_outs [of now reason h] by (auto simp: h2_close_def worker_close_def Let_def split: prod.split)

end
