(* ===== verification/Http2_Props.thy ===== *)
theory Http2_Props
  imports Http2_Invariant
begin

text \<open>What the HTTP/2 client guarantees, and where it does not do what the protocol asks for.\<close>

subsection \<open>The body of a request\<close>

lemma close_local_fields [simp]: "s_left (close_local s) = s_left s" "s_remote_window (close_local s) = s_remote_window s"
  "s_sended (close_local s) = s_sended s" "s_id (close_local s) = s_id s" "s_max_frame (close_local s) = s_max_frame s"
  by (simp_all add: close_local_def)

text \<open>What one call may send: the bytes that the window of the stream allows.\<close>

definition allowed :: "h2_stream \<Rightarrow> int" where
  "allowed s = min (s_remote_window s) (s_left s)"

lemma body_frames_nil: "body_frames k body s = ([], s') \<Longrightarrow> s' = s"
  by (cases k) (auto simp: Let_def split: if_splits prod.splits)

lemma body_frames_stop: "s_remote_window s = 0 \<Longrightarrow> body_frames k body s = ([], s)"
  by (cases k) simp_all

text \<open>A turn that uses up the window without reaching the end of the body.\<close>

lemma body_frames_one:
  assumes "s_remote_window s = z" and "z \<noteq> 0" and "min (min z (s_left s)) (s_max_frame s) = z" and "\<not> s_sended s" and "s_left s - z \<noteq> 0"
  shows "body_frames (Suc k) body s =
    ([DataF (s_id s) (py_slice (int (length body) - s_left s) (int (length body) - s_left s + z) body) False 0],
     s\<lparr>s_remote_window := 0, s_left := s_left s - z\<rparr>)"
  using assms by (simp add: Let_def body_frames_stop)

lemma body_frames_spec:
  assumes "body_frames k body s = (fs, s')" and "int k > s_left s" and "0 < s_left s" and "s_left s \<le> int (length body)"
    and "0 \<le> s_remote_window s" and "0 < s_max_frame s" and "\<not> s_sended s"
  shows "concat (map frame_data fs) = take (nat (allowed s)) (drop (length body - nat (s_left s)) body)
    \<and> s_left s' = s_left s - allowed s \<and> s_remote_window s' = s_remote_window s - allowed s
    \<and> (\<forall>f \<in> set fs. \<exists>d e. f = DataF (s_id s) d e 0 \<and> int (length d) \<le> s_max_frame s)
    \<and> map ends_stream fs = replicate (length fs - 1) False @ (if fs = [] then [] else [s_left s' = 0])
    \<and> (s_sended s' \<longleftrightarrow> s_left s' = 0) \<and> (s_remote_window s' = 0 \<or> s_sended s')"
  using assms
proof (induction k arbitrary: s fs s')
  case (Suc k)
  show ?case
  proof (cases "s_remote_window s = 0")
    case True
    with Suc.prems(1,3) show ?thesis using Suc.prems(7) by (simp add: allowed_def)
  next
    case win: False
    let ?sz = "min (min (s_remote_window s) (s_left s)) (s_max_frame s)"
    let ?start = "int (length body) - s_left s"
    let ?d = "py_slice ?start (?start + ?sz) body"
    let ?s1 = "s\<lparr>s_remote_window := s_remote_window s - ?sz, s_left := s_left s - ?sz\<rparr>"
    let ?f = "DataF (s_id s) ?d (s_left ?s1 = 0) 0"
    let ?s2 = "if s_left ?s1 = 0 then close_local (?s1\<lparr>s_sended := True\<rparr>) else ?s1"
    have pos: "0 < ?sz" "?sz \<le> s_left s" "?sz \<le> s_remote_window s" "?sz \<le> s_max_frame s" using Suc.prems(3,5,6) win by auto
    have d: "?d = take (nat ?sz) (drop (nat ?start) body)" using pos Suc.prems(4) by (subst py_slice_nonneg) auto
    have st: "nat ?start = length body - nat (s_left s)" using Suc.prems(3,4) by auto
    have len: "int (length ?d) = ?sz" 
    proof -
      have "int (min (length body - nat ?start) (nat z)) = z" if "0 < z" "z \<le> s_left s" for z
        using that Suc.prems(4) by auto
      from this [OF pos(1,2)] show ?thesis unfolding d by simp
    qed
    obtain gs s3 where rec: "body_frames k body ?s2 = (gs, s3)" by fastforce
    have res: "fs = ?f # gs" "s' = s3" using Suc.prems(1) win Suc.prems(7) rec by (auto simp: Let_def)
    show ?thesis
    proof (cases "s_left ?s1 = 0")
      case True
      then have "gs = []" "s3 = close_local (?s1\<lparr>s_sended := True\<rparr>)" using rec by (cases k; auto)+
      moreover have "allowed s = s_left s" "?sz = s_left s" using True pos by (auto simp: allowed_def)
      ultimately show ?thesis using res len d st pos True by (auto simp: min_def)
    next
      case False
      have gen: "int k > s_left s - z \<and> s_left s - z \<le> int (length body)" if "0 < z" for z
        using that Suc.prems(2,4) by simp
      have "body_frames k body ?s1 = (gs, s3)" using rec False by simp
      moreover have "int k > s_left ?s1" "s_left ?s1 \<le> int (length body)" using gen [OF pos(1)] by simp_all
      moreover have "0 < s_left ?s1" "0 \<le> s_remote_window ?s1" "0 < s_max_frame ?s1" "\<not> s_sended ?s1"
        using Suc.prems(6,7) pos(2,3) False by simp_all
      ultimately have ih: "concat (map frame_data gs) = take (nat (allowed ?s1)) (drop (length body - nat (s_left ?s1)) body)
        \<and> s_left s3 = s_left ?s1 - allowed ?s1 \<and> s_remote_window s3 = s_remote_window ?s1 - allowed ?s1
        \<and> (\<forall>f \<in> set gs. \<exists>d e. f = DataF (s_id ?s1) d e 0 \<and> int (length d) \<le> s_max_frame ?s1)
        \<and> map ends_stream gs = replicate (length gs - 1) False @ (if gs = [] then [] else [s_left s3 = 0])
        \<and> (s_sended s3 \<longleftrightarrow> s_left s3 = 0) \<and> (s_remote_window s3 = 0 \<or> s_sended s3)"
        by (intro Suc.IH)
      have al: "allowed s = ?sz + allowed ?s1" by (auto simp: allowed_def)
      have "0 \<le> allowed ?s1" using pos by (auto simp: allowed_def)
      then have n: "nat (allowed s) = nat ?sz + nat (allowed ?s1)" unfolding al using pos(1) by (simp only: nat_add_distrib less_imp_le)
      have dr: "drop (nat ?sz) (drop (nat ?start) body) = drop (length body - nat (s_left ?s1)) body"
      proof -
        have "nat z + nat ?start = length body - nat (s_left s - z)" if "0 < z" "z \<le> s_left s" for z
          using that Suc.prems(4) by auto
        from this [OF pos(1,2)] show ?thesis by (simp add: drop_drop)
      qed
      have "take (nat (allowed s)) (drop (nat ?start) body)
          = ?d @ take (nat (allowed ?s1)) (drop (length body - nat (s_left ?s1)) body)"
        unfolding n take_add d dr ..
      then have c: "concat (map frame_data fs) = take (nat (allowed s)) (drop (length body - nat (s_left s)) body)"
        using ih res st by simp
      have e: "map ends_stream fs = replicate (length fs - 1) False @ (if fs = [] then [] else [s_left s' = 0])"
      proof (cases "gs = []")
        case True
        have "s3 = ?s1" using body_frames_nil rec False True by simp
        with False have "s_left s3 \<noteq> 0" by simp
        with True False show ?thesis by (simp add: res)
      next
        case gs: False
        have "map ends_stream gs = replicate (length gs - 1) False @ (if gs = [] then [] else [s_left s3 = 0])" using ih by blast
        with gs False show ?thesis by (cases gs) (simp_all add: res)
      qed
      have f: "\<forall>f \<in> set fs. \<exists>d e. f = DataF (s_id s) d e 0 \<and> int (length d) \<le> s_max_frame s"
        using ih res len pos(4) by simp
      have i: "s_left s3 = s_left ?s1 - allowed ?s1" "s_remote_window s3 = s_remote_window ?s1 - allowed ?s1"
        "s_sended s3 \<longleftrightarrow> s_left s3 = 0" "s_remote_window s3 = 0 \<or> s_sended s3"
        using ih by blast+
      have "s_left s' = s_left s - allowed s" "s_remote_window s' = s_remote_window s - allowed s"
        unfolding res(2) i(1,2) al by simp_all
      with c e f i(3,4) show ?thesis unfolding res(2) by blast
    qed
  qed
qed simp

text \<open>
  C20. One call of \<^verbatim>\<open>send_left_body\<close> hands to the connection exactly the next bytes of the body that the
  stream's window allows, cut into frames no longer than the frame limit, all of this stream;
  the window and the rest go down by that much, and only the last frame of the body carries
  the end mark.
\<close>

theorem body_sent_in_order:
  assumes "0 < s_left s" and "s_left s \<le> int (length (t_body (s_task s)))" and "0 \<le> s_remote_window s"
    and "0 < s_max_frame s" and "\<not> s_sended s" and "send_left_body s h = (s', h')"
  shows "\<exists>fs. h' = foldl (\<lambda>x f. send_cb f x) h fs
    \<and> concat (map frame_data fs)
       = take (nat (allowed s)) (drop (length (t_body (s_task s)) - nat (s_left s)) (t_body (s_task s)))
    \<and> s_left s' = s_left s - allowed s \<and> s_remote_window s' = s_remote_window s - allowed s
    \<and> (\<forall>f \<in> set fs. \<exists>d e. f = DataF (s_id s) d e 0 \<and> int (length d) \<le> s_max_frame s)
    \<and> map ends_stream fs = replicate (length fs - 1) False @ (if fs = [] then [] else [s_left s' = 0])"
proof -
  obtain fs where b: "body_frames (nat (s_left s) + 1) (t_body (s_task s)) s = (fs, s')"
    and h': "h' = foldl (\<lambda>x f. send_cb f x) h fs"
    using assms(6) by (auto simp: send_left_body_def split: prod.splits)
  have "s_left s < int (nat (s_left s) + 1)" by simp
  from body_frames_spec [OF b this assms(1-5)] h' show ?thesis by blast
qed

definition h2_cfg_ex :: worker_cfg where
  "h2_cfg_ex = \<lparr>connection_max_life = 60, expect_package_size = 1000, max_continue_fail = 8, http1_max_process_tasks = 10,
     http2_max_process_tasks = 100, http1_idle_time = 20, http2_idle_ping_min_interval = 5, http2_max_concurrent = 20,
     http2_status_to_close = [404]\<rparr>"

definition worker_ex :: worker where
  "worker_ex = \<lparr>w_http1 = False, w_adjust = 0, w_accept_task = True, w_keep_running = True, w_processed = 0, w_score = 0,
     w_continue_fail = 0, w_last_request = 0, w_last_recv = 0, w_last_send = 0, w_life_end = 60\<rparr>"

definition h2_ex :: h2 where
  "h2_ex = h2_init h2_cfg_ex worker_ex \<lparr>bs_limit = 65535, bs_buffer = [], bs_segments = [], bytes_received = 0, bytes_sent = 0\<rparr> 0"

definition stream_ex :: "bytes \<Rightarrow> h2_stream" where
  "stream_ex body = stream_init 0 1 (task_init ''POST'' ''h'' ''/'' [] body True 10 0) local_initial_window h2_ex"

lemma stream_ex_fields:
  "s_left (stream_ex body) = int (length body)" "t_body (s_task (stream_ex body)) = body" "s_remote_window (stream_ex body) = 65535"
  "s_max_frame (stream_ex body) = 16384" "s_sended (stream_ex body) = False" "s_id (stream_ex body) = 1"
  "s_state (stream_ex body) = Idle"
  by (simp_all add: stream_ex_def stream_init_def h2_ex_def h2_init_def send_preamble_def send_cb_def task_init_def
      DEFAULT_WINDOW_SIZE_def FRAME_MAX_LEN_def)

theorem body_sent_in_order_witness:
  "\<exists>fs. snd (send_left_body (stream_ex ''abc'') h2_ex) = foldl (\<lambda>x f. send_cb f x) h2_ex fs \<and> concat (map frame_data fs) = ''abc''"
proof -
  have a: "allowed (stream_ex ''abc'') = 3" by (simp add: allowed_def stream_ex_fields)
  from body_sent_in_order [of "stream_ex ''abc''" h2_ex, OF _ _ _ _ _ prod.collapse [symmetric]] show ?thesis
    unfolding a by (simp add: stream_ex_fields) blast
qed

text \<open>
  When the peer has lowered the window of a stream below zero (which a smaller initial window
  does), the next turn of the loop does not wait: it sends a frame nevertheless, resets the
  window to zero and moves the position back, so that the first bytes sent when the window
  opens again are bytes that were sent before.
\<close>

theorem negative_window_repeats:
  assumes "s_remote_window s = - int w" and "0 < w" and "\<not> s_sended s" and "0 < s_left s" and "0 < s_max_frame s"
    and "s_left s + int w \<le> int (length (t_body (s_task s)))"
    and "0 < i" and "int i \<le> s_max_frame s" and "i \<le> w"
  shows "\<exists>s1 h1 s2. send_left_body s h = (s1, h1) \<and> s_remote_window s1 = 0 \<and> s_left s1 = s_left s + int w
    \<and> h1 = send_cb (DataF (s_id s) [] False 0) h
    \<and> send_left_body (s1\<lparr>s_remote_window := int i\<rparr>) h1 =
        (s2, send_cb (DataF (s_id s) (take i (drop (length (t_body (s_task s)) - nat (s_left s) - w) (t_body (s_task s)))) False 0) h1)"
proof -
  let ?body = "t_body (s_task s)" and ?n = "int (length (t_body (s_task s)))"
  let ?s1 = "s\<lparr>s_remote_window := 0, s_left := s_left s + int w\<rparr>"
  have m: "min (min (- int w) (s_left s)) (s_max_frame s) = - int w" using assms(2,4,5) by simp
  have e: "py_slice (?n - s_left s) (?n - s_left s + - int w) ?body = []"
    using assms(4,6) by (simp add: py_slice_def slice_bound_def Let_def)
  have b1: "body_frames (Suc k) ?body s = ([DataF (s_id s) [] False 0], ?s1)" for k
    using body_frames_one [of s "- int w" k ?body] assms(1-4) m e by simp
  then have 1: "send_left_body s h = (?s1, send_cb (DataF (s_id s) [] False 0) h)"
    by (simp add: send_left_body_def)
  have m2: "min (min (int i) (s_left s + int w)) (s_max_frame s) = int i" using assms(4,8,9) by simp
  have e2: "py_slice (?n - (s_left s + int w)) (?n - (s_left s + int w) + int i) ?body
      = take i (drop (length ?body - nat (s_left s) - w) ?body)"
    using assms(4,6,9) by (subst py_slice_nonneg) (auto simp: nat_diff_distrib nat_add_distrib)
  have "body_frames (Suc (Suc k)) ?body (?s1\<lparr>s_remote_window := int i\<rparr>) =
     ([DataF (s_id s) (take i (drop (length ?body - nat (s_left s) - w) ?body)) False 0],
      s\<lparr>s_remote_window := 0, s_left := s_left s + int w - int i\<rparr>)" for k
    using body_frames_one [of "?s1\<lparr>s_remote_window := int i\<rparr>" "int i" "Suc k" ?body] assms(3,4,7,9) m2 e2 by simp
  moreover have "nat (s_left s + int w) + 1 = Suc (Suc (nat (s_left s + int w) - 1))" using assms(4) by simp
  ultimately have "\<exists>s2. body_frames (nat (s_left s + int w) + 1) ?body (?s1\<lparr>s_remote_window := int i\<rparr>) =
     ([DataF (s_id s) (take i (drop (length ?body - nat (s_left s) - w) ?body)) False 0], s2)" by metis
  then have "\<exists>s2. send_left_body (?s1\<lparr>s_remote_window := int i\<rparr>) h1 =
      (s2, send_cb (DataF (s_id s) (take i (drop (length ?body - nat (s_left s) - w) ?body)) False 0) h1)" for h1
    by (auto simp: send_left_body_def)
  with 1 show ?thesis by auto
qed

theorem negative_window_repeats_witness:
  "\<exists>s1 h1 s2. send_left_body ((stream_ex ''abcdef'')\<lparr>s_remote_window := - 2, s_left := 2\<rparr>) h2_ex = (s1, h1)
    \<and> send_left_body (s1\<lparr>s_remote_window := 2\<rparr>) h1 = (s2, send_cb (DataF 1 ''cd'' False 0) h1)"
  using negative_window_repeats [of "(stream_ex ''abcdef'')\<lparr>s_remote_window := - 2, s_left := 2\<rparr>" 2 2 h2_ex]
  by (simp add: stream_ex_fields) blast

definition env_ex :: h2_env where
  "env_ex = \<lparr>e_now = 1, e_decode = (\<lambda>d. Inr [('':status'', d)]), e_float = (\<lambda>s. None), e_speed = (\<lambda>c n. Inr (1, 1)),
     e_title = (\<lambda>k. k), e_recv_fails = None, e_payload_fails = False\<rparr>"

text \<open>
  A request without a body ends its stream with the header frame, but the stream is not marked
  as closed on this side: when the peer opens the window of that stream, the client sends an
  empty data frame with an end mark on the stream that it has already ended.
\<close>

theorem data_after_end_of_stream:
  assumes "t_body (s_task s) = []" and "s_left s = 0" and "\<not> s_sended s" and "0 < s_remote_window s + inc" and "0 \<le> s_max_frame s"
    and "start_request enc host s h = (None, s1, h1)"
  shows "\<exists>d. h1 = send_cb (HeadersF (s_id s) d True True) h
    \<and> (\<exists>s2. stream_frame env (WindowF (s_id s) inc) s1 h2 = (None, s2, send_cb (DataF (s_id s) [] True 0) h2))"
proof -
  from assms(2,6) obtain d where h1: "h1 = send_cb (HeadersF (s_id s) d True True) h" and s1: "s1 = s\<lparr>s_state := Opened\<rparr>"
    by (auto simp: start_request_def Let_def split: sum.splits if_splits)
  have "\<exists>s2. body_frames 1 [] (s1\<lparr>s_remote_window := s_remote_window s1 + inc\<rparr>) = ([DataF (s_id s) [] True 0], s2)"
    using assms(2-5) unfolding s1 One_nat_def by (simp add: Let_def py_slice_def min_def)
  with h1 show ?thesis using assms(1,2)
    by (auto simp: stream_frame_def send_left_body_def s1)
qed

theorem data_after_end_of_stream_witness:
  "\<exists>h1 s1 s2. start_request (\<lambda>_. ''H'') ''h'' (stream_ex []) h2_ex = (None, s1, h1)
    \<and> stream_frame env_ex (WindowF 1 5) s1 h1 = (None, s2, send_cb (DataF 1 [] True 0) h1)"
proof -
  have "t_headers (s_task (stream_ex [])) = []" by (simp add: stream_ex_def stream_init_def task_init_def)
  then obtain s1 h1 where r: "start_request (\<lambda>_. ''H'') ''h'' (stream_ex []) h2_ex = (None, s1, h1)"
    by (simp add: start_request_def request_header_map_def stream_ex_fields FRAME_MAX_LEN_def)
  from data_after_end_of_stream [OF _ _ _ _ _ r, of 5] have
    "\<exists>s2. stream_frame env_ex (WindowF 1 5) s1 h1 = (None, s2, send_cb (DataF 1 [] True 0) h1)"
    by (auto simp: stream_ex_fields)
  with r show ?thesis by blast
qed

subsection \<open>The window of the connection\<close>

text \<open>
  A frame that the window of the connection does not admit waits, but a later and shorter frame
  passes it: the frames of one stream, a head and its data or two pieces of one body, can
  leave in the wrong order.
\<close>

theorem shorter_frame_overtakes:
  assumes "counted f = Some n" and "counted g = Some k" and "int n > remote_window h" and "int k \<le> remote_window h"
  shows "send_queue (send_cb g (send_cb f h)) = send_queue h @ [Some g]
    \<and> blocked_frames (send_cb g (send_cb f h)) = blocked_frames h @ [f]"
  using assms by (simp add: send_cb_def)

theorem shorter_frame_overtakes_witness:
  "send_queue (send_cb (DataF 1 ''tail'' True 0) (send_cb (DataF 1 ''first part'' False 0) (h2_ex\<lparr>remote_window := 5\<rparr>)))
    = send_queue h2_ex @ [Some (DataF 1 ''tail'' True 0)]"
  using shorter_frame_overtakes [of "DataF 1 ''first part'' False 0" 10 "DataF 1 ''tail'' True 0" 4 "h2_ex\<lparr>remote_window := 5\<rparr>"]
  by simp

subsection \<open>Granting credit to the peer\<close>

text \<open>What the peer may send in addition to its first window, by the increments it was granted.\<close>

lemma handle_frames_window: "fc_initial (snd (handle_frames ss f)) = fc_initial f
   \<and> fc_window (snd (handle_frames ss f)) = fc_window f - sum_list ss"
proof (induction ss arbitrary: f)
  case (Cons s ss)
  from Cons.IH [of "snd (handle_frame s f)"] show ?case by (simp add: handle_frame_def case_prod_beta Let_def)
qed simp

text \<open>
  The manager never adds what it grants to its own window.  Once more than a quarter of the
  window has been received, each further frame is answered with an increment that exceeds its
  size by everything received before it, so the credit of the peer grows without bound: after
  \<open>k\<close> more frames it is at least \<open>k\<close> times that quarter above the window.
\<close>

theorem credit_grows_without_bound:
  assumes "\<forall>s \<in> set ss. 0 \<le> s" and "4 * (fc_initial f - fc_window f) > fc_initial f" and "0 \<le> fc_initial f"
  shows "sum_list (fst (handle_frames ss f)) - sum_list ss \<ge> int (length ss) * (fc_initial f - fc_window f)"
  using assms
proof (induction ss arbitrary: f)
  case (Cons s ss)
  let ?f = "snd (handle_frame s f)"
  have w: "fc_initial ?f = fc_initial f" "fc_window ?f = fc_window f - s" "fst (handle_frame s f) = fc_initial f - fc_window f + 2 * s"
    using Cons.prems by (auto simp: handle_frame_def increase_window_size_def Let_def)
  have s: "0 \<le> s" using Cons.prems(1) by simp
  have "int (length ss) * (fc_initial f - fc_window f) \<le> int (length ss) * (fc_initial ?f - fc_window ?f)"
    using s w by (simp add: mult_left_mono)
  also have "\<dots> \<le> sum_list (fst (handle_frames ss ?f)) - sum_list ss"
    using Cons.prems s w by (intro Cons.IH) auto
  finally show ?case using s w by (simp add: case_prod_beta Let_def algebra_simps)
qed simp

theorem credit_grows_without_bound_witness:
  "sum_list (fst (handle_frames [1000, 1000] \<lparr>fc_initial = 65535, fc_window = 30000\<rparr>)) \<ge> 2000 + 2 * 35535"
  using credit_grows_without_bound [of "[1000, 1000]" "\<lparr>fc_initial = 65535, fc_window = 30000\<rparr>"] by simp

subsection \<open>Reading frames\<close>

text \<open>
  When a frame header is split between two reads of the socket, so that fewer than nine bytes
  are buffered, the client takes the rest for missing and closes the connection, although the
  remaining bytes have arrived.
\<close>

theorem split_header_closes:
  assumes "w_keep_running (h_worker h)" and "e_recv_fails env = None"
    and "bs_buffer (h_sock h) \<noteq> []" and "length (bs_buffer (h_sock h)) < 9"
  shows "recv_step p env h = h2_close (e_now env) (''recv.short_header:'' @ dec (length (bs_buffer (h_sock h))))
      (h\<lparr>h_sock := (h_sock h)\<lparr>bs_buffer := []\<rparr>\<rparr>)
    \<and> \<not> w_keep_running (h_worker (recv_step p env h))"
proof -
  have r: "bs_recv 9 (h_sock h) = (bs_buffer (h_sock h), (h_sock h)\<lparr>bs_buffer := []\<rparr>)"
    using assms(3,4) by (simp add: bs_recv_def)
  have c: "\<not> w_keep_running (h_worker (h2_close now reason x))" for now reason x
    by (simp add: h2_close_def worker_close_def Let_def split: prod.split)
  show ?thesis using assms by (simp add: recv_step_def consume_single_frame_def r c)
qed

definition parser_ex :: frame_parser where
  "parser_ex = \<lparr>parse_header = (\<lambda>d. Inr 0), parse_body = (\<lambda>k d. Inr (PingF True k))\<rparr>"

theorem split_header_closes_witness:
  "\<not> w_keep_running (h_worker (recv_step parser_ex env_ex
     (h2_ex\<lparr>h_sock := \<lparr>bs_limit = 65535, bs_buffer = ''1234'', bs_segments = [''56789''], bytes_received = 0, bytes_sent = 0\<rparr>\<rparr>)))"
proof -
  let ?h = "h2_ex\<lparr>h_sock := \<lparr>bs_limit = 65535, bs_buffer = ''1234'', bs_segments = [''56789''], bytes_received = 0, bytes_sent = 0\<rparr>\<rparr>"
  have "w_keep_running (h_worker ?h)"
    by (simp add: h2_ex_def h2_init_def send_preamble_def send_cb_def worker_ex_def)
  then show ?thesis by (rule conjunct2 [OF split_header_closes]) (simp_all add: env_ex_def)
qed

theorem h2_invariant_witness:
  "let h = snd (request (\<lambda>_. ''H'') ''h'' 1 (task_init ''GET'' ''h'' ''/'' [] [] True 10 0) h2_ex) in 0 \<le> remote_window h"
  unfolding Let_def
  by (rule h2_invariant [THEN conjunct2, THEN conjunct1]) (unfold h2_ex_def, intro h2_reach.intros)

end
