(* ===== verification/Connect_Manager.thy ===== *)
theory Connect_Manager
  imports Ip_Manager
begin

text \<open>
  lib/noarch/front_base/connect_manager.py: the pool of new TLS connections and the manager that
  fills it, on top of the address pool of \<^verbatim>\<open>ip_manager.py\<close>.

  A connection is a number; what the code reads of the socket object is in \<open>sock\<close>.  Waiting on
  the condition variable of the pool is a list of events: the clock at each wake-up and what
  was put into the pool before it.  Making the TLS connection is a parameter.
\<close>

subsection \<open>Pool of connections\<close>

type_synonym conn_pool = "(nat, real) dict"

record sock =
  sock_ip :: string
  sock_sni :: string
  sock_last_use :: "time option"
  sock_handshake :: real

definition pool_put :: "real \<Rightarrow> nat \<Rightarrow> conn_pool \<Rightarrow> conn_pool" where
  "pool_put handshake c p = dset c handshake p"

text \<open>The loop of \<^verbatim>\<open>_get\<close>: the first of the fastest; 9999 is only the value before the first turn.\<close>

fun fastest :: "(nat \<times> real) list \<Rightarrow> real \<Rightarrow> nat option \<Rightarrow> real \<times> nat option" where
  "fastest [] t c = (t, c)"
| "fastest ((k, hs) # es) t c = (if hs < t \<or> c = None then fastest es hs (Some k) else fastest es t c)"

definition pool_take :: "conn_pool \<Rightarrow> exn + ((real \<times> nat) \<times> conn_pool)" where
  "pool_take p = (case fastest p 9999 None of
      (t, None) \<Rightarrow> Inl KeyError
    | (t, Some k) \<Rightarrow> Inr ((t, k), ddel k p))"

fun slowest :: "(nat \<times> real) list \<Rightarrow> real \<Rightarrow> nat option \<Rightarrow> real \<times> nat option" where
  "slowest [] t c = (t, c)"
| "slowest ((k, hs) # es) t c = (if hs > t then slowest es hs (Some k) else slowest es t c)"

definition get_slowest :: "conn_pool \<Rightarrow> exn + ((real \<times> nat) \<times> conn_pool)" where
  "get_slowest p =
     (if p = [] then Inl ValueError
      else case slowest p 0 None of
        (t, None) \<Rightarrow> Inl KeyError
      | (t, Some k) \<Rightarrow> Inr ((t, k), ddel k p))"

definition pool_get_nowait :: "conn_pool \<Rightarrow> exn + ((real \<times> nat) option \<times> conn_pool)" where
  "pool_get_nowait p =
     (if p = [] then Inr (None, p)
      else case pool_take p of Inl e \<Rightarrow> Inl e | Inr (x, p') \<Rightarrow> Inr (Some x, p'))"

text \<open>Waiting up to \<open>end_time\<close>; the last wake-up is the one that times out.\<close>

fun pool_get_wait :: "time \<Rightarrow> (time \<times> (nat \<times> real) option) list \<Rightarrow> conn_pool \<Rightarrow> exn + ((real \<times> nat) option \<times> conn_pool)" where
  "pool_get_wait end_time evs p =
     (if p \<noteq> [] then (case pool_take p of Inl e \<Rightarrow> Inl e | Inr (x, p') \<Rightarrow> Inr (Some x, p'))
      else case evs of
        [] \<Rightarrow> Inr (None, p)
      | (now, ev) # evs' \<Rightarrow>
          if end_time - now \<le> 0 then Inr (None, p)
          else pool_get_wait end_time evs' (case ev of None \<Rightarrow> p | Some (c, hs) \<Rightarrow> pool_put hs c p))"

text \<open>A connection without a time of use is closed and dropped; the inactive ones are taken out.\<close>

fun keep_alive_scan :: "(nat \<Rightarrow> sock) \<Rightarrow> time \<Rightarrow> real \<Rightarrow> nat list \<Rightarrow> conn_pool \<Rightarrow> nat list \<times> nat list \<times> conn_pool" where
  "keep_alive_scan so now maxtime [] p = ([], [], p)"
| "keep_alive_scan so now maxtime (c # cs) p =
     (case sock_last_use (so c) of
        None \<Rightarrow> (let (closed, idle, p') = keep_alive_scan so now maxtime cs (ddel c p) in (c # closed, idle, p'))
      | Some t \<Rightarrow>
          if now - t \<ge> maxtime
          then (let (closed, idle, p') = keep_alive_scan so now maxtime cs (ddel c p) in (closed, c # idle, p'))
          else keep_alive_scan so now maxtime cs p)"

definition get_need_keep_alive :: "(nat \<Rightarrow> sock) \<Rightarrow> time \<Rightarrow> real \<Rightarrow> conn_pool \<Rightarrow> nat list \<times> nat list \<times> conn_pool" where
  "get_need_keep_alive so now maxtime p = keep_alive_scan so now maxtime (dkeys p) p"

subsection \<open>Manager\<close>

record cm_cfg =
  max_connect_thread :: int
  https_keep_alive :: real
  pool_max :: int
  pool_min :: int
  connection_pool_min :: nat

definition normalize_config :: "cm_cfg \<Rightarrow> cm_cfg" where
  "normalize_config c0 =
     (let c1 = (if max_connect_thread c0 < 1 then c0\<lparr>max_connect_thread := 1\<rparr> else c0);
          c2 = (if https_keep_alive c1 < 7 then c1\<lparr>https_keep_alive := 7\<rparr> else c1);
          c3 = (if pool_max c2 < 0 then c2\<lparr>pool_max := 0\<rparr> else c2);
          c4 = (if pool_min c3 < 0 then c3\<lparr>pool_min := 0\<rparr> else c3)
      in if pool_min c4 > pool_max c4 then c4\<lparr>pool_min := pool_max c4\<rparr> else c4)"

datatype cm_out = CloseConn nat | GiveToWorker nat | WakeConnectThreads

record cm =
  cm_config :: cm_cfg
  cm_running :: bool
  cm_waiting :: int
  cm_no_ip_time :: time
  cm_has_daemon :: bool
  cm_has_cb :: bool
  cm_pool :: conn_pool
  cm_ips :: ipm
  cm_socks :: "nat \<Rightarrow> sock"
  cm_outs :: "cm_out list"

abbreviation cm_emit :: "cm_out list \<Rightarrow> cm \<Rightarrow> cm" where
  "cm_emit os s \<equiv> s\<lparr>cm_outs := cm_outs s @ os\<rparr>"

definition need_keep_connection :: "cm \<Rightarrow> bool" where
  "need_keep_connection s \<longleftrightarrow> cm_has_daemon s \<and> int (length (cm_pool s)) < pool_min (cm_config s)"

definition need_more_connection :: "cm \<Rightarrow> bool" where
  "need_more_connection s \<longleftrightarrow> cm_waiting s \<noteq> 0 \<or> need_keep_connection s"

definition create_more_connection :: "cm \<Rightarrow> cm" where
  "create_more_connection s =
     (if \<not> cm_running s \<or> \<not> need_more_connection s then s else cm_emit [WakeConnectThreads] s)"

text \<open>When a connect thread starts an attempt.\<close>

definition may_connect :: "time \<Rightarrow> cm \<Rightarrow> bool" where
  "may_connect now s \<longleftrightarrow> cm_running s \<and> need_more_connection s \<and> now - cm_no_ip_time s > 10
     \<and> int (length (cm_pool s)) \<le> pool_max (cm_config s)"

text \<open>
  One attempt.  \<open>made\<close> is the new connection with its socket, or \<open>None\<close> for every way in which
  connecting fails; \<open>net_ok\<close> is the network test after the failure was reported.
\<close>

record attempt =
  a_now :: time
  a_clk :: "nat \<Rightarrow> time"
  a_host :: "string \<Rightarrow> (string \<times> string) option"
  a_made :: "(nat \<times> sock) option"
  a_net_ok :: bool

definition create_ssl_connection :: "attempt \<Rightarrow> string \<Rightarrow> cm \<Rightarrow> nat option \<times> cm" where
  "create_ssl_connection a ip s = (case a_made a of
      Some (c, so) \<Rightarrow>
        (Some c, s\<lparr>cm_ips := update_ip (a_now a) ip (sock_handshake so) (cm_ips s), cm_socks := (cm_socks s)(c := so)\<rparr>)
    | None \<Rightarrow> (None, s\<lparr>cm_ips := report_connect_fail (a_now a) (a_net_ok a) ip False (cm_ips s)\<rparr>))"

definition connect_process :: "attempt \<Rightarrow> cm \<Rightarrow> nat option \<times> cm" where
  "connect_process a s =
     (case get_ip_sni_host (a_host a) False (a_now a) (a_clk a) (cm_ips s) of
        (None, m) \<Rightarrow> (None, s\<lparr>cm_ips := m, cm_no_ip_time := a_now a\<rparr>)
      | (Some (ip, sni, h), m) \<Rightarrow>
          (case create_ssl_connection a ip (s\<lparr>cm_ips := m\<rparr>) of
             (None, s1) \<Rightarrow> (None, s1)
           | (Some c, s1) \<Rightarrow>
               (Some c, s1\<lparr>cm_pool := pool_put (sock_handshake (cm_socks s1 c)) c (cm_pool s1)\<rparr>)))"

definition report_closed :: "time \<Rightarrow> nat \<Rightarrow> string \<Rightarrow> cm \<Rightarrow> cm" where
  "report_closed now c reason s =
     s\<lparr>cm_ips := report_connect_closed now (sock_ip (cm_socks s c)) reason (cm_ips s), cm_outs := cm_outs s @ [CloseConn c]\<rparr>"

definition keep_alive_round :: "time \<Rightarrow> cm \<Rightarrow> cm" where
  "keep_alive_round now s0 =
     (let (closed, idle, p) = get_need_keep_alive (cm_socks s0) now (https_keep_alive (cm_config s0) - 6) (cm_pool s0);
          s1 = cm_emit (map CloseConn closed) (s0\<lparr>cm_pool := p\<rparr>)
      in foldl (\<lambda>s c.
           if now - the (sock_last_use (cm_socks s c)) > https_keep_alive (cm_config s) \<or> \<not> cm_has_cb s
           then report_closed now c ''alive_timeout'' s else cm_emit [GiveToWorker c] s) s1 idle)"

text \<open>
  \<^verbatim>\<open>get_ssl_connection\<close>: one entry of the list per turn of the loop, with the monotonic clock before
  and after the wait, the wall clock at the start of the wait, its events, and the wall clock
  when the age of the connection is looked at.  \<open>None\<close> in the first component
  of the result means that the loop is still going when the list ends.
\<close>

record turn =
  tn_before :: time
  tn_start :: time
  tn_events :: "(time \<times> (nat \<times> real) option) list"
  tn_after :: time
  tn_wall :: time

text \<open>The first half of a turn: look into the pool, and wait for it if it is empty.\<close>

definition turn_fetch :: "real \<Rightarrow> time \<Rightarrow> turn \<Rightarrow> cm \<Rightarrow> (exn + (real \<times> nat) option) option \<times> cm" where
  "turn_fetch timeout end_time tn s =
     (case pool_get_nowait (cm_pool s) of
        Inl e \<Rightarrow> (Some (Inl e), s)
      | Inr (Some x, p) \<Rightarrow> (Some (Inr (Some x)), s\<lparr>cm_pool := p\<rparr>)
      | Inr (None, p) \<Rightarrow>
          if timeout \<le> 0 then (None, s)
          else let s1 = create_more_connection s in
            if end_time - tn_before tn \<le> 0 then (None, s1)
            else case pool_get_wait (tn_start tn + (end_time - tn_before tn)) (tn_events tn) (cm_pool s1) of
              Inl e \<Rightarrow> (Some (Inl e), s1)
            | Inr (x, p) \<Rightarrow> (Some (Inr x), s1\<lparr>cm_pool := p\<rparr>))"

datatype turn_end = Answer "exn + nat option" | NextTurn

definition ssl_turn :: "real \<Rightarrow> time \<Rightarrow> turn \<Rightarrow> cm \<Rightarrow> turn_end \<times> cm" where
  "ssl_turn timeout end_time tn s =
     (case turn_fetch timeout end_time tn s of
        (None, s1) \<Rightarrow> (Answer (Inr None), s1)
      | (Some (Inl e), s1) \<Rightarrow> (Answer (Inl e), s1)
      | (Some (Inr None), s1) \<Rightarrow>
          if tn_after tn > end_time then (Answer (Inr None), s1) else (NextTurn, create_more_connection s1)
      | (Some (Inr (Some (hs, c))), s1) \<Rightarrow>
          (case sock_last_use (cm_socks s1 c) of
             None \<Rightarrow> (Answer (Inl AttributeError), s1)
           | Some t \<Rightarrow>
               if tn_wall tn - t < https_keep_alive (cm_config s1) - 1 then (Answer (Inr (Some c)), s1)
               else (NextTurn, create_more_connection (report_closed (tn_wall tn) c ''get_ssl_timeout'' s1))))"

fun get_ssl_turns :: "real \<Rightarrow> time \<Rightarrow> turn list \<Rightarrow> cm \<Rightarrow> (exn + nat option) option \<times> cm" where
  "get_ssl_turns timeout end_time [] s = (if cm_running s then None else Some (Inr None), s)"
| "get_ssl_turns timeout end_time (tn # tns) s =
     (if \<not> cm_running s then (Some (Inr None), s)
      else case ssl_turn timeout end_time tn s of
        (Answer r, s1) \<Rightarrow> (Some r, s1)
      | (NextTurn, s1) \<Rightarrow> get_ssl_turns timeout end_time tns s1)"

definition get_ssl_connection :: "real \<Rightarrow> time \<Rightarrow> turn list \<Rightarrow> cm \<Rightarrow> (exn + nat option) option \<times> cm" where
  "get_ssl_connection timeout now tns s =
     (case get_ssl_turns timeout (now + max timeout 0) tns (s\<lparr>cm_waiting := cm_waiting s + 1\<rparr>) of
        (None, s1) \<Rightarrow> (None, s1)
      | (Some r, s1) \<Rightarrow> (Some r, s1\<lparr>cm_waiting := cm_waiting s1 - 1\<rparr>))"

definition cm_stop :: "cm \<Rightarrow> cm" where
  "cm_stop s = cm_emit (map CloseConn (dkeys (cm_pool s)) @ [WakeConnectThreads]) (s\<lparr>cm_running := False, cm_pool := []\<rparr>)"

subsection \<open>The fastest connection\<close>

lemma fastest_min: "fastest es t (Some c) = (case fastest es 0 None of
    (u, None) \<Rightarrow> (t, Some c) | (u, Some k) \<Rightarrow> if u < t then (u, Some k) else (t, Some c))"
proof (induction es arbitrary: t c)
  case (Cons e es)
  obtain k hs where e: "e = (k, hs)" by (cases e)
  show ?case using Cons.IH [of hs k] Cons.IH [of t c]
    by (auto simp: e split: prod.splits option.splits if_splits)
qed simp

lemma fastest_None: "fastest es t None = (case es of [] \<Rightarrow> (t, None) | (k, hs) # es' \<Rightarrow> fastest es' hs (Some k))"
  by (cases es) auto

lemma fastest_sorted: "es \<noteq> [] \<Longrightarrow> fastest es t None = (case hd (sort_key snd es) of (k, hs) \<Rightarrow> (hs, Some k))"
proof (induction es arbitrary: t)
  case (Cons e es)
  obtain k hs where e: "e = (k, hs)" by (cases e)
  show ?case
  proof (cases "es = []")
    case False
    then obtain k' hs' where h: "hd (sort_key snd es) = (k', hs')" by fastforce
    have n: "sort_key snd es \<noteq> []" using False by (metis length_0_conv length_sort)
    from Cons.IH [OF False, of 0] h have "fastest es 0 None = (hs', Some k')" by simp
    then have "fastest es hs (Some k) = (if hs' < hs then (hs', Some k') else (hs, Some k))"
      by (simp add: fastest_min [of es])
    then show ?thesis using n h by (auto simp: e insort_hd sort_key_def [symmetric])
  qed (simp add: e)
qed simp

text \<open>
  Taking a connection out of a pool that is not empty gives the first entry of the pool sorted
  by handshake time: the search with its sentinel of 9999 agrees with the reference, also
  when every handshake took longer than that.
\<close>

theorem pool_takes_fastest:
  assumes "p \<noteq> []"
  shows "pool_take p = (let (k, hs) = hd (sort_key snd p) in Inr ((hs, k), ddel k p))"
  using fastest_sorted [OF assms, of 9999] by (simp add: pool_take_def split: prod.splits)

theorem pool_takes_fastest_witness: "pool_take [(7, 20000), (3, 15000), (9, 16000)] = Inr ((15000, 3), [(7, 20000), (9, 16000)])"
  using pool_takes_fastest [of "[(7, 20000), (3, 15000), (9, 16000)]"] by simp

text \<open>\<^verbatim>\<open>get_slowest\<close> has a sentinel of 0 and no test for a missing socket: it raises when no handshake took time.\<close>

lemma slowest_none: "\<forall>e \<in> set es. snd e \<le> t \<Longrightarrow> slowest es t c = (t, c)"
  by (induction es) auto

lemma get_slowest_raises: "p \<noteq> [] \<Longrightarrow> \<forall>e \<in> set p. snd e \<le> 0 \<Longrightarrow> get_slowest p = Inl KeyError"
  by (simp add: get_slowest_def slowest_none)

subsection \<open>What the pool hands out\<close>

lemma pool_take_gone: "pool_take p = Inr ((hs, c), p') \<Longrightarrow> c \<notin> fst ` set p'"
  by (auto simp: pool_take_def simp del: set_map split: prod.splits option.splits)
    (metis Diff_iff fst_conv image_eqI insertI1 set_dkeys_ddel)

lemma pool_get_nowait_gone: "pool_get_nowait p = Inr (Some (hs, c), p') \<Longrightarrow> c \<notin> fst ` set p'"
  by (auto simp: pool_get_nowait_def split: if_splits sum.splits dest!: pool_take_gone)

declare pool_get_wait.simps [simp del]

lemma pool_get_wait_gone: "pool_get_wait t evs p = Inr (Some (hs, c), p') \<Longrightarrow> c \<notin> fst ` set p'"
proof (induction evs arbitrary: p)
  case Nil
  then show ?case by (subst (asm) pool_get_wait.simps) (auto split: if_splits sum.splits dest!: pool_take_gone)
next
  case (Cons ev evs)
  from Cons.prems Cons.IH show ?case
    by (subst (asm) pool_get_wait.simps) (auto split: if_splits option.splits sum.splits prod.splits dest!: pool_take_gone)
qed

lemma create_more_keeps [simp]:
  "cm_pool (create_more_connection s) = cm_pool s" "cm_socks (create_more_connection s) = cm_socks s"
  "cm_config (create_more_connection s) = cm_config s" "cm_waiting (create_more_connection s) = cm_waiting s"
  "cm_ips (create_more_connection s) = cm_ips s" "cm_running (create_more_connection s) = cm_running s"
  by (simp_all add: create_more_connection_def)

lemma report_closed_keeps [simp]:
  "cm_pool (report_closed now c r s) = cm_pool s" "cm_socks (report_closed now c r s) = cm_socks s"
  "cm_config (report_closed now c r s) = cm_config s" "cm_waiting (report_closed now c r s) = cm_waiting s"
  by (simp_all add: report_closed_def)

definition fresh_for :: "turn list \<Rightarrow> cm \<Rightarrow> nat \<Rightarrow> bool" where
  "fresh_for tns s c \<longleftrightarrow> (\<exists>tn \<in> set tns. \<exists>t. sock_last_use (cm_socks s c) = Some t
     \<and> tn_wall tn - t < https_keep_alive (cm_config s) - 1)"

lemma turn_fetch_spec:
  "turn_fetch timeout end_time tn s = (r, s') \<Longrightarrow> cm_socks s' = cm_socks s \<and> cm_config s' = cm_config s \<and> cm_waiting s' = cm_waiting s
     \<and> (\<forall>hs c. r = Some (Inr (Some (hs, c))) \<longrightarrow> c \<notin> fst ` set (cm_pool s'))"
  by (auto simp: turn_fetch_def Let_def split: if_splits sum.splits prod.splits option.splits
      dest!: pool_get_wait_gone pool_get_nowait_gone)

lemma ssl_turn_spec:
  "ssl_turn timeout end_time tn s = (r, s') \<Longrightarrow> cm_socks s' = cm_socks s \<and> cm_config s' = cm_config s \<and> cm_waiting s' = cm_waiting s
     \<and> (\<forall>c. r = Answer (Inr (Some c)) \<longrightarrow> c \<notin> fst ` set (cm_pool s') \<and> (\<exists>t. sock_last_use (cm_socks s c) = Some t
          \<and> tn_wall tn - t < https_keep_alive (cm_config s) - 1))"
proof -
  assume eq: "ssl_turn timeout end_time tn s = (r, s')"
  obtain q s1 where f: "turn_fetch timeout end_time tn s = (q, s1)" by (metis surj_pair)
  from turn_fetch_spec [OF this] eq show ?thesis
    by (auto simp: ssl_turn_def f split: option.splits sum.splits prod.splits if_splits)
qed

lemma get_ssl_turns_spec: "get_ssl_turns timeout end_time tns s = (r, s') \<Longrightarrow>
   cm_socks s' = cm_socks s \<and> cm_config s' = cm_config s \<and> cm_waiting s' = cm_waiting s
   \<and> (\<forall>c. r = Some (Inr (Some c)) \<longrightarrow> c \<notin> fst ` set (cm_pool s') \<and> fresh_for tns s c)"
proof (induction tns arbitrary: s)
  case (Cons tn tns)
  show ?case
  proof (cases "cm_running s")
    case True
    obtain q s1 where f: "ssl_turn timeout end_time tn s = (q, s1)" by (metis surj_pair)
    note spec = ssl_turn_spec [OF f]
    show ?thesis
    proof (cases q)
      case (Answer a)
      with True f Cons.prems spec show ?thesis by (auto simp: fresh_for_def)
    next
      case NextTurn
      with True f Cons.prems have "get_ssl_turns timeout end_time tns s1 = (r, s')" by simp
      from Cons.IH [OF this] spec show ?thesis by (auto simp: fresh_for_def)
    qed
  qed (use Cons.prems in auto)
qed (auto split: if_splits)

text \<open>
  C31. A connection that \<^verbatim>\<open>get_ssl_connection\<close> returns was last used less than the keep-alive time minus
  one second before it was looked at, it is no longer in the pool, and the call leaves the
  number of waiting callers as it found it, whatever was put into the pool meanwhile.
\<close>

theorem get_ssl_fresh:
  assumes "get_ssl_connection timeout now tns s = (Some (Inr (Some c)), s')"
  shows "fresh_for tns s c \<and> c \<notin> fst ` set (cm_pool s') \<and> cm_waiting s' = cm_waiting s"
proof -
  obtain r s1 where g: "get_ssl_turns timeout (now + max timeout 0) tns (s\<lparr>cm_waiting := cm_waiting s + 1\<rparr>) = (r, s1)"
    by (metis surj_pair)
  from get_ssl_turns_spec [OF g] assms g show ?thesis
    by (auto simp: get_ssl_connection_def fresh_for_def split: option.splits)
qed

definition cm_ex :: "conn_pool \<Rightarrow> cm" where
  "cm_ex p = \<lparr>cm_config = normalize_config \<lparr>max_connect_thread = 0, https_keep_alive = 50, pool_max = 4, pool_min = 9, connection_pool_min = 1\<rparr>,
     cm_running = True, cm_waiting = 0, cm_no_ip_time = 0, cm_has_daemon = True, cm_has_cb = False, cm_pool = p, cm_ips = pool_ex,
     cm_socks = (\<lambda>c. \<lparr>sock_ip = ''1.2.3.4'', sock_sni = ''s'', sock_last_use = Some (real c), sock_handshake = 90\<rparr>), cm_outs = []\<rparr>"

definition turn_ex :: turn where
  "turn_ex = \<lparr>tn_before = 0, tn_start = 100, tn_events = [], tn_after = 0, tn_wall = 100\<rparr>"

text \<open>The faster connection is too old and is closed; the next turn returns the other one.\<close>

theorem get_ssl_fresh_witness: "fresh_for [turn_ex, turn_ex] (cm_ex [(10, 50), (90, 80)]) 90"
proof -
  have "fst (get_ssl_connection 30 0 [turn_ex, turn_ex] (cm_ex [(10, 50), (90, 80)])) = Some (Inr (Some 90))"
    by (simp add: get_ssl_connection_def ssl_turn_def turn_fetch_def pool_get_nowait_def pool_take_def cm_ex_def turn_ex_def
        normalize_config_def report_closed_def create_more_connection_def)
  then have "get_ssl_connection 30 0 [turn_ex, turn_ex] (cm_ex [(10, 50), (90, 80)])
    = (Some (Inr (Some 90)), snd (get_ssl_connection 30 0 [turn_ex, turn_ex] (cm_ex [(10, 50), (90, 80)])))"
    by (metis prod.collapse)
  from get_ssl_fresh [OF this] show ?thesis by blast
qed

subsection \<open>Failing attempts\<close>

definition links_of :: "cm \<Rightarrow> string \<Rightarrow> int option" where
  "links_of s ip = map_option ip_links (dget (ip_dict (cm_ips s)) ip)"

lemma upd_dget: "dget (ip_dict (upd_ip ip f m)) j = (if j = ip then map_option f (dget (ip_dict m) j) else dget (ip_dict m) j)"
  by (simp add: upd_ip_def split: option.split)

lemma history_dget: "dget (ip_dict (append_history now ip h m)) j
    = (if j = ip \<and> cfg_record_ip_history (im_cfg m) then map_option (\<lambda>i. i\<lparr>ip_history := ip_history i @ [(now, h)]\<rparr>) (dget (ip_dict m) j)
       else dget (ip_dict m) j)"
  by (simp add: append_history_def split: option.split)

lemma add_num_dict: "ip_dict (add_ip_num ip n m) = ip_dict m"
  by (simp add: add_ip_num_def Let_def)

lemma search_dict: "ip_dict (search_more_ip m) = ip_dict m"
  by (simp add: search_more_ip_def Let_def)

lemmas dict_reads = upd_dget history_dget add_num_dict search_dict

lemma fail_links:
  "map_option ip_links (dget (ip_dict (report_connect_fail now net ip False m)) j)
    = map_option (\<lambda>n. if bare_ip ip = Inr j \<and> n > 0 then n - 1 else n) (map_option ip_links (dget (ip_dict m) j))"
proof (cases "bare_ip ip")
  case (Inl e)
  then show ?thesis by (simp add: report_connect_fail_def Let_def search_dict option.map_comp comp_def)
next
  case (Inr b)
  show ?thesis
  proof (cases "dget (ip_dict m) b")
    case None
    with Inr show ?thesis by (cases "j = b") (simp_all add: report_connect_fail_def Let_def option.map_comp comp_def)
  next
    case (Some i)
    with Inr show ?thesis
      by (cases "dget (ip_dict m) j") (auto simp: report_connect_fail_def Let_def dict_reads)
  qed
qed

text \<open>The address whose link a failing attempt for \<open>ip\<close> gives back: the report looks it up without its port.\<close>

definition given_back :: "attempt \<Rightarrow> string \<Rightarrow> string option" where
  "given_back a ip = (if a_host a ip = None then None else case bare_ip ip of Inl e \<Rightarrow> None | Inr b \<Rightarrow> Some b)"

lemma given_back_Some: "given_back a ip = Some j \<longleftrightarrow> a_host a ip \<noteq> None \<and> bare_ip ip = Inr j"
  by (auto simp: given_back_def split: sum.splits)

text \<open>
  C32. After a whole \<^verbatim>\<open>_connect_process\<close> whose attempt to connect fails, either every address has as many
  links as before, or one address has one link more, for good: one for which the host manager
  raised, or one that is not written as its own bare address, \<^verbatim>\<open>ip:port\<close> say.  In the
  second case the link is given back to the bare address instead, if the pool has it, which so
  loses a link that is still in use.  An address without a port always gets its link back.
\<close>

theorem failed_attempt_links:
  assumes "pool_reach (cm_ips s)" and "a_made a = None"
  shows "fst (connect_process a s) = None \<and>
    ((\<forall>j. links_of (snd (connect_process a s)) j = links_of s j)
     \<or> (\<exists>ip n. (a_host a ip = None \<or> bare_ip ip \<noteq> Inr ip)
          \<and> links_of s ip = Some n \<and> links_of (snd (connect_process a s)) ip = Some (n + 1)
          \<and> (\<forall>j. j \<noteq> ip \<longrightarrow> links_of (snd (connect_process a s)) j
               = (if given_back a ip = Some j then map_option (\<lambda>k. max 0 (k - 1)) (links_of s j) else links_of s j))))"
proof -
  obtain r m where g: "get_ip_sni_host (a_host a) False (a_now a) (a_clk a) (cm_ips s) = (r, m)" by (metis surj_pair)
  have pos: "0 \<le> ip_links i" if "dget (ip_dict (cm_ips s)) ip = Some i" for ip i
    using pool_reach_ok [OF assms(1)] that by (auto simp: pool_ok_def links_ok_def dest!: map_of_SomeD)
  note base = connect_process_def g create_ssl_connection_def assms(2) links_of_def
  from get_ip_cases [OF g] show ?thesis
  proof (elim conjE disjE bexE exE)
    fix ip k i i'
    assume i: "dget (ip_dict (cm_ips s)) ip = Some i" and r: "r = map_option (\<lambda>(sni, h). (ip, sni, h)) (a_host a ip)"
      and i': "dget (ip_dict m) ip = Some i'" "ip_links i' = ip_links i + 1"
      and rest: "\<forall>j. j \<noteq> ip \<longrightarrow> dget (ip_dict m) j = dget (ip_dict (cm_ips s)) j"
    let ?after = "\<lambda>j. map_option (\<lambda>n. if given_back a ip = Some j \<and> n > 0 then n - 1 else n) (map_option ip_links (dget (ip_dict m) j))"
    have all: "fst (connect_process a s) = None \<and> links_of (snd (connect_process a s)) j = ?after j" for j
    proof (cases "a_host a ip")
      case None
      then show ?thesis by (simp add: base r given_back_def option.map_comp comp_def)
    next
      case (Some h)
      then show ?thesis by (cases h) (simp add: base r fail_links given_back_Some)
    qed
    have others: "?after j = (if given_back a ip = Some j then map_option (\<lambda>k. max 0 (k - 1)) (links_of s j) else links_of s j)"
      if "j \<noteq> ip" for j
      using rest that pos [of j] by (cases "dget (ip_dict (cm_ips s)) j") (auto simp: links_of_def)
    have own: "?after ip = Some (if given_back a ip = Some ip then ip_links i else ip_links i + 1)"
      using i' pos [OF i] by simp
    have ip: "links_of s ip = Some (ip_links i)" using i by (simp add: links_of_def)
    show ?thesis
    proof (cases "given_back a ip = Some ip")
      case True
      have "?after j = links_of s j" for j using True own others [of j] ip by (cases "j = ip") auto
      with all show ?thesis by simp
    next
      case False
      then have "a_host a ip = None \<or> bare_ip ip \<noteq> Inr ip" by (auto simp: given_back_Some)
      moreover have "links_of (snd (connect_process a s)) ip = Some (ip_links i + 1)" using all own False by simp
      moreover have "\<forall>j. j \<noteq> ip \<longrightarrow> links_of (snd (connect_process a s)) j
          = (if given_back a ip = Some j then map_option (\<lambda>k. max 0 (k - 1)) (links_of s j) else links_of s j)"
        using all others by simp
      ultimately show ?thesis using all ip by blast
    qed
  qed (simp add: base)
qed

definition attempt_ex :: attempt where
  "attempt_ex = \<lparr>a_now = 9, a_clk = (\<lambda>k. 500), a_host = (\<lambda>ip. Some (''s'', ''h'')), a_made = None, a_net_ok = True\<rparr>"

theorem failed_attempt_links_witness:
  "links_of (snd (connect_process attempt_ex (cm_ex []))) ''1.2.3.4'' = Some 0"
proof -
  have "\<exists>i. ip_dict pool_ex = [(''1.2.3.4'', i)] \<and> ip_links i = 0"
    by (simp add: pool_ex_def add_ip_def ipm_reset_def Let_def contains_def add_num_dict)
  then obtain i where i: "ip_dict pool_ex = [(''1.2.3.4'', i)]" "ip_links i = 0" by blast
  have b: "bare_ip ''1.2.3.4'' = Inr ''1.2.3.4''"
    by code_simp
  have ips: "cm_ips (cm_ex []) = pool_ex" by (simp add: cm_ex_def)
  have l: "links_of (cm_ex []) j = (if j = ''1.2.3.4'' then Some 0 else None)" for j using i by (simp add: links_of_def ips)
  have "pool_reach (cm_ips (cm_ex []))" "a_made attempt_ex = None" by (simp_all add: ips pool_ex_reach attempt_ex_def)
  from failed_attempt_links [OF this] show ?thesis
    using b by (auto simp: l attempt_ex_def split: if_splits)
qed

text \<open>With a port written behind it, the same address keeps the link of the attempt that failed.\<close>

definition port_pool_ex :: ipm where
  "port_pool_ex = snd (add_ip 7 ''1.2.3.4:443'' 90 None ''gws'' 0 0 True (ipm_reset pool_cfg_ex))"

lemma port_keeps_the_link:
  "links_of (snd (connect_process attempt_ex ((cm_ex [])\<lparr>cm_ips := port_pool_ex\<rparr>))) ''1.2.3.4:443'' = Some 1"
proof -
  let ?ip = "''1.2.3.4:443''"
  have b: "bare_ip ?ip = Inr ''1.2.3.4''"
    by code_simp
  obtain r m where g: "get_ip_sni_host (a_host attempt_ex) False (a_now attempt_ex) (a_clk attempt_ex) port_pool_ex = (r, m)" by fastforce
  have "fst (get_ip_sni_host (a_host attempt_ex) False (a_now attempt_ex) (a_clk attempt_ex) port_pool_ex) = Some (?ip, ''s'', ''h'')"
    by (simp add: get_ip_sni_host_def attempt_ex_def port_pool_ex_def add_ip_def ipm_reset_def pool_cfg_ex_def add_ip_num_def Let_def
        contains_def try_sort_ip_def move_pointer_def is_v4_def rested_def eligible_def adjust_scan_thread_num_def
        wanted_threads_def search_more_ip_def)
  then have r: "r = Some (?ip, ''s'', ''h'')" by (simp add: g)
  have "\<exists>i. dget (ip_dict port_pool_ex) ?ip = Some i \<and> ip_links i = 0"
    by (simp add: port_pool_ex_def add_ip_def ipm_reset_def Let_def contains_def add_num_dict)
  with get_ip_cases [OF g] obtain i' where "dget (ip_dict m) ?ip = Some i'" "ip_links i' = 1"
    by (auto simp: r attempt_ex_def)
  moreover have "a_made attempt_ex = None" by (simp add: attempt_ex_def)
  ultimately show ?thesis
    by (simp add: connect_process_def g r create_ssl_connection_def links_of_def fail_links b)
qed

end
