(* ===== verification/Http_Response.thy ===== *)
theory Http_Response
  imports Http_Worker
begin

text \<open>
  lib/noarch/http_response_parser.py: the parser of a complete response text (\<^verbatim>\<open>TxtResponse\<close>) and
  the parser that reads a response from a socket (\<^verbatim>\<open>Response\<close>).

  The socket is a list of events with the time at which each of them happens; the clock of the
  model moves only while the code waits.  A closed peer is an empty segment that stays there.
  That a \<^verbatim>\<open>Response\<close> closes its socket when Python collects it (\<^verbatim>\<open>__del__\<close>) is not modelled.
\<close>

subsection \<open>Text\<close>

function py_words :: "string \<Rightarrow> string list" where
  "py_words s = (let r = dropWhile is_space s in
     if r = [] then [] else takeWhile (\<lambda>c. \<not> is_space c) r # py_words (dropWhile (\<lambda>c. \<not> is_space c) r))"
  by auto
termination
proof (relation "measure length")
  fix s r :: string
  assume r: "r = dropWhile is_space s" "r \<noteq> []"
  then have hd: "\<not> is_space (hd r)" using hd_dropWhile by blast
  then have "dropWhile (\<lambda>c. \<not> is_space c) r = dropWhile (\<lambda>c. \<not> is_space c) (tl r)"
    using hd r(2) by (cases r) simp_all
  then have "length (dropWhile (\<lambda>c. \<not> is_space c) r) < length r"
    using length_dropWhile_le [of "\<lambda>c. \<not> is_space c" "tl r"] r(2) by (cases r) simp_all
  then show "(dropWhile (\<lambda>c. \<not> is_space c) r, s) \<in> measure length"
    using r(1) length_dropWhile_le [of is_space s] by simp
qed simp

declare py_words.simps [simp del]

definition is_alpha :: "char \<Rightarrow> bool" where
  "is_alpha c \<longleftrightarrow> (65 \<le> (of_char c :: nat) \<and> (of_char c :: nat) \<le> 90) \<or> (97 \<le> (of_char c :: nat) \<and> (of_char c :: nat) \<le> 122)"

definition upper_char :: "char \<Rightarrow> char" where
  "upper_char c = (if 97 \<le> (of_char c :: nat) \<and> (of_char c :: nat) \<le> 122 then char_of ((of_char c :: nat) - 32) else c)"

text \<open>\<^verbatim>\<open>bytes.title()\<close>: upper case after a character that is no letter, lower case after a letter.\<close>

fun title_from :: "bool \<Rightarrow> string \<Rightarrow> string" where
  "title_from after_letter [] = []"
| "title_from after_letter (c # cs) = (if after_letter then lower_char c else upper_char c) # title_from (is_alpha c) cs"

definition py_title :: "string \<Rightarrow> string" where
  "py_title s = title_from False s"

definition py_find :: "string \<Rightarrow> string \<Rightarrow> int" where
  "py_find p s = (case find_sub p s of None \<Rightarrow> - 1 | Some n \<Rightarrow> int n)"

fun split_crlf :: "string \<Rightarrow> string list" where
  "split_crlf [] = [[]]"
| "split_crlf [c] = [[c]]"
| "split_crlf (c # d # s) =
     (if c = CHR 0x0D \<and> d = CHR 0x0A then [] # split_crlf s
      else case split_crlf (d # s) of [] \<Rightarrow> [[c]] | p # ps \<Rightarrow> (c # p) # ps)"

text \<open>Integers in base 16, as \<^verbatim>\<open>int(text, 16)\<close> reads them.\<close>

definition is_hex :: "char \<Rightarrow> bool" where
  "is_hex c \<longleftrightarrow> is_digit c \<or> (65 \<le> (of_char c :: nat) \<and> (of_char c :: nat) \<le> 70) \<or> (97 \<le> (of_char c :: nat) \<and> (of_char c :: nat) \<le> 102)"

definition hex_val :: "char \<Rightarrow> nat" where
  "hex_val c = (if is_digit c then of_char c - 48 else if (of_char c :: nat) \<le> 70 then of_char c - 55 else of_char c - 87)"

definition hexes_val :: "string \<Rightarrow> nat" where
  "hexes_val s = foldl (\<lambda>a c. a * 16 + hex_val c) 0 s"

fun hex_groups :: "string \<Rightarrow> bool" where
  "hex_groups [] = False"
| "hex_groups [c] = is_hex c"
| "hex_groups (c # d # s) = (is_hex c \<and> (if d = CHR ''_'' then hex_groups s else hex_groups (d # s)))"

definition no_hex_prefix :: "string \<Rightarrow> string" where
  "no_hex_prefix t =
     (if take 2 t = ''0x'' \<or> take 2 t = ''0X''
      then (let u = drop 2 t in if take 1 u = ''_'' then drop 1 u else u) else t)"

definition int16_of_text :: "string \<Rightarrow> exn + int" where
  "int16_of_text s0 =
     (let s = strip s0;
          (neg, t) = (case s of [] \<Rightarrow> (False, []) | c # r \<Rightarrow>
             if c = CHR ''-'' then (True, r) else if c = CHR ''+'' then (False, r) else (False, s));
          u = no_hex_prefix t
      in if hex_groups u then Inr ((if neg then -1 else 1) * int (hexes_val (filter (\<lambda>c. c \<noteq> CHR ''_'') u)))
         else Inl ValueError)"

subsection \<open>Headers\<close>

type_synonym headers = "(string, string) dict"

definition put_header :: "headers \<Rightarrow> string \<Rightarrow> headers" where
  "put_header h line = (let p = py_find '':'' line
     in dset (py_title (py_slice 0 p line)) (py_slice (p + 2) (int (length line)) line) h)"

definition header_block :: "string \<Rightarrow> headers" where
  "header_block block = foldl put_header [] (split_crlf block)"

definition getheader :: "string \<Rightarrow> string \<Rightarrow> headers \<Rightarrow> string" where
  "getheader key dflt h = dget_or h (py_title key) dflt"

text \<open>The first line: version, status, and the words behind them.\<close>

definition status_line :: "string \<Rightarrow> exn + (string \<times> int \<times> string)" where
  "status_line line =
     (let ws = py_words line in
      if length ws < 2 then Inl (PyException ''status line'')
      else case int_of_text (ws ! 1) of
        Inl e \<Rightarrow> Inl e
      | Inr st \<Rightarrow> Inr (ws ! 0, st, join '' '' (drop 2 ws)))"

subsection \<open>A response in one text\<close>

record txt_response =
  tx_version :: string
  tx_status :: int
  tx_info :: string
  tx_headers :: headers
  tx_body :: bytes

definition txt_parse :: "bytes \<Rightarrow> exn + txt_response" where
  "txt_parse buf = (case find_from crlf buf 0 of
      None \<Rightarrow> Inl (PyException ''read_line fail'')
    | Some n1 \<Rightarrow> (case status_line (slice 0 n1 buf) of
        Inl e \<Rightarrow> Inl e
      | Inr (ver, st, info) \<Rightarrow> (case find_from (crlf @ crlf) buf (n1 + 2) of
          None \<Rightarrow> Inl (PyException ''read_headers fail'')
        | Some n2 \<Rightarrow> Inr \<lparr>tx_version = ver, tx_status = st, tx_info = info,
            tx_headers = header_block (slice (n1 + 2) n2 buf), tx_body = drop (n2 + 4) buf\<rparr>)))"

subsection \<open>A response from a socket\<close>

datatype net_event = Segment bytes | NetError

record resp =
  r_clock :: time
  r_events :: "(time \<times> net_event) list"
  r_buf :: bytes
  r_start :: int
  r_chunked :: bool
  r_version :: string
  r_status :: int
  r_reason :: string
  r_headers :: headers
  r_length :: string

definition resp_init :: "time \<Rightarrow> (time \<times> net_event) list \<Rightarrow> resp" where
  "resp_init now evs = \<lparr>r_clock = now, r_events = evs, r_buf = [], r_start = 0, r_chunked = False,
     r_version = [], r_status = 601, r_reason = [], r_headers = [], r_length = []\<rparr>"

text \<open>\<open>n\<close> is at least 1 in every call.\<close>

definition resp_recv :: "nat \<Rightarrow> real \<Rightarrow> resp \<Rightarrow> (exn + bytes) \<times> resp" where
  "resp_recv n timeout r =
     (if timeout \<le> 0 then (Inl (PyException ''recv timeout''), r)
      else let end_time = r_clock r + timeout in
        case r_events r of
          [] \<Rightarrow> (Inl (PyException ''recv timeout''), r\<lparr>r_clock := end_time\<rparr>)
        | (t, ev) # evs \<Rightarrow>
            if t \<ge> end_time then (Inl (PyException ''recv timeout''), r\<lparr>r_clock := end_time\<rparr>)
            else let r1 = r\<lparr>r_clock := max (r_clock r) t\<rparr> in
              (case ev of
                 NetError \<Rightarrow> (Inl SocketError, r1\<lparr>r_events := evs\<rparr>)
               | Segment d \<Rightarrow>
                   if d = [] then (Inr [], r1)
                   else if length d > n then (Inr (take n d), r1\<lparr>r_events := (t, Segment (drop n d)) # evs\<rparr>)
                   else (Inr d, r1\<lparr>r_events := evs\<rparr>)))"

fun event_size :: "net_event \<Rightarrow> nat" where
  "event_size (Segment d) = length d"
| "event_size NetError = 1"

definition to_come :: "resp \<Rightarrow> nat" where
  "to_come r = (\<Sum>e\<leftarrow>r_events r. event_size (snd e))"

lemma resp_recv_keeps:
  "resp_recv n timeout r = (x, r') \<Longrightarrow> r_buf r' = r_buf r \<and> r_start r' = r_start r \<and> r_chunked r' = r_chunked r
     \<and> r_headers r' = r_headers r \<and> r_length r' = r_length r \<and> r_status r' = r_status r \<and> r_version r' = r_version r \<and> r_reason r' = r_reason r"
  by (auto simp: resp_recv_def Let_def split: if_splits list.splits net_event.splits prod.splits)

lemma resp_recv_less: "resp_recv n timeout r = (Inr d, r') \<Longrightarrow> 0 < n \<Longrightarrow> d \<noteq> [] \<Longrightarrow> to_come r' < to_come r"
  by (auto simp: resp_recv_def to_come_def Let_def split: if_splits list.splits net_event.splits prod.splits)

text \<open>
  When the peer has closed the socket the loops of the code spin, without data, until the
  deadline; which of their three timeouts is raised then depends on the last reading of the
  clock, and the model raises \<^verbatim>\<open>socket.timeout\<close>.
\<close>

function read_line_until :: "time \<Rightarrow> resp \<Rightarrow> (exn + bytes) \<times> resp" where
  "read_line_until end_time r =
     (case find_from crlf (r_buf r) (slice_bound (length (r_buf r)) (r_start r)) of
        Some n1 \<Rightarrow> (Inr (py_slice (r_start r) (int n1) (r_buf r)), r\<lparr>r_start := int n1 + 2\<rparr>)
      | None \<Rightarrow>
          if r_clock r > end_time then (Inl SockTimeout, r)
          else case resp_recv 8192 (end_time - r_clock r) r of
            (Inl e, r1) \<Rightarrow> (Inl e, r1)
          | (Inr d, r1) \<Rightarrow>
              if d = [] then (Inl SockTimeout, r1\<lparr>r_clock := end_time\<rparr>)
              else read_line_until end_time (r1\<lparr>r_buf := r_buf r1 @ d\<rparr>))"
  by auto
termination
  by (relation "measure (\<lambda>(e, r). to_come r)") (auto dest!: resp_recv_less [OF sym] simp: to_come_def)

declare read_line_until.simps [simp del]

definition resp_read_line :: "real \<Rightarrow> resp \<Rightarrow> (exn + bytes) \<times> resp" where
  "resp_read_line timeout r = read_line_until (r_clock r + timeout) r"

text \<open>The measure of the header loop: bytes still to be received, and bytes buffered behind the start.\<close>

definition backlog :: "resp \<Rightarrow> nat" where
  "backlog r = to_come r + (length (r_buf r) - slice_bound (length (r_buf r)) (r_start r))"

lemma slice_bound_le: "slice_bound n i \<le> n"
  by (auto simp: slice_bound_def)

lemma slice_bound_mono: "n \<le> m \<Longrightarrow> m - slice_bound m i \<le> m - n + (n - slice_bound n i)"
  by (auto simp: slice_bound_def)

lemma resp_recv_moves: "resp_recv n timeout r = (Inr d, r') \<Longrightarrow> to_come r' + length d = to_come r"
  by (auto simp: resp_recv_def to_come_def Let_def split: if_splits list.splits net_event.splits prod.splits)

lemma read_line_less: "read_line_until e r = (Inr line, r') \<Longrightarrow> backlog r' < backlog r"
proof (induction e r rule: read_line_until.induct)
  case (1 e r)
  let ?i = "slice_bound (length (r_buf r)) (r_start r)"
  show ?case
  proof (cases "find_from crlf (r_buf r) ?i")
    case (Some n1)
    with "1.prems" have r': "r' = r\<lparr>r_start := int n1 + 2\<rparr>" by (simp add: read_line_until.simps [of e r])
    from Some obtain k where k: "find_sub crlf (drop ?i (r_buf r)) = Some k" "n1 = ?i + k"
      by (auto simp: find_from_def split: if_splits)
    from find_sub_Some [OF k(1)] have "k + 2 \<le> length (r_buf r) - ?i" by (auto simp: crlf_def)
    moreover have "slice_bound (length (r_buf r)) (int n1 + 2) = min (n1 + 2) (length (r_buf r))"
      by (simp add: slice_bound_def nat_add_distrib)
    ultimately show ?thesis using k(2) by (auto simp add: r' backlog_def to_come_def)
  next
    case None
    with "1.prems" obtain d r1 where rc: "resp_recv 8192 (e - r_clock r) r = (Inr d, r1)" "d \<noteq> []" "\<not> r_clock r > e"
      and rest: "read_line_until e (r1\<lparr>r_buf := r_buf r1 @ d\<rparr>) = (Inr line, r')"
      by (auto simp: read_line_until.simps [of e r] split: if_splits prod.splits sum.splits)
    from "1.IH" [OF None rc(3) rc(1) [symmetric] refl rc(2) rest]
    have "backlog r' < backlog (r1\<lparr>r_buf := r_buf r1 @ d\<rparr>)" .
    also have "\<dots> \<le> backlog r"
      using resp_recv_moves [OF rc(1)] resp_recv_keeps [OF rc(1)] slice_bound_mono [of "length (r_buf r)" "length (r_buf r) + length d" "r_start r"]
      by (simp add: backlog_def to_come_def)
    finally show ?thesis .
  qed
qed

function read_headers_until :: "time \<Rightarrow> string list \<Rightarrow> resp \<Rightarrow> (exn + string) \<times> resp" where
  "read_headers_until end_time ls r =
     (case read_line_until end_time r of
        (Inl e, r1) \<Rightarrow> (Inl e, r1)
      | (Inr line, r1) \<Rightarrow>
          if strip line = [] then (Inr (join crlf ls), r1)
          else read_headers_until end_time (ls @ [line]) r1)"
  by auto
termination
  by (relation "measure (\<lambda>(e, ls, r). backlog r)") (auto dest: read_line_less [OF sym])

declare read_headers_until.simps [simp del]

definition resp_begin :: "real \<Rightarrow> resp \<Rightarrow> (exn + unit) \<times> resp" where
  "resp_begin timeout r =
     (case resp_read_line timeout r of
        (Inl e, r1) \<Rightarrow> (Inl e, r1)
      | (Inr line, r1) \<Rightarrow> (case status_line line of
          Inl e \<Rightarrow> (Inl e, r1)
        | Inr (ver, st, reason) \<Rightarrow>
            (let r2 = r1\<lparr>r_version := ver, r_status := st, r_reason := reason, r_headers := []\<rparr>;
                 left = max (timeout - (r_clock r1 - r_clock r)) (1 / 10)
             in case read_headers_until (r_clock r2 + left) [] r2 of
                  (Inl e, r3) \<Rightarrow> (Inl e, r3)
                | (Inr block, r3) \<Rightarrow>
                    (let h = header_block block
                     in (Inr (), r3\<lparr>r_headers := h, r_length := getheader ''content-length'' [] h,
                           r_chunked := r_chunked r3 \<or> contains ''chunked'' (getheader ''Transfer-Encoding'' [] h)\<rparr>)))))"

subsection \<open>Reading the body\<close>

text \<open>The loop of \<^verbatim>\<open>_read_plain\<close>; \<open>want = 0\<close> stands for a length that is \<open>None\<close>.\<close>

function plain_loop :: "int \<Rightarrow> time \<Rightarrow> int \<Rightarrow> bytes \<Rightarrow> resp \<Rightarrow> (exn + int \<times> bytes) \<times> resp" where
  "plain_loop want end_time out_len out r =
     (if \<not> r_clock r < end_time \<or> (want = 0 \<and> out_len > 0) \<or> (want \<noteq> 0 \<and> out_len \<ge> want) then (Inr (out_len, out), r)
      else case resp_recv (nat (if want \<noteq> 0 then min (want - out_len) 65535 else 65535)) (end_time - r_clock r) r of
        (Inl e, r1) \<Rightarrow> (Inl e, r1)
      | (Inr d, r1) \<Rightarrow>
          if d = [] then (Inr (out_len, out), r1\<lparr>r_clock := end_time\<rparr>)
          else plain_loop want end_time (out_len + int (length d)) (out @ d) r1)"
  by auto
termination
  by (relation "measure (\<lambda>(w, e, n, out, r). to_come r)") (auto dest!: resp_recv_less [OF sym] split: if_splits)

declare plain_loop.simps [simp del]

definition read_plain :: "int option \<Rightarrow> real \<Rightarrow> resp \<Rightarrow> (exn + bytes) \<times> resp" where
  "read_plain read_len timeout r =
     (if read_len = Some 0 then (Inr [], r)
      else if read_len \<noteq> None \<and> int (length (r_buf r)) - r_start r > the read_len then
        (let n = the read_len;
             out = py_slice (r_start r) (r_start r + n) (r_buf r);
             r1 = r\<lparr>r_start := r_start r + n\<rparr>
         in (Inr out, if int (length (r_buf r1)) = r_start r1 then r1\<lparr>r_buf := [], r_start := 0\<rparr> else r1))
      else
        (let out = drop (slice_bound (length (r_buf r)) (r_start r)) (r_buf r);
             want = (case read_len of None \<Rightarrow> 0 | Some n \<Rightarrow> n)
         in case plain_loop want (r_clock r + timeout) (int (length (r_buf r)) - r_start r) out (r\<lparr>r_buf := [], r_start := 0\<rparr>) of
              (Inl e, r1) \<Rightarrow> (Inl e, r1)
            | (Inr (out_len, out), r1) \<Rightarrow>
                if read_len \<noteq> None \<and> out_len < want then (Inl SockTimeout, r1) else (Inr out, r1)))"

definition read_chunked :: "real \<Rightarrow> resp \<Rightarrow> (exn + bytes) \<times> resp" where
  "read_chunked timeout r =
     (case resp_read_line timeout r of
        (Inl e, r1) \<Rightarrow> (Inl e, r1)
      | (Inr line, r1) \<Rightarrow> (case int16_of_text line of
          Inl e \<Rightarrow> (Inl e, r1)
        | Inr sz \<Rightarrow> (case read_plain (Some (sz + 2)) timeout r1 of
            (Inl e, r2) \<Rightarrow> (Inl e, r2)
          | (Inr d, r2) \<Rightarrow> (Inr (take (length d - 2) d), r2))))"

definition resp_read :: "int option \<Rightarrow> real \<Rightarrow> resp \<Rightarrow> (exn + bytes) \<times> resp" where
  "resp_read read_len timeout r = (if \<not> r_chunked r then read_plain read_len timeout r else read_chunked timeout r)"

text \<open>
  \<^verbatim>\<open>readall\<close>.  The loop over the chunks is not known to end for every input, because a negative chunk
  size moves the start of the buffer back: a run that does not return is \<open>None\<close>.
\<close>

partial_function (option) readall_loop :: "time \<Rightarrow> bytes \<Rightarrow> resp \<Rightarrow> ((exn + bytes) \<times> resp) option" where
  "readall_loop end_time out r =
     (if end_time - r_clock r < 0 then Some (Inl SockTimeout, r)
      else case read_chunked (end_time - r_clock r) r of (x, r1) \<Rightarrow>
        (case x of
           Inl e \<Rightarrow> Some (Inl e, r1)
         | Inr d \<Rightarrow> if d = [] then Some (Inr out, r1) else readall_loop end_time (out @ d) r1))"

definition resp_readall :: "real \<Rightarrow> resp \<Rightarrow> ((exn + bytes) \<times> resp) option" where
  "resp_readall timeout r =
     (if r_chunked r then readall_loop (r_clock r + timeout) [] r
      else case int_of_text (r_length r) of
        Inl e \<Rightarrow> Some (Inl e, r)
      | Inr n \<Rightarrow> Some (read_plain (Some n) timeout r))"

subsection \<open>What is still to be read\<close>

text \<open>Everything that will be received arrives by time \<open>T\<close>; the start of the buffer is inside it.\<close>

fun event_data :: "net_event \<Rightarrow> bytes" where
  "event_data (Segment d) = d"
| "event_data NetError = []"

definition resp_left :: "resp \<Rightarrow> bytes" where
  "resp_left r = drop (nat (r_start r)) (r_buf r) @ concat (map (\<lambda>(t, e). event_data e) (r_events r))"

definition prompt :: "time \<Rightarrow> resp \<Rightarrow> bool" where
  "prompt T r \<longleftrightarrow> r_clock r \<le> T \<and> 0 \<le> r_start r \<and> r_start r \<le> int (length (r_buf r))
     \<and> (\<forall>(t, e) \<in> set (r_events r). t \<le> T \<and> (\<exists>d. e = Segment d \<and> d \<noteq> []))"

text \<open>Same parsed head.\<close>

definition same_head :: "resp \<Rightarrow> resp \<Rightarrow> bool" where
  "same_head r r' \<longleftrightarrow> r_chunked r' = r_chunked r \<and> r_version r' = r_version r \<and> r_status r' = r_status r
     \<and> r_reason r' = r_reason r \<and> r_headers r' = r_headers r \<and> r_length r' = r_length r"

lemma same_head_refl [simp]: "same_head r r"
  by (simp add: same_head_def)

lemma same_head_trans: "same_head r r1 \<Longrightarrow> same_head r1 r2 \<Longrightarrow> same_head r r2"
  by (simp add: same_head_def)

definition to_receive :: "resp \<Rightarrow> bytes" where
  "to_receive r = concat (map (\<lambda>(t, e). event_data e) (r_events r))"

lemma resp_recv_prompt:
  assumes "prompt T r" and "T < e" and "to_receive r \<noteq> []" and "0 < n"
  shows "\<exists>d r'. resp_recv n (e - r_clock r) r = (Inr d, r') \<and> d \<noteq> [] \<and> length d \<le> n \<and> to_receive r = d @ to_receive r'
    \<and> prompt T r' \<and> same_head r r' \<and> r_buf r' = r_buf r \<and> r_start r' = r_start r"
proof -
  from assms(3) obtain t ev evs where ev: "r_events r = (t, ev) # evs"
    by (cases "r_events r") (auto simp: to_receive_def)
  with assms(1) obtain d where d: "ev = Segment d" "d \<noteq> []" "t \<le> T" by (auto simp: prompt_def)
  from assms(1,2) have c: "r_clock r \<le> T" "\<not> e - r_clock r \<le> 0" by (auto simp: prompt_def)
  show ?thesis
  proof (cases "length d > n")
    case True
    with assms d c ev show ?thesis
      by (auto simp: resp_recv_def Let_def to_receive_def prompt_def same_head_def append_assoc [symmetric] simp del: append_assoc)
  next
    case False
    with assms d c ev show ?thesis
      by (auto simp: resp_recv_def Let_def to_receive_def prompt_def same_head_def)
  qed
qed

lemma find_crlf_line: "CHR 0x0D \<notin> set line \<Longrightarrow> find_sub crlf (line @ crlf @ x) = Some (length line)"
  by (induction line) (auto simp: crlf_def)

lemma find_crlf_part:
  assumes "b @ c = line @ crlf @ x" and "CHR 0x0D \<notin> set line" and "length b < length line + 2"
  shows "find_sub crlf b = None"
proof (rule ccontr)
  assume "find_sub crlf b \<noteq> None"
  then obtain n where "find_sub crlf b = Some n" by auto
  from find_sub_Some [OF this] obtain r where r: "b = take n b @ crlf @ r" "n + 2 \<le> length b" by (auto simp: crlf_def)
  then have n: "n < length b" "n < length line" using assms(3) by auto
  have "b ! n = (take n b @ crlf @ r) ! n" using r(1) by simp
  also have "\<dots> = CHR 0x0D" using n by (simp add: nth_append crlf_def)
  finally have "b ! n = CHR 0x0D" .
  moreover have "b ! n = (b @ c) ! n" using n by (simp add: nth_append)
  moreover have "\<dots> = line ! n" using n by (simp add: assms(1) nth_append)
  ultimately show False using assms(2) n(2) by (metis nth_mem)
qed

lemma read_line_spec:
  assumes "prompt T r" and "T < e" and "resp_left r = line @ crlf @ rest" and "CHR 0x0D \<notin> set line"
  shows "\<exists>r'. read_line_until e r = (Inr line, r') \<and> resp_left r' = rest \<and> prompt T r' \<and> same_head r r'"
  using assms
proof (induction "to_come r" arbitrary: r rule: less_induct)
  case less
  let ?b = "drop (nat (r_start r)) (r_buf r)"
  from less.prems(1) have s: "0 \<le> r_start r" "r_start r \<le> int (length (r_buf r))" and cl: "r_clock r \<le> T" by (auto simp: prompt_def)
  then have sb: "slice_bound (length (r_buf r)) (r_start r) = nat (r_start r)" "nat (r_start r) \<le> length (r_buf r)"
    by (auto simp: slice_bound_def)
  have eq: "?b @ to_receive r = line @ crlf @ rest" using less.prems(3) by (simp add: resp_left_def to_receive_def)
  have two: "length crlf = 2" by (simp add: crlf_def)
  show ?case
  proof (cases "length ?b < length line + 2")
    case True
    with find_crlf_part [OF eq less.prems(4)] have none: "find_from crlf (r_buf r) (nat (r_start r)) = None"
      using sb by (simp add: find_from_def)
    have "to_receive r \<noteq> []"
    proof
      assume "to_receive r = []"
      with eq have "length ?b = length line + 2 + length rest" using two by (metis append_Nil2 length_append add.assoc)
      with True show False by simp
    qed
    from resp_recv_prompt [OF less.prems(1,2) this, of 8192] obtain d r1 where
      rc: "resp_recv 8192 (e - r_clock r) r = (Inr d, r1)" "d \<noteq> []" "to_receive r = d @ to_receive r1"
        "prompt T r1" "same_head r r1" "r_buf r1 = r_buf r" "r_start r1 = r_start r" by auto
    let ?r2 = "r1\<lparr>r_buf := r_buf r1 @ d\<rparr>"
    have "to_come ?r2 < to_come r" using resp_recv_less [OF rc(1)] rc(2) by (simp add: to_come_def)
    moreover have "prompt T ?r2" using rc(4) by (auto simp: prompt_def)
    moreover have "resp_left ?r2 = line @ crlf @ rest"
      using eq rc sb by (simp add: resp_left_def to_receive_def)
    ultimately obtain r' where "read_line_until e ?r2 = (Inr line, r')" "resp_left r' = rest" "prompt T r'" "same_head ?r2 r'"
      using less.hyps less.prems(2,4) by blast
    moreover have "\<not> r_clock r > e" using cl less.prems(2) by simp
    ultimately show ?thesis using none sb rc
      by (subst read_line_until.simps) (auto simp: same_head_def)
  next
    case False
    let ?x = "drop (length line + 2) ?b"
    have b: "?b = line @ crlf @ ?x"
    proof -
      have "take (length line + 2) ?b = take (length line + 2) (?b @ to_receive r)" using False by simp
      also have "\<dots> = line @ crlf" unfolding eq using two by simp
      finally show ?thesis by (metis append_take_drop_id append_assoc)
    qed
    have rest: "rest = ?x @ to_receive r" using eq by (subst (asm) b) simp
    from find_crlf_line [OF less.prems(4), of ?x] b have "find_sub crlf ?b = Some (length line)" by simp
    then have f: "find_from crlf (r_buf r) (nat (r_start r)) = Some (nat (r_start r) + length line)"
      using sb by (simp add: find_from_def)
    have le: "nat (r_start r) + length line + 2 \<le> length (r_buf r)" using False sb by simp
    have "py_slice (r_start r) (int (nat (r_start r) + length line)) (r_buf r) = take (length line) ?b"
      using s le by (subst py_slice_nonneg) auto
    also have "\<dots> = line" by (subst b) simp
    finally have p: "py_slice (r_start r) (int (nat (r_start r) + length line)) (r_buf r) = line" .
    show ?thesis using f p sb rest less.prems(1) le
      by (subst read_line_until.simps) (auto simp: resp_left_def to_receive_def prompt_def same_head_def nat_add_distrib add.commute add.left_commute)
  qed
qed

lemma plain_loop_spec:
  assumes "prompt T r" and "T < e" and "r_buf r = []" and "to_receive r = d @ rest" and "length out + length d = n" and "0 < n"
  shows "\<exists>r'. plain_loop (int n) e (int (length out)) out r = (Inr (int n, out @ d), r') \<and> resp_left r' = rest \<and> prompt T r'
    \<and> same_head r r'"
  using assms
proof (induction "length d" arbitrary: r d out rule: less_induct)
  case less
  have start: "r_start r = 0" using less.prems(1,3) by (auto simp: prompt_def)
  have cl: "r_clock r < e" using less.prems(1,2) by (auto simp: prompt_def)
  show ?case
  proof (cases "d = []")
    case True
    with less.prems start cl show ?thesis
      by (subst plain_loop.simps) (auto simp: resp_left_def to_receive_def)
  next
    case False
    let ?k = "nat (min (int n - int (length out)) 65535)"
    have k: "0 < ?k" "?k \<le> length d" using False less.prems(5) by auto
    from False less.prems(4) have "to_receive r \<noteq> []" by simp
    from resp_recv_prompt [OF less.prems(1,2) this k(1)] obtain x r1 where
      rc: "resp_recv ?k (e - r_clock r) r = (Inr x, r1)" "x \<noteq> []" "length x \<le> ?k" "to_receive r = x @ to_receive r1"
        "prompt T r1" "same_head r r1" "r_buf r1 = []" using less.prems(3) by auto
    have lx: "length x \<le> length d" using rc(3) k(2) by simp
    from rc(4) less.prems(4) have eq: "d @ rest = x @ to_receive r1" by simp
    then have x: "x = take (length x) d" using lx by (metis append_eq_append_conv_if append_take_drop_id le_antisym length_append nle_le)
    define y where "y = drop (length x) d"
    have d: "d = x @ y" using x y_def by (metis append_take_drop_id)
    with eq have r1: "to_receive r1 = y @ rest" by simp
    have "length y < length d" using d rc(2) by simp
    from less.hyps [OF this rc(5) less.prems(2) rc(7) r1, of "out @ x"] less.prems(5,6) d obtain r' where
      "plain_loop (int n) e (int (length (out @ x))) (out @ x) r1 = (Inr (int n, (out @ x) @ y), r')" "resp_left r' = rest"
      "prompt T r'" "same_head r1 r'" by auto
    moreover have "\<not> int (length out) \<ge> int n" using False less.prems(5) by auto
    ultimately show ?thesis using rc cl less.prems(6) d
      by (subst plain_loop.simps) (auto intro: same_head_trans)
  qed
qed

lemma read_plain_spec:
  assumes "prompt T r" and "T < r_clock r + timeout" and "resp_left r = d @ rest" and "d \<noteq> []"
  shows "\<exists>r'. read_plain (Some (int (length d))) timeout r = (Inr d, r') \<and> resp_left r' = rest \<and> prompt T r' \<and> same_head r r'"
proof -
  let ?b = "drop (nat (r_start r)) (r_buf r)"
  from assms(1) have s: "0 \<le> r_start r" "r_start r \<le> int (length (r_buf r))" by (auto simp: prompt_def)
  then have sb: "slice_bound (length (r_buf r)) (r_start r) = nat (r_start r)" "nat (r_start r) \<le> length (r_buf r)"
    by (auto simp: slice_bound_def)
  have eq: "?b @ to_receive r = d @ rest" using assms(3) by (simp add: resp_left_def to_receive_def)
  show ?thesis
  proof (cases "int (length (r_buf r)) - r_start r > int (length d)")
    case True
    then have ld: "length d \<le> length ?b" using s by simp
    have "take (length d) (?b @ to_receive r) = d" "drop (length d) (?b @ to_receive r) = rest" unfolding eq by simp_all
    then have t: "take (length d) ?b = d" "rest = drop (length d) ?b @ to_receive r" using ld by simp_all
    have p: "py_slice (r_start r) (r_start r + int (length d)) (r_buf r) = d"
      using s True t by (subst py_slice_nonneg) auto
    show ?thesis using True p t s assms(1,4)
      by (auto simp: read_plain_def Let_def resp_left_def to_receive_def prompt_def same_head_def nat_add_distrib add.commute)
  next
    case False
    have lb: "int (length ?b) = int (length (r_buf r)) - r_start r" using s by (simp add: of_nat_diff nat_le_iff)
    with False have ld: "length ?b \<le> length d" by linarith
    let ?y = "drop (length ?b) d"
    have "take (length ?b) (d @ rest) = ?b" by (metis append_eq_conv_conj eq)
    then have d: "d = ?b @ ?y" using ld by (metis append_take_drop_id diff_is_0_eq take_0 append_Nil2 take_append)
    with eq have y: "to_receive r = ?y @ rest" by (metis append_assoc same_append_eq)
    let ?r = "r\<lparr>r_buf := [], r_start := 0\<rparr>"
    have "prompt T ?r" "to_receive ?r = ?y @ rest" "r_buf ?r = []"
      using assms(1) y by (auto simp: prompt_def to_receive_def)
    moreover have "length ?b + length ?y = length d" using ld by simp
    moreover have "0 < length d" using assms(4) by simp
    ultimately obtain r' where "plain_loop (int (length d)) (r_clock r + timeout) (int (length ?b)) ?b ?r = (Inr (int (length d), ?b @ ?y), r')"
      "resp_left r' = rest" "prompt T r'" "same_head ?r r'"
      using plain_loop_spec [of T ?r "r_clock r + timeout" ?y rest ?b "length d"] assms(2) by blast
    then show ?thesis using False d assms(4) lb
      by (auto simp: read_plain_def sb same_head_def)
  qed
qed

subsection \<open>Chunked bodies\<close>

definition hex_digit :: "nat \<Rightarrow> char" where
  "hex_digit d = (if d < 10 then char_of (48 + d) else char_of (87 + d))"

fun hex :: "nat \<Rightarrow> string" where
  "hex n = (if n < 16 then [hex_digit n] else hex (n div 16) @ [hex_digit (n mod 16)])"

declare hex.simps [simp del]

definition chunk_text :: "bytes \<Rightarrow> bytes" where
  "chunk_text d = hex (length d) @ crlf @ d @ crlf"

definition chunked_text :: "bytes list \<Rightarrow> bytes" where
  "chunked_text ds = concat (map chunk_text ds) @ ''0'' @ crlf @ crlf"

lemma hex_digit_props:
  assumes "d < 16"
  shows "is_hex (hex_digit d)" and "hex_val (hex_digit d) = d"
  using assms by (auto simp: hex_digit_def is_hex_def hex_val_def is_digit_def)

lemma is_hex_not:
  assumes "is_hex c"
  shows "\<not> is_space c" "c \<noteq> CHR ''_''" "c \<noteq> CHR ''-''" "c \<noteq> CHR ''+''" "c \<noteq> CHR ''x''" "c \<noteq> CHR ''X''" "c \<noteq> CHR 0x0D"
  using assms by (auto simp: is_hex_def is_digit_def is_space_def)

lemma hex_chars: "c \<in> set (hex n) \<Longrightarrow> is_hex c"
proof (induction n rule: hex.induct)
  case (1 n)
  then show ?case by (cases "n < 16") (auto simp: hex.simps [of n] hex_digit_props)
qed

lemma hex_nonempty [simp]: "hex n \<noteq> []"
  by (subst hex.simps) simp

lemma hexes_val_hex [simp]: "hexes_val (hex n) = n"
proof (induction n rule: hex.induct)
  case (1 n)
  then show ?case by (cases "n < 16") (simp_all add: hex.simps [of n] hexes_val_def hex_digit_props)
qed

lemma hex_groups_hexes: "s \<noteq> [] \<Longrightarrow> \<forall>c \<in> set s. is_hex c \<Longrightarrow> hex_groups s"
  by (induction s rule: hex_groups.induct) (auto dest: is_hex_not)

lemma int16_of_hex [simp]: "int16_of_text (hex n) = Inr (int n)"
proof -
  have all: "\<forall>c \<in> set (hex n). is_hex c" using hex_chars by blast
  then have "strip (hex n) = hex n" by (intro strip_id) (auto dest: is_hex_not)
  moreover obtain c r where c: "hex n = c # r" by (cases "hex n") auto
  moreover have "no_hex_prefix (hex n) = hex n"
  proof (cases r)
    case (Cons d r')
    then have "is_hex d" using all c by simp
    then show ?thesis using is_hex_not(5,6) c Cons by (auto simp: no_hex_prefix_def numeral_2_eq_2)
  qed (simp add: no_hex_prefix_def c)
  moreover have "filter (\<lambda>c. c \<noteq> CHR ''_'') (hex n) = hex n" using all by (auto simp: filter_id_conv dest: is_hex_not)
  moreover have "is_hex c" using all c by simp
  moreover have "hex_groups (hex n)" using hex_groups_hexes [OF hex_nonempty all] .
  ultimately show ?thesis using is_hex_not(3,4) [of c] hexes_val_hex [of n] c by (simp add: int16_of_text_def Let_def)
qed

lemma resp_recv_clock: "resp_recv n timeout r = (x, r') \<Longrightarrow> r_clock r \<le> r_clock r'"
  by (auto simp: resp_recv_def Let_def split: if_splits list.splits net_event.splits prod.splits)

lemma read_line_clock: "read_line_until e r = (Inr line, r') \<Longrightarrow> r_clock r \<le> r_clock r'"
proof (induction e r rule: read_line_until.induct)
  case (1 e r)
  show ?case
  proof (cases "find_from crlf (r_buf r) (slice_bound (length (r_buf r)) (r_start r))")
    case (Some n1)
    with "1.prems" show ?thesis by (auto simp: read_line_until.simps [of e r])
  next
    case None
    with "1.prems" obtain d r1 where rc: "resp_recv 8192 (e - r_clock r) r = (Inr d, r1)" "d \<noteq> []" "\<not> r_clock r > e"
      and rest: "read_line_until e (r1\<lparr>r_buf := r_buf r1 @ d\<rparr>) = (Inr line, r')"
      by (auto simp: read_line_until.simps [of e r] split: if_splits prod.splits sum.splits)
    from "1.IH" [OF None rc(3) rc(1) [symmetric] refl rc(2) rest] resp_recv_clock [OF rc(1)] show ?thesis by simp
  qed
qed

lemma read_chunked_spec:
  assumes "prompt T r" and "T < r_clock r + timeout" and "resp_left r = hex (length d) @ crlf @ d @ crlf @ rest"
  shows "\<exists>r'. read_chunked timeout r = (Inr d, r') \<and> resp_left r' = rest \<and> prompt T r' \<and> same_head r r'"
proof -
  have "CHR 0x0D \<notin> set (hex (length d))" using hex_chars is_hex_not(7) by blast
  from read_line_spec [OF assms(1,2,3) this] obtain r1 where
    r1: "read_line_until (r_clock r + timeout) r = (Inr (hex (length d)), r1)" "resp_left r1 = (d @ crlf) @ rest" "prompt T r1" "same_head r r1"
    by auto
  have "r_clock r \<le> r_clock r1" by (rule read_line_clock [OF r1(1)])
  with assms(2) have "T < r_clock r1 + timeout" by simp
  from read_plain_spec [OF r1(3) this r1(2)] obtain r2 where
    r2: "read_plain (Some (int (length (d @ crlf)))) timeout r1 = (Inr (d @ crlf), r2)" "resp_left r2 = rest" "prompt T r2" "same_head r1 r2"
    by (auto simp: crlf_def)
  have "length (d @ crlf) = length d + 2" by (simp add: crlf_def)
  with r2(1) have "read_plain (Some (int (length d) + 2)) timeout r1 = (Inr (d @ crlf), r2)" by (simp add: add.commute)
  then show ?thesis using r1 r2 same_head_trans by (auto simp: read_chunked_def resp_read_line_def crlf_def)
qed

lemma readall_loop_spec:
  assumes "prompt T r" and "T < e" and "resp_left r = chunked_text ds @ rest" and "\<forall>d \<in> set ds. d \<noteq> []"
  shows "\<exists>r'. readall_loop e out r = Some (Inr (out @ concat ds), r') \<and> resp_left r' = rest \<and> prompt T r' \<and> same_head r r'"
  using assms
proof (induction ds arbitrary: r out)
  case Nil
  have "hex 0 = ''0''" by code_simp
  with Nil.prems(3) have "resp_left r = hex (length []) @ crlf @ [] @ crlf @ rest" by (simp add: chunked_text_def)
  from read_chunked_spec [OF Nil.prems(1) _ this, of "e - r_clock r"] Nil.prems(1,2) show ?case
    by (subst readall_loop.simps) (auto simp: prompt_def)
next
  case (Cons d ds)
  from Cons.prems(3) have "resp_left r = hex (length d) @ crlf @ d @ crlf @ chunked_text ds @ rest"
    by (simp add: chunked_text_def chunk_text_def)
  from read_chunked_spec [OF Cons.prems(1) _ this, of "e - r_clock r"] Cons.prems(2) obtain r1 where
    r1: "read_chunked (e - r_clock r) r = (Inr d, r1)" "resp_left r1 = chunked_text ds @ rest" "prompt T r1" "same_head r r1"
    by auto
  from Cons.IH [OF r1(3) Cons.prems(2) r1(2), of "out @ d"] Cons.prems(4) r1 show ?case
    using Cons.prems(1,2) by (subst readall_loop.simps) (auto simp: prompt_def intro: same_head_trans)
qed

text \<open>
  C23. A chunked body is read back exactly, however the network cuts it into segments: if everything has
  arrived before the deadline, \<^verbatim>\<open>readall\<close> returns the concatenation of the chunks, and what the
  peer sent after the last chunk is still there to be read.
\<close>

theorem chunked_roundtrip:
  assumes "r_chunked r" and "prompt T r" and "T < r_clock r + timeout"
    and "resp_left r = chunked_text ds @ rest" and "\<forall>d \<in> set ds. d \<noteq> []"
  shows "\<exists>r'. resp_readall timeout r = Some (Inr (concat ds), r') \<and> resp_left r' = rest"
  using readall_loop_spec [OF assms(2-5), of "[]"] assms(1) by (auto simp: resp_readall_def)

definition resp_ex :: resp where
  "resp_ex = (resp_init 0 [(1, Segment (''4'' @ crlf @ ''Wi'')), (2, Segment (''ki'' @ crlf @ ''5'')), (3, Segment (crlf @ ''pedia'' @ crlf @ ''0'' @ crlf @ crlf))])
     \<lparr>r_chunked := True\<rparr>"

theorem chunked_roundtrip_witness: "\<exists>r'. resp_readall 30 resp_ex = Some (Inr ''Wikipedia'', r')"
proof -
  have "hex (Suc (Suc (Suc (Suc 0)))) = ''4'' \<and> hex (Suc (Suc (Suc (Suc (Suc 0))))) = ''5''" by code_simp
  then have "resp_left resp_ex = chunked_text [''Wiki'', ''pedia''] @ []"
    by (simp add: resp_left_def resp_ex_def resp_init_def chunked_text_def chunk_text_def crlf_def)
  then have "\<exists>r'. resp_readall 30 resp_ex = Some (Inr (concat [''Wiki'', ''pedia'']), r') \<and> resp_left r' = []"
    by (rule chunked_roundtrip [of resp_ex 3, rotated 3]) (simp_all add: resp_ex_def resp_init_def prompt_def)
  then show ?thesis by auto
qed

subsection \<open>Reading the head\<close>

definition header_text :: "(string \<times> string) list \<Rightarrow> bytes" where
  "header_text hs = concat (map (\<lambda>(k, v). k @ '': '' @ v @ crlf) hs)"

definition response_text :: "string \<Rightarrow> nat \<Rightarrow> string list \<Rightarrow> (string \<times> string) list \<Rightarrow> bytes" where
  "response_text ver st info hs = join '' '' (ver # dec st # info) @ crlf @ header_text hs @ crlf"

definition word :: "string \<Rightarrow> bool" where
  "word w \<longleftrightarrow> w \<noteq> [] \<and> (\<forall>c \<in> set w. \<not> is_space c)"

definition header_fields :: "(string \<times> string) list \<Rightarrow> headers" where
  "header_fields hs = foldl (\<lambda>h (k, v). dset (py_title k) v h) [] hs"

definition header_ok :: "(string \<times> string) list \<Rightarrow> bool" where
  "header_ok hs \<longleftrightarrow> hs \<noteq> [] \<and> (\<forall>(k, v) \<in> set hs. word k \<and> CHR '':'' \<notin> set k \<and> CHR 0x0D \<notin> set v)"

lemma not_space: "\<not> is_space c \<Longrightarrow> c \<noteq> CHR 0x0D \<and> c \<noteq> CHR '' ''"
  by (auto simp: is_space_def)

lemma py_words_join: "\<forall>w \<in> set ws. word w \<Longrightarrow> py_words (join '' '' ws) = ws"
proof (induction ws rule: remdups_adj.induct)
  case 1
  show ?case by (simp add: py_words.simps)
next
  case (2 w)
  then have w: "w \<noteq> []" "\<forall>c \<in> set w. \<not> is_space c" by (auto simp: word_def)
  then have d: "dropWhile is_space w = w" by (cases w) auto
  have n: "py_words [] = []" by (simp add: py_words.simps)
  have dd: "dropWhile (\<lambda>c. \<not> is_space c) w = []" "takeWhile (\<lambda>c. \<not> is_space c) w = w"
    using w by (simp_all add: dropWhile_eq_Nil_conv takeWhile_eq_all_conv)
  show ?case using w by (subst py_words.simps) (simp add: Let_def d n dd)
next
  case (3 w x ws)
  then have w: "w \<noteq> []" "\<forall>c \<in> set w. \<not> is_space c" by (auto simp: word_def)
  let ?r = "CHR '' '' # join '' '' (x # ws)"
  have d: "dropWhile is_space (w @ ?r) = w @ ?r" using w by (cases w) auto
  have sp: "is_space (CHR '' '')" by (simp add: is_space_def)
  have t: "takeWhile (\<lambda>c. \<not> is_space c) (w @ ?r) = w" "dropWhile (\<lambda>c. \<not> is_space c) (w @ ?r) = ?r"
    using w sp by (simp_all add: takeWhile_append2 dropWhile_append2)
  have l: "py_words ?r = py_words (join '' '' (x # ws))"
    by (subst (1 2) py_words.simps) (simp add: sp)
  have IH: "py_words (join '' '' (x # ws)) = x # ws" using 3 by (auto split: if_splits)
  show ?case using w by (subst py_words.simps) (simp add: Let_def d t l IH)
qed

lemma put_header_ok: "CHR '':'' \<notin> set k \<Longrightarrow> put_header h (k @ '': '' @ v) = dset (py_title k) v h"
proof -
  assume k: "CHR '':'' \<notin> set k"
  then have "find_sub '':'' (k @ '':'' @ x) = Some (length k)" for x by (induction k) auto
  then have p: "py_find '':'' (k @ '': '' @ v) = int (length k)" by (simp add: py_find_def)
  have "py_slice 0 (int (length k)) (k @ '': '' @ v) = k" by (subst py_slice_nonneg) auto
  moreover have "py_slice (int (length k) + 2) (int (length (k @ '': '' @ v))) (k @ '': '' @ v) = v"
    by (subst py_slice_nonneg) (auto simp: nat_add_distrib)
  ultimately show ?thesis unfolding put_header_def p Let_def by simp
qed

lemma split_crlf_line: "CHR 0x0D \<notin> set l \<Longrightarrow> split_crlf l = [l]"
  by (induction l rule: split_crlf.induct) auto

lemma split_crlf_cons: "CHR 0x0D \<notin> set l \<Longrightarrow> split_crlf (l @ crlf @ s) = l # split_crlf s"
proof (induction l)
  case (Cons c l)
  obtain d t where t: "l @ crlf @ s = d # t" by (cases "l @ crlf @ s") (auto simp: crlf_def)
  with Cons show ?case by auto
qed (simp add: crlf_def)

lemma split_crlf_join: "ls \<noteq> [] \<Longrightarrow> \<forall>l \<in> set ls. CHR 0x0D \<notin> set l \<Longrightarrow> split_crlf (join crlf ls) = ls"
  by (induction ls rule: remdups_adj.induct) (auto simp: split_crlf_line split_crlf_cons)

lemma fold_headers: "\<forall>(k, v) \<in> set hs. CHR '':'' \<notin> set k \<Longrightarrow>
   foldl put_header h (map (\<lambda>(k, v). k @ '': '' @ v) hs) = foldl (\<lambda>h (k, v). dset (py_title k) v h) h hs"
  by (induction hs arbitrary: h) (auto simp: put_header_ok [simplified])

lemma word_no_cr: "word w \<Longrightarrow> CHR 0x0D \<notin> set w"
  by (auto simp: word_def dest: not_space)

lemma header_block_fields:
  assumes "header_ok hs"
  shows "header_block (join crlf (map (\<lambda>(k, v). k @ '': '' @ v) hs)) = header_fields hs"
proof -
  have "split_crlf (join crlf (map (\<lambda>(k, v). k @ '': '' @ v) hs)) = map (\<lambda>(k, v). k @ '': '' @ v) hs"
    using assms by (intro split_crlf_join) (auto simp: header_ok_def dest!: word_no_cr)
  moreover have "foldl put_header h (map (\<lambda>(k, v). k @ '': '' @ v) hs) = foldl (\<lambda>h (k, v). dset (py_title k) v h) h hs" for h
    using assms by (intro fold_headers) (auto simp: header_ok_def)
  ultimately show ?thesis by (simp add: header_block_def header_fields_def)
qed

lemma status_line_ok:
  assumes "word ver" and "\<forall>w \<in> set info. word w"
  shows "status_line (join '' '' (ver # dec st # info)) = Inr (ver, int st, join '' '' info)"
proof -
  have "word (dec st)" by (auto simp: word_def dest!: dec_digits digit_not(7))
  with assms have "py_words (join '' '' (ver # dec st # info)) = ver # dec st # info" by (intro py_words_join) auto
  then show ?thesis by (simp add: status_line_def del: join.simps)
qed

lemma join_no_cr: "\<forall>w \<in> set ws. word w \<Longrightarrow> CHR 0x0D \<notin> set (join '' '' ws)"
  by (induction ws rule: remdups_adj.induct) (auto simp: word_def dest: not_space)

lemma first_line_no_cr: "word ver \<Longrightarrow> \<forall>w \<in> set info. word w \<Longrightarrow> CHR 0x0D \<notin> set (join '' '' (ver # dec st # info))"
  by (intro join_no_cr) (auto simp: word_def dest!: dec_digits digit_not(7))

lemma strip_nonblank: "c \<in> set l \<Longrightarrow> \<not> is_space c \<Longrightarrow> strip l \<noteq> []"
proof -
  assume c: "c \<in> set l" "\<not> is_space c"
  have "c \<in> set (lstrip l)" if "c \<in> set l" for l
    using that c(2) unfolding lstrip_def by (metis (no_types) Un_iff set_append set_takeWhileD takeWhile_dropWhile_id)
  with c have "c \<in> set (strip l)" by (simp add: strip_def)
  then show ?thesis by auto
qed

lemma read_headers_spec:
  assumes "prompt T r" and "T < e" and "resp_left r = header_text hs @ crlf @ rest"
    and "\<forall>(k, v) \<in> set hs. word k \<and> CHR '':'' \<notin> set k \<and> CHR 0x0D \<notin> set v"
  shows "\<exists>r'. read_headers_until e ls r = (Inr (join crlf (ls @ map (\<lambda>(k, v). k @ '': '' @ v) hs)), r')
    \<and> resp_left r' = rest \<and> prompt T r' \<and> same_head r r'"
  using assms
proof (induction hs arbitrary: r ls)
  case Nil
  then have "resp_left r = [] @ crlf @ rest" by (simp add: header_text_def)
  from read_line_spec [OF Nil.prems(1,2) this] show ?case
    by (subst read_headers_until.simps) (auto simp: strip_def lstrip_def)
next
  case (Cons x hs)
  obtain k v where x: "x = (k, v)" by (cases x)
  let ?l = "k @ '': '' @ v"
  from Cons.prems(4) x have kv: "word k" "CHR 0x0D \<notin> set v" by auto
  then have cr: "CHR 0x0D \<notin> set ?l" by (auto simp: word_def dest: not_space)
  have "resp_left r = ?l @ crlf @ header_text hs @ crlf @ rest" using Cons.prems(3) x by (simp add: header_text_def)
  from read_line_spec [OF Cons.prems(1,2) this cr] obtain r1 where
    r1: "read_line_until e r = (Inr ?l, r1)" "resp_left r1 = header_text hs @ crlf @ rest" "prompt T r1" "same_head r r1" by blast
  have "strip ?l \<noteq> []"
    using kv(1) strip_nonblank [of "hd k" ?l] by (cases k) (auto simp: word_def)
  with Cons.IH [OF r1(3) Cons.prems(2) r1(2), of "ls @ [?l]"] Cons.prems(4) r1 x show ?case
    by (subst read_headers_until.simps) (auto intro: same_head_trans)
qed

lemma begin_spec:
  assumes "prompt T r" and "T < r_clock r + timeout" and "word ver" and "\<forall>w \<in> set info. word w" and "header_ok hs"
    and "resp_left r = response_text ver st info hs @ rest"
  shows "\<exists>r'. resp_begin timeout r = (Inr (), r') \<and> resp_left r' = rest \<and> prompt T r' \<and> r_version r' = ver \<and> r_status r' = int st
    \<and> r_reason r' = join '' '' info \<and> r_headers r' = header_fields hs
    \<and> r_length r' = getheader ''content-length'' [] (header_fields hs)
    \<and> r_chunked r' = (r_chunked r \<or> contains ''chunked'' (getheader ''Transfer-Encoding'' [] (header_fields hs)))"
proof -
  let ?l = "join '' '' (ver # dec st # info)"
  from assms(6) have left: "resp_left r = ?l @ crlf @ header_text hs @ crlf @ rest" by (simp add: response_text_def del: join.simps)
  from read_line_spec [OF assms(1,2) left first_line_no_cr [OF assms(3,4)]] obtain r1 where
    r1: "read_line_until (r_clock r + timeout) r = (Inr ?l, r1)" "resp_left r1 = header_text hs @ crlf @ rest" "prompt T r1" "same_head r r1"
    by blast
  let ?r2 = "r1\<lparr>r_version := ver, r_status := int st, r_reason := join '' '' info, r_headers := []\<rparr>"
  let ?e = "r_clock r1 + max (timeout - (r_clock r1 - r_clock r)) (1 / 10)"
  have "T < ?e" using assms(2) by (simp add: max_def)
  moreover have "prompt T ?r2" "resp_left ?r2 = header_text hs @ crlf @ rest"
    using r1 by (simp_all add: prompt_def resp_left_def)
  ultimately obtain r3 where r3: "read_headers_until ?e [] ?r2 = (Inr (join crlf (map (\<lambda>(k, v). k @ '': '' @ v) hs)), r3)"
    "resp_left r3 = rest" "prompt T r3" "same_head ?r2 r3"
    using read_headers_spec [of T ?r2 ?e hs rest "[]"] assms(5) by (auto simp: header_ok_def)
  have "resp_begin timeout r = (Inr (), r3\<lparr>r_headers := header_fields hs, r_length := getheader ''content-length'' [] (header_fields hs),
      r_chunked := r_chunked r3 \<or> contains ''chunked'' (getheader ''Transfer-Encoding'' [] (header_fields hs))\<rparr>)"
    using r1(1) r3(1) status_line_ok [OF assms(3,4)] header_block_fields [OF assms(5)]
    by (simp add: resp_begin_def resp_read_line_def Let_def del: join.simps)
  with r1(4) r3 show ?thesis by (auto simp: same_head_def resp_left_def prompt_def)
qed

lemma find_double_crlf: "\<forall>l \<in> set ls. CHR 0x0D \<notin> set l \<and> l \<noteq> [] \<Longrightarrow> ls \<noteq> [] \<Longrightarrow>
   find_sub (crlf @ crlf) (join crlf ls @ crlf @ crlf @ x) = Some (length (join crlf ls))"
proof (induction ls rule: remdups_adj.induct)
  case (2 l)
  then have "CHR 0x0D \<notin> set l" by simp
  then show ?case by (induction l) (auto simp: crlf_def)
next
  case (3 l m ls)
  have IH: "find_sub (crlf @ crlf) (join crlf (m # ls) @ crlf @ crlf @ x) = Some (length (join crlf (m # ls)))"
    using 3 by (cases "l = m") auto
  have m: "m \<noteq> []" "CHR 0x0D \<notin> set m" using 3 by auto
  then obtain c m' where c: "m = c # m'" "c \<noteq> CHR 0x0D" by (cases m) auto
  then obtain j where j: "join crlf (m # ls) = c # j" by (cases ls) auto
  have "find_sub (crlf @ crlf) (crlf @ join crlf (m # ls) @ crlf @ crlf @ x) = Some (length crlf + length (join crlf (m # ls)))"
    using IH c(2) unfolding j by (simp add: crlf_def)
  moreover have "find_sub (crlf @ crlf) (l @ y) = map_option ((+) (length l)) (find_sub (crlf @ crlf) y)" if "CHR 0x0D \<notin> set l" for l y
    using that by (induction l) (cases "find_sub (crlf @ crlf) y"; auto simp: crlf_def)+
  ultimately show ?case using 3 by simp
qed simp

lemma txt_parse_spec:
  assumes "word ver" and "\<forall>w \<in> set info. word w" and "header_ok hs"
  shows "txt_parse (response_text ver st info hs @ body) = Inr \<lparr>tx_version = ver, tx_status = int st, tx_info = join '' '' info,
      tx_headers = header_fields hs, tx_body = body\<rparr>"
proof -
  let ?l = "join '' '' (ver # dec st # info)"
  let ?ls = "map (\<lambda>(k, v). k @ '': '' @ v) hs"
  let ?buf = "response_text ver st info hs @ body"
  have ne: "?ls \<noteq> []" using assms(3) by (simp add: header_ok_def)
  have j: "header_text hs = join crlf ?ls @ crlf" using ne
  proof (induction hs rule: remdups_adj.induct)
    case (3 x y hs)
    then have "header_text (y # hs) = join crlf (map (\<lambda>(k, v). k @ '': '' @ v) (y # hs)) @ crlf" by (cases "x = y") auto
    then show ?case by (cases x) (simp add: header_text_def)
  qed (auto simp: header_text_def)
  have buf: "?buf = ?l @ crlf @ join crlf ?ls @ crlf @ crlf @ body" by (simp add: response_text_def j del: join.simps)
  have f1: "find_from crlf ?buf 0 = Some (length ?l)"
    unfolding buf find_from_def using find_crlf_line [OF first_line_no_cr [OF assms(1,2)]] by (simp del: join.simps)
  have "find_sub (crlf @ crlf) (join crlf ?ls @ crlf @ crlf @ body) = Some (length (join crlf ?ls))"
    using assms(3) ne by (intro find_double_crlf) (auto simp: header_ok_def dest!: word_no_cr)
  then have f2: "find_from (crlf @ crlf) ?buf (length ?l + 2) = Some (length ?l + 2 + length (join crlf ?ls))"
    unfolding buf find_from_def by (simp add: crlf_def del: join.simps)
  have s1: "slice 0 (length ?l) ?buf = ?l" unfolding buf by (simp add: slice_def del: join.simps)
  have s2: "slice (length ?l + 2) (length ?l + 2 + length (join crlf ?ls)) ?buf = join crlf ?ls"
    unfolding buf by (simp add: slice_def crlf_def del: join.simps)
  have n: "length ?l + 2 + length (join crlf ?ls) + 4 = length (?l @ crlf @ join crlf ?ls @ crlf @ crlf)"
    by (simp add: crlf_def del: join.simps)
  have b2: "?buf = (?l @ crlf @ join crlf ?ls @ crlf @ crlf) @ body" unfolding buf by (simp del: join.simps)
  have drop_exact: "drop (length xs) (xs @ ys) = ys" for xs ys :: string by simp
  have s3: "drop (length ?l + 2 + length (join crlf ?ls) + 4) ?buf = body"
    unfolding n b2 by (rule drop_exact)
  show ?thesis unfolding txt_parse_def f1
    by (simp only: option.case s1 status_line_ok [OF assms(1,2)] sum.case prod.case f2 s2 s3 header_block_fields [OF assms(3)])
qed

text \<open>
  C24. The two parsers agree with each other and with the text: for a response with a status line and at
  least one header, \<^verbatim>\<open>TxtResponse\<close> on the whole text and \<^verbatim>\<open>Response\<close> on a socket, in whatever
  segments the text arrives, find the version, status, reason and headers that were written,
  and both leave exactly the body.
\<close>

theorem two_parsers_agree:
  assumes "word ver" and "\<forall>w \<in> set info. word w" and "header_ok hs"
    and "prompt T r" and "T < r_clock r + timeout" and "resp_left r = response_text ver st info hs @ body"
  shows "\<exists>x r'. txt_parse (response_text ver st info hs @ body) = Inr x \<and> resp_begin timeout r = (Inr (), r')
    \<and> tx_version x = r_version r' \<and> tx_status x = r_status r' \<and> tx_info x = r_reason r' \<and> tx_headers x = r_headers r'
    \<and> tx_body x = resp_left r' \<and> tx_version x = ver \<and> tx_status x = int st \<and> tx_headers x = header_fields hs \<and> tx_body x = body"
  using txt_parse_spec [OF assms(1-3), of st body] begin_spec [OF assms(4,5,1-3,6)] by fastforce

definition resp_ex2 :: resp where
  "resp_ex2 = resp_init 0 [(1, Segment ''HTTP/1.1 200 O''), (2, Segment (''K'' @ crlf @ ''a: b'' @ crlf @ crlf @ ''xy''))]"

theorem two_parsers_agree_witness: "\<exists>r'. resp_begin 30 resp_ex2 = (Inr (), r') \<and> r_status r' = 200 \<and> r_headers r' = [(''A'', ''b'')]"
proof -
  have d: "dec 200 = ''200''" "header_fields [(''a'', ''b'')] = [(''A'', ''b'')]" by code_simp+
  have l: "resp_left resp_ex2 = response_text ''HTTP/1.1'' 200 [''OK''] [(''a'', ''b'')] @ ''xy''"
    by (simp add: resp_left_def resp_ex2_def resp_init_def response_text_def header_text_def crlf_def d)
  have w: "word ''HTTP/1.1''" "\<forall>w \<in> set [''OK'']. word w" "header_ok [(''a'', ''b'')]"
    by (simp_all add: word_def is_space_def header_ok_def)
  have p: "prompt 2 resp_ex2" "2 < r_clock resp_ex2 + 30" by (simp_all add: prompt_def resp_ex2_def resp_init_def)
  obtain x :: txt_response and r' where "resp_begin 30 resp_ex2 = (Inr (), r')" "tx_status x = r_status r'" "tx_headers x = r_headers r'"
    "tx_status x = int 200" "tx_headers x = header_fields [(''a'', ''b'')]"
    using two_parsers_agree [OF w p l] by blast
  then show ?thesis by (auto simp: d)
qed

text \<open>A header without a space after the colon loses the first character of its value.\<close>

lemma header_without_space: "CHR '':'' \<notin> set k \<Longrightarrow> put_header h (k @ CHR '':'' # c # v) = dset (py_title k) v h"
proof -
  assume k: "CHR '':'' \<notin> set k"
  then have "find_sub '':'' (k @ CHR '':'' # x) = Some (length k)" for x by (induction k) auto
  then have p: "py_find '':'' (k @ CHR '':'' # x) = int (length k)" for x by (simp add: py_find_def)
  have "py_slice 0 (int (length k)) (k @ CHR '':'' # c # v) = k" by (subst py_slice_nonneg) auto
  moreover have "py_slice (int (length k) + 2) (int (length (k @ CHR '':'' # c # v))) (k @ CHR '':'' # c # v) = v"
    by (subst py_slice_nonneg) (auto simp: nat_add_distrib)
  ultimately show ?thesis unfolding put_header_def p Let_def by simp
qed

text \<open>A read without a length gives what is buffered, or else what arrives next.\<close>

lemma read_none_spec:
  assumes "prompt T r" and "T < r_clock r + timeout" and "resp_left r \<noteq> []"
  shows "\<exists>d r'. read_plain None timeout r = (Inr d, r') \<and> d \<noteq> [] \<and> resp_left r = d @ resp_left r' \<and> prompt T r' \<and> same_head r r'
    \<and> r_clock r \<le> r_clock r'"
proof -
  let ?b = "drop (nat (r_start r)) (r_buf r)" and ?r = "r\<lparr>r_buf := [], r_start := 0\<rparr>" and ?e = "r_clock r + timeout"
  from assms(1) have s: "0 \<le> r_start r" "r_start r \<le> int (length (r_buf r))" and cl: "r_clock r \<le> T" by (auto simp: prompt_def)
  then have sb: "slice_bound (length (r_buf r)) (r_start r) = nat (r_start r)" by (auto simp: slice_bound_def)
  have pr: "prompt T ?r" "to_receive ?r = to_receive r" using assms(1) by (auto simp: prompt_def to_receive_def)
  show ?thesis
  proof (cases "?b = []")
    case False
    then have "int (length (r_buf r)) - r_start r > 0" using s by (auto simp: nat_less_iff not_le)
    then have "plain_loop 0 ?e (int (length (r_buf r)) - r_start r) ?b ?r = (Inr (int (length (r_buf r)) - r_start r, ?b), ?r)"
      by (subst plain_loop.simps) simp
    then show ?thesis using False pr(1) by (auto simp: read_plain_def sb resp_left_def same_head_def)
  next
    case True
    then have n: "int (length (r_buf r)) - r_start r = 0" using s by simp
    from True assms(3) have "to_receive ?r \<noteq> []" by (simp add: resp_left_def to_receive_def)
    from resp_recv_prompt [OF pr(1) assms(2) this, of 65535] obtain d r1 where
      rc: "resp_recv 65535 (?e - r_clock r) ?r = (Inr d, r1)" "d \<noteq> []" "to_receive ?r = d @ to_receive r1" "prompt T r1" "same_head ?r r1"
        "r_buf r1 = []" by auto
    have "plain_loop 0 ?e 0 [] ?r = (Inr (int (length d), d), r1)"
      using rc cl assms(2) by (subst plain_loop.simps) (simp add: plain_loop.simps)
    then have "read_plain None timeout r = (Inr d, r1)" using True n by (simp add: read_plain_def sb)
    moreover have "resp_left r = d @ resp_left r1" using True rc(3,6) pr(2) by (simp add: resp_left_def to_receive_def)
    ultimately show ?thesis using rc resp_recv_clock [OF rc(1)] by (auto simp: same_head_def)
  qed
qed

end
