(* ===== verification/Http1.thy ===== *)
theory Http1
  imports Http_Response
begin

text \<open>
  lib/noarch/front_base/http1.py: the HTTP/1.1 worker, one request at a time on one connection.

  The worker thread takes jobs from a queue; a step of it is one job.  The calls of the
  environment during a request (what the operating system took of each send, what arrives and
  when, the clock) are fields of \<open>h1_env\<close>.  The trace texts are left out.
\<close>

subsection \<open>State\<close>

record h1_cfg = worker_cfg +
  http1_first_ping_wait :: real
  http1_ping_interval :: real

datatype h1_job = Job task | PingJob | QuitJob

datatype h1_out =
    H1Sent bytes
  | H1Retry task
  | H1Left task
  | H1Idle
  | H1Recheck
  | H1Worker worker_out
  | H1Speed real nat nat

record h1 =
  h1_worker :: worker
  h1_config :: h1_cfg
  h1_host :: string
  h1_task :: "task option"
  h1_jobs :: "h1_job list"
  h1_onway :: bool
  h1_transfered :: nat
  h1_received :: nat
  h1_outs :: "h1_out list"

abbreviation h1_emit :: "h1_out list \<Rightarrow> h1 \<Rightarrow> h1" where
  "h1_emit os h \<equiv> h\<lparr>h1_outs := h1_outs h @ os\<rparr>"

abbreviation h1_upd :: "(worker \<Rightarrow> worker) \<Rightarrow> h1 \<Rightarrow> h1" where
  "h1_upd f h \<equiv> h\<lparr>h1_worker := f (h1_worker h)\<rparr>"

definition h1_init :: "h1_cfg \<Rightarrow> worker \<Rightarrow> string \<Rightarrow> h1" where
  "h1_init cfg w host = \<lparr>h1_worker = w\<lparr>w_http1 := True\<rparr>, h1_config = cfg, h1_host = host, h1_task = None, h1_jobs = [],
     h1_onway = False, h1_transfered = 0, h1_received = 0, h1_outs = [H1Idle]\<rparr>"

definition h1_request :: "task \<Rightarrow> h1 \<Rightarrow> h1" where
  "h1_request t h = (h1_upd (w_accept_task_update (\<lambda>_. False)) h)\<lparr>h1_task := Some t, h1_jobs := h1_jobs h @ [Job t]\<rparr>"

text \<open>Closing settles the task at hand; the base class closes the connection.\<close>

definition h1_close :: "string \<Rightarrow> h1 \<Rightarrow> h1" where
  "h1_close reason h =
     (let h1 = h\<lparr>h1_jobs := h1_jobs h @ [QuitJob]\<rparr>;
          h2 = (case h1_task h1 of
                  None \<Rightarrow> h1
                | Some t \<Rightarrow> h1_emit [if responsed t then H1Left (finish t) else H1Retry t] (h1\<lparr>h1_task := None\<rparr>));
          (os, w) = worker_close reason (h1_worker h2)
      in h1_emit (map H1Worker os) (h2\<lparr>h1_worker := w\<rparr>))"

subsection \<open>Sending\<close>

definition pack_headers :: "headers \<Rightarrow> bytes" where
  "pack_headers h = concat (map (\<lambda>(k, v). k @ '': '' @ v @ crlf) h)"

text \<open>The request writes two headers into the task, where a retry finds them.\<close>

definition with_headers :: "string \<Rightarrow> task \<Rightarrow> task" where
  "with_headers sock_host t = t\<lparr>t_headers :=
     dset ''Content-Length'' (dec (length (t_body t))) (dset ''Host'' (get_host sock_host (t_host t)) (t_headers t))\<rparr>"

definition request_text :: "task \<Rightarrow> bytes" where
  "request_text t = t_method t @ '' '' @ t_path t @ '' HTTP/1.1'' @ crlf @ pack_headers (t_headers t) @ crlf"

text \<open>
  The loop that sends the body: \<open>rs\<close> is what each call of \<^verbatim>\<open>send\<close> returns.  The result is the bytes
  that went out, and the end: \<open>None\<close> if the loop is still going when the list ends.
\<close>

fun h1_send_body :: "bytes \<Rightarrow> nat \<Rightarrow> (exn + nat) list \<Rightarrow> bytes list \<times> (exn + unit) option" where
  "h1_send_body body start [] = ([], if start < length body then None else Some (Inr ()))"
| "h1_send_body body start (x # rs) =
     (if \<not> start < length body then ([], Some (Inr ()))
      else case x of
        Inl e \<Rightarrow> ([], Some (Inl e))
      | Inr k \<Rightarrow>
          (let piece = slice start (start + min (length body - start) 65535) body;
               (out, r) = h1_send_body body (start + min k (length piece)) rs
           in (take k piece # out, r)))"

text \<open>The head is sent with one call, whose result is not looked at.\<close>

definition h1_send :: "task \<Rightarrow> exn + nat \<Rightarrow> (exn + nat) list \<Rightarrow> bytes list \<times> (exn + unit) option" where
  "h1_send t head rs =
     (case head of
        Inl e \<Rightarrow> ([], Some (Inl e))
      | Inr k \<Rightarrow> (let (out, r) = h1_send_body (t_body t) 0 rs in (take k (request_text t) # out, r)))"

subsection \<open>Reading the body\<close>

text \<open>
  Blocks read until the target is reached; every read gets the same time.  Without a target
  (no length, or 0) the loop ends only with a read that gives nothing or raises.
\<close>

partial_function (option) h1_read_loop ::
  "int \<Rightarrow> real \<Rightarrow> nat \<Rightarrow> bytes list \<Rightarrow> resp \<Rightarrow> ((exn + nat) \<times> bytes list \<times> resp) option" where
  "h1_read_loop target time_left got out r =
     (case resp_read None time_left r of (x, r1) \<Rightarrow>
        (case x of
           Inl e \<Rightarrow> Some (Inl e, out, r1)
         | Inr d \<Rightarrow>
             if d = [] then Some (Inr got, out, r1)
             else if target \<noteq> 0 \<and> int (got + length d) \<ge> target then Some (Inr (got + length d), out @ [d], r1)
             else h1_read_loop target time_left (got + length d) (out @ [d]) r1))"

subsection \<open>A request\<close>

record h1_env =
  q_start :: time
  q_head :: "exn + nat"
  q_sends :: "(exn + nat) list"
  q_sent_at :: time
  q_events :: "(time \<times> net_event) list"
  q_done_at :: time
  q_float :: "string \<Rightarrow> real option"
  q_speed :: "real \<Rightarrow> nat \<Rightarrow> exn + (real \<times> real)"

text \<open>\<open>xcost\<close> is \<open>- 1\<close> when the header is missing.\<close>

definition xcost_of :: "(string \<Rightarrow> real option) \<Rightarrow> headers \<Rightarrow> exn + real" where
  "xcost_of flt h = (case dget h ''X-Cost'' of
      None \<Rightarrow> Inr (- 1)
    | Some v \<Rightarrow> (case flt v of None \<Rightarrow> Inl ValueError | Some x \<Rightarrow> Inr x))"

definition h1_speed :: "h1_env \<Rightarrow> real \<Rightarrow> real \<Rightarrow> nat \<Rightarrow> nat \<Rightarrow> h1 \<Rightarrow> exn + h1" where
  "h1_speed env xcost road sent got h =
     (if xcost \<noteq> -1 \<and> road > 0 then
        (case q_speed env road (sent + got) of
           Inl e \<Rightarrow> Inl e
         | Inr (rtt, speed) \<Rightarrow>
             (case calculate_score (worker_cfg.truncate (h1_config h)) rtt speed [] (h1_worker h) of
                Inl e \<Rightarrow> Inl e
              | Inr (w, st) \<Rightarrow> Inr (h1_emit [H1Speed road sent got] (h\<lparr>h1_worker := w\<rparr>))))
      else Inr h)"

text \<open>After the body: the task is finished and the worker takes the next one.  An exception here ends the thread.\<close>

definition h1_done :: "h1_env \<Rightarrow> task \<Rightarrow> headers \<Rightarrow> nat \<Rightarrow> nat \<Rightarrow> h1 \<Rightarrow> exn option \<times> h1" where
  "h1_done env t hs req_len got h =
     (let h0 = h1_emit [H1Left (finish t)] (h\<lparr>h1_received := h1_received h + got\<rparr>);
          cost = q_done_at env - q_start env
      in case xcost_of (q_float env) hs of
           Inl e \<Rightarrow> (Some e, h0)
         | Inr xcost \<Rightarrow> (case h1_speed env xcost (cost - xcost) (length (t_body t)) got h0 of
             Inl e \<Rightarrow> (Some e, h0)
           | Inr h1 \<Rightarrow>
               (None, h1_emit [H1Idle] (h1_upd (\<lambda>w. w\<lparr>w_accept_task := True, w_processed := w_processed w + 1, w_last_recv := q_done_at env\<rparr>)
                  (h1\<lparr>h1_transfered := h1_transfered h1 + req_len + got, h1_task := None\<rparr>)))))"

text \<open>
  The answer that the caller of the task gets: status and headers, before the body is read.  The length
  that the code stores otherwise is a text, which \<^verbatim>\<open>Task.read\<close> never finds equal to its count of
  bytes; here it is \<open>None\<close>, for which the reads go on just the same.
\<close>

definition h1_answer :: "resp \<Rightarrow> task \<Rightarrow> task" where
  "h1_answer r t =
     (let t1 = t\<lparr>responsed := True, content_length := (if t_method t = ''HEAD'' \<or> r_status r \<in> {204, 304} then Some 0 else None)\<rparr>
      in if t_has_queue t then t1\<lparr>t_replies := t_replies t1 @ [\<lparr>rs_status = r_status r, rs_headers = r_headers r, rs_text = []\<rparr>]\<rparr> else t1)"

definition read_target :: "resp \<Rightarrow> task \<Rightarrow> int" where
  "read_target r t =
     (if t_method t = ''HEAD'' \<or> r_status r \<in> {204, 304} then 0
      else case int_of_text (r_length r) of Inl e \<Rightarrow> 0 | Inr n \<Rightarrow> n)"

text \<open>\<open>None\<close>: the request does not return (a send that never takes a byte, or a body without an end).\<close>

definition h1_receive :: "h1_env \<Rightarrow> task \<Rightarrow> h1 \<Rightarrow> (exn option \<times> h1) option" where
  "h1_receive env t h =
     (case resp_begin (t_timeout t) (resp_init (q_sent_at env) (q_events env)) of
        (Inl e, r) \<Rightarrow> Some (None, h1_close ''recv fail'' (h1_emit [H1Retry t] (h\<lparr>h1_task := None\<rparr>)))
      | (Inr u, r) \<Rightarrow>
          (let h1 = h1_upd (\<lambda>w. w\<lparr>w_last_recv := r_clock r\<rparr>) h;
               t1 = h1_answer r t; target = read_target r t
           in case h1_read_loop target (t_timeout t - (r_clock r - q_start env)) 0 [] r of
                None \<Rightarrow> None
              | Some (x, out, r1) \<Rightarrow>
                  (let t2 = foldl (\<lambda>t d. put_data d t) t1 out; h2 = h1\<lparr>h1_task := map_option (\<lambda>_. t2) (h1_task h1)\<rparr> in
                   case x of
                     Inl e \<Rightarrow> Some (None, h1_close ''read fail'' h2)
                   | Inr got \<Rightarrow>
                       if target > int got
                       then Some (h1_done env (finish t2) (r_headers r1) (length (request_text t)) got
                              (h1_close ''down fail'' (h1_emit [H1Recheck] h2)))
                       else Some (h1_done env t2 (r_headers r1) (length (request_text t)) got h2))))"

definition h1_request_task :: "h1_env \<Rightarrow> task \<Rightarrow> h1 \<Rightarrow> (exn option \<times> h1) option" where
  "h1_request_task env t0 h0 =
     (let h = h0\<lparr>h1_onway := True\<rparr>; t = with_headers (h1_host h) t0;
          (out, r) = h1_send t (q_head env) (q_sends env); h1 = h1_emit (map H1Sent out) h in
      case r of
        None \<Rightarrow> None
      | Some (Inl e) \<Rightarrow> Some (None, h1_close ''send fail'' (h1_emit [H1Retry t] (h1\<lparr>h1_task := None\<rparr>)))
      | Some (Inr u) \<Rightarrow> h1_receive env t h1)"

subsection \<open>Keeping the connection alive\<close>

record ping_env =
  g_sent :: "exn + nat"
  g_begin :: time
  g_events :: "(time \<times> net_event) list"
  g_end :: time

definition ping_text :: "string \<Rightarrow> bytes" where
  "ping_text host = ''GET / HTTP/1.1'' @ crlf @ ''Host: '' @ host @ crlf @ crlf"

definition head_request :: "ping_env \<Rightarrow> h1 \<Rightarrow> (bool \<times> h1) option" where
  "head_request env h =
     (if h1_host h = [] then Some (True, h)
      else let data = ping_text (h1_host h); idle = h\<lparr>h1_onway := False\<rparr> in
        case g_sent env of
          Inl e \<Rightarrow> Some (False, idle)
        | Inr k \<Rightarrow>
            let h1 = h1_emit [H1Sent (take k data)] idle in
            if k \<noteq> length data then Some (False, h1)
            else case resp_begin 5 (resp_init (g_begin env) (g_events env)) of
              (Inl e, r) \<Rightarrow> Some (False, h1)
            | (Inr u, r) \<Rightarrow>
                if r_status r \<noteq> 200 \<and> r_status r \<noteq> 404 then Some (False, h1)
                else case resp_readall 5 r of
                  None \<Rightarrow> None
                | Some (Inl e, r1) \<Rightarrow> Some (False, h1)
                | Some (Inr d, r1) \<Rightarrow> Some (True, h1_upd (\<lambda>w. w\<lparr>w_last_recv := g_end env\<rparr>) h1))"

text \<open>The three decisions of \<^verbatim>\<open>keep_alive_thread\<close>: the first ping, a later ping, closing an idle connection.\<close>

definition first_ping :: "h1 \<Rightarrow> h1" where
  "first_ping h =
     (if http1_first_ping_wait (h1_config h) \<noteq> 0 \<and> w_processed (h1_worker h) = 0
      then h\<lparr>h1_jobs := h1_jobs h @ [PingJob]\<rparr> else h)"

definition ping_round :: "time \<Rightarrow> h1 \<Rightarrow> h1" where
  "ping_round now h =
     (if \<not> h1_onway h \<and> now - w_last_recv (h1_worker h) > http1_ping_interval (h1_config h) - 3
      then h\<lparr>h1_jobs := h1_jobs h @ [PingJob]\<rparr> else h)"

definition idle_round :: "time \<Rightarrow> h1 \<Rightarrow> bool \<times> h1" where
  "idle_round now h =
     (if \<not> h1_onway h \<and> now - w_last_recv (h1_worker h) > http1_idle_time (h1_config h)
      then (False, h1_close ''idle timeout'' h) else (True, h))"

subsection \<open>The worker thread\<close>

text \<open>
  One job: whether the thread goes on, and the worker.  \<open>None\<close>: the job does not return.  \<open>now\<close> is
  the clock when the job is taken and \<open>now_end\<close> the clock when it is done.
\<close>

record job_env =
  j_now :: time
  j_end :: time
  j_request :: h1_env
  j_ping :: ping_env

definition work_job :: "job_env \<Rightarrow> h1_job \<Rightarrow> h1 \<Rightarrow> (bool \<times> h1) option" where
  "work_job env job h =
     (case job of
        QuitJob \<Rightarrow> Some (False, h1_upd (\<lambda>w. w\<lparr>w_accept_task := False, w_keep_running := False\<rparr>) h)
      | PingJob \<Rightarrow>
          (case head_request (j_ping env) h of
             None \<Rightarrow> None
           | Some (True, h1) \<Rightarrow> Some (True, h1)
           | Some (False, h1) \<Rightarrow> Some (False, h1_close ''keep alive'' (h1_emit [H1Recheck] h1)))
      | Job t \<Rightarrow>
          if j_now env - w_last_recv (h1_worker h) > http1_idle_time (h1_config h)
          then Some (False, h1_close (''inactive timeout '' @ dec_int (py_int (j_now env - w_last_recv (h1_worker h)))) (h\<lparr>h1_task := Some t\<rparr>))
          else case h1_request_task (j_request env) t h of
            None \<Rightarrow> None
          | Some (Some e, h1) \<Rightarrow> Some (False, h1)
          | Some (None, h1) \<Rightarrow>
              (let h2 = h1_upd (\<lambda>w. w\<lparr>w_last_send := j_now env\<rparr>) (h1\<lparr>h1_onway := False\<rparr>)
               in case is_life_end (worker_cfg.truncate (h1_config h2)) (j_end env) (h1_worker h2) of
                    Some reason \<Rightarrow> Some (False, h1_close (''life_end:'' @ reason) h2)
                  | None \<Rightarrow> Some (True, h2)))"

definition work_step :: "job_env \<Rightarrow> h1 \<Rightarrow> (bool \<times> h1) option" where
  "work_step env h =
     (if \<not> w_keep_running (h1_worker h) then Some (False, h)
      else case h1_jobs h of
        [] \<Rightarrow> None
      | job # jobs \<Rightarrow> work_job env job (h\<lparr>h1_jobs := jobs\<rparr>))"

subsection \<open>Sending in order\<close>

lemma send_body_spec:
  "h1_send_body body start rs = (out, Some (Inr u)) \<Longrightarrow> concat out = drop start body"
proof (induction rs arbitrary: start out)
  case (Cons x rs)
  show ?case
  proof (cases "start < length body")
    case True
    with Cons.prems obtain k where x: "x = Inr k" by (cases x) auto
    define piece where "piece = slice start (start + min (length body - start) 65535) body"
    have piece: "drop start body = piece @ drop (length piece) (drop start body)"
      unfolding piece_def slice_def by (metis append_eq_conv_conj append_take_drop_id)
    from Cons.prems True x obtain out' where out: "out = take k piece # out'"
      and r: "h1_send_body body (start + min k (length piece)) rs = (out', Some (Inr u))"
      by (auto simp: piece_def [symmetric] Let_def split: prod.splits)
    from Cons.IH [OF r] have "concat out' = drop (min k (length piece)) (drop start body)" by (simp add: add.commute)
    moreover have "take k piece = take (min k (length piece)) (drop start body)"
      by (subst piece) (simp add: min_def)
    ultimately show ?thesis unfolding out using append_take_drop_id [of "min k (length piece)" "drop start body"] by simp
  qed (use Cons.prems in auto)
qed (auto split: if_splits)

lemma h1_send_spec:
  assumes "h1_send t (Inr k) rs = (out, Some (Inr u))" and "k = length (request_text t)"
  shows "concat out = request_text t @ t_body t"
  using assms send_body_spec [of "t_body t" 0 rs] by (auto simp: h1_send_def split: prod.splits)

lemma read_loop_spec:
  assumes "prompt T r" and "T < r_clock r + time_left" and "\<not> r_chunked r" and "resp_left r = body" and "body \<noteq> []"
    and "target = int (got + length body)"
  shows "\<exists>out' r'. h1_read_loop target time_left got out r = Some (Inr (got + length body), out @ out', r') \<and> concat out' = body
    \<and> [] \<notin> set out' \<and> same_head r r'"
  using assms
proof (induction "length body" arbitrary: got out r body rule: less_induct)
  case less
  from read_none_spec [OF less.prems(1,2)] less.prems(4,5) obtain d r1 where
    r1: "read_plain None time_left r = (Inr d, r1)" "d \<noteq> []" "body = d @ resp_left r1" "prompt T r1" "same_head r r1" "r_clock r \<le> r_clock r1"
    by auto
  have read: "resp_read None time_left r = (Inr d, r1)" using less.prems(3) r1(1) by (simp add: resp_read_def)
  show ?case
  proof (cases "resp_left r1 = []")
    case True
    moreover have "target \<noteq> 0" using less.prems(5,6) by (cases body) auto
    ultimately show ?thesis using r1 less.prems(5,6)
      by (subst h1_read_loop.simps) (auto simp: read intro!: exI [of _ "[d]"])
  next
    case False
    have "length (resp_left r1) < length body" using r1(2,3) by simp
    moreover have "T < r_clock r1 + time_left" using r1(6) less.prems(2) by simp
    moreover have "\<not> r_chunked r1" using r1(5) less.prems(3) by (simp add: same_head_def)
    moreover have "target = int (got + length d + length (resp_left r1))" using less.prems(6) r1(3) by simp
    ultimately obtain out' r' where "h1_read_loop target time_left (got + length d) (out @ [d]) r1
        = Some (Inr (got + length d + length (resp_left r1)), (out @ [d]) @ out', r')"
      "concat out' = resp_left r1" "[] \<notin> set out'" "same_head r1 r'"
      using less.hyps [OF _ r1(4)] False by blast
    moreover have "\<not> target \<le> int (got + length d)" using less.prems(6) r1(3) False by simp
    ultimately show ?thesis using r1(2,3,5)
      by (subst h1_read_loop.simps) (auto simp: read intro!: exI [of _ "d # out'"] intro: same_head_trans)
  qed
qed

lemma put_all_queue: "body_queue (foldl (\<lambda>t d. put_data d t) t ds) = body_queue t @ ds"
  by (induction ds arbitrary: t) (auto simp: put_data_def)

lemma put_all_keeps: "t_replies (foldl (\<lambda>t d. put_data d t) t ds) = t_replies t \<and> finished (foldl (\<lambda>t d. put_data d t) t ds) = finished t
    \<and> responsed (foldl (\<lambda>t d. put_data d t) t ds) = responsed t"
  by (induction ds arbitrary: t) (auto simp: put_data_def)

lemma finish_open: "\<not> finished t \<Longrightarrow> t_replies (finish t) = t_replies t \<and> body_queue (finish t) = body_queue t @ [[]]"
  by (simp add: finish_def put_data_def)

lemma answer_keeps: "finished (h1_answer r t) = finished t \<and> body_queue (h1_answer r t) = body_queue t \<and> responsed (h1_answer r t)
    \<and> (t_has_queue t \<longrightarrow> t_replies (h1_answer r t) = t_replies t @ [\<lparr>rs_status = r_status r, rs_headers = r_headers r, rs_text = []\<rparr>])"
  by (simp add: h1_answer_def Let_def)

subsection \<open>A whole exchange\<close>

text \<open>An answer with a length and its body arrives in time, in whatever segments.\<close>

definition answers_with :: "h1_env \<Rightarrow> task \<Rightarrow> string \<Rightarrow> nat \<Rightarrow> string list \<Rightarrow> (string \<times> string) list \<Rightarrow> bytes \<Rightarrow> bool" where
  "answers_with env t ver st info hs body \<longleftrightarrow>
     (let r = resp_init (q_sent_at env) (q_events env); h = header_fields hs in
      word ver \<and> (\<forall>w \<in> set info. word w) \<and> header_ok hs \<and> resp_left r = response_text ver st info hs @ body
      \<and> q_start env \<le> q_sent_at env \<and> (\<exists>T. prompt T r \<and> T < q_start env + t_timeout t)
      \<and> \<not> contains ''chunked'' (getheader ''Transfer-Encoding'' [] h) \<and> dget h ''X-Cost'' = None)"

lemma answers_begin:
  assumes "answers_with env t ver st info hs body"
  shows "\<exists>T r. resp_begin (t_timeout t) (resp_init (q_sent_at env) (q_events env)) = (Inr (), r) \<and> resp_left r = body \<and> prompt T r
     \<and> T < q_start env + t_timeout t \<and> r_status r = int st \<and> r_headers r = header_fields hs
     \<and> r_length r = getheader ''content-length'' [] (header_fields hs) \<and> \<not> r_chunked r"
proof -
  let ?r = "resp_init (q_sent_at env) (q_events env)"
  from assms obtain T where a: "word ver" "\<forall>w \<in> set info. word w" "header_ok hs" "resp_left ?r = response_text ver st info hs @ body"
    "prompt T ?r" "T < q_start env + t_timeout t" "q_start env \<le> q_sent_at env"
    "\<not> contains ''chunked'' (getheader ''Transfer-Encoding'' [] (header_fields hs))"
    by (auto simp: answers_with_def Let_def)
  have "r_clock ?r = q_sent_at env" "\<not> r_chunked ?r" by (simp_all add: resp_init_def)
  then have "T < r_clock ?r + t_timeout t" using a(6,7) by simp
  from begin_spec [OF a(5) this a(1-4)] a(6,8) \<open>\<not> r_chunked ?r\<close> show ?thesis by blast
qed

text \<open>
  C25. A whole exchange over HTTP/1.1.  If the sends go through and the answer arrives in time with a
  length and a body of that length, then, however sends and segments are cut, the wire carries
  the request and its body, the caller gets one answer with the status and headers that were
  sent, the body is put into the task piece by piece with the end mark last, and the worker
  accepts the next task.
\<close>

theorem h1_exchange:
  assumes "h1_send (with_headers (h1_host h) t) (q_head env) (q_sends env) = (sent, Some (Inr u))"
    and "q_head env = Inr (length (request_text (with_headers (h1_host h) t)))"
    and "answers_with env t ver st info hs body" and "body \<noteq> []" and "t_method t \<noteq> ''HEAD''" and "st \<notin> {204, 304}"
    and "int_of_text (getheader ''content-length'' [] (header_fields hs)) = Inr (int (length body))" and "\<not> finished t" and "t_has_queue t"
  shows "\<exists>h' t'. h1_request_task env t h = Some (None, h') \<and> h1_outs h' = h1_outs h @ map H1Sent sent @ [H1Left t', H1Idle]
    \<and> concat sent = request_text (with_headers (h1_host h) t) @ t_body t
    \<and> t_replies t' = t_replies t @ [\<lparr>rs_status = int st, rs_headers = header_fields hs, rs_text = []\<rparr>]
    \<and> (\<exists>ds. body_queue t' = body_queue t @ ds @ [[]] \<and> concat ds = body \<and> [] \<notin> set ds)
    \<and> w_accept_task (h1_worker h') \<and> w_processed (h1_worker h') = w_processed (h1_worker h) + 1"
proof -
  let ?t = "with_headers (h1_host h) t"
  have same: "t_timeout ?t = t_timeout t" "t_method ?t = t_method t" "t_body ?t = t_body t" "t_has_queue ?t = t_has_queue t"
    "t_replies ?t = t_replies t" "body_queue ?t = body_queue t" "finished ?t = finished t"
    by (simp_all add: with_headers_def)
  have wire: "concat sent = request_text ?t @ t_body t"
    using h1_send_spec [OF assms(1) [unfolded assms(2)] refl] same by simp
  from answers_begin [OF assms(3)] obtain T r where
    r: "resp_begin (t_timeout t) (resp_init (q_sent_at env) (q_events env)) = (Inr (), r)" "resp_left r = body" "prompt T r"
      "T < q_start env + t_timeout t" "r_status r = int st" "r_headers r = header_fields hs"
      "r_length r = getheader ''content-length'' [] (header_fields hs)" "\<not> r_chunked r" by blast
  let ?target = "read_target r ?t" and ?left = "t_timeout t - (r_clock r - q_start env)"
  have st: "int st \<noteq> 204" "int st \<noteq> 304" using assms(6) by auto
  have tg: "?target = int (0 + length body)" using assms(5,7) st r by (simp add: read_target_def same)
  have "T < r_clock r + ?left" using r(4) by simp
  from read_loop_spec [OF r(3) this r(8,2) assms(4) tg, of "[]"] obtain ds r1 where
    l: "h1_read_loop ?target ?left 0 [] r = Some (Inr (length body), ds, r1)" "concat ds = body" "[] \<notin> set ds" "same_head r r1" by auto
  let ?t2 = "foldl (\<lambda>t d. put_data d t) (h1_answer r ?t) ds"
  let ?h = "h1_upd (\<lambda>w. w\<lparr>w_last_recv := r_clock r\<rparr>) (h1_emit (map H1Sent sent) (h\<lparr>h1_onway := True\<rparr>))"
  let ?h2 = "?h\<lparr>h1_task := map_option (\<lambda>_. ?t2) (h1_task ?h)\<rparr>"
  have "h1_request_task env t h = Some (h1_done env ?t2 (r_headers r1) (length (request_text ?t)) (length body) ?h2)"
    using assms(1) r(1) l(1) tg by (simp add: h1_request_task_def h1_receive_def same Let_def del: int_plus)
  moreover have "r_headers r1 = header_fields hs" using l(4) r(6) by (simp add: same_head_def)
  moreover have "dget (header_fields hs) ''X-Cost'' = None" using assms(3) by (simp add: answers_with_def Let_def)
  ultimately have req: "h1_request_task env t h = Some (None, h1_emit [H1Idle] (h1_upd (\<lambda>w. w\<lparr>w_accept_task := True, w_processed := w_processed w + 1, w_last_recv := q_done_at env\<rparr>)
       ((h1_emit [H1Left (finish ?t2)] (?h2\<lparr>h1_received := h1_received ?h2 + length body\<rparr>))
         \<lparr>h1_transfered := h1_transfered ?h2 + length (request_text ?t) + length body, h1_task := None\<rparr>)))"
    by (simp add: h1_done_def xcost_of_def h1_speed_def)
  have fin: "\<not> finished ?t2" using assms(8) by (simp add: put_all_keeps answer_keeps same)
  have "t_replies (finish ?t2) = t_replies t @ [\<lparr>rs_status = int st, rs_headers = header_fields hs, rs_text = []\<rparr>]"
    using assms(9) r(5,6) finish_open [OF fin] by (simp add: put_all_keeps answer_keeps same)
  moreover have "body_queue (finish ?t2) = body_queue t @ ds @ [[]]"
    using finish_open [OF fin] by (simp add: put_all_queue answer_keeps same)
  ultimately show ?thesis unfolding req using wire l(2,3) by auto
qed

definition req_ex :: task where
  "req_ex = task_init ''GET'' ''h'' ''/'' [] ''b'' True 10 0"

definition h1_ex :: h1 where
  "h1_ex = h1_init (worker_cfg.extend \<lparr>connection_max_life = 60, expect_package_size = 0, max_continue_fail = 0, http1_max_process_tasks = 10,
     http2_max_process_tasks = 10, http1_idle_time = 60, http2_idle_ping_min_interval = 5, http2_max_concurrent = 20,
     http2_status_to_close = []\<rparr> \<lparr>http1_first_ping_wait = 0, http1_ping_interval = 0\<rparr>)
     \<lparr>w_http1 = False, w_adjust = 0, w_accept_task = True, w_keep_running = True, w_processed = 0, w_score = 0,
      w_continue_fail = 0, w_last_request = 0, w_last_recv = 0, w_last_send = 0, w_life_end = 60\<rparr> ''h''"

definition h1_env_ex :: "string \<Rightarrow> h1_env" where
  "h1_env_ex rest = \<lparr>q_start = 0, q_head = Inr (length (request_text (with_headers ''h'' req_ex))), q_sends = [Inr 1], q_sent_at = 1,
     q_events = [(2, Segment ''HTTP/1.1 20''), (3, Segment rest)], q_done_at = 4, q_float = (\<lambda>s. None), q_speed = (\<lambda>c n. Inr (1, 1))\<rparr>"

lemma h1_ex_send: "h1_send (with_headers (h1_host h1_ex) req_ex) (q_head (h1_env_ex rest)) (q_sends (h1_env_ex rest))
    = ([request_text (with_headers ''h'' req_ex), ''b''], Some (Inr ()))"
  by (simp add: h1_send_def h1_env_ex_def h1_ex_def h1_init_def req_ex_def task_init_def with_headers_def slice_def)

lemma h1_ex_answers:
  assumes "rest = ''0 OK'' @ crlf @ ''Content-Length: '' @ len @ crlf @ crlf @ body" and "CHR 0x0D \<notin> set len"
  shows "answers_with (h1_env_ex rest) req_ex ''HTTP/1.1'' 200 [''OK''] [(''Content-Length'', len)] body"
proof -
  have d: "dec 200 = ''200''" by code_simp
  have t: "py_title ''Content-Length'' = ''Content-Length''" "py_title ''Transfer-Encoding'' = ''Transfer-Encoding''" by code_simp+
  have c: "\<not> contains ''chunked'' []" by (simp add: contains_def)
  let ?r = "resp_init (q_sent_at (h1_env_ex rest)) (q_events (h1_env_ex rest))"
  have "prompt 3 ?r" by (simp add: prompt_def resp_init_def h1_env_ex_def assms(1))
  moreover have "3 < q_start (h1_env_ex rest) + t_timeout req_ex" by (simp add: h1_env_ex_def req_ex_def task_init_def)
  moreover have "resp_left ?r = response_text ''HTTP/1.1'' 200 [''OK''] [(''Content-Length'', len)] @ body"
    by (simp add: resp_left_def resp_init_def h1_env_ex_def assms(1) response_text_def header_text_def d)
  ultimately show ?thesis
    using assms(2) by (auto simp: answers_with_def Let_def word_def is_space_def header_ok_def header_fields_def t getheader_def dget_or_def c h1_env_ex_def)
qed

theorem h1_exchange_witness:
  "\<exists>h'. h1_request_task (h1_env_ex (''0 OK'' @ crlf @ ''Content-Length: '' @ ''2'' @ crlf @ crlf @ ''hi'')) req_ex h1_ex = Some (None, h')
     \<and> w_processed (h1_worker h') = 1"
proof -
  let ?env = "h1_env_ex (''0 OK'' @ crlf @ ''Content-Length: '' @ ''2'' @ crlf @ crlf @ ''hi'')"
  have a: "answers_with ?env req_ex ''HTTP/1.1'' 200 [''OK''] [(''Content-Length'', ''2'')] ''hi''"
    by (rule h1_ex_answers) simp_all
  have l: "int_of_text (getheader ''content-length'' [] (header_fields [(''Content-Length'', ''2'')])) = Inr (int (length ''hi''))"
    by code_simp
  have q: "q_head ?env = Inr (length (request_text (with_headers (h1_host h1_ex) req_ex)))"
    by (simp add: h1_env_ex_def h1_ex_def h1_init_def)
  have n: "t_method req_ex \<noteq> ''HEAD''" "\<not> finished req_ex" "t_has_queue req_ex" by (simp_all add: req_ex_def task_init_def)
  have p: "w_processed (h1_worker h1_ex) = 0" by (simp add: h1_ex_def h1_init_def)
  from h1_exchange [OF h1_ex_send q a _ n(1) _ l n(2,3)] p show ?thesis by auto
qed

text \<open>
  An answer that has no body by definition (to HEAD, or with status 204 or 304) costs the
  connection: after handing the answer to the caller the worker goes on reading with no length
  to stop at, waits for bytes that never come, and closes itself with "read fail".
\<close>

theorem bodyless_answer_closes:
  assumes "h1_send (with_headers (h1_host h) t) (q_head env) (q_sends env) = (sent, Some (Inr u))"
    and "answers_with env t ver st info hs []" and "t_method t = ''HEAD'' \<or> st \<in> {204, 304}" and "w_keep_running (h1_worker h)"
  shows "\<exists>h'. h1_request_task env t h = Some (None, h') \<and> \<not> w_keep_running (h1_worker h') \<and> H1Worker (SockClosed ''read fail'') \<in> set (h1_outs h')"
proof -
  let ?t = "with_headers (h1_host h) t"
  have same: "t_timeout ?t = t_timeout t" "t_method ?t = t_method t" by (simp_all add: with_headers_def)
  from answers_begin [OF assms(2)] obtain T r where
    r: "resp_begin (t_timeout t) (resp_init (q_sent_at env) (q_events env)) = (Inr (), r)" "resp_left r = []" "prompt T r"
      "T < q_start env + t_timeout t" "r_status r = int st" "\<not> r_chunked r" by blast
  let ?left = "t_timeout t - (r_clock r - q_start env)"
  have ev: "r_events r = []" using r(2,3) by (cases "r_events r") (auto simp: prompt_def resp_left_def)
  have buf: "int (length (r_buf r)) - r_start r = 0" "0 \<le> r_start r" using r(2,3) by (auto simp: prompt_def resp_left_def)
  have "0 < ?left" using r(3,4) by (auto simp: prompt_def)
  then have "plain_loop 0 (r_clock r + ?left) 0 (drop (slice_bound (length (r_buf r)) (r_start r)) (r_buf r)) (r\<lparr>r_buf := [], r_start := 0\<rparr>)
      = (Inl (PyException ''recv timeout''), r\<lparr>r_buf := [], r_start := 0, r_clock := r_clock r + ?left\<rparr>)"
    using ev by (subst plain_loop.simps) (simp add: resp_recv_def)
  then have "\<exists>r1. resp_read None ?left r = (Inl (PyException ''recv timeout''), r1)"
    using r(6) buf by (simp add: resp_read_def read_plain_def)
  then obtain r1 where rd: "resp_read None ?left r = (Inl (PyException ''recv timeout''), r1)" by blast
  have tg: "read_target r ?t = 0" using assms(3) r(5) by (auto simp: read_target_def same)
  have "h1_read_loop 0 ?left 0 [] r = Some (Inl (PyException ''recv timeout''), [], r1)"
    by (subst h1_read_loop.simps) (simp add: rd)
  then show ?thesis using assms(1,4) r(1) tg
    by (auto simp: h1_request_task_def h1_receive_def same Let_def h1_close_def worker_close_def split: option.splits)
qed

theorem bodyless_answer_closes_witness:
  "\<exists>h'. h1_request_task (h1_env_ex (''0 OK'' @ crlf @ ''Content-Length: '' @ ''2'' @ crlf @ crlf)) (req_ex\<lparr>t_method := ''HEAD''\<rparr>) h1_ex = Some (None, h')
     \<and> \<not> w_keep_running (h1_worker h')"
proof -
  let ?env = "h1_env_ex (''0 OK'' @ crlf @ ''Content-Length: '' @ ''2'' @ crlf @ crlf)" and ?t = "req_ex\<lparr>t_method := ''HEAD''\<rparr>"
  have "answers_with ?env req_ex ''HTTP/1.1'' 200 [''OK''] [(''Content-Length'', ''2'')] []"
    by (rule h1_ex_answers) simp_all
  then have a: "answers_with ?env ?t ''HTTP/1.1'' 200 [''OK''] [(''Content-Length'', ''2'')] []"
    by (simp add: answers_with_def)
  have "\<exists>sent. h1_send (with_headers (h1_host h1_ex) ?t) (q_head ?env) (q_sends ?env) = (sent, Some (Inr ()))"
    by (simp add: h1_send_def h1_env_ex_def req_ex_def task_init_def with_headers_def slice_def)
  then obtain sent where s: "h1_send (with_headers (h1_host h1_ex) ?t) (q_head ?env) (q_sends ?env) = (sent, Some (Inr ()))" by blast
  have "w_keep_running (h1_worker h1_ex)" by (simp add: h1_ex_def h1_init_def)
  from bodyless_answer_closes [OF s a _ this] show ?thesis by auto
qed

subsection \<open>Closing\<close>

lemma h1_close_settles: "h1_task (h1_close reason h) = None \<and> \<not> w_keep_running (h1_worker (h1_close reason h))"
  by (auto simp: h1_close_def worker_close_def Let_def split: option.split)

lemma h1_close_once: "h1_task h = None \<Longrightarrow> \<not> w_keep_running (h1_worker h) \<Longrightarrow> h1_outs (h1_close reason h) = h1_outs h"
  by (simp add: h1_close_def worker_close_def)

end
