(* ===== verification/Http_Dispatcher.thy ===== *)
theory Http_Dispatcher
  imports Http1 Http2_Invariant
begin

text \<open>
  lib/noarch/front_base/http_dispatcher.py: the dispatcher that gives the tasks of a front to its
  HTTP/1.1 and HTTP/2 workers.

  The dispatcher sees a worker through the fields of \<open>dworker\<close>: the state of the base class, the
  score, whether a request is on its way, and start and time limit of the task of every open
  stream.  What a worker does with a task or a close is the business of the worker theories;
  here it is an output.  The condition variables are outputs as well, and waiting for a worker
  is a list of what the other threads did meanwhile.
\<close>

subsection \<open>State\<close>

record disp_cfg =
  d_wcfg :: worker_cfg
  max_workers :: nat
  min_workers :: nat
  min_idle_workers :: nat
  max_idle_workers :: nat
  work_min_idle_time :: real
  work_max_score :: real
  target_concurrent :: nat
  check_speed_interval :: real
  rtt_download_size :: nat
  speed_download_size :: nat
  worker_idle_time :: real
  max_task_num :: nat
  score_factor :: real
  connect_all_on_startup :: bool

record dworker =
  dw_id :: nat
  dw_ip :: string
  dw_base :: worker
  dw_score :: real
  dw_onway :: bool
  dw_streams :: "(time \<times> real) list"

datatype d_out =
    TriggerCreate
  | WakeWaiter
  | SocketClosed nat
  | WorkerClose nat string
  | GiveTask nat task
  | PingSpeed nat nat
  | SendPing nat
  | TaskSettled task

record d_stat =
  st_rtt :: real
  st_sent :: int
  st_received :: int

record disp =
  d_cfg :: disp_cfg
  d_workers :: "dworker list"
  d_h1_num :: int
  d_h2_num :: int
  d_running :: bool
  d_queue :: "task option list"
  d_session_host :: "string option"
  d_last_host :: "string option"
  d_last_cleanup :: time
  d_task_count :: int
  d_success_num :: nat
  d_fail_num :: nat
  d_continue_fail :: nat
  d_last_fail :: time
  d_last_request :: time
  d_last_get_score :: time
  d_connect_all :: bool
  d_ping_active :: "(string, time) dict"
  d_rtts :: "real list"
  d_total_sent :: int
  d_total_received :: int
  d_last_sent :: int
  d_last_received :: int
  d_second_stats :: "d_stat list"
  d_second_stat :: d_stat
  d_minute_stat :: d_stat
  d_last_statistic :: time
  d_outs :: "d_out list"

abbreviation d_emit :: "d_out list \<Rightarrow> disp \<Rightarrow> disp" where
  "d_emit os d \<equiv> d\<lparr>d_outs := d_outs d @ os\<rparr>"

definition no_stat :: d_stat where
  "no_stat = \<lparr>st_rtt = 0, st_sent = 0, st_received = 0\<rparr>"

definition start_connect_all_ips :: "disp \<Rightarrow> disp" where
  "start_connect_all_ips d = d_emit [TriggerCreate] (d\<lparr>d_connect_all := True\<rparr>)"

definition disp_init :: "disp_cfg \<Rightarrow> time \<Rightarrow> disp" where
  "disp_init cfg now =
     (let d = \<lparr>d_cfg = cfg, d_workers = [], d_h1_num = 0, d_h2_num = 0, d_running = True, d_queue = [], d_session_host = None,
        d_last_host = None, d_last_cleanup = 0, d_task_count = 0, d_success_num = 0, d_fail_num = 0, d_continue_fail = 0,
        d_last_fail = 0, d_last_request = now, d_last_get_score = 0, d_connect_all = False, d_ping_active = [], d_rtts = [],
        d_total_sent = 0, d_total_received = 0, d_last_sent = 0, d_last_received = 0, d_second_stats = [],
        d_second_stat = no_stat, d_minute_stat = no_stat, d_last_statistic = now, d_outs = []\<rparr>
      in if connect_all_on_startup cfg then start_connect_all_ips d else d)"

subsection \<open>Closing workers\<close>

definition dw_life_end :: "disp \<Rightarrow> time \<Rightarrow> dworker \<Rightarrow> string option" where
  "dw_life_end d now w = is_life_end (d_wcfg (d_cfg d)) now (dw_base w)"

text \<open>\<^verbatim>\<open>list.remove\<close> takes the first entry that is this worker.\<close>

definition without :: "nat \<Rightarrow> dworker list \<Rightarrow> dworker list" where
  "without i ws = filter (\<lambda>w. dw_id w \<noteq> i) ws"

definition close_cb :: "dworker \<Rightarrow> disp \<Rightarrow> disp" where
  "close_cb w d =
     (if dw_id w \<notin> dw_id ` set (d_workers d) then d
      else let d1 = d\<lparr>d_workers := without (dw_id w) (d_workers d)\<rparr> in
        if w_http1 (dw_base w) then d1\<lparr>d_h1_num := d_h1_num d1 - 1\<rparr> else d1\<lparr>d_h2_num := d_h2_num d1 - 1\<rparr>)"

text \<open>\<^verbatim>\<open>worker.close\<close> calls back, unless the worker is closed already.\<close>

definition worker_close_call :: "string \<Rightarrow> dworker \<Rightarrow> disp \<Rightarrow> disp" where
  "worker_close_call reason w d =
     (let d1 = d_emit [WorkerClose (dw_id w) reason] d in if w_keep_running (dw_base w) then close_cb w d1 else d1)"

definition life_end_due :: "time \<Rightarrow> disp \<Rightarrow> dworker \<Rightarrow> bool" where
  "life_end_due now d w \<longleftrightarrow> dw_life_end d now w \<noteq> None
     \<and> ((w_http1 (dw_base w) \<and> \<not> dw_onway w) \<or> (\<forall>(start, limit) \<in> set (dw_streams w). \<not> start + limit > now))"

definition remove_life_end_workers :: "time \<Rightarrow> disp \<Rightarrow> disp" where
  "remove_life_end_workers now d0 =
     foldl (\<lambda>d w. case dw_life_end d now w of
          None \<Rightarrow> d
        | Some reason \<Rightarrow> (let d1 = worker_close_call (''life end:'' @ reason) w d in d1\<lparr>d_workers := without (dw_id w) (d_workers d1)\<rparr>))
       d0 (filter (life_end_due now d0) (d_workers d0))"

definition close_all_worker :: "string \<Rightarrow> disp \<Rightarrow> disp" where
  "close_all_worker reason d =
     (let d1 = foldl (\<lambda>d w. if w_accept_task (dw_base w) then worker_close_call reason w d else d) d (d_workers d)
      in d1\<lparr>d_workers := [], d_h1_num := 0, d_h2_num := 0\<rparr>)"

definition disp_stop :: "disp \<Rightarrow> disp" where
  "disp_stop d = close_all_worker ''stop'' (d\<lparr>d_running := False, d_queue := d_queue d @ [None]\<rparr>)"

text \<open>One turn of \<^verbatim>\<open>_remove_slowest_worker\<close>: the idle workers with a score below 1000, and the slowest idle one above 9999.\<close>

fun scan_slowest :: "dworker list \<Rightarrow> nat \<Rightarrow> real \<Rightarrow> dworker option \<Rightarrow> nat \<times> dworker option" where
  "scan_slowest [] idle worst b = (idle, b)"
| "scan_slowest (w # ws) idle worst b =
     (if \<not> w_accept_task (dw_base w) then scan_slowest ws idle worst b
      else if \<not> w_http1 (dw_base w) \<and> dw_streams w \<noteq> [] then scan_slowest ws idle worst b
      else let idle' = (if dw_score w < 1000 then idle + 1 else idle) in
        if dw_score w > worst then scan_slowest ws idle' (dw_score w) (Some w) else scan_slowest ws idle' worst b)"

definition slowest_step :: "disp \<Rightarrow> disp option" where
  "slowest_step d =
     (let (idle, b) = scan_slowest (d_workers d) 0 9999 None; n = length (d_workers d); c = d_cfg d in
      if idle < max_idle_workers c \<or> int idle < py_int (real n * (3 / 10)) \<or> n < min_workers c then None
      else case b of None \<Rightarrow> None | Some w \<Rightarrow> Some (close_cb w d))"

lemma scan_slowest_mem: "scan_slowest ws idle worst b = (k, Some w) \<Longrightarrow> (w \<in> set ws \<and> w_accept_task (dw_base w) \<and> dw_score w > worst
     \<and> (w_http1 (dw_base w) \<or> dw_streams w = [])) \<or> b = Some w"
  by (induction ws arbitrary: idle worst b) (fastforce split: if_splits simp: Let_def)+

lemma close_cb_less: "w \<in> set (d_workers d) \<Longrightarrow> length (d_workers (close_cb w d)) < length (d_workers d)"
proof -
  assume w: "w \<in> set (d_workers d)"
  then have "length (without (dw_id w) (d_workers d)) < length (d_workers d)"
    unfolding without_def by (intro length_filter_less) auto
  with w show ?thesis by (auto simp: close_cb_def Let_def)
qed

lemma slowest_step_less: "slowest_step d = Some d' \<Longrightarrow> length (d_workers d') < length (d_workers d)"
  by (auto simp: slowest_step_def Let_def split: prod.splits if_splits option.splits dest!: scan_slowest_mem intro: close_cb_less)

function remove_slowest_worker :: "disp \<Rightarrow> disp" where
  "remove_slowest_worker d = (case slowest_step d of None \<Rightarrow> d | Some d' \<Rightarrow> remove_slowest_worker d')"
  by auto
termination
  by (relation "measure (\<lambda>d. length (d_workers d))") (auto dest: slowest_step_less)

declare remove_slowest_worker.simps [simp del]

subsection \<open>Choosing a worker\<close>

text \<open>What the scan over the workers collects: best worker so far with its score, the top score, good and idle workers.\<close>

record pick =
  p_top :: real
  p_best_score :: real
  p_best :: "dworker option"
  p_good :: nat
  p_idle :: nat

definition pick_init :: pick where
  "pick_init = \<lparr>p_top = 99999999, p_best_score = 99999999, p_best = None, p_good = 0, p_idle = 0\<rparr>"

definition pick_one :: "worker_cfg \<Rightarrow> time \<Rightarrow> dworker \<Rightarrow> pick \<Rightarrow> pick" where
  "pick_one cfg now w p0 =
     (let sc = dw_score w; p = (if p_top p0 > sc then p0\<lparr>p_top := sc\<rparr> else p0) in
      if is_life_end cfg now (dw_base w) \<noteq> None then p
      else let p1 = p\<lparr>p_good := p_good p + 1\<rparr> in
        if \<not> w_accept_task (dw_base w) then p1
        else let p2 = (if w_http1 (dw_base w) \<or> dw_streams w = [] then p1\<lparr>p_idle := p_idle p1 + 1\<rparr> else p1)
          in if p_best_score p2 > sc then p2\<lparr>p_best_score := sc, p_best := Some w\<rparr> else p2)"

definition pick_worker :: "worker_cfg \<Rightarrow> time \<Rightarrow> dworker list \<Rightarrow> pick" where
  "pick_worker cfg now ws = foldl (\<lambda>p w. pick_one cfg now w p) pick_init ws"

text \<open>Whether another connection is wanted.\<close>

definition wants_more :: "disp_cfg \<Rightarrow> time \<Rightarrow> nat \<Rightarrow> pick \<Rightarrow> bool" where
  "wants_more c now n p \<longleftrightarrow> p_good p < max_workers c \<and>
     (case p_best p of
        None \<Rightarrow> True
      | Some w \<Rightarrow> p_idle p < min_idle_workers c \<or> n < min_workers c
          \<or> \<bar>now - w_last_recv (dw_base w)\<bar> < work_min_idle_time c \<or> p_best_score p > work_max_score c
          \<or> (\<not> w_http1 (dw_base w) \<and> length (dw_streams w) \<ge> target_concurrent c)
          \<or> (p_best_score p > p_top p \<and> w_http1 (dw_base w)))"

definition cleanup :: "time \<Rightarrow> disp \<Rightarrow> disp" where
  "cleanup now d = (if now - d_last_cleanup d > 5 then (remove_life_end_workers now d)\<lparr>d_last_cleanup := now\<rparr> else d)"

definition get_worker_round :: "time \<Rightarrow> disp \<Rightarrow> dworker option \<times> disp" where
  "get_worker_round now d0 =
     (let d = cleanup now d0; p = pick_worker (d_wcfg (d_cfg d)) now (d_workers d)
      in (p_best p, if wants_more (d_cfg d) now (length (d_workers d)) p then d_emit [TriggerCreate] d else d))"

definition get_worker_nowait :: "time \<Rightarrow> disp \<Rightarrow> dworker option \<times> disp" where
  "get_worker_nowait now d = (if d_running d then get_worker_round now d else (None, d))"

text \<open>
  Waiting for a worker: each entry is the clock of a round and what the other threads did to the
  dispatcher before it.  \<open>None\<close>: still waiting when the list ends.
\<close>

fun get_worker :: "(time \<times> (disp \<Rightarrow> disp)) list \<Rightarrow> disp \<Rightarrow> dworker option option \<times> disp" where
  "get_worker [] d = (if d_running d then None else Some None, d)"
| "get_worker ((now, others) # rounds) d0 =
     (let d = others d0 in
      if \<not> d_running d then (Some None, d)
      else case get_worker_round now d of
        (Some w, d1) \<Rightarrow> (Some (Some w), d1)
      | (None, d1) \<Rightarrow> get_worker rounds d1)"

subsection \<open>New workers\<close>

text \<open>Two pings of different sizes measure the speed; a ping needs the host of the session.\<close>

definition ping_speed :: "dworker \<Rightarrow> nat \<Rightarrow> disp \<Rightarrow> disp" where
  "ping_speed w sz d =
     (case d_session_host d of None \<Rightarrow> d | Some h \<Rightarrow> if h = [] then d else d_emit [PingSpeed (dw_id w) sz] d)"

definition ping_both :: "time \<Rightarrow> dworker \<Rightarrow> disp \<Rightarrow> disp" where
  "ping_both now w d =
     (let d2 = ping_speed w (speed_download_size (d_cfg d)) (ping_speed w (rtt_download_size (d_cfg d)) d)
      in d2\<lparr>d_ping_active := dset (dw_ip w) now (d_ping_active d2)\<rparr>)"

text \<open>\<open>w\<close> is the worker that the new connection becomes.\<close>

definition on_ssl_created_cb :: "time \<Rightarrow> dworker \<Rightarrow> bool \<Rightarrow> disp \<Rightarrow> disp" where
  "on_ssl_created_cb now w remove_slowest d0 =
     (if \<not> d_running d0 then d_emit [SocketClosed (dw_id w)] d0
      else let d = (if w_http1 (dw_base w) then d0\<lparr>d_h1_num := d_h1_num d0 + 1\<rparr> else d0\<lparr>d_h2_num := d_h2_num d0 + 1\<rparr>);
               d1 = d\<lparr>d_workers := d_workers d @ [w]\<rparr>
        in if now - dget_or (d_ping_active d1) (dw_ip w) 0 > check_speed_interval (d_cfg d1) then ping_both now w d1
           else if remove_slowest then remove_slowest_worker d1 else d1)"

text \<open>A round of \<^verbatim>\<open>create_worker_thread\<close>; \<open>made\<close> is what the connection manager gives within a minute.\<close>

definition waits_for_trigger :: "disp \<Rightarrow> bool" where
  "waits_for_trigger d \<longleftrightarrow> \<not> d_connect_all d \<or> length (d_workers d) > max_workers (d_cfg d)"

definition create_worker_round :: "time \<Rightarrow> dworker option \<Rightarrow> disp \<Rightarrow> disp" where
  "create_worker_round now made d =
     (case made of
        None \<Rightarrow> d\<lparr>d_connect_all := False\<rparr>
      | Some w \<Rightarrow> (let d1 = on_ssl_created_cb now w False d
          in if d_connect_all d1 \<and> length (d_workers d1) \<ge> min_workers (d_cfg d1) then d1\<lparr>d_connect_all := False\<rparr> else d1))"

subsection \<open>Requests\<close>

text \<open>\<^verbatim>\<open>request\<close> up to waiting for the answer: the task is queued, or refused when too many are under way.\<close>

definition disp_request_begin :: "time \<Rightarrow> task \<Rightarrow> disp \<Rightarrow> bool \<times> disp" where
  "disp_request_begin now t d =
     (if d_task_count d > int (max_task_num (d_cfg d)) then (False, d)
      else (True, d\<lparr>d_task_count := d_task_count d + 1, d_last_host := Some (t_host t), d_last_request := now,
              d_queue := d_queue d @ [Some t]\<rparr>))"

definition upd_worker :: "nat \<Rightarrow> (dworker \<Rightarrow> dworker) \<Rightarrow> disp \<Rightarrow> disp" where
  "upd_worker i f d = d\<lparr>d_workers := map (\<lambda>w. if dw_id w = i then f w else w) (d_workers d)\<rparr>"

abbreviation upd_base :: "nat \<Rightarrow> (worker \<Rightarrow> worker) \<Rightarrow> disp \<Rightarrow> disp" where
  "upd_base i f d \<equiv> upd_worker i (\<lambda>w. w\<lparr>dw_base := f (dw_base w)\<rparr>) d"

text \<open>
  The rest of it: \<open>reply\<close> is the status of the answer, or \<open>None\<close> when the time ran out, \<open>by\<close> the
  worker that the task was given to, if any.  Without a worker, a good answer raises, which
  only costs the count of tasks.
\<close>

definition disp_request_end :: "time \<Rightarrow> int option \<Rightarrow> dworker option \<Rightarrow> real \<Rightarrow> disp \<Rightarrow> disp" where
  "disp_request_end now reply by limit d0 =
     (let d = d0\<lparr>d_task_count := d_task_count d0 - 1\<rparr> in
      if reply = Some 200 then
        (let d1 = d\<lparr>d_success_num := d_success_num d + 1, d_continue_fail := 0\<rparr>
         in case by of None \<Rightarrow> d1 | Some w \<Rightarrow> upd_base (dw_id w) (\<lambda>b. b\<lparr>w_continue_fail := 0\<rparr>) d1)
      else
        (let d1 = d\<lparr>d_fail_num := d_fail_num d + 1, d_continue_fail := d_continue_fail d + 1, d_last_fail := now\<rparr>
         in case by of
              None \<Rightarrow> d_emit [TriggerCreate] d1
            | Some w \<Rightarrow>
                (let active = (reply = None \<and> is_active_timeout (d_wcfg (d_cfg d1)) now limit (length (dw_streams w)) (dw_base w));
                     fails = (if active then 0 else w_continue_fail (dw_base w) + 1);
                     d2 = upd_base (dw_id w) (\<lambda>b. b\<lparr>w_continue_fail := fails\<rparr>) (if active then d_emit [TriggerCreate] d1 else d1)
                 in if fails > max_continue_fail (d_wcfg (d_cfg d2)) then d_emit [TriggerCreate] d2 else d2)))"

text \<open>A task that a worker gives back.\<close>

definition retry_task_cb :: "time \<Rightarrow> task \<Rightarrow> disp \<Rightarrow> disp" where
  "retry_task_cb now t d0 =
     (let d = d0\<lparr>d_fail_num := d_fail_num d0 + 1, d_continue_fail := d_continue_fail d0 + 1, d_last_fail := now\<rparr> in
      if responsed t then d_emit [TaskSettled (finish t)] d
      else if retry_count t > 10 then d_emit [TaskSettled (response_fail ''retry time exceed 10'' t)] d
      else if now - t_start t > t_timeout t
        then d_emit [TaskSettled (response_fail (''retry timeout:'' @ dec_int (py_int (now - t_start t))) t)] d
      else if \<not> d_running d then d_emit [TaskSettled (response_fail ''retry but stopped.'' t)] d
      else d\<lparr>d_queue := d_queue d @ [Some (t\<lparr>retry_count := retry_count t + 1\<rparr>)]\<rparr>)"

text \<open>
  One turn of the dispatcher thread: whether it goes on.  \<open>None\<close> in the first component: it waits for a worker
  when the list of rounds ends; the task is then in its hands, not in the queue.
\<close>

definition dispatch_turn :: "(time \<times> (disp \<Rightarrow> disp)) list \<Rightarrow> time \<Rightarrow> disp \<Rightarrow> bool option \<times> disp" where
  "dispatch_turn rounds now d0 =
     (if \<not> d_running d0 then (Some False, d_emit [WakeWaiter, TriggerCreate] d0)
      else case d_queue d0 of
        [] \<Rightarrow> (None, d0)
      | None # q \<Rightarrow> (Some False, d_emit [WakeWaiter, TriggerCreate] (d0\<lparr>d_queue := q\<rparr>))
      | Some t # q \<Rightarrow>
          (case get_worker rounds (d0\<lparr>d_queue := q\<rparr>) of
             (None, d) \<Rightarrow> (None, d)
           | (Some None, d) \<Rightarrow> (Some True, d_emit [TaskSettled (response_fail ''get worker fail.'' t)] d)
           | (Some (Some w), d) \<Rightarrow>
               (Some True, d_emit [GiveTask (dw_id w) t]
                  (upd_base (dw_id w) (\<lambda>b. b\<lparr>w_last_request := now\<rparr>) (d\<lparr>d_ping_active := dset (dw_ip w) now (d_ping_active d)\<rparr>)))))"

subsection \<open>Checking the connections\<close>

definition check_worker :: "time \<Rightarrow> dworker \<Rightarrow> disp \<Rightarrow> disp" where
  "check_worker now w d =
     (let c = d_cfg d; last_active = dget_or (d_ping_active d) (dw_ip w) 0 in
      if \<not> w_keep_running (dw_base w) then d
      else if is_life_end (d_wcfg c) now (dw_base w) \<noteq> None then worker_close_call ''life end'' w d
      else if now - w_last_request (dw_base w) > worker_idle_time c \<and> length (d_workers d) > min_workers c
        then worker_close_call ''idle too long'' w d
      else if now - last_active > check_speed_interval c \<and> d_last_get_score d > last_active then ping_both now w d
      else if w_http1 (dw_base w) \<or> dw_streams w \<noteq> [] then d
      else if now - w_last_send (dw_base w) > http2_idle_ping_min_interval (d_wcfg c) then d_emit [SendPing (dw_id w)] d
      else d)"

definition connection_check :: "time \<Rightarrow> disp \<Rightarrow> disp" where
  "connection_check now d = foldl (\<lambda>d w. check_worker now w d) d (d_workers d)"

definition disp_is_idle :: "real \<Rightarrow> time \<Rightarrow> disp \<Rightarrow> bool" where
  "disp_is_idle idle_time now d \<longleftrightarrow> now - d_last_request d > idle_time"

subsection \<open>Statistics and score\<close>

definition log_debug_data :: "real \<Rightarrow> int \<Rightarrow> int \<Rightarrow> disp \<Rightarrow> disp" where
  "log_debug_data rtt sent received d =
     d\<lparr>d_rtts := push_capped 30 rtt (d_rtts d), d_total_sent := d_total_sent d + sent, d_total_received := d_total_received d + received\<rparr>"

definition sum_stats :: "d_stat list \<Rightarrow> d_stat" where
  "sum_stats ss = foldl (\<lambda>a s. \<lparr>st_rtt = max (st_rtt a) (st_rtt s), st_sent = st_sent a + st_sent s, st_received = st_received a + st_received s\<rparr>)
     no_stat ss"

definition disp_statistic :: "time \<Rightarrow> disp \<Rightarrow> disp" where
  "disp_statistic now d =
     (let d1 = (if now > d_last_statistic d + 60
                then d\<lparr>d_minute_stat := sum_stats (d_second_stats d), d_second_stats := [], d_last_statistic := now\<rparr> else d);
          s = \<lparr>st_rtt = (case d_rtts d1 of [] \<Rightarrow> 0 | r # rs \<Rightarrow> foldl max r rs), st_sent = d_total_sent d1 - d_last_sent d1,
               st_received = d_total_received d1 - d_last_received d1\<rparr>
      in d1\<lparr>d_second_stat := s, d_last_sent := d_total_sent d1, d_last_received := d_total_received d1,
             d_second_stats := d_second_stats d1 @ [s]\<rparr>)"

definition disp_get_score :: "time \<Rightarrow> disp \<Rightarrow> real option \<times> disp" where
  "disp_get_score now d0 =
     (if d_task_count d0 \<ge> int (max_task_num (d_cfg d0)) then (None, d0)
      else let d = d0\<lparr>d_last_get_score := now\<rparr> in
        if now - d_last_fail d < 10 \<and> d_continue_fail d > 10 then (None, d)
        else case get_worker_nowait now d of
          (None, d1) \<Rightarrow> (None, start_connect_all_ips d1)
        | (Some w, d1) \<Rightarrow> (Some (dw_score w * score_factor (d_cfg d1)), d1))"

definition disp_set_session_host :: "string \<Rightarrow> disp \<Rightarrow> disp" where
  "disp_set_session_host host d = d\<lparr>d_session_host := Some host\<rparr>"

subsection \<open>The worker that is chosen\<close>

text \<open>A worker that can take a task: it accepts one, its life is not over, and its score is below the sentinel.\<close>

definition usable :: "disp \<Rightarrow> time \<Rightarrow> dworker \<Rightarrow> bool" where
  "usable d now w \<longleftrightarrow> w_accept_task (dw_base w) \<and> dw_life_end d now w = None \<and> dw_score w < 99999999"

lemma pick_worker_snoc: "pick_worker cfg now (ws @ [w]) = pick_one cfg now w (pick_worker cfg now ws)"
  by (simp add: pick_worker_def)

lemma pick_one_best:
  "p_best (pick_one cfg now w p) = (if is_life_end cfg now (dw_base w) = None \<and> w_accept_task (dw_base w) \<and> p_best_score p > dw_score w
     then Some w else p_best p)"
  "p_best_score (pick_one cfg now w p) = (if is_life_end cfg now (dw_base w) = None \<and> w_accept_task (dw_base w) \<and> p_best_score p > dw_score w
     then dw_score w else p_best_score p)"
  by (simp_all add: pick_one_def Let_def)

lemma pick_worker_best:
  "p_best (pick_worker (d_wcfg (d_cfg d)) now ws) = first_min dw_score (filter (usable d now) ws)
   \<and> p_best_score (pick_worker (d_wcfg (d_cfg d)) now ws)
       = (case first_min dw_score (filter (usable d now) ws) of None \<Rightarrow> 99999999 | Some w \<Rightarrow> dw_score w)"
proof (induction ws rule: rev_induct)
  case Nil
  show ?case by (simp add: pick_worker_def pick_init_def)
next
  case (snoc w ws)
  let ?p = "pick_worker (d_wcfg (d_cfg d)) now ws" and ?us = "filter (usable d now) ws"
  show ?case
  proof (cases "first_min dw_score ?us")
    case None
    then show ?thesis using snoc.IH
      by (simp add: pick_worker_snoc pick_one_best first_min_snoc) (simp add: usable_def dw_life_end_def)
  next
    case (Some b)
    then have "dw_score b < 99999999" using first_min_mem [OF Some] by (simp add: usable_def)
    with Some snoc.IH show ?thesis
      by (simp add: pick_worker_snoc pick_one_best first_min_snoc) (auto simp add: usable_def dw_life_end_def)
  qed
qed

text \<open>
  C30. The scan of \<^verbatim>\<open>get_worker\<close> with its running minimum and sentinel agrees with the reference: of
  the workers that are left after the clean-up, it takes the first one with the lowest score
  among those that accept a task, whose life is not over and whose score is below the
  sentinel; and it takes none exactly when there is no such worker.
\<close>

theorem worker_choice:
  "fst (get_worker_round now d) = first_min dw_score (filter (usable (snd (get_worker_round now d)) now) (d_workers (snd (get_worker_round now d))))"
proof -
  let ?d = "cleanup now d"
  have "usable (snd (get_worker_round now d)) now = usable ?d now" "d_workers (snd (get_worker_round now d)) = d_workers ?d"
    by (auto simp: get_worker_round_def Let_def usable_def dw_life_end_def fun_eq_iff)
  then show ?thesis using pick_worker_best [of ?d now "d_workers ?d"] by (simp add: get_worker_round_def Let_def)
qed

subsection \<open>Removing slow workers\<close>

definition slowest_turn :: "disp \<Rightarrow> disp" where
  "slowest_turn d = (case slowest_step d of None \<Rightarrow> d | Some d' \<Rightarrow> d')"

lemma slowest_step_Some:
  assumes "slowest_step d = Some d'"
  shows "\<exists>w \<in> set (d_workers d). d' = close_cb w d \<and> w_accept_task (dw_base w) \<and> dw_score w > 9999"
  using assms by (auto simp: slowest_step_def Let_def split: prod.splits if_splits option.splits dest!: scan_slowest_mem)

lemma close_cb_keeps: "d_outs (close_cb w d) = d_outs d" "d_cfg (close_cb w d) = d_cfg d" "d_running (close_cb w d) = d_running d"
  "d_queue (close_cb w d) = d_queue d"
  by (simp_all add: close_cb_def Let_def)

lemma close_cb_workers: "d_workers (close_cb w d) = without (dw_id w) (d_workers d)"
proof (cases "dw_id w \<in> dw_id ` set (d_workers d)")
  case False
  then have "without (dw_id w) (d_workers d) = d_workers d" unfolding without_def by (intro filter_True) (metis imageI)
  with False show ?thesis by (simp add: close_cb_def)
qed (simp add: close_cb_def Let_def)

text \<open>
  \<^verbatim>\<open>_remove_slowest_worker\<close>, a loop without a bound in the code, ends after at most as many
  turns as there are workers.  If the ids are distinct, every worker it takes out accepted
  tasks and had a score above 9999; and none of them is closed: the loop calls the callback of
  the close and not the close, so nothing goes out and the connections stay open.
\<close>

theorem remove_slowest_ends:
  assumes "distinct (map dw_id (d_workers d))"
  shows "\<exists>k \<le> length (d_workers d). (slowest_turn ^^ k) d = remove_slowest_worker d \<and> slowest_step (remove_slowest_worker d) = None
    \<and> d_outs (remove_slowest_worker d) = d_outs d
    \<and> (\<forall>w \<in> set (d_workers d). w \<notin> set (d_workers (remove_slowest_worker d)) \<longrightarrow> w_accept_task (dw_base w) \<and> dw_score w > 9999)"
  using assms
proof (induction d rule: remove_slowest_worker.induct)
  case (1 d)
  show ?case
  proof (cases "slowest_step d")
    case None
    then have "remove_slowest_worker d = d" by (subst remove_slowest_worker.simps) simp
    with None show ?thesis by (intro exI [of _ 0]) simp
  next
    case (Some d')
    then have r: "remove_slowest_worker d = remove_slowest_worker d'" by (subst remove_slowest_worker.simps) simp
    from slowest_step_Some [OF Some] obtain w where
      w: "w \<in> set (d_workers d)" "d' = close_cb w d" "w_accept_task (dw_base w)" "dw_score w > 9999" by blast
    have ws: "d_workers d' = filter (\<lambda>v. dw_id v \<noteq> dw_id w) (d_workers d)" by (simp add: w(2) close_cb_workers without_def)
    have one: "v = w" if "v \<in> set (d_workers d)" "dw_id v = dw_id w" for v
      using that w(1) "1.prems" by (meson inj_onD distinct_map)
    have "distinct (map dw_id (d_workers d'))" using "1.prems" by (simp add: ws distinct_map_filter)
    from "1.IH" [OF Some this] obtain k where k: "k \<le> length (d_workers d')" "(slowest_turn ^^ k) d' = remove_slowest_worker d'"
      "slowest_step (remove_slowest_worker d') = None" "d_outs (remove_slowest_worker d') = d_outs d'"
      "\<forall>w \<in> set (d_workers d'). w \<notin> set (d_workers (remove_slowest_worker d')) \<longrightarrow> w_accept_task (dw_base w) \<and> dw_score w > 9999"
      by blast
    have "(slowest_turn ^^ Suc k) d = remove_slowest_worker d'"
      using k(2) Some by (simp add: funpow_swap1 slowest_turn_def)
    moreover have "Suc k \<le> length (d_workers d)" using slowest_step_less [OF Some] k(1) by simp
    moreover have "d_outs d' = d_outs d" by (simp add: w(2) close_cb_keeps)
    ultimately show ?thesis using k(3-5) one w(3,4) ws unfolding r by (intro exI [of _ "Suc k"]) auto
  qed
qed

definition disp_cfg_ex :: disp_cfg where
  "disp_cfg_ex = \<lparr>d_wcfg = worker_cfg.truncate (h1_config h1_ex), max_workers = 5, min_workers = 0, min_idle_workers = 0, max_idle_workers = 0,
     work_min_idle_time = 0, work_max_score = 1000, target_concurrent = 1, check_speed_interval = 100, rtt_download_size = 1,
     speed_download_size = 2, worker_idle_time = 100, max_task_num = 10, score_factor = 1, connect_all_on_startup = False\<rparr>"

definition dworker_ex :: "nat \<Rightarrow> real \<Rightarrow> dworker" where
  "dworker_ex i sc = \<lparr>dw_id = i, dw_ip = ''ip'', dw_base = (h1_worker h1_ex)\<lparr>w_http1 := False\<rparr>, dw_score = sc, dw_onway = False, dw_streams = []\<rparr>"

definition disp_ex :: disp where
  "disp_ex = (disp_init disp_cfg_ex 0)\<lparr>d_workers := [dworker_ex 1 50, dworker_ex 2 20000], d_h2_num := 2\<rparr>"

theorem remove_slowest_ends_witness: "\<exists>k \<le> 2. (slowest_turn ^^ k) disp_ex = remove_slowest_worker disp_ex"
proof -
  have "distinct (map dw_id (d_workers disp_ex))" "length (d_workers disp_ex) = 2" by (simp_all add: disp_ex_def dworker_ex_def)
  with remove_slowest_ends [of disp_ex] show ?thesis by auto
qed

subsection \<open>The invariant\<close>

definition workers_ok :: "disp \<Rightarrow> bool" where
  "workers_ok d \<longleftrightarrow> distinct (map dw_id (d_workers d)) \<and> (\<forall>w \<in> set (d_workers d). w_keep_running (dw_base w))
     \<and> d_h1_num d = int (length (filter (\<lambda>w. w_http1 (dw_base w)) (d_workers d)))
     \<and> d_h2_num d = int (length (filter (\<lambda>w. \<not> w_http1 (dw_base w)) (d_workers d)))"

lemma length_filter_without:
  assumes "distinct (map dw_id ws)" and "w \<in> set ws"
  shows "int (length (filter P (without (dw_id w) ws))) = int (length (filter P ws)) - (if P w then 1 else 0)"
  using assms
proof (induction ws)
  case (Cons v ws)
  show ?case
  proof (cases "dw_id v = dw_id w")
    case True
    with Cons.prems(1) have n: "dw_id w \<notin> dw_id ` set ws" by simp
    then have "\<forall>u \<in> set ws. dw_id u \<noteq> dw_id w" by (metis imageI)
    moreover from n have "v = w" using Cons.prems(2) by auto
    ultimately have "v = w" "without (dw_id w) ws = ws" unfolding without_def by (auto intro: filter_True)
    then show ?thesis by (auto simp: without_def)
  next
    case False
    with Cons show ?thesis by (auto simp: without_def)
  qed
qed simp

lemma worker_unique: "workers_ok d \<Longrightarrow> v \<in> set (d_workers d) \<Longrightarrow> w \<in> set (d_workers d) \<Longrightarrow> dw_id v = dw_id w \<Longrightarrow> v = w"
  unfolding workers_ok_def by (meson distinct_map inj_onD)

lemma workers_ok_cong: "workers_ok d \<Longrightarrow> d_workers d' = d_workers d \<Longrightarrow> d_h1_num d' = d_h1_num d \<Longrightarrow> d_h2_num d' = d_h2_num d \<Longrightarrow> workers_ok d'"
  by (simp add: workers_ok_def)

text \<open>The caller of the close knows the worker as it is in the list, or it is gone already.\<close>

lemma workers_ok_close_cb [wf_intros]:
  assumes "workers_ok d" and "dw_id w \<in> dw_id ` set (d_workers d) \<Longrightarrow> \<exists>v \<in> set (d_workers d). dw_id v = dw_id w \<and> w_http1 (dw_base v) = w_http1 (dw_base w)"
  shows "workers_ok (close_cb w d)"
proof (cases "dw_id w \<in> dw_id ` set (d_workers d)")
  case True
  with assms(2) obtain v where v: "v \<in> set (d_workers d)" "dw_id v = dw_id w" "w_http1 (dw_base v) = w_http1 (dw_base w)" by blast
  from assms(1) have d: "distinct (map dw_id (d_workers d))" by (simp add: workers_ok_def)
  have "distinct (map dw_id (without (dw_id w) (d_workers d)))" using d by (simp add: without_def distinct_map_filter)
  with assms(1) True v length_filter_without [OF d v(1)] show ?thesis
    by (auto simp: workers_ok_def close_cb_def Let_def) (auto simp: without_def)
qed (use assms(1) in \<open>simp add: close_cb_def\<close>)

text \<open>What a loop over a copy of the list knows of its workers: they are in the list as they were, or gone.\<close>

definition known :: "dworker \<Rightarrow> disp \<Rightarrow> bool" where
  "known w d \<longleftrightarrow> (dw_id w \<in> dw_id ` set (d_workers d) \<longrightarrow> w \<in> set (d_workers d))"

lemma known_mem: "w \<in> set (d_workers d) \<Longrightarrow> known w d"
  by (simp add: known_def)

lemma known_without: "known v d \<Longrightarrow> d_workers d' = without i (d_workers d) \<Longrightarrow> known v d'"
  by (auto simp: known_def without_def)

lemma known_same: "known v d \<Longrightarrow> d_workers d' = d_workers d \<Longrightarrow> known v d'"
  by (simp add: known_def)

lemma close_call_workers: "d_workers (worker_close_call reason w d) = (if w_keep_running (dw_base w) then without (dw_id w) (d_workers d) else d_workers d)"
  by (simp add: worker_close_call_def Let_def close_cb_workers)

lemma known_close_call: "known v d \<Longrightarrow> known v (worker_close_call reason w d)"
  using known_without [of v d "worker_close_call reason w d" "dw_id w"] known_same [of v d "worker_close_call reason w d"]
  by (cases "w_keep_running (dw_base w)") (simp_all only: close_call_workers if_True if_False)

lemma workers_ok_close_call:
  assumes "workers_ok d" and "known w d"
  shows "workers_ok (worker_close_call reason w d)"
proof -
  have ok: "workers_ok (d_emit [WorkerClose (dw_id w) reason] d)" using assms(1) by (rule workers_ok_cong) simp_all
  have "workers_ok (close_cb w (d_emit [WorkerClose (dw_id w) reason] d))"
    by (rule workers_ok_close_cb [OF ok]) (use assms(2) in \<open>auto simp: known_def\<close>)
  with ok show ?thesis by (simp add: worker_close_call_def Let_def)
qed

lemma workers_ok_fold:
  assumes "\<And>d w. workers_ok d \<Longrightarrow> known w d \<Longrightarrow> workers_ok (f d w)"
    and "\<And>d w v. known v d \<Longrightarrow> known v (f d w)"
    and "workers_ok d" and "\<forall>w \<in> set ws. known w d"
  shows "workers_ok (foldl f d ws)"
  using assms(3,4)
proof (induction ws arbitrary: d)
  case (Cons w ws)
  then have "workers_ok (f d w)" "\<forall>v \<in> set ws. known v (f d w)" using assms(1,2) by auto
  with Cons.IH show ?case by simp
qed simp

lemma workers_ok_without_closed:
  assumes "workers_ok d" and "known w d" and "w_keep_running (dw_base w)"
  shows "(worker_close_call reason w d)\<lparr>d_workers := without (dw_id w) (d_workers (worker_close_call reason w d))\<rparr> = worker_close_call reason w d"
proof -
  have "without (dw_id w) (d_workers (worker_close_call reason w d)) = d_workers (worker_close_call reason w d)"
    using assms(3) by (simp add: close_call_workers without_def)
  then show ?thesis by simp
qed

lemma workers_ok_life_end [wf_intros]: "workers_ok d \<Longrightarrow> workers_ok (remove_life_end_workers now d)"
  unfolding remove_life_end_workers_def
proof (rule workers_ok_fold)
  let ?f = "\<lambda>d w. case dw_life_end d now w of None \<Rightarrow> d
     | Some reason \<Rightarrow> (let d1 = worker_close_call (''life end:'' @ reason) w d in d1\<lparr>d_workers := without (dw_id w) (d_workers d1)\<rparr>)"
  show "known v (?f d w)" if "known v d" for d w v
  proof (cases "dw_life_end d now w")
    case (Some reason)
    have "known v ((worker_close_call (''life end:'' @ reason) w d)
        \<lparr>d_workers := without (dw_id w) (d_workers (worker_close_call (''life end:'' @ reason) w d))\<rparr>)"
      by (rule known_without [OF known_close_call [OF that]]) simp
    with Some show ?thesis by (simp add: Let_def)
  qed (use that in simp)
  show "workers_ok (?f d w)" if ok: "workers_ok d" and kn: "known w d" for d w
  proof (cases "w_keep_running (dw_base w)")
    case True
    then show ?thesis using ok kn workers_ok_close_call workers_ok_without_closed by (auto simp: Let_def split: option.split)
  next
    case False
    have "dw_id w \<notin> dw_id ` set (d_workers d)" using ok kn False by (auto simp: workers_ok_def known_def)
    then have "without (dw_id w) (d_workers d) = d_workers d" unfolding without_def by (intro filter_True) (metis imageI)
    then show ?thesis using ok False by (auto simp: worker_close_call_def workers_ok_def Let_def split: option.split)
  qed
qed (auto simp: known_mem)

lemma workers_ok_emit [wf_intros]: "workers_ok d \<Longrightarrow> workers_ok (d_emit os d)"
  by (erule workers_ok_cong) simp_all

lemma workers_ok_cleanup [wf_intros]: "workers_ok d \<Longrightarrow> workers_ok (cleanup now d)"
  by (auto simp: cleanup_def intro: workers_ok_cong [OF workers_ok_life_end])

lemma workers_ok_round [wf_intros]: "workers_ok d \<Longrightarrow> workers_ok (snd (get_worker_round now d))"
  by (auto simp: get_worker_round_def Let_def intro: wf_intros)

lemma workers_ok_nowait [wf_intros]: "workers_ok d \<Longrightarrow> workers_ok (snd (get_worker_nowait now d))"
  by (auto simp: get_worker_nowait_def intro: wf_intros)

lemma workers_ok_upd_worker:
  assumes "workers_ok d"
    and f: "\<And>w. dw_id (f w) = dw_id w \<and> w_keep_running (dw_base (f w)) = w_keep_running (dw_base w) \<and> w_http1 (dw_base (f w)) = w_http1 (dw_base w)"
  shows "workers_ok (upd_worker i f d)"
proof -
  let ?d = "upd_worker i f d"
  have ids: "map dw_id (d_workers ?d) = map dw_id (d_workers d)" using f by (auto simp: upd_worker_def)
  have count: "length (filter P (d_workers ?d)) = length (filter P (d_workers d))" if "\<And>w. P (f w) = P w" for P
  proof -
    have "P \<circ> (\<lambda>w. if dw_id w = i then f w else w) = P" using that by (simp add: fun_eq_iff)
    then show ?thesis by (simp add: upd_worker_def filter_map)
  qed
  have run: "\<forall>w \<in> set (d_workers ?d). w_keep_running (dw_base w)" using assms by (auto simp: workers_ok_def upd_worker_def)
  have "d_h1_num ?d = d_h1_num d" "d_h2_num ?d = d_h2_num d" by (simp_all add: upd_worker_def)
  then show ?thesis using assms(1) f unfolding workers_ok_def ids using run by (simp add: count)
qed

lemma workers_ok_upd [wf_intros]:
  "workers_ok d \<Longrightarrow> (\<And>w. w_keep_running (f w) = w_keep_running w \<and> w_http1 (f w) = w_http1 w) \<Longrightarrow> workers_ok (upd_base i f d)"
  by (rule workers_ok_upd_worker) auto

lemma workers_ok_fields [simp]:
  "workers_ok (d\<lparr>d_task_count := a\<rparr>) = workers_ok d" "workers_ok (d\<lparr>d_success_num := n\<rparr>) = workers_ok d"
  "workers_ok (d\<lparr>d_continue_fail := n\<rparr>) = workers_ok d" "workers_ok (d\<lparr>d_fail_num := n\<rparr>) = workers_ok d"
  "workers_ok (d\<lparr>d_last_fail := t\<rparr>) = workers_ok d" "workers_ok (d\<lparr>d_outs := os\<rparr>) = workers_ok d"
  "workers_ok (d\<lparr>d_queue := q\<rparr>) = workers_ok d" "workers_ok (d\<lparr>d_ping_active := pa\<rparr>) = workers_ok d"
  "workers_ok (d\<lparr>d_last_cleanup := t\<rparr>) = workers_ok d" "workers_ok (d\<lparr>d_connect_all := b\<rparr>) = workers_ok d"
  by (simp_all add: workers_ok_def)

lemma workers_ok_get [wf_intros]:
  "(\<And>now f d. (now, f) \<in> set rounds \<Longrightarrow> workers_ok d \<Longrightarrow> workers_ok (f d)) \<Longrightarrow> workers_ok d \<Longrightarrow> workers_ok (snd (get_worker rounds d))"
proof (induction rounds arbitrary: d)
  case (Cons r rounds)
  obtain now f where r: "r = (now, f)" by (cases r)
  have ok: "workers_ok (f d)" using Cons.prems r by auto
  obtain x d1 where g: "get_worker_round now (f d) = (x, d1)" by (metis surj_pair)
  then have "workers_ok d1" using workers_ok_round [OF ok, of now] by simp
  with Cons.IH Cons.prems(1) ok show ?case by (auto simp: r g Let_def split: option.split)
qed simp

lemma workers_ok_ping [wf_intros]: "workers_ok d \<Longrightarrow> workers_ok (ping_both now w d)"
  by (erule workers_ok_cong) (simp_all add: ping_both_def ping_speed_def Let_def split: option.split)

lemma slowest_turn_ok: "workers_ok d \<Longrightarrow> slowest_step d = Some d' \<Longrightarrow> workers_ok d'"
  by (auto dest!: slowest_step_Some intro!: workers_ok_close_cb)

lemma workers_ok_slowest [wf_intros]: "workers_ok d \<Longrightarrow> workers_ok (remove_slowest_worker d)"
proof (induction d rule: remove_slowest_worker.induct)
  case (1 d)
  then show ?case by (subst remove_slowest_worker.simps) (auto split: option.split dest: slowest_turn_ok)
qed

lemma workers_ok_add:
  assumes "workers_ok d" and "dw_id w \<notin> dw_id ` set (d_workers d)" and "w_keep_running (dw_base w)"
  shows "workers_ok ((if w_http1 (dw_base w) then d\<lparr>d_h1_num := d_h1_num d + 1\<rparr> else d\<lparr>d_h2_num := d_h2_num d + 1\<rparr>)\<lparr>d_workers := d_workers d @ [w]\<rparr>)"
  using assms by (simp add: workers_ok_def)

lemma workers_ok_created [wf_intros]:
  assumes "workers_ok d" and "dw_id w \<notin> dw_id ` set (d_workers d)" and "w_keep_running (dw_base w)"
  shows "workers_ok (on_ssl_created_cb now w rs d)"
proof -
  note ok = workers_ok_add [OF assms]
  from ok show ?thesis using assms(1)
    by (auto simp: on_ssl_created_cb_def Let_def intro!: workers_ok_ping workers_ok_slowest intro: workers_ok_emit split: if_splits)
qed

lemma workers_ok_create_round [wf_intros]:
  assumes "workers_ok d" and "\<And>w. made = Some w \<Longrightarrow> dw_id w \<notin> dw_id ` set (d_workers d) \<and> w_keep_running (dw_base w)"
  shows "workers_ok (create_worker_round now made d)"
proof (cases made)
  case None
  then show ?thesis using assms(1) by (auto simp: create_worker_round_def intro: workers_ok_cong)
next
  case (Some w)
  with assms have "workers_ok (on_ssl_created_cb now w False d)" by (auto intro: workers_ok_created)
  with Some show ?thesis by (auto simp: create_worker_round_def Let_def intro: workers_ok_cong)
qed

lemma workers_ok_begin [wf_intros]: "workers_ok d \<Longrightarrow> workers_ok (snd (disp_request_begin now t d))"
  by (erule workers_ok_cong) (simp_all add: disp_request_begin_def)

lemma workers_ok_end [wf_intros]: "workers_ok d \<Longrightarrow> workers_ok (disp_request_end now reply by limit d)"
  unfolding disp_request_end_def Let_def by (cases "by") (auto intro!: workers_ok_upd)

lemma workers_ok_retry [wf_intros]: "workers_ok d \<Longrightarrow> workers_ok (retry_task_cb now t d)"
  by (erule workers_ok_cong) (simp_all add: retry_task_cb_def Let_def)

lemma workers_ok_dispatch [wf_intros]:
  assumes "workers_ok d" and "\<And>now f d. (now, f) \<in> set rounds \<Longrightarrow> workers_ok d \<Longrightarrow> workers_ok (f d)"
  shows "workers_ok (snd (dispatch_turn rounds now d))"
proof -
  have s: "workers_ok (d\<lparr>d_queue := q\<rparr>)" for q using assms(1) by (rule workers_ok_cong) simp_all
  have g: "workers_ok (snd (get_worker rounds (d\<lparr>d_queue := q\<rparr>)))" for q
    by (rule workers_ok_get) (use assms(2) s in auto)
  have give: "workers_ok (d_emit os (upd_base i (\<lambda>b. b\<lparr>w_last_request := now\<rparr>) (x\<lparr>d_ping_active := pa\<rparr>)))" if "workers_ok x" for os i x pa
    by (auto intro!: workers_ok_upd simp: that)
  show ?thesis
  proof (cases "\<exists>t q. d_running d \<and> d_queue d = Some t # q")
    case True
    then obtain t q where q: "d_running d" "d_queue d = Some t # q" by blast
    obtain r x where r: "get_worker rounds (d\<lparr>d_queue := q\<rparr>) = (r, x)" by (metis surj_pair)
    with g [of q] have x: "workers_ok x" by simp
    show ?thesis
    proof (cases "\<exists>w. r = Some (Some w)")
      case True
      then obtain w where "r = Some (Some w)" by blast
      with give [OF x] q r show ?thesis by (simp add: dispatch_turn_def)
    next
      case False
      with q r x show ?thesis by (cases r) (auto simp: dispatch_turn_def split: option.split)
    qed
  next
    case False
    with assms(1) show ?thesis by (auto simp: dispatch_turn_def split: list.split option.split)
  qed
qed

lemma known_check: "known v d \<Longrightarrow> known v (check_worker now w d)"
proof -
  assume k: "known v d"
  have "known v (ping_both now w d)" by (rule known_same [OF k]) (simp add: ping_both_def ping_speed_def Let_def split: option.split)
  moreover have "known v (d_emit os d)" for os by (rule known_same [OF k]) simp
  ultimately show ?thesis using k known_close_call [OF k] by (simp add: check_worker_def Let_def)
qed

lemma workers_ok_check_worker: "workers_ok d \<Longrightarrow> known w d \<Longrightarrow> workers_ok (check_worker now w d)"
  by (simp add: check_worker_def Let_def workers_ok_close_call workers_ok_ping)

lemma workers_ok_check [wf_intros]: "workers_ok d \<Longrightarrow> workers_ok (connection_check now d)"
  unfolding connection_check_def by (rule workers_ok_fold) (simp_all add: workers_ok_check_worker known_check known_mem)

lemma workers_ok_close_all [wf_intros]: "workers_ok (close_all_worker reason d)"
  by (simp add: close_all_worker_def workers_ok_def Let_def)

lemma workers_ok_stop [wf_intros]: "workers_ok (disp_stop d)"
  by (simp add: disp_stop_def workers_ok_close_all)

lemma workers_ok_score [wf_intros]: "workers_ok d \<Longrightarrow> workers_ok (snd (disp_get_score now d))"
proof -
  assume "workers_ok d"
  then have "workers_ok (d\<lparr>d_last_get_score := now\<rparr>)" by (rule workers_ok_cong) simp_all
  then have "workers_ok (snd (get_worker_nowait now (d\<lparr>d_last_get_score := now\<rparr>)))" by (rule workers_ok_nowait)
  with \<open>workers_ok d\<close> \<open>workers_ok (d\<lparr>d_last_get_score := now\<rparr>)\<close> show ?thesis
    by (auto simp: disp_get_score_def Let_def start_connect_all_ips_def split: prod.split option.split)
qed

text \<open>
  The dispatchers that the operations reach.  A worker that closes itself, and a change of what a worker
  shows of itself (its score, its streams, whether it accepts tasks), are steps too.  A new worker
  is assumed to be open and to have a fresh identity; that a worker closes is always reported
  through \<^verbatim>\<open>close_cb\<close> while it is listed, so that a listed worker keeps running: a report of a worker
  that is not listed is no step, and neither is an HTTP/1.1 worker that stops itself between
  two tasks before its report.
\<close>

inductive disp_reach :: "disp \<Rightarrow> bool" where
  started: "disp_reach (disp_init cfg now)"
| created: "disp_reach d \<Longrightarrow> dw_id w \<notin> dw_id ` set (d_workers d) \<Longrightarrow> w_keep_running (dw_base w) \<Longrightarrow> disp_reach (on_ssl_created_cb now w rs d)"
| create_failed: "disp_reach d \<Longrightarrow> disp_reach (create_worker_round now None d)"
| create_made: "disp_reach d \<Longrightarrow> dw_id w \<notin> dw_id ` set (d_workers d) \<Longrightarrow> w_keep_running (dw_base w) \<Longrightarrow> disp_reach (create_worker_round now (Some w) d)"
| self_closed: "disp_reach d \<Longrightarrow> w \<in> set (d_workers d) \<Longrightarrow> disp_reach (close_cb w d)"
| shown: "disp_reach d \<Longrightarrow> (\<And>w. w_keep_running (f w) = w_keep_running w \<and> w_http1 (f w) = w_http1 w) \<Longrightarrow> disp_reach (upd_base i f d)"
| measured: "disp_reach d \<Longrightarrow> disp_reach (upd_worker i (\<lambda>w. w\<lparr>dw_score := sc, dw_onway := b, dw_streams := ss\<rparr>) d)"
| looked: "disp_reach d \<Longrightarrow> disp_reach (snd (get_worker_round now d))"
| asked: "disp_reach d \<Longrightarrow> disp_reach (snd (disp_request_begin now t d))"
| answered: "disp_reach d \<Longrightarrow> disp_reach (disp_request_end now reply wo limit d)"
| given_back: "disp_reach d \<Longrightarrow> disp_reach (retry_task_cb now t d)"
| dispatched: "disp_reach d \<Longrightarrow> disp_reach (snd (dispatch_turn [(t1, id)] now d))"
| checked: "disp_reach d \<Longrightarrow> disp_reach (connection_check now d)"
| scored: "disp_reach d \<Longrightarrow> disp_reach (snd (disp_get_score now d))"
| logged: "disp_reach d \<Longrightarrow> disp_reach (log_debug_data rtt sent received d)"
| counted: "disp_reach d \<Longrightarrow> disp_reach (disp_statistic now d)"
| hosted: "disp_reach d \<Longrightarrow> disp_reach (disp_set_session_host host d)"
| stopped: "disp_reach d \<Longrightarrow> disp_reach (disp_stop d)"

lemma workers_ok_shown: "workers_ok d \<Longrightarrow> workers_ok (upd_worker i (\<lambda>w. w\<lparr>dw_score := sc, dw_onway := b, dw_streams := ss\<rparr>) d)"
  by (rule workers_ok_upd_worker) simp_all

lemma disp_reach_ok: "disp_reach d \<Longrightarrow> workers_ok d"
proof (induction rule: disp_reach.induct)
  case (started cfg now)
  show ?case by (simp add: disp_init_def workers_ok_def start_connect_all_ips_def Let_def)
next
  case (dispatched d t1 now)
  then show ?case by (intro workers_ok_dispatch) auto
next
  case (logged d rtt sent received)
  then show ?case by (elim workers_ok_cong) (simp_all add: log_debug_data_def)
next
  case (counted d now)
  then show ?case by (elim workers_ok_cong) (simp_all add: disp_statistic_def Let_def)
next
  case (hosted d host)
  then show ?case by (elim workers_ok_cong) (simp_all add: disp_set_session_host_def)
next
  case (self_closed d w)
  then show ?case by (intro workers_ok_close_cb) auto
qed (auto intro: wf_intros workers_ok_shown)

text \<open>
  C29. In every dispatcher the program can reach, no worker stands twice in the list, none of the listed
  workers is closed, and the two counters are exactly the numbers of HTTP/1.1 and HTTP/2
  workers in the list: creating, closing, the clean-up of old and of slow workers, and a worker
  that closes itself all keep them in step.
\<close>

theorem dispatcher_invariant:
  assumes "disp_reach d"
  shows "distinct (map dw_id (d_workers d)) \<and> (\<forall>w \<in> set (d_workers d). w_keep_running (dw_base w))
    \<and> d_h1_num d = int (length (filter (\<lambda>w. w_http1 (dw_base w)) (d_workers d)))
    \<and> d_h2_num d = int (length (filter (\<lambda>w. \<not> w_http1 (dw_base w)) (d_workers d)))"
  using disp_reach_ok [OF assms] unfolding workers_ok_def .

theorem dispatcher_invariant_witness:
  "let d = on_ssl_created_cb 1 (dworker_ex 1 50) True (on_ssl_created_cb 1 (dworker_ex 0 70) True (disp_init disp_cfg_ex 0)) in
     d_h2_num d = 2 \<and> distinct (map dw_id (d_workers d))"
proof -
  let ?d = "on_ssl_created_cb 1 (dworker_ex 0 70) True (disp_init disp_cfg_ex 0)"
  have r: "w_keep_running (dw_base (dworker_ex i sc))" "dw_id (dworker_ex i sc) = i" "dw_score (dworker_ex i sc) = sc" "dw_ip (dworker_ex i sc) = ''ip''"
    "\<not> w_http1 (dw_base (dworker_ex i sc))" for i sc
    by (simp_all add: dworker_ex_def h1_ex_def h1_init_def)
  have s: "scan_slowest [dworker_ex 0 70] 0 9999 None = (k, x) \<Longrightarrow> x = None"
    "scan_slowest [dworker_ex 0 70, dworker_ex 1 50] 0 9999 None = (k, x) \<Longrightarrow> x = None" for k x
    by (auto simp: r Let_def split: if_splits)
  have n: "remove_slowest_worker d = d" if "d_workers d = [dworker_ex 0 70] \<or> d_workers d = [dworker_ex 0 70, dworker_ex 1 50]" for d
    using that s by (subst remove_slowest_worker.simps) (auto simp: slowest_step_def split: prod.split option.split)
  have i: "d_running (disp_init disp_cfg_ex 0)" "d_workers (disp_init disp_cfg_ex 0) = []" "d_h2_num (disp_init disp_cfg_ex 0) = 0"
    "d_cfg (disp_init disp_cfg_ex 0) = disp_cfg_ex" "d_ping_active (disp_init disp_cfg_ex 0) = []" "check_speed_interval disp_cfg_ex = 100"
    by (simp_all add: disp_init_def disp_cfg_ex_def)
  have d1: "?d = (disp_init disp_cfg_ex 0)\<lparr>d_h2_num := 1, d_workers := [dworker_ex 0 70]\<rparr>"
    by (simp add: on_ssl_created_cb_def r i n dget_or_def Let_def)
  have d2: "on_ssl_created_cb 1 (dworker_ex 1 50) True ?d = (disp_init disp_cfg_ex 0)\<lparr>d_h2_num := 2, d_workers := [dworker_ex 0 70, dworker_ex 1 50]\<rparr>"
    unfolding d1 by (simp add: on_ssl_created_cb_def r i n dget_or_def Let_def)
  have "disp_reach (on_ssl_created_cb 1 (dworker_ex 1 50) True ?d)"
    unfolding d1 by (rule disp_reach.created, unfold d1 [symmetric], intro disp_reach.intros) (simp_all add: r i d1)
  from dispatcher_invariant [OF this] show ?thesis unfolding d2 by (simp add: r)
qed

subsection \<open>The callbacks of the workers\<close>

text \<open>What a worker reports, handled by the functions the dispatcher gave it when it was made.\<close>

definition handle_h2_out :: "time \<Rightarrow> dworker \<Rightarrow> h2_out \<Rightarrow> disp \<Rightarrow> disp" where
  "handle_h2_out now w out d = (case out of
      RetryTask t \<Rightarrow> retry_task_cb now t d
    | IdleCall \<Rightarrow> d_emit [WakeWaiter] d
    | WorkerOut o1 \<Rightarrow> (if o1 = WorkerClosed then close_cb w d else d)
    | SpeedReport cost sent received \<Rightarrow> log_debug_data cost (int sent) (int received) d
    | TaskLeft t \<Rightarrow> d)"

definition handle_h1_out :: "time \<Rightarrow> dworker \<Rightarrow> h1_out \<Rightarrow> disp \<Rightarrow> disp" where
  "handle_h1_out now w out d = (case out of
      H1Retry t \<Rightarrow> retry_task_cb now t d
    | H1Idle \<Rightarrow> d_emit [WakeWaiter] d
    | H1Worker o1 \<Rightarrow> (if o1 = WorkerClosed then close_cb w d else d)
    | H1Speed cost sent received \<Rightarrow> log_debug_data cost (int sent) (int received) d
    | _ \<Rightarrow> d)"

definition handle_h2_outs :: "time \<Rightarrow> dworker \<Rightarrow> h2_out list \<Rightarrow> disp \<Rightarrow> disp" where
  "handle_h2_outs now w os d = foldl (\<lambda>d os. handle_h2_out now w os d) d os"

text \<open>The tasks that are tried again.\<close>

definition retries :: "time \<Rightarrow> h2_out list \<Rightarrow> task list" where
  "retries now os = concat (map (\<lambda>out. case out of
      RetryTask t \<Rightarrow> if \<not> responsed t \<and> retry_count t \<le> 10 \<and> now - t_start t \<le> t_timeout t then [t\<lparr>retry_count := retry_count t + 1\<rparr>] else []
    | _ \<Rightarrow> []) os)"

lemma handle_h2_out_queue:
  assumes "d_running d"
  shows "d_queue (handle_h2_out now w out d) = d_queue d @ map Some (retries now [out]) \<and> d_running (handle_h2_out now w out d)"
  using assms by (cases out) (auto simp: handle_h2_out_def retries_def retry_task_cb_def Let_def close_cb_keeps log_debug_data_def)

lemma handle_h2_outs_queue:
  "d_running d \<Longrightarrow> d_queue (handle_h2_outs now w os d) = d_queue d @ map Some (retries now os)"
  unfolding handle_h2_outs_def
proof (induction os arbitrary: d)
  case (Cons out os)
  from handle_h2_out_queue [OF Cons.prems, of now w out] have
    q: "d_queue (handle_h2_out now w out d) = d_queue d @ map Some (retries now [out])" and r: "d_running (handle_h2_out now w out d)" by auto
  have c: "retries now (out # os) = retries now [out] @ retries now os" by (simp add: retries_def)
  show ?case using Cons.IH [OF r] q by (simp add: c)
qed (simp add: retries_def)

lemma retries_tasks: "retries now os = retries now (filter task_out os)"
  by (induction os) (auto simp: retries_def split: h2_out.split)

lemma handle_h2_out_workers:
  "d_workers (handle_h2_out now w out d) = (if out = WorkerOut WorkerClosed then without (dw_id w) (d_workers d) else d_workers d)"
  by (cases out) (auto simp: handle_h2_out_def retry_task_cb_def Let_def close_cb_workers log_debug_data_def)

lemma handle_h2_outs_gone: "WorkerOut WorkerClosed \<in> set os \<or> dw_id w \<notin> dw_id ` set (d_workers d)
    \<Longrightarrow> dw_id w \<notin> dw_id ` set (d_workers (handle_h2_outs now w os d))"
  unfolding handle_h2_outs_def
proof (induction os arbitrary: d)
  case (Cons out os)
  have "WorkerOut WorkerClosed \<in> set os \<or> dw_id w \<notin> dw_id ` set (d_workers (handle_h2_out now w out d))"
    using Cons.prems by (auto simp: handle_h2_out_workers without_def)
  from Cons.IH [OF this] show ?case by simp
qed simp

end
