(* ===== verification/Front_Dispatcher.thy ===== *)
theory Front_Dispatcher
  imports Http_Dispatcher
begin

text \<open>
  x_tunnel/local/front_dispatcher.py: which front (Cloudflare, CloudFront, SELEY, TLS relay, direct)
  carries a request, with the book-keeping of failures, and the retries of a request.

  A front is known by its name.  What its dispatcher says (whether there is one for a host, and
  its score, see \<^verbatim>\<open>HttpsDispatcher.get_score\<close>) is supplied for each round of the search, with the
  clocks; what the front answers is supplied for each attempt of a request.
\<close>

subsection \<open>State\<close>

record fd_cfg =
  enable_cloudflare :: bool
  enable_cloudfront :: bool
  enable_seley :: bool
  enable_tls_relay :: bool
  enable_direct :: bool
  api_server :: string

datatype fd_out = StartFront string | StopFront string | StartStatistics | FrontReady | SessionHost string string | SaveDomains string "string list"

record fd =
  fd_config :: fd_cfg
  server_host :: string
  all_fronts :: "string list"
  light_fronts :: "string list"
  session_fronts :: "string list"
  cloudflare_front :: "string option"
  statistic_running :: bool
  front_initialized :: bool
  fail_counts :: "(string, int) dict"
  success_counts :: "(string, int) dict"
  last_fail_time :: "(string, time) dict"
  disabled :: "(string, time) dict"
  timeout_roundtrip :: int
  fd_outs :: "fd_out list"

abbreviation fd_emit :: "fd_out list \<Rightarrow> fd \<Rightarrow> fd" where
  "fd_emit os s \<equiv> s\<lparr>fd_outs := fd_outs s @ os\<rparr>"

definition cloudflare :: string where "cloudflare = ''cloudflare_front''"
definition dns_host :: string where "dns_host = ''dns.xx-net.org''"
definition FAIL_BASE_PENALTY :: real where "FAIL_BASE_PENALTY = 1000"
definition DECAY_SECONDS :: real where "DECAY_SECONDS = 30"
definition DISABLE_THRESHOLD :: int where "DISABLE_THRESHOLD = 10"
definition DISABLE_DURATION :: real where "DISABLE_DURATION = 120"

text \<open>The fronts that are enabled, in the order in which they are added.\<close>

definition enabled_fronts :: "fd_cfg \<Rightarrow> string list" where
  "enabled_fronts c =
     (if enable_cloudflare c then [cloudflare] else []) @ (if enable_cloudfront c then [''cloudfront_front''] else [])
     @ (if enable_seley c then [''seley_front''] else []) @ (if enable_tls_relay c then [''tls_relay_front''] else [])
     @ (if enable_direct c then [''direct_front''] else [])"

definition fd_init :: "fd \<Rightarrow> fd" where
  "fd_init s =
     (if front_initialized s then s
      else let fs = enabled_fronts (fd_config s) in
        fd_emit (map StartFront fs @ [StartStatistics])
          (s\<lparr>all_fronts := fs, session_fronts := fs, light_fronts := fs,
             cloudflare_front := (if enable_cloudflare (fd_config s) then Some cloudflare else None),
             statistic_running := True, front_initialized := True\<rparr>))"

definition save_cloudflare_domain :: "string list \<Rightarrow> fd \<Rightarrow> fd" where
  "save_cloudflare_domain domains s =
     (if \<not> enable_cloudflare (fd_config s) then s
      else fd_emit (map (\<lambda>f. SaveDomains f domains) (filter (\<lambda>f. f = cloudflare) (all_fronts s))) s)"

subsection \<open>Failures\<close>

definition is_front_disabled :: "time \<Rightarrow> fd \<Rightarrow> string \<Rightarrow> bool" where
  "is_front_disabled now s f =
     (let t = dget_or (disabled s) f 0 in t \<noteq> 0 \<and> now - t < DISABLE_DURATION)"

definition get_front_penalty :: "time \<Rightarrow> fd \<Rightarrow> string \<Rightarrow> int" where
  "get_front_penalty now s f =
     (if is_front_disabled now s f then 99999999
      else let fails = dget_or (fail_counts s) f 0; oks = dget_or (success_counts s) f 0 in
        if fails = 0 then 0
        else let since = now - dget_or (last_fail_time s) f 0;
                 decay = max 0 (1 - since / DECAY_SECONDS);
                 total = fails + oks;
                 rate = (if total > 0 then real_of_int oks / real_of_int total else 0);
                 penalty = real_of_int fails * FAIL_BASE_PENALTY * decay
          in py_int (if rate < 3 / 10 \<and> fails > 5 then penalty * 3 else penalty))"

definition record_front_success :: "string \<Rightarrow> fd \<Rightarrow> fd" where
  "record_front_success f s =
     fd_emit [FrontReady]
       (s\<lparr>fail_counts := dset f 0 (fail_counts s), success_counts := dset f (dget_or (success_counts s) f 0 + 1) (success_counts s),
          disabled := ddel f (disabled s)\<rparr>)"

definition record_front_fail :: "time \<Rightarrow> string \<Rightarrow> fd \<Rightarrow> fd" where
  "record_front_fail now f s =
     (let fails = dget_or (fail_counts s) f 0 + 1; oks = dget_or (success_counts s) f 0;
          s1 = s\<lparr>fail_counts := dset f fails (fail_counts s), last_fail_time := dset f now (last_fail_time s)\<rparr>;
          s2 = (if fails \<ge> DISABLE_THRESHOLD \<and> fails + oks > 0 \<and> real_of_int oks / real_of_int (fails + oks) < 2 / 10
                then s1\<lparr>disabled := dset f now (disabled s1)\<rparr> else s1)
      in fd_emit [FrontReady] s2)"

subsection \<open>Choosing a front\<close>

text \<open>What a round of the search sees: the clocks, which dispatchers exist, and their scores.\<close>

record front_round =
  fr_start :: time
  fr_wall :: time
  fr_end :: time
  fr_has :: "string \<Rightarrow> string \<Rightarrow> bool"
  fr_score :: "string \<Rightarrow> real option"

text \<open>The host changes on the way when the Cloudflare front carries the name service.\<close>

definition host_for :: "fd \<Rightarrow> string \<Rightarrow> string \<Rightarrow> string" where
  "host_for s f host =
     (if host = dns_host \<and> cloudflare_front s = Some f \<and> server_host s \<noteq> [] then server_host s else host)"

fun scan_fronts :: "front_round \<Rightarrow> fd \<Rightarrow> string list \<Rightarrow> string \<Rightarrow> real \<Rightarrow> string option \<Rightarrow> nat \<Rightarrow> string option \<times> nat \<times> string" where
  "scan_fronts r s [] host best_score best avail = (best, avail, host)"
| "scan_fronts r s (f # fs) host best_score best avail =
     (if is_front_disabled (fr_wall r) s f then scan_fronts r s fs host best_score best avail
      else let host' = host_for s f host in
        if \<not> fr_has r f host' then scan_fronts r s fs host' best_score best avail
        else case fr_score r f of
          None \<Rightarrow> scan_fronts r s fs host' best_score best (avail + 1)
        | Some sc \<Rightarrow>
            if sc = 0 then scan_fronts r s fs host' best_score best (avail + 1)
            else let total = sc + real_of_int (get_front_penalty (fr_wall r) s f) in
              if total < best_score then scan_fronts r s fs host' total (Some f) (avail + 1)
              else scan_fronts r s fs host' best_score best (avail + 1))"

definition fronts_for :: "string \<Rightarrow> fd \<Rightarrow> string list" where
  "fronts_for host s = (if host = dns_host \<or> host = api_server (fd_config s) then light_fronts s else session_fronts s)"

text \<open>The rounds up to the timeout; a list that is too short for it counts as a timeout.\<close>

fun get_front_rounds :: "time \<Rightarrow> real \<Rightarrow> string list \<Rightarrow> string \<Rightarrow> front_round list \<Rightarrow> fd \<Rightarrow> string option \<times> fd" where
  "get_front_rounds start timeout fs host [] s = (None, s\<lparr>timeout_roundtrip := timeout_roundtrip s + 5\<rparr>)"
| "get_front_rounds start timeout fs host (r # rs) s =
     (if \<not> fr_start r - start < timeout then (None, s\<lparr>timeout_roundtrip := timeout_roundtrip s + 5\<rparr>)
      else case scan_fronts r s fs host 999999999 None 0 of
        (Some f, n, h) \<Rightarrow> (Some f, s)
      | (None, n, h) \<Rightarrow>
          (let s1 = (if n = 0 then s\<lparr>disabled := []\<rparr> else s)
           in if timeout - (fr_end r - start) \<le> 0 then (None, s1\<lparr>timeout_roundtrip := timeout_roundtrip s1 + 5\<rparr>)
              else get_front_rounds start timeout fs h rs s1))"

definition get_front :: "string \<Rightarrow> time \<Rightarrow> real \<Rightarrow> front_round list \<Rightarrow> fd \<Rightarrow> string option \<times> fd" where
  "get_front host start timeout rs s = get_front_rounds start timeout (fronts_for host s) host rs s"

definition count_connection :: "(string \<Rightarrow> (nat \<times> nat) option) \<Rightarrow> fd \<Rightarrow> nat" where
  "count_connection dispatcher s =
     (\<Sum>f\<leftarrow>session_fronts s. case dispatcher f of None \<Rightarrow> 0 | Some (workers, pooled) \<Rightarrow> workers + pooled)"

subsection \<open>A request\<close>

text \<open>
  One attempt: the clock at the head of the loop, the search for a front, the clock before the
  request, what the front answers (the length of the content, the status, the announced length
  or what reading it raises), and the clock afterwards.
\<close>

record front_try =
  ft_head :: time
  ft_search :: time
  ft_rounds :: "front_round list"
  ft_before :: time
  ft_content :: bytes
  ft_status :: int
  ft_length :: "exn + int"
  ft_wall :: time
  ft_after :: time

datatype front_asked = Asked (asked_front: string) (asked_host: string) (asked_timeout: real)

text \<open>A list that is too short counts as a timeout.  The answer is the content with its status, or what the header raises.\<close>

fun request_tries :: "time \<Rightarrow> real \<Rightarrow> string \<Rightarrow> bytes \<times> int \<Rightarrow> front_try list \<Rightarrow> fd \<Rightarrow> (exn + bytes \<times> int) \<times> front_asked list \<times> fd" where
  "request_tries start timeout host res [] s = (Inr res, [], s)"
| "request_tries start timeout host res (t # ts) s =
     (if \<not> ft_head t - start < timeout then (Inr res, [], s)
      else case get_front host (ft_search t) (timeout - (ft_head t - start)) (ft_rounds t) s of
        (None, s1) \<Rightarrow> (Inr ([], 602), [], s1)
      | (Some f, s1) \<Rightarrow>
          (let host1 = host_for s1 f host; left = timeout - (ft_before t - start) in
           if left \<le> 0 then (Inr res, [], s1)
           else let res1 = (ft_content t, ft_status t); ask = Asked f host1 left;
                    failed = (\<lambda>s2. if timeout - (ft_after t - start) \<le> 0 then (Inr res1, [ask], s2)
                                   else let (x, asks, s3) = request_tries start timeout host1 res1 ts s2 in (x, ask # asks, s3))
             in if ft_status t \<notin> {200, 521, 400, 404} then failed (record_front_fail (ft_wall t) f s1)
                else case ft_length t of
                  Inl e \<Rightarrow> (Inl e, [ask], s1)
                | Inr n \<Rightarrow>
                    if n \<noteq> 0 \<and> int (length (ft_content t)) \<noteq> n then failed (record_front_fail (ft_wall t) f s1)
                    else (Inr res1, [ask], record_front_success f s1)))"

definition fd_request :: "time \<Rightarrow> real \<Rightarrow> string \<Rightarrow> front_try list \<Rightarrow> fd \<Rightarrow> (exn + bytes \<times> int) \<times> front_asked list \<times> fd" where
  "fd_request start timeout host ts s = request_tries start timeout host ([], 603) ts s"

definition fd_set_session_host :: "string \<Rightarrow> (string \<Rightarrow> bool) \<Rightarrow> fd \<Rightarrow> fd" where
  "fd_set_session_host host has s =
     fd_emit (map (\<lambda>f. SessionHost f host) (filter has (session_fronts s)) @ [FrontReady]) s"

definition fd_stop :: "fd \<Rightarrow> fd" where
  "fd_stop s =
     fd_emit (map StopFront (all_fronts s) @ [FrontReady])
       (s\<lparr>statistic_running := False, all_fronts := [], light_fronts := [], session_fronts := [], cloudflare_front := None,
          front_initialized := False, fail_counts := [], last_fail_time := []\<rparr>)"

subsection \<open>The front that is chosen\<close>

text \<open>The reference: the fronts that can carry the request, with score and penalty added.\<close>

fun candidates :: "front_round \<Rightarrow> fd \<Rightarrow> string list \<Rightarrow> string \<Rightarrow> (string \<times> real) list" where
  "candidates r s [] host = []"
| "candidates r s (f # fs) host =
     (if is_front_disabled (fr_wall r) s f then candidates r s fs host
      else let host' = host_for s f host in
        (if fr_has r f host' \<and> fr_score r f \<noteq> None \<and> fr_score r f \<noteq> Some 0
         then [(f, the (fr_score r f) + real_of_int (get_front_penalty (fr_wall r) s f))] else [])
        @ candidates r s fs host')"

lemma scan_fronts_best:
  "fst (scan_fronts r s fs host best_score best n)
     = (case first_min snd (filter (\<lambda>c. snd c < best_score) (candidates r s fs host)) of None \<Rightarrow> best | Some (f, t) \<Rightarrow> Some f)"
proof (induction fs arbitrary: host best_score best n)
  case (Cons f fs)
  let ?host = "host_for s f host"
  show ?case
  proof (cases "is_front_disabled (fr_wall r) s f \<or> \<not> fr_has r f ?host \<or> fr_score r f = None \<or> fr_score r f = Some 0")
    case True
    with Cons.IH show ?thesis by (auto simp: Let_def split: option.split)
  next
    case False
    then obtain sc where sc: "fr_score r f = Some sc" "sc \<noteq> 0" "fr_has r f ?host" "\<not> is_front_disabled (fr_wall r) s f" by auto
    let ?t = "sc + real_of_int (get_front_penalty (fr_wall r) s f)" and ?cs = "candidates r s fs ?host"
    show ?thesis
    proof (cases "?t < best_score")
      case True
      have "first_min snd (filter (\<lambda>c. snd c < best_score) ((f, ?t) # ?cs))
          = (case first_min snd (filter (\<lambda>c. snd c < ?t) ?cs) of None \<Rightarrow> Some (f, ?t) | Some c \<Rightarrow> Some c)"
        using first_min_Cons [of snd "(f, ?t)" best_score ?cs] True by simp
      then show ?thesis using True sc Cons.IH by (simp add: Let_def split: option.split)
    next
      case False
      then show ?thesis using sc Cons.IH by (simp add: Let_def)
    qed
  qed
qed simp

lemma first_min_le: "first_min f xs = Some x \<Longrightarrow> y \<in> set xs \<Longrightarrow> f x \<le> f y"
proof (induction xs arbitrary: x rule: rev_induct)
  case (snoc z xs)
  show ?case
  proof (cases "first_min f xs")
    case None
    with snoc.prems show ?thesis by (auto simp: first_min_def split: if_splits)
  next
    case (Some b)
    have "f b \<le> f y" if "y \<in> set xs" using snoc.IH [OF Some that] .
    moreover have "x = (if f z < f b then z else b)" using snoc.prems(1) Some by (simp add: first_min_snoc split: if_splits)
    ultimately show ?thesis using snoc.prems(2) by (auto intro: order.trans [OF less_imp_le])
  qed
qed simp

text \<open>The hosts a search asks about: the one it was called with, and the server host in place of the name service.\<close>

definition asked :: "fd \<Rightarrow> string \<Rightarrow> string \<Rightarrow> bool" where
  "asked s host h \<longleftrightarrow> h = host \<or> h = server_host s"

lemma asked_host_for: "asked s host h \<Longrightarrow> asked s host (host_for s f h)"
  by (simp add: asked_def host_for_def)

lemma candidates_sound: "(f, t) \<in> set (candidates r s fs h0) \<Longrightarrow> asked s host h0 \<Longrightarrow> f \<in> set fs \<and> \<not> is_front_disabled (fr_wall r) s f
    \<and> (\<exists>h sc. asked s host h \<and> fr_has r f h \<and> fr_score r f = Some sc \<and> sc \<noteq> 0
        \<and> t = sc + real_of_int (get_front_penalty (fr_wall r) s f))"
  by (induction fs arbitrary: h0) (auto simp: Let_def dest: asked_host_for split: if_splits)

text \<open>One turn of the scan: a front is counted if it does not sit out and has a dispatcher.\<close>

lemma scan_fronts_turn:
  "scan_fronts r s (f # fs) h b best n = res \<Longrightarrow>
     (\<exists>b' best'. scan_fronts r s fs h b' best' n = res) \<and> is_front_disabled (fr_wall r) s f
   \<or> (\<exists>b' best'. scan_fronts r s fs (host_for s f h) b' best' (if fr_has r f (host_for s f h) then n + 1 else n) = res)
     \<and> \<not> is_front_disabled (fr_wall r) s f"
  by (cases "fr_score r f") (auto simp: Let_def split: if_splits)

lemma scan_fronts_asked: "scan_fronts r s fs h0 b best n = (x, n', h) \<Longrightarrow> asked s host h0 \<Longrightarrow> asked s host h"
proof (induction fs arbitrary: h0 b best n)
  case (Cons f fs)
  from scan_fronts_turn [OF Cons.prems(1)] Cons.IH Cons.prems(2) show ?case by (blast intro: asked_host_for)
qed simp

lemma get_front_rounds_spec:
  "get_front_rounds start timeout fs h0 rs s = (Some f, s') \<Longrightarrow> asked s host h0 \<Longrightarrow> \<exists>r \<in> set rs. \<exists>h t. fr_start r - start < timeout
     \<and> asked s' host h \<and> first_min snd (filter (\<lambda>c. snd c < 999999999) (candidates r s' fs h)) = Some (f, t)"
proof (induction rs arbitrary: h0 s)
  case (Cons r rs)
  obtain x n h where sc: "scan_fronts r s fs h0 999999999 None 0 = (x, n, h)" by (metis prod_cases3)
  note best = scan_fronts_best [of r s fs h0 999999999 None 0, unfolded sc, simplified]
  show ?case
  proof (cases x)
    case None
    let ?s1 = "if n = 0 then s\<lparr>disabled := []\<rparr> else s"
    have "asked ?s1 host h" using scan_fronts_asked [OF sc Cons.prems(2)] by (simp add: asked_def)
    moreover have "get_front_rounds start timeout fs h rs ?s1 = (Some f, s')"
      using Cons.prems(1) sc None by (auto simp: Let_def split: if_splits)
    ultimately show ?thesis using Cons.IH by auto
  next
    case (Some g)
    with Cons.prems sc have "g = f" "s' = s" "fr_start r - start < timeout" by (auto split: if_splits)
    with best Some Cons.prems(2) show ?thesis by (auto split: option.splits)
  qed
qed simp

text \<open>
  C27. The front that \<^verbatim>\<open>get_front\<close> gives belongs to the fronts for that host, is not sitting out a run
  of failures, and had a dispatcher with a score for the host it was asked about (the host of the
  call, or the server host in place of the name service), in a round that began before the
  timeout; and no other front that could carry the request in that round had a lower sum of
  score and penalty.
\<close>

theorem chosen_front:
  assumes "get_front host start timeout rs s = (Some f, s')"
  shows "\<exists>r \<in> set rs. \<exists>h h' sc. fr_start r - start < timeout \<and> f \<in> set (fronts_for host s) \<and> \<not> is_front_disabled (fr_wall r) s' f
    \<and> asked s' host h' \<and> fr_has r f h' \<and> fr_score r f = Some sc \<and> sc \<noteq> 0
    \<and> asked s' host h
    \<and> (\<forall>(g, u) \<in> set (candidates r s' (fronts_for host s) h). sc + real_of_int (get_front_penalty (fr_wall r) s' f) \<le> u)"
proof -
  let ?fs = "fronts_for host s"
  have "asked s host host" by (simp add: asked_def)
  from get_front_rounds_spec [OF assms [unfolded get_front_def] this] obtain r h t where r: "r \<in> set rs" "fr_start r - start < timeout"
    and h: "asked s' host h"
    and m: "first_min snd (filter (\<lambda>c. snd c < 999999999) (candidates r s' ?fs h)) = Some (f, t)" by blast
  have mem: "(f, t) \<in> set (candidates r s' ?fs h)" "t < 999999999" using first_min_mem [OF m] by auto
  from candidates_sound [OF mem(1) h] obtain h' sc where
    f: "f \<in> set ?fs" "\<not> is_front_disabled (fr_wall r) s' f" "asked s' host h'" "fr_has r f h'" "fr_score r f = Some sc" "sc \<noteq> 0"
      "t = sc + real_of_int (get_front_penalty (fr_wall r) s' f)" by blast
  have "t \<le> u" if "(g, u) \<in> set (candidates r s' ?fs h)" for g u
    using first_min_le [OF m, of "(g, u)"] that mem(2) by (cases "u < 999999999") auto
  with r f h show ?thesis by blast
qed

definition fd_ex :: fd where
  "fd_ex = fd_init \<lparr>fd_config = \<lparr>enable_cloudflare = True, enable_cloudfront = False, enable_seley = True, enable_tls_relay = False,
       enable_direct = False, api_server = ''a''\<rparr>, server_host = [], all_fronts = [], light_fronts = [], session_fronts = [],
     cloudflare_front = None, statistic_running = False, front_initialized = False, fail_counts = [], success_counts = [],
     last_fail_time = [], disabled = [], timeout_roundtrip = 0, fd_outs = []\<rparr>"

definition round_ex :: "time \<Rightarrow> front_round" where
  "round_ex now = \<lparr>fr_start = now, fr_wall = now, fr_end = now, fr_has = (\<lambda>f h. True), fr_score = (\<lambda>f. if f = cloudflare then Some 30 else Some 20)\<rparr>"

theorem chosen_front_witness:
  "get_front ''host'' 1 10 [round_ex 2] fd_ex = (Some ''seley_front'', fd_ex) \<and> \<not> is_front_disabled 2 fd_ex ''seley_front''"
proof -
  have g: "get_front ''host'' 1 10 [round_ex 2] fd_ex = (Some ''seley_front'', fd_ex)"
    by (simp add: get_front_def fronts_for_def fd_ex_def fd_init_def enabled_fronts_def round_ex_def is_front_disabled_def dget_or_def
        host_for_def dns_host_def cloudflare_def get_front_penalty_def Let_def)
  from chosen_front [OF g] show ?thesis using g by (auto simp: round_ex_def)
qed

subsection \<open>Fronts that fail\<close>

definition fails :: "string \<Rightarrow> time list \<Rightarrow> fd \<Rightarrow> fd" where
  "fails f ts s = foldl (\<lambda>s now. record_front_fail now f s) s ts"

lemma fails_count: "dget_or (fail_counts (fails f ts s)) f 0 = dget_or (fail_counts s) f 0 + int (length ts)
    \<and> success_counts (fails f ts s) = success_counts s"
  unfolding fails_def
  by (induction ts arbitrary: s) (auto simp: record_front_fail_def Let_def dget_or_def)

lemma fails_other: "g \<noteq> f \<Longrightarrow> dget (disabled (fails f ts s)) g = dget (disabled s) g"
  unfolding fails_def by (induction ts arbitrary: s) (simp_all add: record_front_fail_def Let_def)

lemma failing_front_disabled:
  assumes "10 \<le> length ts" and "dget_or (fail_counts s) f 0 = 0" and "dget_or (success_counts s) f 0 = 0" and "last ts \<noteq> 0"
  shows "is_front_disabled now (fails f ts s) f \<longleftrightarrow> now < last ts + 120"
proof -
  obtain us u where ts: "ts = us @ [u]" using assms(1) by (cases ts rule: rev_cases) auto
  let ?s = "fails f us s"
  have st: "fails f ts s = record_front_fail u f ?s" by (simp add: fails_def ts)
  have c: "dget_or (fail_counts ?s) f 0 = int (length us)" "dget_or (success_counts ?s) f 0 = 0"
    using fails_count [of f us s] assms(2,3) by simp_all
  have "dget (disabled (fails f ts s)) f = Some u"
    using assms(1) ts unfolding st by (simp add: record_front_fail_def c Let_def DISABLE_THRESHOLD_def)
  then show ?thesis using assms(4) ts by (auto simp: is_front_disabled_def dget_or_def DISABLE_DURATION_def)
qed

lemma fails_fronts:
  "light_fronts (fails f ts s) = light_fronts s \<and> session_fronts (fails f ts s) = session_fronts s \<and> fd_config (fails f ts s) = fd_config s"
  unfolding fails_def by (induction ts arbitrary: s) (simp_all add: record_front_fail_def Let_def)

text \<open>A front of the list that does not sit out and has a dispatcher for every host that is asked is counted.\<close>

definition available :: "front_round \<Rightarrow> fd \<Rightarrow> string \<Rightarrow> string \<Rightarrow> bool" where
  "available r s host g \<longleftrightarrow> \<not> is_front_disabled (fr_wall r) s g \<and> fr_has r g host \<and> fr_has r g (server_host s)"

lemma scan_fronts_counts:
  "scan_fronts r s fs h0 b best n = (x, n', h) \<Longrightarrow> asked s host h0 \<Longrightarrow>
     n \<le> n' \<and> (g \<in> set fs \<and> available r s host g \<longrightarrow> n < n')"
proof (induction fs arbitrary: h0 b best n)
  case (Cons f fs)
  let ?h = "host_for s f h0" and ?n = "if fr_has r f (host_for s f h0) then n + 1 else n"
  note a = asked_host_for [OF Cons.prems(2), of f]
  have av: "fr_has r f ?h \<and> \<not> is_front_disabled (fr_wall r) s f" if "available r s host f"
    using a that by (auto simp: available_def asked_def)
  from scan_fronts_turn [OF Cons.prems(1)] show ?case
  proof (elim disjE conjE exE)
    fix b' best'
    assume "scan_fronts r s fs h0 b' best' n = (x, n', h)" "is_front_disabled (fr_wall r) s f"
    with Cons.IH [OF _ Cons.prems(2)] av show ?thesis by auto
  next
    fix b' best'
    assume "scan_fronts r s fs ?h b' best' ?n = (x, n', h)"
    from Cons.IH [OF this a] av show ?thesis by (cases "g = f") (auto split: if_splits)
  qed
qed simp

text \<open>A front that sits out in every round is passed over as long as some other front is available.\<close>

lemma passed_over:
  assumes "get_front_rounds start timeout fs h0 rs s = (x, s')" and "asked s host h0"
    and "\<forall>r \<in> set rs. is_front_disabled (fr_wall r) s f \<and> (\<exists>g \<in> set fs. available r s host g)"
  shows "x \<noteq> Some f \<and> disabled s' = disabled s"
  using assms
proof (induction rs arbitrary: h0)
  case (Cons r rs)
  obtain y n h where sc: "scan_fronts r s fs h0 999999999 None 0 = (y, n, h)" by (metis prod_cases3)
  obtain g where g: "g \<in> set fs" "available r s host g" using Cons.prems(3) by auto
  have n: "n \<noteq> 0" using scan_fronts_counts [OF sc Cons.prems(2), of g] g by simp
  show ?case
  proof (cases y)
    case None
    with Cons.prems(1) sc n have "x = None \<and> disabled s' = disabled s \<or> get_front_rounds start timeout fs h rs s = (x, s')"
      by (auto simp: Let_def split: if_splits)
    with Cons.IH [OF _ scan_fronts_asked [OF sc Cons.prems(2)]] Cons.prems(3) show ?thesis by auto
  next
    case (Some k)
    have "k \<noteq> f"
    proof
      assume "k = f"
      with scan_fronts_best [of r s fs h0 999999999 None 0] sc Some
      obtain t where "first_min snd (filter (\<lambda>c. snd c < 999999999) (candidates r s fs h0)) = Some (f, t)"
        by (auto split: option.splits)
      from first_min_mem [OF this] candidates_sound [OF _ Cons.prems(2)] Cons.prems(3) show False by fastforce
    qed
    with Cons.prems(1) sc Some show ?thesis by (auto split: if_splits)
  qed
qed auto

text \<open>
  C28. A front that has never succeeded and fails ten times in a row sits out the two minutes after its
  last failure, and no longer: a search within them whose every round finds some other front of
  its list available does not give this front, and leaves it sitting out.  One success clears
  this at once: the front is not disabled at any time, and has no penalty.
\<close>

theorem failing_front_sits_out:
  assumes "10 \<le> length ts" and "dget_or (fail_counts s) f 0 = 0" and "dget_or (success_counts s) f 0 = 0" and "last ts \<noteq> 0"
    and "get_front host start timeout rs (fails f ts s) = (x, s')"
    and "\<forall>r \<in> set rs. fr_wall r < last ts + 120 \<and> (\<exists>g \<in> set (fronts_for host s). available r (fails f ts s) host g)"
  shows "x \<noteq> Some f \<and> (is_front_disabled now s' f \<longleftrightarrow> now < last ts + 120)
    \<and> \<not> is_front_disabled t (record_front_success f (fails f ts s)) f \<and> get_front_penalty t (record_front_success f (fails f ts s)) f = 0"
proof -
  let ?s = "fails f ts s"
  note d = failing_front_disabled [OF assms(1-4)]
  have same: "fronts_for host ?s = fronts_for host s" using fails_fronts by (simp add: fronts_for_def)
  have "x \<noteq> Some f \<and> disabled s' = disabled ?s"
    by (rule passed_over [OF assms(5) [unfolded get_front_def]]) (use assms(6) d in \<open>auto simp: asked_def same\<close>)
  then show ?thesis using d [of now] by (simp add: is_front_disabled_def get_front_penalty_def record_front_success_def dget_or_def)
qed

text \<open>When no front at all is available, the search clears the table, and the front may be chosen in the next round.\<close>

lemma reset_when_none_left:
  assumes "scan_fronts r s (fronts_for host s) host 999999999 None 0 = (None, 0, h)"
    and "fr_start r - start < timeout" and "fr_end r - start < timeout"
  shows "get_front host start timeout (r # rs) s = get_front_rounds start timeout (fronts_for host s) h rs (s\<lparr>disabled := []\<rparr>)"
    and "\<not> is_front_disabled now (s\<lparr>disabled := []\<rparr>) f"
  using assms by (simp_all add: get_front_def is_front_disabled_def dget_or_def)

theorem failing_front_sits_out_witness:
  "fst (get_front ''host'' 100 10 [round_ex 101] (fails cloudflare (replicate 10 20) fd_ex)) \<noteq> Some cloudflare"
proof -
  let ?s = "fails cloudflare (replicate 10 20) fd_ex"
  obtain x s' where g: "get_front ''host'' 100 10 [round_ex 101] ?s = (x, s')" by fastforce
  have o: "dget (disabled ?s) ''seley_front'' = None"
    by (simp add: fails_other fd_ex_def fd_init_def Let_def cloudflare_def)
  have "available (round_ex 101) ?s ''host'' ''seley_front''"
    by (simp add: available_def round_ex_def is_front_disabled_def dget_or_def o)
  moreover have "''seley_front'' \<in> set (fronts_for ''host'' fd_ex)"
    by (simp add: fronts_for_def fd_ex_def fd_init_def enabled_fronts_def dns_host_def Let_def)
  ultimately have "\<forall>r \<in> set [round_ex 101]. fr_wall r < last (replicate 10 20) + 120 \<and> (\<exists>g \<in> set (fronts_for ''host'' fd_ex). available r ?s ''host'' g)"
    by (auto simp: round_ex_def)
  with failing_front_sits_out [OF _ _ _ _ g] show ?thesis using g by (simp add: fd_ex_def fd_init_def dget_or_def Let_def)
qed

text \<open>The penalty of a front that is not sitting out is never negative, and gone half a minute after the last failure.\<close>

lemma penalty_decays:
  assumes "\<not> is_front_disabled now s f" and "now - dget_or (last_fail_time s) f 0 \<ge> 30"
  shows "get_front_penalty now s f = 0"
  using assms by (simp add: get_front_penalty_def DECAY_SECONDS_def Let_def max_def)

text \<open>\<^verbatim>\<open>stop\<close> forgets the failures but not the fronts that sit out, nor the successes.\<close>

lemma stop_keeps_disabled: "disabled (fd_stop s) = disabled s \<and> success_counts (fd_stop s) = success_counts s \<and> fail_counts (fd_stop s) = []"
  by (simp add: fd_stop_def)

text \<open>A cut answer with status 200 is given to the caller as it is when the time is over.\<close>

lemma truncated_answer_returned:
  assumes "ft_head t - start < timeout" and "get_front host (ft_search t) (timeout - (ft_head t - start)) (ft_rounds t) s = (Some f, s1)"
    and "0 < timeout - (ft_before t - start)" and "ft_status t = 200" and "ft_length t = Inr n" and "n \<noteq> 0" and "int (length (ft_content t)) \<noteq> n"
    and "timeout - (ft_after t - start) \<le> 0"
  shows "fst (fd_request start timeout host (t # ts) s) = Inr (ft_content t, 200)"
  using assms by (simp add: fd_request_def Let_def)

end
