(* ===== verification/Socks5.thy ===== *)
theory Socks5
  imports Py_Text Py_Struct
begin

text \<open>
  lib/noarch/async_socks5.py: the SOCKS5, SOCKS4 and HTTP handshakes of the local proxy server.

  The stream reader is what it has buffered and what is still to arrive: pieces of data, the end
  of the stream, and pauses, in which the ten seconds of a running \<^verbatim>\<open>wait_for\<close> go by; when nothing is
  listed any more, nothing arrives.  Writing to the client does not fail here.  A \<^verbatim>\<open>str\<close> is its
  UTF-8 encoding.

  The handler is a class that \<^verbatim>\<open>async_client.py\<close> extends, so its state is an extensible record and
  the method \<^verbatim>\<open>_handle_connect\<close>, which the subclass overrides, an argument.
\<close>

subsection \<open>Reader\<close>

datatype arrival = Segment bytes | Pause | Eof

record reader =
  rd_buf :: bytes
  rd_next :: "arrival list"

fun rd_wait :: "arrival list \<Rightarrow> (bytes \<times> arrival list) option" where
  "rd_wait [] = None"
| "rd_wait (Pause # evs) = rd_wait evs"
| "rd_wait (Eof # evs) = Some ([], Eof # evs)"
| "rd_wait (Segment b # evs) = (if b = [] then rd_wait evs else Some (b, evs))"

definition rd_read :: "nat \<Rightarrow> reader \<Rightarrow> (bytes \<times> reader) option" where
  "rd_read n r =
     (if rd_buf r \<noteq> [] then Some (take n (rd_buf r), r\<lparr>rd_buf := drop n (rd_buf r)\<rparr>)
      else case rd_wait (rd_next r) of None \<Rightarrow> None
           | Some (b, evs) \<Rightarrow> Some (take n b, \<lparr>rd_buf = drop n b, rd_next = evs\<rparr>))"

fun rd_collect :: "nat \<Rightarrow> bytes \<Rightarrow> arrival list \<Rightarrow> bytes option \<times> reader" where
  "rd_collect n buf [] = (if n \<le> length buf then (Some (take n buf), \<lparr>rd_buf = drop n buf, rd_next = []\<rparr>)
     else (None, \<lparr>rd_buf = buf, rd_next = []\<rparr>))"
| "rd_collect n buf (ev # evs) =
     (if n \<le> length buf then (Some (take n buf), \<lparr>rd_buf = drop n buf, rd_next = ev # evs\<rparr>)
      else case ev of
        Segment b \<Rightarrow> rd_collect n (buf @ b) evs
      | Pause \<Rightarrow> (None, \<lparr>rd_buf = buf, rd_next = evs\<rparr>)
      | Eof \<Rightarrow> (None, \<lparr>rd_buf = [], rd_next = Eof # evs\<rparr>))"

text \<open>\<^verbatim>\<open>wait_for(readexactly(n), 10)\<close>: \<open>None\<close> for a time-out as for an incomplete read.\<close>

definition rd_exactly :: "nat \<Rightarrow> reader \<Rightarrow> bytes option \<times> reader" where
  "rd_exactly n r = rd_collect n (rd_buf r) (rd_next r)"

fun coming :: "arrival list \<Rightarrow> nat" where
  "coming [] = 0"
| "coming (Segment b # evs) = length b + coming evs"
| "coming (ev # evs) = coming evs"

definition rd_size :: "reader \<Rightarrow> nat" where
  "rd_size r = length (rd_buf r) + coming (rd_next r)"

lemma rd_wait_coming: "rd_wait evs = Some (b, evs') \<Longrightarrow> coming evs = length b + coming evs'"
  by (induction evs rule: rd_wait.induct) (auto split: if_splits)

lemma rd_read_less: "rd_read n r = Some (b, r') \<Longrightarrow> b \<noteq> [] \<Longrightarrow> rd_size r' < rd_size r"
  by (auto simp: rd_read_def rd_size_def split: if_splits option.splits dest!: rd_wait_coming)

subsection \<open>State and outcomes\<close>

datatype status = Returned | Raised exn | Waiting

datatype sock_act =
    Reply bytes
  | Dial bytes int
  | Relayed "bytes list" "bytes list"
  | CloseClient

record dial_env =
  reachable :: "bytes \<Rightarrow> int \<Rightarrow> bool"
  remote_in :: "bytes \<Rightarrow> int \<Rightarrow> arrival list"
  ntop :: "bytes \<Rightarrow> bytes"

record sock_handler =
  k_reader :: reader
  k_buffer :: bytes
  k_acts :: "sock_act list"

definition k_init :: "arrival list \<Rightarrow> sock_handler" where
  "k_init evs = \<lparr>k_reader = \<lparr>rd_buf = [], rd_next = evs\<rparr>, k_buffer = [], k_acts = []\<rparr>"

definition act :: "sock_act \<Rightarrow> 'a sock_handler_scheme \<Rightarrow> 'a sock_handler_scheme" where
  "act a k = k\<lparr>k_acts := k_acts k @ [a]\<rparr>"

definition exactly :: "nat \<Rightarrow> 'a sock_handler_scheme \<Rightarrow> bytes option \<times> 'a sock_handler_scheme" where
  "exactly n k = (let (b, r) = rd_exactly n (k_reader k) in (b, k\<lparr>k_reader := r\<rparr>))"

definition byte :: "nat \<Rightarrow> char" where "byte n = char_of n"

definition socks5_reply :: "nat \<Rightarrow> bytes" where
  "socks5_reply rep = map byte [5, rep, 0, 1, 0, 0, 0, 0, 0, 0]"

definition socks4_reply :: "nat \<Rightarrow> bytes" where
  "socks4_reply code = map byte [0, code, 0, 0, 0, 0, 0, 0]"

text \<open>Whether bytes are well-formed UTF-8, which \<^verbatim>\<open>decode\<close> demands.\<close>

definition cont_byte :: "char \<Rightarrow> bool" where
  "cont_byte c \<longleftrightarrow> 0x80 \<le> (of_char c :: nat) \<and> (of_char c :: nat) \<le> 0xBF"

fun utf8_ok :: "bytes \<Rightarrow> bool" where
  "utf8_ok [] = True"
| "utf8_ok (c # s) = (let n = (of_char c :: nat) in
     if n < 0x80 then utf8_ok s
     else if 0xC2 \<le> n \<and> n \<le> 0xDF then (case s of d # s' \<Rightarrow> cont_byte d \<and> utf8_ok s' | _ \<Rightarrow> False)
     else if 0xE0 \<le> n \<and> n \<le> 0xEF then
       (case s of d # e # s' \<Rightarrow> cont_byte d \<and> cont_byte e
            \<and> (n = 0xE0 \<longrightarrow> 0xA0 \<le> (of_char d :: nat)) \<and> (n = 0xED \<longrightarrow> (of_char d :: nat) \<le> 0x9F) \<and> utf8_ok s'
        | _ \<Rightarrow> False)
     else if 0xF0 \<le> n \<and> n \<le> 0xF4 then
       (case s of d # e # f # s' \<Rightarrow> cont_byte d \<and> cont_byte e \<and> cont_byte f
            \<and> (n = 0xF0 \<longrightarrow> 0x90 \<le> (of_char d :: nat)) \<and> (n = 0xF4 \<longrightarrow> (of_char d :: nat) \<le> 0x8F) \<and> utf8_ok s'
        | _ \<Rightarrow> False)
     else False)"

definition decode_host :: "bytes \<Rightarrow> exn + bytes" where
  "decode_host b = (if utf8_ok b then Inr b else Inl ValueError)"

definition dotted :: "bytes \<Rightarrow> bytes" where
  "dotted b = join ''.'' (map (\<lambda>c. dec (of_char c)) b)"

subsection \<open>Relay\<close>

text \<open>
  One direction: the chunks handed on, and whether the end of the stream was seen; without it
  the coroutine goes on waiting.
\<close>

function forward :: "reader \<Rightarrow> bytes list \<times> bool" where
  "forward r = (case rd_read 65536 r of
      None \<Rightarrow> ([], False)
    | Some (b, r') \<Rightarrow> if b = [] then ([], True) else (let (bs, e) = forward r' in (b # bs, e)))"
  by pat_completeness auto
termination by (relation "measure rd_size") (auto simp: rd_read_less)

declare forward.simps [simp del]

text \<open>The directions run side by side; the relay is over when both have seen the end.\<close>

definition relay :: "arrival list \<Rightarrow> 'a sock_handler_scheme \<Rightarrow> status \<times> 'a sock_handler_scheme" where
  "relay remote k =
     (let (up, e1) = forward (k_reader k);
          (down, e2) = forward \<lparr>rd_buf = [], rd_next = remote\<rparr>
      in (if e1 \<and> e2 then Returned else Waiting, act (Relayed up down) k))"

subsection \<open>Handshakes\<close>

type_synonym 'a handler = "dial_env \<Rightarrow> bytes \<Rightarrow> int \<Rightarrow> 'a sock_handler_scheme \<Rightarrow> status \<times> 'a sock_handler_scheme"

text \<open>\<^verbatim>\<open>AsyncSocks5Handler._handle_connect\<close>: the connection goes straight to the target.\<close>

definition handle_connect :: "'a handler" where
  "handle_connect env host port k =
     (let k1 = act (Dial host port) k
      in if reachable env host port
         then relay (remote_in env host port) (act (Reply (socks5_reply 0)) k1)
         else (Returned, act (Reply (socks5_reply 5)) k1))"

datatype addr_result = Address bytes | Stop status

definition read_address :: "dial_env \<Rightarrow> nat \<Rightarrow> 'a sock_handler_scheme \<Rightarrow> addr_result \<times> 'a sock_handler_scheme" where
  "read_address env atyp k =
     (if atyp = 1 then
        (case exactly 4 k of (None, k1) \<Rightarrow> (Stop Returned, k1) | (Some b, k1) \<Rightarrow> (Address (dotted b), k1))
      else if atyp = 3 then
        (case exactly 1 k of (None, k1) \<Rightarrow> (Stop Returned, k1) | (Some l, k1) \<Rightarrow>
          (case exactly (of_char (hd l)) k1 of (None, k2) \<Rightarrow> (Stop Returned, k2) | (Some b, k2) \<Rightarrow>
            (case decode_host b of Inl e \<Rightarrow> (Stop (Raised e), k2) | Inr h \<Rightarrow> (Address h, k2))))
      else if atyp = 4 then
        (case exactly 16 k of (None, k1) \<Rightarrow> (Stop Returned, k1) | (Some b, k1) \<Rightarrow> (Address (ntop env b), k1))
      else (Stop Returned, k))"

definition read_methods :: "nat \<Rightarrow> 'a sock_handler_scheme \<Rightarrow> bytes option \<times> 'a sock_handler_scheme" where
  "read_methods n k = (if n > 0 then exactly n k else (Some [], k))"

definition handle_socks5 :: "'a handler \<Rightarrow> dial_env \<Rightarrow> 'a sock_handler_scheme \<Rightarrow> status \<times> 'a sock_handler_scheme" where
  "handle_socks5 hc env k =
     (case exactly 1 k of (None, k1) \<Rightarrow> (Returned, k1) | (Some a, k1) \<Rightarrow>
      (case read_methods (of_char (hd a)) k1 of
         (None, k2) \<Rightarrow> (Returned, k2)
       | (Some _, k2) \<Rightarrow>
      (case exactly 4 (act (Reply (map byte [5, 0])) k2) of (None, k3) \<Rightarrow> (Returned, k3) | (Some h, k3) \<Rightarrow>
         if of_char (h ! 0) \<noteq> (5 :: nat) then (Returned, k3)
         else (case read_address env (of_char (h ! 3)) k3 of
             (Stop st, k4) \<Rightarrow> (st, k4)
           | (Address host, k4) \<Rightarrow>
      (case exactly 2 k4 of (None, k5) \<Rightarrow> (Returned, k5) | (Some p, k5) \<Rightarrow>
         if of_char (h ! 1) = (1 :: nat) then hc env host (int (be_nat p)) k5
         else (Returned, act (Reply (socks5_reply 7)) k5))))))"

text \<open>\<^verbatim>\<open>_handle_socks4\<close> skips the user name up to its zero byte, without a time limit, and dials itself.\<close>

function skip_user :: "reader \<Rightarrow> status \<times> reader" where
  "skip_user r = (case rd_read 1 r of
      None \<Rightarrow> (Waiting, r)
    | Some (b, r') \<Rightarrow> if b = [] \<or> b = [byte 0] then (Returned, r') else skip_user r')"
  by pat_completeness auto
termination by (relation "measure rd_size") (auto simp: rd_read_less)

declare skip_user.simps [simp del]

definition handle_socks4 :: "dial_env \<Rightarrow> 'a sock_handler_scheme \<Rightarrow> status \<times> 'a sock_handler_scheme" where
  "handle_socks4 env k =
     (case exactly 7 k of (None, k1) \<Rightarrow> (Returned, k1) | (Some h, k1) \<Rightarrow>
      (case skip_user (k_reader k1) of
         (Waiting, r) \<Rightarrow> (Waiting, k1\<lparr>k_reader := r\<rparr>)
       | (_, r) \<Rightarrow>
         (let host = dotted (slice 3 7 h); port = int (be_nat (slice 1 3 h));
              k2 = act (Dial host port) (k1\<lparr>k_reader := r\<rparr>)
          in if reachable env host port
             then relay (remote_in env host port) (act (Reply (socks4_reply 0x5A)) k2)
             else (Returned, act (Reply (socks4_reply 0x5B)) k2))))"

definition head_end :: bytes where "head_end = crlf @ crlf"

function read_head :: "reader \<Rightarrow> bytes \<Rightarrow> status \<times> reader \<times> bytes" where
  "read_head r buf =
     (if contains head_end buf then (Returned, r, buf)
      else case rd_read 4096 r of
        None \<Rightarrow> (Waiting, r, buf)
      | Some (b, r') \<Rightarrow> if b = [] then (Returned, r', buf) else read_head r' (buf @ b))"
  by pat_completeness auto
termination by (relation "measure (rd_size \<circ> fst)") (auto simp: rd_read_less)

declare read_head.simps [simp del]

definition before :: "bytes \<Rightarrow> bytes \<Rightarrow> bytes" where
  "before p s = (case find_sub p s of None \<Rightarrow> s | Some i \<Rightarrow> take i s)"

text \<open>\<^verbatim>\<open>rsplit(b":", 1)\<close> of a text with a colon.\<close>

definition after_last :: "char \<Rightarrow> bytes \<Rightarrow> bytes" where
  "after_last c s = rev (takeWhile (\<lambda>x. x \<noteq> c) (rev s))"

definition until_last :: "char \<Rightarrow> bytes \<Rightarrow> bytes" where
  "until_last c s = rev (drop 1 (dropWhile (\<lambda>x. x \<noteq> c) (rev s)))"

definition established :: bytes where "established = ''HTTP/1.1 200 Connection Established'' @ crlf @ crlf"
definition bad_gateway :: bytes where "bad_gateway = ''HTTP/1.1 502 Bad Gateway'' @ crlf @ crlf"
definition empty_ok :: bytes where "empty_ok = ''HTTP/1.1 200 OK'' @ crlf @ ''Content-Length: 0'' @ crlf @ crlf"

definition handle_http :: "dial_env \<Rightarrow> 'a sock_handler_scheme \<Rightarrow> status \<times> 'a sock_handler_scheme" where
  "handle_http env k =
     (case read_head (k_reader k) (k_buffer k) of (st, r, buf) \<Rightarrow>
      (let k1 = k\<lparr>k_reader := r, k_buffer := buf\<rparr>
       in if st \<noteq> Returned \<or> \<not> contains head_end buf then (st, k1)
          else let parts = split_on CHR '' '' (before crlf (before head_end buf))
               in if length parts < 2 then (Returned, k1)
                  else if parts ! 0 = ''CONNECT'' then
                    (let hp = parts ! 1
                     in case (if CHR '':'' \<in> set hp then map_sum id (Pair (until_last CHR '':'' hp)) (int_of_text (after_last CHR '':'' hp))
                              else Inr (hp, 443)) of
                          Inl e \<Rightarrow> (Raised e, k1)
                        | Inr (host, port) \<Rightarrow>
                            if utf8_ok host
                            then (let k2 = act (Dial host port) k1
                                  in if reachable env host port
                                     then relay (remote_in env host port) (act (Reply established) k2)
                                     else (Returned, act (Reply bad_gateway) k2))
                            else (Returned, act (Reply bad_gateway) k1))
                  else (Returned, act (Reply empty_ok) k1)))"

text \<open>\<^verbatim>\<open>handle\<close>: the version byte, the handshake, and closing the client in every case.\<close>

definition finish_client :: "status \<times> 'a sock_handler_scheme \<Rightarrow> status \<times> 'a sock_handler_scheme" where
  "finish_client res = (case res of (Waiting, k) \<Rightarrow> (Waiting, k) | (_, k) \<Rightarrow> (Returned, act CloseClient k))"

definition handle :: "'a handler \<Rightarrow> dial_env \<Rightarrow> 'a sock_handler_scheme \<Rightarrow> status \<times> 'a sock_handler_scheme" where
  "handle hc env k =
     finish_client (case rd_read 1 (k_reader k) of
          None \<Rightarrow> (Waiting, k)
        | Some (v, r) \<Rightarrow>
            (let k1 = k\<lparr>k_reader := r\<rparr>
             in if v = [] then (Returned, k1)
                else if v = [byte 5] then handle_socks5 hc env k1
                else if v = [byte 4] then handle_socks4 env k1
                else if hd v \<in> set ''CGPDOHT'' then handle_http env (k1\<lparr>k_buffer := v\<rparr>)
                else (Returned, k1)))"

subsection \<open>A handshake does not depend on how its bytes arrive\<close>

text \<open>What a reader can deliver before a pause or the end.\<close>

fun offer_stream :: "arrival list \<Rightarrow> bytes" where
  "offer_stream (Segment b # evs) = b @ offer_stream evs"
| "offer_stream evs = []"

definition offers :: "reader \<Rightarrow> bytes" where
  "offers r = rd_buf r @ offer_stream (rd_next r)"

lemma rd_collect_offers:
  "buf @ offer_stream evs = d @ rest \<Longrightarrow> \<exists>r. rd_collect (length d) buf evs = (Some d, r) \<and> offers r = rest"
proof (induction "length d" buf evs rule: rd_collect.induct)
  case (2 buf ev evs)
  show ?case
  proof (cases "length d \<le> length buf")
    case True
    with 2(2) obtain us where "buf = d @ us" "us @ offer_stream (ev # evs) = rest"
      by (auto simp: append_eq_append_conv2)
    with True show ?thesis by (simp add: offers_def)
  next
    case False
    with 2(2) obtain b where ev: "ev = Segment b" by (cases ev) (auto simp: append_eq_append_conv_if)
    with 2(1) [OF False ev] 2(2) False show ?thesis by simp
  qed
qed (auto simp: offers_def)

lemma exactly_reads:
  assumes "offers (k_reader k) = d @ rest" and "length d = n"
  shows "\<exists>r. exactly n k = (Some d, k\<lparr>k_reader := r\<rparr>) \<and> offers r = rest"
proof -
  from assms(1) have "rd_buf (k_reader k) @ offer_stream (rd_next (k_reader k)) = d @ rest" by (simp add: offers_def)
  from rd_collect_offers [OF this] assms(2) show ?thesis by (auto simp: exactly_def rd_exactly_def)
qed

lemma rd_wait_stream: "offer_stream evs = c # rest \<Longrightarrow> \<exists>b evs'. rd_wait evs = Some (c # b, evs') \<and> b @ offer_stream evs' = rest"
  by (induction evs rule: offer_stream.induct) (auto simp: append_eq_Cons_conv)

lemma rd_read_offers:
  assumes "offers r = c # rest"
  obtains r' where "rd_read 1 r = Some ([c], r')" "offers r' = rest"
proof (cases "rd_buf r")
  case Nil
  with assms rd_wait_stream [of "rd_next r" c rest] that show ?thesis by (auto simp: rd_read_def offers_def)
next
  case (Cons x b)
  with assms that show ?thesis by (auto simp: rd_read_def offers_def)
qed

text \<open>What a client sends.\<close>

datatype addr = V4 bytes | Name bytes | V6 bytes

fun addr_ok :: "addr \<Rightarrow> bool" where
  "addr_ok (V4 b) = (length b = 4)"
| "addr_ok (Name b) = (length b < 256 \<and> utf8_ok b)"
| "addr_ok (V6 b) = (length b = 16)"

fun addr_code :: "addr \<Rightarrow> nat" where
  "addr_code (V4 b) = 1" | "addr_code (Name b) = 3" | "addr_code (V6 b) = 4"

fun addr_bytes :: "addr \<Rightarrow> bytes" where
  "addr_bytes (V4 b) = b"
| "addr_bytes (Name b) = byte (length b) # b"
| "addr_bytes (V6 b) = b"

fun addr_text :: "dial_env \<Rightarrow> addr \<Rightarrow> bytes" where
  "addr_text env (V4 b) = dotted b"
| "addr_text env (Name b) = b"
| "addr_text env (V6 b) = ntop env b"

definition socks5_hello :: "bytes \<Rightarrow> bytes" where
  "socks5_hello methods = byte 5 # byte (length methods) # methods"

definition socks5_request :: "addr \<Rightarrow> nat \<Rightarrow> bytes" where
  "socks5_request a port = map byte [5, 1, 0, addr_code a] @ addr_bytes a @ map byte [port div 256, port mod 256]"

lemma of_byte [simp]: "n < 256 \<Longrightarrow> (of_char (byte n) :: nat) = n"
  by (simp add: byte_def)

lemma read_address_offers:
  assumes "offers (k_reader k) = addr_bytes a @ rest" and "addr_ok a"
  shows "\<exists>r. read_address env (addr_code a) k = (Address (addr_text env a), k\<lparr>k_reader := r\<rparr>) \<and> offers r = rest"
proof (cases a)
  case (V4 b)
  from assms exactly_reads [of k b rest 4] show ?thesis by (auto simp: V4 read_address_def)
next
  case (V6 b)
  from assms exactly_reads [of k b rest 16] show ?thesis by (auto simp: V6 read_address_def)
next
  case (Name b)
  with assms have "offers (k_reader k) = [byte (length b)] @ b @ rest" by simp
  from exactly_reads [OF this, of 1] obtain r1
    where r1: "exactly 1 k = (Some [byte (length b)], k\<lparr>k_reader := r1\<rparr>)" "offers r1 = b @ rest" by auto
  from exactly_reads [of "k\<lparr>k_reader := r1\<rparr>" b rest "length b"] r1(2)
  obtain r2 where "exactly (length b) (k\<lparr>k_reader := r1\<rparr>) = (Some b, k\<lparr>k_reader := r2\<rparr>)" "offers r2 = rest" by auto
  with r1(1) assms(2) show ?thesis by (auto simp: Name read_address_def decode_host_def)
qed

text \<open>
  A SOCKS5 client that offers any authentication methods and asks for a connection to an IPv4
  address, a name or an IPv6 address is answered the method \<open>0\<close> and its request is handed
  to \<^verbatim>\<open>_handle_connect\<close> with exactly that host and port, however the network cuts the bytes
  into pieces, and what the client sent behind its request is still there to be relayed.
\<close>

lemma socks5_request_read:
  assumes "offers (k_reader k) = socks5_hello methods @ socks5_request a port @ rest"
    and "length methods < 256" and "addr_ok a" and "port < 65536"
  shows "\<exists>r. offers r = rest \<and> handle hc env k
    = finish_client (hc env (addr_text env a) (int port) (k\<lparr>k_acts := k_acts k @ [Reply (map byte [5, 0])], k_reader := r\<rparr>))"
proof -
  let ?K = "\<lambda>r. k\<lparr>k_reader := r\<rparr>" and ?A = "\<lambda>r. k\<lparr>k_acts := k_acts k @ [Reply (map byte [5, 0])], k_reader := r\<rparr>"
  have acted: "act (Reply (map byte [5, 0])) (?K r) = ?A r" for r by (simp add: act_def)
  from assms(1) obtain r0 where r0: "rd_read 1 (k_reader k) = Some ([byte 5], r0)"
    "offers r0 = [byte (length methods)] @ methods @ socks5_request a port @ rest"
    by (metis Cons_eq_appendI rd_read_offers self_append_conv2 socks5_hello_def)
  obtain r1
    where r1: "exactly 1 (?K r0) = (Some [byte (length methods)], ?K r1)" "offers r1 = methods @ socks5_request a port @ rest"
    using exactly_reads [of "?K r0" "[byte (length methods)]" "methods @ socks5_request a port @ rest" 1] r0(2) by auto
  obtain r2 where r2: "read_methods (length methods) (?K r1) = (Some methods, ?K r2)"
    "offers r2 = socks5_request a port @ rest"
    using exactly_reads [of "?K r1" methods "socks5_request a port @ rest" "length methods"] r1(2) by (cases "methods = []") (auto simp: read_methods_def)
  obtain r3 where r3: "exactly 4 (?A r2) = (Some (map byte [5, 1, 0, addr_code a]), ?A r3)"
    "offers r3 = addr_bytes a @ map byte [port div 256, port mod 256] @ rest"
    using exactly_reads [of "?A r2" "map byte [5, 1, 0, addr_code a]" "addr_bytes a @ map byte [port div 256, port mod 256] @ rest" 4] r2(2) by (auto simp: socks5_request_def)
  obtain r4 where r4: "read_address env (addr_code a) (?A r3) = (Address (addr_text env a), ?A r4)"
    "offers r4 = map byte [port div 256, port mod 256] @ rest"
    using read_address_offers [of "?A r3" a] r3(2) assms(3) by auto
  obtain r5 where r5: "exactly 2 (?A r4) = (Some (map byte [port div 256, port mod 256]), ?A r5)" "offers r5 = rest"
    using exactly_reads [of "?A r4" "map byte [port div 256, port mod 256]" rest 2] r4(2) by auto
  have p: "be_nat (map byte [port div 256, port mod 256]) = port" using assms(4) by (simp add: be_nat_def)
  have c: "addr_code a < 256" by (cases a) auto
  have "handle hc env k = finish_client (hc env (addr_text env a) (int port) (?A r5))"
    using r0(1) r1(1) r2(1) r3(1) r4(1) r5(1) p c assms(2) acted by (simp add: handle_def handle_socks5_def)
  with r5(2) show ?thesis by blast
qed

definition dial_ex :: dial_env where
  "dial_ex = \<lparr>reachable = (\<lambda>h p. False), remote_in = (\<lambda>h p. []), ntop = id\<rparr>"

lemma socks5_request_example:
  "k_acts (snd (handle handle_connect dial_ex (k_init
      [Segment (map byte [5, 1]), Segment (map byte [0, 5]), Segment (map byte [1, 0, 3, 2, 97, 98, 0]), Segment (map byte [80, 7])])))
    = [Reply (map byte [5, 0]), Dial (map byte [97, 98]) 80, Reply (socks5_reply 5), CloseClient]"
proof -
  let ?k = "k_init [Segment (map byte [5, 1]), Segment (map byte [0, 5]), Segment (map byte [1, 0, 3, 2, 97, 98, 0]), Segment (map byte [80, 7])]"
  have "offers (k_reader ?k) = socks5_hello [byte 0] @ socks5_request (Name (map byte [97, 98])) 80 @ [byte 7]"
    by (simp add: k_init_def offers_def socks5_hello_def socks5_request_def flip: numeral_2_eq_2)
  from socks5_request_read [OF this, of handle_connect dial_ex] show ?thesis
    by (auto simp: handle_connect_def dial_ex_def act_def finish_client_def k_init_def byte_def)
qed

text \<open>Everything that reaches one side before its end is handed to the other, in order.\<close>

lemma forward_all:
  assumes "rd_next r = map Segment segs @ Eof # evs"
  shows "snd (forward r) \<and> concat (fst (forward r)) = offers r \<and> (\<forall>b \<in> set (fst (forward r)). b \<noteq> [] \<and> length b \<le> 65536)"
  using assms
proof (induction "rd_size r" arbitrary: r segs rule: less_induct)
  case less
  have w: "rd_wait (map Segment segs @ Eof # evs) = Some (b, evs') \<Longrightarrow>
      (b = [] \<and> offer_stream (map Segment segs @ Eof # evs) = []) \<or>
      (\<exists>segs'. b \<noteq> [] \<and> evs' = map Segment segs' @ Eof # evs \<and> offer_stream (map Segment segs @ Eof # evs) = b @ offer_stream evs')" for b evs' segs
    by (induction segs) (auto split: if_splits)
  have s: "rd_wait (map Segment segs @ Eof # evs) \<noteq> None" for segs by (induction segs) auto
  show ?case
  proof (cases "rd_read 65536 r")
    case None
    with s [of segs] less.prems show ?thesis by (simp add: rd_read_def split: if_splits option.splits)
  next
    case (Some p)
    obtain b r' where p: "p = (b, r')" by (cases p)
    with Some less.prems w have "(b = [] \<and> offers r = []) \<or>
        (b \<noteq> [] \<and> length b \<le> 65536 \<and> offers r = b @ offers r' \<and> (\<exists>segs'. rd_next r' = map Segment segs' @ Eof # evs))"
      by (fastforce simp: rd_read_def offers_def split: if_splits option.splits)
    then show ?thesis
    proof
      assume "b = [] \<and> offers r = []"
      with Some p show ?thesis by (simp add: forward.simps [of r])
    next
      assume b: "b \<noteq> [] \<and> length b \<le> 65536 \<and> offers r = b @ offers r' \<and> (\<exists>segs'. rd_next r' = map Segment segs' @ Eof # evs)"
      with Some p have "rd_size r' < rd_size r" using rd_read_less by blast
      with less.hyps b have "snd (forward r') \<and> concat (fst (forward r')) = offers r' \<and> (\<forall>b \<in> set (fst (forward r')). b \<noteq> [] \<and> length b \<le> 65536)"
        by blast
      with Some p b show ?thesis by (auto simp: forward.simps [of r] split: prod.splits)
    qed
  qed
qed

text \<open>The user name of a SOCKS4 request ends with its first zero byte.\<close>

lemma skip_user_offers:
  "offers r = user @ byte 0 # rest \<Longrightarrow> byte 0 \<notin> set user \<Longrightarrow> \<exists>r'. skip_user r = (Returned, r') \<and> offers r' = rest"
proof (induction user arbitrary: r)
  case Nil
  then obtain r' where "rd_read 1 r = Some ([byte 0], r')" "offers r' = rest" using rd_read_offers [of r "byte 0" rest] by auto
  then show ?case by (subst skip_user.simps) simp
next
  case (Cons c user)
  then obtain r' where r': "rd_read 1 r = Some ([c], r')" "offers r' = user @ byte 0 # rest"
    using rd_read_offers [of r c "user @ byte 0 # rest"] by auto
  with Cons show ?case by (subst skip_user.simps) auto
qed

text \<open>The method of the subclass is called for version 5 only.\<close>

lemma other_versions:
  assumes "offers (k_reader k) = v # rest" and "v \<noteq> byte 5"
  shows "handle hc env k = handle hc' env k"
proof -
  obtain r where "rd_read 1 (k_reader k) = Some ([v], r)" using assms(1) by (rule rd_read_offers)
  with assms(2) show ?thesis by (simp add: handle_def)
qed

end
