(* ===== verification/Json.thy ===== *)
theory Json
  imports Py_Text
begin

text \<open>
  Python's \<^verbatim>\<open>json\<close> as the program uses it: \<^verbatim>\<open>dumps(value, indent=2, ensure_ascii=False)\<close> and
  \<^verbatim>\<open>loads\<close>.  A text is its UTF-8 encoding, an object keeps the order of its keys, and a float is
  represented by its literal, since the program stores such values without computing with them.
\<close>

datatype json =
    JNull
  | JBool bool
  | JInt int
  | JFloat string
  | JStr string
  | JList "json list"
  | JObj "(string \<times> json) list"

subsection \<open>Writing\<close>

abbreviation dq :: char where "dq \<equiv> CHR 0x22"
abbreviation bsl :: char where "bsl \<equiv> CHR 0x5C"

definition hex_char :: "nat \<Rightarrow> char" where
  "hex_char n = (if n < 10 then char_of (48 + n) else char_of (87 + n))"

definition esc :: "char \<Rightarrow> string" where
  "esc c = (if c = dq then [bsl, dq] else if c = bsl then [bsl, bsl]
     else if c = CHR 0x0A then [bsl, CHR ''n''] else if c = CHR 0x0D then [bsl, CHR ''r'']
     else if c = CHR 0x09 then [bsl, CHR ''t''] else if c = CHR 0x08 then [bsl, CHR ''b'']
     else if c = CHR 0x0C then [bsl, CHR ''f'']
     else if (of_char c :: nat) < 32
       then [bsl, CHR ''u'', CHR ''0'', CHR ''0'', hex_char (of_char c div 16), hex_char (of_char c mod 16)]
     else [c])"

definition quote :: "string \<Rightarrow> string" where
  "quote s = [dq] @ concat (map esc s) @ [dq]"

text \<open>\<open>nl\<close> is the line break; \<open>n\<close> the depth of nesting.\<close>

definition line_start :: "string \<Rightarrow> nat \<Rightarrow> string" where
  "line_start nl n = nl @ replicate (2 * n) CHR '' ''"

lemma member_size: "(k, v) \<in> set kvs \<Longrightarrow> size v < Suc (size_list (size_prod (\<lambda>x. 0) size) kvs)"
  by (induction kvs) auto

lemma element_size: "v \<in> set vs \<Longrightarrow> size v < Suc (size_list size vs)"
  by (induction vs) auto

function dump :: "string \<Rightarrow> nat \<Rightarrow> json \<Rightarrow> string" where
  "dump nl n JNull = ''null''"
| "dump nl n (JBool b) = (if b then ''true'' else ''false'')"
| "dump nl n (JInt i) = dec_int i"
| "dump nl n (JFloat t) = t"
| "dump nl n (JStr s) = quote s"
| "dump nl n (JList vs) =
     (if vs = [] then ''[]''
      else ''['' @ line_start nl (n + 1) @ join ('','' @ line_start nl (n + 1)) (map (dump nl (n + 1)) vs)
           @ line_start nl n @ '']'')"
| "dump nl n (JObj kvs) =
     (if kvs = [] then ''{}''
      else ''{'' @ line_start nl (n + 1)
           @ join ('','' @ line_start nl (n + 1)) (map (\<lambda>kv. quote (fst kv) @ '': '' @ dump nl (n + 1) (snd kv)) kvs)
           @ line_start nl n @ ''}'')"
  by pat_completeness auto
termination
  by (relation "measure (\<lambda>(nl, n, v). size v)") (auto simp: element_size dest: member_size)

subsection \<open>Reading\<close>

definition jskip :: "string \<Rightarrow> string" where
  "jskip s = dropWhile (\<lambda>c. c \<in> {CHR '' '', CHR 0x09, CHR 0x0A, CHR 0x0D}) s"

definition hex_value :: "char \<Rightarrow> nat option" where
  "hex_value c = (let n = of_char c in
     if 48 \<le> n \<and> n \<le> 57 then Some (n - 48) else if 97 \<le> n \<and> n \<le> 102 then Some (n - 87)
     else if 65 \<le> n \<and> n \<le> 70 then Some (n - 55) else None)"

fun hex4 :: "string \<Rightarrow> (nat \<times> string) option" where
  "hex4 (a # b # c # d # s) = (case (hex_value a, hex_value b, hex_value c, hex_value d) of
      (Some w, Some x, Some y, Some z) \<Rightarrow> Some (((w * 16 + x) * 16 + y) * 16 + z, s)
    | _ \<Rightarrow> None)"
| "hex4 s = None"

definition utf8 :: "nat \<Rightarrow> string" where
  "utf8 u = map char_of (
     if u < 0x80 then [u]
     else if u < 0x800 then [0xC0 + u div 64, 0x80 + u mod 64]
     else if u < 0x10000 then [0xE0 + u div 4096, 0x80 + (u div 64) mod 64, 0x80 + u mod 64]
     else [0xF0 + u div 262144, 0x80 + (u div 4096) mod 64, 0x80 + (u div 64) mod 64, 0x80 + u mod 64])"

definition simple_escape :: "char \<Rightarrow> char option" where
  "simple_escape c = map_of
     [(dq, dq), (bsl, bsl), (CHR ''/'', CHR ''/''), (CHR ''b'', CHR 0x08), (CHR ''f'', CHR 0x0C),
      (CHR ''n'', CHR 0x0A), (CHR ''r'', CHR 0x0D), (CHR ''t'', CHR 0x09)] c"

text \<open>The code after a backslash and \<open>u\<close>; a low surrogate behind a high one belongs to it.\<close>

definition unicode_escape :: "string \<Rightarrow> (string \<times> string) option" where
  "unicode_escape s = (case hex4 s of None \<Rightarrow> None | Some (u, r) \<Rightarrow>
     if 0xD800 \<le> u \<and> u \<le> 0xDBFF \<and> take 2 r = [bsl, CHR ''u''] then
       (case hex4 (drop 2 r) of None \<Rightarrow> None | Some (v, r') \<Rightarrow>
          if 0xDC00 \<le> v \<and> v \<le> 0xDFFF then Some (utf8 (0x10000 + (u - 0xD800) * 1024 + (v - 0xDC00)), r')
          else Some (utf8 u, r))
     else Some (utf8 u, r))"

lemma hex4_length: "hex4 s = Some (u, r) \<Longrightarrow> length r < length s"
  by (cases s rule: hex4.cases) (auto split: option.splits)

lemma unicode_escape_length: "unicode_escape s = Some (u, r) \<Longrightarrow> length r < length s"
proof -
  have "length (drop 2 r) \<le> length r" for r :: string by simp
  then show "unicode_escape s = Some (u, r) \<Longrightarrow> length r < length s"
    by (fastforce simp: unicode_escape_def split: option.splits if_splits dest!: hex4_length)
qed

definition with_front :: "string \<Rightarrow> (string \<times> 'a) option \<Rightarrow> (string \<times> 'a) option" where
  "with_front p r = map_option (map_prod ((@) p) id) r"

function jstring :: "string \<Rightarrow> (string \<times> string) option" where
  "jstring s = (case s of
      [] \<Rightarrow> None
    | c # r \<Rightarrow>
        if c = dq then Some ([], r)
        else if c = bsl then
          (case r of [] \<Rightarrow> None | e # r' \<Rightarrow>
             if e = CHR ''u'' then (case unicode_escape r' of None \<Rightarrow> None | Some (u, r'') \<Rightarrow> with_front u (jstring r''))
             else (case simple_escape e of None \<Rightarrow> None | Some d \<Rightarrow> with_front [d] (jstring r')))
        else if (of_char c :: nat) < 32 then None
        else with_front [c] (jstring r))"
  by pat_completeness auto
termination by (relation "measure length") (auto dest!: unicode_escape_length)

declare jstring.simps [simp del]

lemma jstring_length: "jstring s = Some (t, r) \<Longrightarrow> length r < length s"
proof (induction s arbitrary: t r rule: jstring.induct)
  case (1 s)
  then show ?case
    by (auto simp: jstring.simps [of s] with_front_def split: list.splits if_splits option.splits dest!: unicode_escape_length)
       fastforce+
qed

text \<open>\<^verbatim>\<open>-?(0|[1-9][0-9]*)(\.[0-9]+)?([eE][-+]?[0-9]+)?\<close>: whether it is a float, the literal, and what follows.\<close>

definition int_part :: "string \<Rightarrow> string" where
  "int_part s = (case s of [] \<Rightarrow> [] | c # r \<Rightarrow> if c = CHR ''0'' then [c] else takeWhile is_digit s)"

definition frac_part :: "string \<Rightarrow> string" where
  "frac_part s = (case s of [] \<Rightarrow> [] | c # r \<Rightarrow>
     if c = CHR ''.'' \<and> takeWhile is_digit r \<noteq> [] then c # takeWhile is_digit r else [])"

definition exp_part :: "string \<Rightarrow> string" where
  "exp_part s = (case s of [] \<Rightarrow> [] | c # r \<Rightarrow>
     if c \<in> {CHR ''e'', CHR ''E''} then
       (let sg = take 1 r; sign = (if sg = ''-'' \<or> sg = ''+'' then sg else []); ds = takeWhile is_digit (drop (length sign) r)
        in if ds = [] then [] else c # sign @ ds)
     else [])"

definition jnumber :: "string \<Rightarrow> (bool \<times> string \<times> string) option" where
  "jnumber s =
     (let sign = (if take 1 s = ''-'' then ''-'' else []); s1 = drop (length sign) s;
          i = int_part s1; s2 = drop (length i) s1;
          f = frac_part s2; s3 = drop (length f) s2; e = exp_part s3
      in if i = [] then None
         else Some (f \<noteq> [] \<or> e \<noteq> [], sign @ i @ f @ e, drop (length e) s3))"

definition int_of_literal :: "string \<Rightarrow> int" where
  "int_of_literal t = (if take 1 t = ''-'' then - int (digits_val (drop 1 t)) else int (digits_val t))"

definition literals :: "(string \<times> json) list" where
  "literals = [(''null'', JNull), (''true'', JBool True), (''false'', JBool False),
     (''NaN'', JFloat ''NaN''), (''Infinity'', JFloat ''Infinity''), (''-Infinity'', JFloat ''-Infinity'')]"

definition jliteral :: "string \<Rightarrow> (json \<times> string) option" where
  "jliteral s = (case filter (\<lambda>p. is_prefix (fst p) s) literals of
      p # _ \<Rightarrow> Some (snd p, drop (length (fst p)) s)
    | [] \<Rightarrow> (case jnumber s of
        None \<Rightarrow> None
      | Some (fl, t, r) \<Rightarrow> Some (if fl then JFloat t else JInt (int_of_literal t), r)))"

text \<open>
  A value consumes at least one character; the test that the rest is shorter, which is always
  true, makes the termination of the loops evident.
\<close>

definition jnext :: "string \<Rightarrow> char \<Rightarrow> string \<Rightarrow> string option" where
  "jnext s c r = (case jskip r of [] \<Rightarrow> None | d # r' \<Rightarrow> if d = c \<and> length r' < length s then Some r' else None)"

lemma jskip_length: "length (jskip s) \<le> length s"
  by (simp add: jskip_def length_dropWhile_le)

lemma jnext_length: "jnext s c r = Some r' \<Longrightarrow> length (jskip r') < length s"
  using jskip_length [of r'] by (auto simp: jnext_def split: list.splits if_splits)

function jvalue :: "string \<Rightarrow> (json \<times> string) option"
  and jelems :: "string \<Rightarrow> (json list \<times> string) option"
  and jmembers :: "string \<Rightarrow> ((string \<times> json) list \<times> string) option"
where
  "jvalue s = (case s of
      [] \<Rightarrow> None
    | c # r \<Rightarrow>
        if c = dq then map_option (map_prod JStr id) (jstring r)
        else if c = CHR ''['' then
          (case jskip r of [] \<Rightarrow> None | d # r' \<Rightarrow>
             if d = CHR '']'' then Some (JList [], r')
             else map_option (map_prod JList id) (jelems (jskip r)))
        else if c = CHR ''{'' then
          (case jskip r of [] \<Rightarrow> None | d # r' \<Rightarrow>
             if d = CHR ''}'' then Some (JObj [], r')
             else map_option (map_prod (\<lambda>kvs. JObj (fold (\<lambda>(k, v). dset k v) kvs [])) id) (jmembers (jskip r)))
        else jliteral s)"
| "jelems s = (case jvalue s of
      None \<Rightarrow> None
    | Some (v, r) \<Rightarrow>
        (case jnext s CHR '']'' r of
           Some r' \<Rightarrow> Some ([v], r')
         | None \<Rightarrow> (case jnext s CHR '','' r of
             Some r' \<Rightarrow> map_option (map_prod ((#) v) id) (jelems (jskip r'))
           | None \<Rightarrow> None)))"
| "jmembers s = (case s of
      [] \<Rightarrow> None
    | c # r0 \<Rightarrow> if c \<noteq> dq then None else
       (case jstring r0 of None \<Rightarrow> None | Some (k, r1) \<Rightarrow>
       (case jnext s CHR '':'' r1 of None \<Rightarrow> None | Some r2 \<Rightarrow>
       (case jvalue (jskip r2) of None \<Rightarrow> None | Some (v, r) \<Rightarrow>
        (case jnext s CHR ''}'' r of
           Some r' \<Rightarrow> Some ([(k, v)], r')
         | None \<Rightarrow> (case jnext s CHR '','' r of
             Some r' \<Rightarrow> map_option (map_prod ((#) (k, v)) id) (jmembers (jskip r'))
           | None \<Rightarrow> None))))))"
  by pat_completeness auto
termination
proof (relation "measure (\<lambda>x. case x of Inl s \<Rightarrow> 2 * length s | Inr (Inl s) \<Rightarrow> 2 * length s + 1 | Inr (Inr s) \<Rightarrow> 2 * length s + 1)", goal_cases)
  case (2 s c r)
  then show ?case using jskip_length [of r] by (auto split: sum.splits)
next
  case (3 s c r)
  then show ?case using jskip_length [of r] by (auto split: sum.splits)
qed (auto dest!: jnext_length)

declare jvalue.simps [simp del] jelems.simps [simp del] jmembers.simps [simp del]

definition loads :: "string \<Rightarrow> exn + json" where
  "loads s = (case jvalue (jskip s) of
      None \<Rightarrow> Inl ValueError
    | Some (v, r) \<Rightarrow> if jskip r = [] then Inr v else Inl ValueError)"

definition dumps :: "json \<Rightarrow> string" where
  "dumps v = dump [CHR 0x0A] 0 v"

subsection \<open>Reading what was written\<close>

definition is_ws :: "char \<Rightarrow> bool" where
  "is_ws c \<longleftrightarrow> c \<in> {CHR '' '', CHR 0x09, CHR 0x0A, CHR 0x0D}"

definition blank :: "string \<Rightarrow> bool" where
  "blank s \<longleftrightarrow> (\<forall>c \<in> set s. is_ws c)"

lemma jskip_blank: "blank w \<Longrightarrow> jskip (w @ s) = jskip s"
  by (induction w) (auto simp: jskip_def blank_def is_ws_def)

lemma jskip_front: "\<not> is_ws c \<Longrightarrow> jskip (c # s) = c # s"
  by (auto simp: jskip_def is_ws_def)

lemma blank_line_start: "blank nl \<Longrightarrow> blank (line_start nl n)"
  unfolding blank_def line_start_def by (simp add: ball_Un set_replicate_conv_if is_ws_def [of "CHR '' ''"])

text \<open>What may follow a value.\<close>

definition sep_ok :: "string \<Rightarrow> bool" where
  "sep_ok s \<longleftrightarrow> (case s of [] \<Rightarrow> True | c # _ \<Rightarrow> c = CHR '','' \<or> c = CHR '']'' \<or> c = CHR ''}'' \<or> is_ws c)"

lemma hex_of_char: "n < 16 \<Longrightarrow> hex_value (hex_char n) = Some n"
proof -
  assume n: "n < 16"
  have v: "(of_char (hex_char n) :: nat) = (if n < 10 then 48 + n else 87 + n)" using n by (simp add: hex_char_def)
  show ?thesis using n unfolding hex_value_def v by (simp add: Let_def)
qed

lemma unicode_escape_control:
  assumes "(of_char c :: nat) < 32"
  shows "unicode_escape (CHR ''0'' # CHR ''0'' # hex_char (of_char c div 16) # hex_char (of_char c mod 16) # r) = Some ([c], r)"
proof -
  have "hex_value (CHR ''0'') = Some 0" by (simp add: hex_value_def)
  moreover have "(of_char c :: nat) div 16 * 16 + of_char c mod 16 = of_char c" by simp
  ultimately have h: "hex4 (CHR ''0'' # CHR ''0'' # hex_char (of_char c div 16) # hex_char (of_char c mod 16) # r) = Some (of_char c, r)"
    using assms by (simp add: hex_of_char)
  show ?thesis unfolding unicode_escape_def h using assms by (simp add: utf8_def)
qed

lemma jstring_esc: "jstring (esc c @ s) = with_front [c] (jstring s)"
proof -
  have n: "CHR ''0'' \<noteq> CHR ''u''" by simp
  have cases: "jstring (bsl # e # s) = (case simple_escape e of None \<Rightarrow> None | Some d \<Rightarrow> with_front [d] (jstring s))"
    if "e \<noteq> CHR ''u''" for e using that by (subst jstring.simps) simp
  show ?thesis
  proof (cases "c \<in> {dq, bsl, CHR 0x0A, CHR 0x0D, CHR 0x09, CHR 0x08, CHR 0x0C}")
    case True
    then show ?thesis by (auto simp: esc_def cases simple_escape_def)
  next
    case c: False
    show ?thesis
    proof (cases "(of_char c :: nat) < 32")
      case True
      with c show ?thesis
        by (subst jstring.simps) (simp add: esc_def unicode_escape_control)
    next
      case False
      with c show ?thesis by (subst jstring.simps) (simp add: esc_def)
    qed
  qed
qed

lemma with_front_Some [simp]: "with_front p (Some (s, r)) = Some (p @ s, r)"
  by (simp add: with_front_def)

lemma jstring_quoted: "jstring (concat (map esc s) @ dq # rest) = Some (s, rest)"
proof (induction s)
  case Nil
  show ?case by (simp add: jstring.simps)
next
  case (Cons c s)
  then show ?case by (simp add: jstring_esc)
qed

lemma dec_lead: "0 < n \<Longrightarrow> hd (dec n) \<noteq> CHR ''0''"
proof (induction n rule: dec.induct)
  case (1 n)
  show ?case
  proof (cases "n < 10")
    case True
    have "char_of (48 + n) \<noteq> CHR ''0''"
    proof
      assume "char_of (48 + n) = CHR ''0''"
      then have "(of_char (char_of (48 + n)) :: nat) = 48" by simp
      with True 1(2) show False by simp
    qed
    with True show ?thesis by (simp add: dec.simps [of n])
  next
    case False
    with 1(1) show ?thesis by (simp add: dec.simps [of n] hd_append)
  qed
qed

lemma takeWhile_sep: "\<forall>c \<in> set ds. is_digit c \<Longrightarrow> (rest = [] \<or> \<not> is_digit (hd rest)) \<Longrightarrow> takeWhile is_digit (ds @ rest) = ds"
  by (induction ds) (cases rest; auto)+

lemma char_zero: "char_of (48 :: nat) = CHR ''0''"
  by code_simp

lemma int_part_dec: "rest = [] \<or> \<not> is_digit (hd rest) \<Longrightarrow> int_part (dec n @ rest) = dec n"
proof -
  assume r: "rest = [] \<or> \<not> is_digit (hd rest)"
  obtain c d where d: "dec n = c # d" by (cases "dec n") auto
  show ?thesis
  proof (cases "n = 0")
    case True
    then show ?thesis using char_zero by (simp add: int_part_def dec.simps [of 0])
  next
    case False
    with d dec_lead [of n] have "c \<noteq> CHR ''0''" by simp
    moreover have "takeWhile is_digit (dec n @ rest) = dec n" by (rule takeWhile_sep) (use r dec_digits in auto)
    ultimately show ?thesis by (simp add: int_part_def d)
  qed
qed

lemma digit_seps:
  "is_digit c \<Longrightarrow> \<not> is_ws c" "is_digit c \<Longrightarrow> c \<noteq> dq" "is_digit c \<Longrightarrow> c \<noteq> CHR ''[''"  "is_digit c \<Longrightarrow> c \<noteq> CHR '']''"
  "is_digit c \<Longrightarrow> c \<noteq> CHR ''{''" "is_digit c \<Longrightarrow> c \<noteq> CHR ''}''" "is_digit c \<Longrightarrow> c \<noteq> CHR ''n''" "is_digit c \<Longrightarrow> c \<noteq> CHR ''t''"
  "is_digit c \<Longrightarrow> c \<noteq> CHR ''f''" "is_digit c \<Longrightarrow> c \<noteq> CHR ''N''" "is_digit c \<Longrightarrow> c \<noteq> CHR ''I''" "is_digit c \<Longrightarrow> c \<noteq> CHR '',''"
  "is_digit c \<Longrightarrow> c \<noteq> CHR ''e'' \<and> c \<noteq> CHR ''E''"
  by (auto simp: is_digit_def is_ws_def)

lemma sep_next:
  assumes "sep_ok rest"
  shows "rest = [] \<or> \<not> is_digit (hd rest)" "frac_part rest = []" "exp_part rest = []"
  using assms by (cases rest; auto simp: sep_ok_def frac_part_def exp_part_def is_ws_def is_digit_def)+

lemma literals_digit:
  assumes "is_digit c"
  shows "filter (\<lambda>p. is_prefix (fst p) (c # s)) literals = []" "filter (\<lambda>p. is_prefix (fst p) (CHR ''-'' # c # s)) literals = []"
  using digit_seps [OF assms] digit_not [OF assms] by (auto simp: literals_def)

definition minus_or_not :: "string \<Rightarrow> bool" where
  "minus_or_not s \<longleftrightarrow> s = [] \<or> s = ''-''"

lemma jnumber_parts:
  assumes "minus_or_not sg" and "i = int_part (i @ t)" and "is_digit (hd i)" and "i \<noteq> []"
  shows "jnumber (sg @ i @ t) = (let f = frac_part t; s3 = drop (length f) t; e = exp_part s3
     in Some (f \<noteq> [] \<or> e \<noteq> [], sg @ i @ f @ e, drop (length e) s3))"
proof -
  obtain c j where c: "i = c # j" "is_digit c" using assms(3,4) by (cases i) auto
  have "(if take 1 (sg @ i @ t) = ''-'' then ''-'' else []) = sg"
    using assms(1) digit_not(3) [OF c(2)] by (auto simp: minus_or_not_def c)
  moreover have "int_part (i @ t) = i" using assms(2) by simp
  ultimately show ?thesis using assms(4) by (simp add: jnumber_def Let_def)
qed

lemma jliteral_int:
  assumes "sep_ok rest"
  shows "jliteral (dec_int k @ rest) = Some (JInt k, rest)"
proof -
  define sg where "sg = (if k < 0 then ''-'' else [])"
  have d: "dec_int k = sg @ dec (nat \<bar>k\<bar>)" by (simp add: dec_int_def sg_def)
  obtain c j where c: "dec (nat \<bar>k\<bar>) = c # j" by (cases "dec (nat \<bar>k\<bar>)") auto
  then have dc: "is_digit c" using dec_digits [of c "nat \<bar>k\<bar>"] by simp
  have "jnumber (dec_int k @ rest) = Some (False, dec_int k, rest)"
  proof -
    have m: "minus_or_not sg" by (simp add: minus_or_not_def sg_def)
    have h: "is_digit (hd (dec (nat \<bar>k\<bar>)))" by (simp add: c dc)
    from jnumber_parts [OF m int_part_dec [OF sep_next(1) [OF assms], symmetric] h dec_nonempty]
    show ?thesis by (simp add: d sep_next(2,3) [OF assms])
  qed
  moreover have "filter (\<lambda>p. is_prefix (fst p) (dec_int k @ rest)) literals = []"
    using literals_digit [OF dc] by (simp add: d c sg_def)
  moreover have "int_of_literal (dec_int k) = k"
  proof -
    have "take 1 (dec (nat \<bar>k\<bar>)) \<noteq> ''-''" using digit_not(3) [OF dc] by (simp add: c)
    then show ?thesis by (auto simp: d sg_def int_of_literal_def)
  qed
  ultimately show ?thesis by (simp add: jliteral_def)
qed

text \<open>A float literal with digits on both sides of the point.\<close>

definition float_literal :: "string \<Rightarrow> bool" where
  "float_literal t \<longleftrightarrow> (\<exists>sg n ds. t = sg @ dec n @ ''.'' @ ds \<and> minus_or_not sg \<and> ds \<noteq> [] \<and> (\<forall>c \<in> set ds. is_digit c))"

lemma jliteral_float:
  assumes "float_literal t" and "sep_ok rest"
  shows "jliteral (t @ rest) = Some (JFloat t, rest)"
proof -
  obtain sg n ds where t: "t = sg @ dec n @ ''.'' @ ds" "minus_or_not sg" "ds \<noteq> []" "\<forall>c \<in> set ds. is_digit c"
    using assms(1) by (auto simp: float_literal_def)
  obtain c j where c: "dec n = c # j" by (cases "dec n") auto
  then have dc: "is_digit c" using dec_digits [of c n] by simp
  have h: "is_digit (hd (dec n))" by (simp add: c dc)
  have "int_part (dec n @ ''.'' @ ds @ rest) = dec n" by (rule int_part_dec) (simp add: is_digit_def)
  from jnumber_parts [OF t(2) this [symmetric] h dec_nonempty]
  have "jnumber (t @ rest) = Some (True, t, rest)"
    using takeWhile_sep [OF t(4) sep_next(1) [OF assms(2)]] t(3) sep_next(3) [OF assms(2)] by (simp add: t(1) frac_part_def)
  moreover have "filter (\<lambda>p. is_prefix (fst p) (t @ rest)) literals = []"
    using literals_digit [OF dc] t(2) by (auto simp: t(1) c minus_or_not_def)
  ultimately show ?thesis by (simp add: jliteral_def)
qed

lemma jliteral_words:
  "jliteral (''null'' @ rest) = Some (JNull, rest)" "jliteral (''true'' @ rest) = Some (JBool True, rest)"
  "jliteral (''false'' @ rest) = Some (JBool False, rest)"
  by (simp_all add: jliteral_def literals_def)

text \<open>Values that are written and read back: floats as above, keys of objects distinct.\<close>

fun json_ok :: "json \<Rightarrow> bool" where
  "json_ok (JFloat t) = float_literal t"
| "json_ok (JList vs) = list_all json_ok vs"
| "json_ok (JObj kvs) = (distinct (map fst kvs) \<and> list_all (\<lambda>kv. json_ok (snd kv)) kvs)"
| "json_ok v = True"

definition plain_start :: "char \<Rightarrow> bool" where
  "plain_start c \<longleftrightarrow> \<not> is_ws c \<and> c \<noteq> CHR '']'' \<and> c \<noteq> CHR ''}''"

lemma digit_plain: "is_digit c \<Longrightarrow> plain_start c"
  using digit_seps by (simp add: plain_start_def)

lemma dump_start:
  assumes "json_ok v"
  obtains c r where "dump nl n v = c # r" "plain_start c"
proof -
  have d: "\<exists>c r. sg @ dec k @ s = c # r \<and> plain_start c" if "minus_or_not sg" for sg k s
  proof -
    obtain c j where c: "dec k = c # j" by (cases "dec k") auto
    then have "plain_start c" using dec_digits [of c k] digit_plain by simp
    moreover have "plain_start (CHR ''-'')" by (simp add: plain_start_def is_ws_def)
    ultimately show ?thesis using that by (auto simp: c minus_or_not_def)
  qed
  have "\<exists>c r. dump nl n v = c # r \<and> plain_start c"
  proof (cases v)
    case (JInt i)
    with d [of "''-''" "nat (- i)" "[]"] d [of "[]" "nat i" "[]"] show ?thesis by (auto simp: minus_or_not_def dec_int_def)
  next
    case (JFloat t)
    with assms d show ?thesis by (auto simp: float_literal_def)
  qed (auto simp: quote_def plain_start_def is_ws_def)
  with that show ?thesis by blast
qed

lemma jskip_line:
  assumes "blank nl" and "plain_start c"
  shows "jskip (line_start nl n @ c # s) = c # s"
  using jskip_blank [OF blank_line_start [OF assms(1)]] jskip_front assms(2) by (simp add: plain_start_def)

lemma jnext_line:
  assumes "blank nl" and "\<not> is_ws d"
  shows "jnext s c (line_start nl n @ d # r) = (if d = c \<and> length r < length s then Some r else None)"
  unfolding jnext_def jskip_blank [OF blank_line_start [OF assms(1)]] by (simp add: jskip_front [OF assms(2)])

lemma jnext_now: "\<not> is_ws d \<Longrightarrow> jnext s c (d # r) = (if d = c \<and> length r < length s then Some r else None)"
  by (simp add: jnext_def jskip_front)

lemma sep_line: "blank nl \<Longrightarrow> sep_ok (line_start nl n @ c # s) \<longleftrightarrow> sep_ok (c # s) \<or> line_start nl n \<noteq> []"
  using blank_line_start [of nl n] by (cases "line_start nl n") (auto simp: sep_ok_def blank_def)

text \<open>The elements of a list, and the members of an object.\<close>

lemma jelems_dump:
  assumes nl: "blank nl" and "vs \<noteq> []"
    and each: "\<And>v s. v \<in> set vs \<Longrightarrow> sep_ok s \<Longrightarrow> jvalue (D v @ s) = Some (v, s)"
    and start: "\<And>v. v \<in> set vs \<Longrightarrow> \<exists>c r. D v = c # r \<and> plain_start c"
  shows "jelems (join ('','' @ line_start nl m) (map D vs) @ line_start nl n @ '']'' @ rest) = Some (vs, rest)"
  using assms(2-)
proof (induction vs)
  case (Cons v vs)
  have b: "sep_ok (line_start nl n @ '']'' @ rest)" using sep_line [OF nl] by (simp add: sep_ok_def)
  have w: "\<not> is_ws CHR '']''" "\<not> is_ws CHR '',''" by (simp_all add: is_ws_def)
  show ?case
  proof (cases "vs = []")
    case True
    show ?thesis using Cons.prems(2) [of v, OF _ b] nl w(1) by (subst jelems.simps) (simp add: True jnext_line)
  next
    case False
    let ?more = "join ('','' @ line_start nl m) (map D vs) @ line_start nl n @ '']'' @ rest"
    obtain v' vs' where vs: "vs = v' # vs'" using False by (cases vs) auto
    obtain c r where c: "D v' = c # r" "plain_start c" using Cons.prems(3) [of v'] vs by auto
    then obtain r' where more: "?more = c # r'" by (cases vs') (auto simp: vs)
    have all: "join ('','' @ line_start nl m) (map D (v # vs)) @ line_start nl n @ '']'' @ rest = D v @ '','' @ line_start nl m @ ?more"
      by (simp add: vs)
    have "jvalue (D v @ '','' @ line_start nl m @ ?more) = Some (v, '','' @ line_start nl m @ ?more)"
      by (rule Cons.prems(2)) (simp_all add: sep_ok_def)
    moreover have "jskip (line_start nl m @ ?more) = ?more" unfolding more by (rule jskip_line [OF nl c(2)])
    moreover have "jelems ?more = Some (vs, rest)" using Cons.IH [OF False] Cons.prems(2,3) by simp
    ultimately show ?thesis unfolding all using w(2) by (subst jelems.simps) (simp add: jnext_now)
  qed
qed simp

lemma jmembers_dump:
  assumes nl: "blank nl" and "kvs \<noteq> []"
    and each: "\<And>k v s. (k, v) \<in> set kvs \<Longrightarrow> sep_ok s \<Longrightarrow> jvalue (D v @ s) = Some (v, s)"
    and start: "\<And>k v. (k, v) \<in> set kvs \<Longrightarrow> \<exists>c r. D v = c # r \<and> plain_start c"
  shows "jmembers (join ('','' @ line_start nl m) (map (\<lambda>kv. quote (fst kv) @ '': '' @ D (snd kv)) kvs) @ line_start nl n @ ''}'' @ rest)
    = Some (kvs, rest)"
  using assms(2-)
proof (induction kvs)
  case (Cons kv kvs)
  obtain k v where kv: "kv = (k, v)" by (cases kv)
  have b: "sep_ok (line_start nl n @ ''}'' @ rest)" using sep_line [OF nl] by (simp add: sep_ok_def)
  have w: "\<not> is_ws CHR ''}''" "\<not> is_ws CHR '',''" "\<not> is_ws CHR '':''" by (simp_all add: is_ws_def)
  obtain c0 r0 where c0: "D v = c0 # r0" "plain_start c0" using Cons.prems(3) [of k v] kv by auto
  have key: "jmembers (quote k @ '': '' @ D v @ s) = (case jvalue (D v @ s) of None \<Rightarrow> None | Some (w, r) \<Rightarrow>
        (case jnext (quote k @ '': '' @ D v @ s) CHR ''}'' r of Some r' \<Rightarrow> Some ([(k, w)], r')
         | None \<Rightarrow> (case jnext (quote k @ '': '' @ D v @ s) CHR '','' r of
             Some r' \<Rightarrow> map_option (map_prod ((#) (k, w)) id) (jmembers (jskip r')) | None \<Rightarrow> None)))" for s
  proof -
    have q: "quote k @ '': '' @ D v @ s = dq # concat (map esc k) @ dq # '': '' @ D v @ s" by (simp add: quote_def)
    have j: "jskip ('' '' @ D v @ s) = D v @ s" using c0 jskip_blank [of "'' ''"] jskip_front [of c0]
      by (simp add: blank_def is_ws_def plain_start_def)
    show ?thesis unfolding q using jstring_quoted [of k "'': '' @ D v @ s"] j w(3)
      by (subst jmembers.simps) (simp add: jnext_now)
  qed
  show ?case
  proof (cases "kvs = []")
    case True
    have "jvalue (D v @ line_start nl n @ ''}'' @ rest) = Some (v, line_start nl n @ ''}'' @ rest)"
      using Cons.prems(2) [of k v] b kv by simp
    then show ?thesis using key [of "line_start nl n @ ''}'' @ rest"] nl w(1) by (simp add: True kv jnext_line)
  next
    case False
    let ?more = "join ('','' @ line_start nl m) (map (\<lambda>kv. quote (fst kv) @ '': '' @ D (snd kv)) kvs) @ line_start nl n @ ''}'' @ rest"
    obtain p kvs' where kvs: "kvs = p # kvs'" using False by (cases kvs) auto
    then obtain r' where more: "?more = dq # r'" by (cases kvs') (auto simp: quote_def)
    have all: "join ('','' @ line_start nl m) (map (\<lambda>kv. quote (fst kv) @ '': '' @ D (snd kv)) (kv # kvs)) @ line_start nl n @ ''}'' @ rest
        = quote k @ '': '' @ D v @ '','' @ line_start nl m @ ?more"
      by (simp add: kvs kv)
    have "jvalue (D v @ '','' @ line_start nl m @ ?more) = Some (v, '','' @ line_start nl m @ ?more)"
      by (rule Cons.prems(2) [of k]) (simp_all add: sep_ok_def kv)
    moreover have "jskip (line_start nl m @ ?more) = ?more" unfolding more by (rule jskip_line [OF nl]) (simp add: plain_start_def is_ws_def)
    moreover have "jmembers ?more = Some (kvs, rest)"
    proof (rule Cons.IH [OF False])
      show "jvalue (D v @ s) = Some (v, s)" if "(k, v) \<in> set kvs" "sep_ok s" for k v s
        using Cons.prems(2) [of k v s] that by simp
      show "\<exists>c r. D v = c # r \<and> plain_start c" if "(k, v) \<in> set kvs" for k v
        using Cons.prems(3) [of k v] that by simp
    qed
    ultimately show ?thesis unfolding all key using w(2) by (simp add: jnext_now kv)
  qed
qed simp

lemma fold_dset_distinct:
  "distinct (map fst (acc @ kvs)) \<Longrightarrow> fold (\<lambda>(k, v). dset k v) kvs acc = acc @ kvs"
proof (induction kvs arbitrary: acc)
  case (Cons kv kvs)
  obtain k v where kv: "kv = (k, v)" by (cases kv)
  with Cons.prems have "dset k v acc = acc @ [(k, v)]" by (auto intro: dset_fresh)
  with Cons show ?case by (simp add: kv)
qed simp

lemma jvalue_dump:
  assumes "blank nl"
  shows "json_ok v \<Longrightarrow> sep_ok rest \<Longrightarrow> jvalue (dump nl n v @ rest) = Some (v, rest)"
proof (induction v arbitrary: n rest)
  case (JInt i)
  obtain c r where c: "dec_int i = c # r" "plain_start c" "c \<noteq> dq \<and> c \<noteq> CHR ''['' \<and> c \<noteq> CHR ''{''"
  proof -
    obtain c r where c: "dec_int i = c # r" by (cases "dec_int i") (auto simp: dec_int_def split: if_splits)
    then have "is_digit c \<or> c = CHR ''-''" using dec_int_chars [of c i] by simp
    then show ?thesis using c digit_plain digit_seps that by (auto simp: plain_start_def is_ws_def)
  qed
  then show ?case using jliteral_int [OF JInt.prems(2), of i] by (subst jvalue.simps) simp
next
  case JNull
  show ?case using jliteral_words [of rest] by (subst jvalue.simps) simp
next
  case (JBool b)
  show ?case using jliteral_words [of rest] by (subst jvalue.simps) simp
next
  case (JFloat t)
  then obtain c r where c: "t = c # r" "is_digit c \<or> c = CHR ''-''"
  proof -
    obtain sg n ds where t: "t = sg @ dec n @ ''.'' @ ds" "minus_or_not sg" using JFloat.prems(1) by (auto simp: float_literal_def)
    obtain c j where "dec n = c # j" by (cases "dec n") auto
    then show ?thesis using t dec_digits [of c n] that by (auto simp: minus_or_not_def)
  qed
  then have "c \<noteq> dq \<and> c \<noteq> CHR ''['' \<and> c \<noteq> CHR ''{''" by (auto simp: is_digit_def)
  then show ?case using c jliteral_float [of t rest] JFloat.prems by (subst jvalue.simps) simp
next
  case (JStr s)
  show ?case using jstring_quoted [of s rest] by (subst jvalue.simps) (simp add: quote_def)
next
  case (JList vs)
  show ?case
  proof (cases "vs = []")
    case True
    then show ?thesis by (subst jvalue.simps) (simp add: jskip_front is_ws_def)
  next
    case False
    let ?B = "join ('','' @ line_start nl (n + 1)) (map (dump nl (n + 1)) vs) @ line_start nl n @ '']'' @ rest"
    have each: "jvalue (dump nl (n + 1) v @ s) = Some (v, s)" if "v \<in> set vs" "sep_ok s" for v s
      using JList.IH [OF that(1)] JList.prems(1) that by (simp add: list_all_iff)
    have start: "\<exists>c r. dump nl (n + 1) v = c # r \<and> plain_start c" if "v \<in> set vs" for v
      using JList.prems(1) that by (metis dump_start json_ok.simps(2) list_all_iff)
    obtain c r where c: "?B = c # r" "plain_start c"
    proof -
      obtain v vs' where vs: "vs = v # vs'" using False by (cases vs) auto
      with start [of v] obtain c r where "dump nl (n + 1) v = c # r" "plain_start c" by auto
      with that show ?thesis by (cases vs') (auto simp: vs)
    qed
    have d: "dump nl n (JList vs) @ rest = CHR ''['' # line_start nl (n + 1) @ ?B" using False by simp
    have "jskip (line_start nl (n + 1) @ ?B) = ?B" unfolding c(1) by (rule jskip_line [OF assms c(2)])
    moreover have "jelems ?B = Some (vs, rest)" by (rule jelems_dump [OF assms False each start])
    ultimately show ?thesis unfolding d using c by (subst jvalue.simps) (auto simp: plain_start_def)
  qed
next
  case (JObj kvs)
  show ?case
  proof (cases "kvs = []")
    case True
    then show ?thesis by (subst jvalue.simps) (simp add: jskip_front is_ws_def)
  next
    case False
    let ?B = "join ('','' @ line_start nl (n + 1)) (map (\<lambda>kv. quote (fst kv) @ '': '' @ dump nl (n + 1) (snd kv)) kvs)
      @ line_start nl n @ ''}'' @ rest"
    have each: "jvalue (dump nl (n + 1) v @ s) = Some (v, s)" if "(k, v) \<in> set kvs" "sep_ok s" for k v s
      using JObj.IH [OF that(1), of v] JObj.prems(1) that by (auto simp: list_all_iff)
    have start: "\<exists>c r. dump nl (n + 1) v = c # r \<and> plain_start c" if "(k, v) \<in> set kvs" for k v
    proof -
      have "json_ok v" using JObj.prems(1) that by (auto simp: list_all_iff)
      then show ?thesis by (metis dump_start)
    qed
    obtain r where c: "?B = dq # r"
    proof -
      obtain p kvs' where "kvs = p # kvs'" using False by (cases kvs) auto
      with that show ?thesis by (cases kvs') (auto simp: quote_def)
    qed
    have q: "plain_start dq" by (simp add: plain_start_def is_ws_def)
    have d: "dump nl n (JObj kvs) @ rest = CHR ''{'' # line_start nl (n + 1) @ ?B" using False by simp
    have "jskip (line_start nl (n + 1) @ ?B) = ?B" unfolding c by (rule jskip_line [OF assms q])
    moreover have "jmembers ?B = Some (kvs, rest)" by (rule jmembers_dump [OF assms False each start])
    moreover have "fold (\<lambda>(k, v). dset k v) kvs [] = kvs" using fold_dset_distinct [of "[]" kvs] JObj.prems(1) by simp
    ultimately show ?thesis unfolding d using c by (subst jvalue.simps) auto
  qed
qed

text \<open>A written value is read back, with its line breaks or without.\<close>

lemma loads_dump:
  assumes "blank nl" and "json_ok v"
  shows "loads (dump nl 0 v) = Inr v"
proof -
  obtain c r where c: "dump nl 0 v = c # r" "plain_start c" using assms(2) by (rule dump_start)
  then have "jskip (dump nl 0 v) = dump nl 0 v" by (simp add: jskip_front plain_start_def)
  moreover have "jvalue (dump nl 0 v) = Some (v, [])" using jvalue_dump [OF assms, of "[]" 0] by (simp add: sep_ok_def)
  ultimately show ?thesis by (simp add: loads_def jskip_def)
qed

end
