(* ===== verification/Api_Client.thy ===== *)
theory Api_Client
  imports Session_Conn Json
begin

text \<open>
  x_tunnel/local/api_client.py: the calls of the account server, login and quota.

  The module context is the part \<open>xctx\<close> of the session's state together with the fields of
  \<open>app\<close>.  Each function exists twice in the code, once with threads and once with coroutines, with the
  same body.  Numbers in the server's answers are integers here; a float counts as a wrong type.
  The text of an exception is not kept.
\<close>

subsection \<open>Answers of the server\<close>

definition type_error :: exn where "type_error = PyException ''TypeError''"

definition item :: "string \<Rightarrow> json \<Rightarrow> exn + json" where
  "item k v = (case v of
      JObj kvs \<Rightarrow> (case map_of kvs k of None \<Rightarrow> Inl KeyError | Some x \<Rightarrow> Inr x)
    | _ \<Rightarrow> Inl type_error)"

definition num :: "json \<Rightarrow> exn + int" where
  "num v = (case v of JInt i \<Rightarrow> Inr i | JBool b \<Rightarrow> Inr (if b then 1 else 0) | _ \<Rightarrow> Inl type_error)"

definition num_item :: "string \<Rightarrow> json \<Rightarrow> exn + int" where
  "num_item k v = (case item k v of Inl e \<Rightarrow> Inl e | Inr x \<Rightarrow> num x)"

subsection \<open>Quota\<close>

text \<open>An entry that cannot be read ends the sum: the exception is caught outside the loop.\<close>

fun add_backups :: "int \<Rightarrow> json list \<Rightarrow> int \<Rightarrow> int" where
  "add_backups now [] q = q"
| "add_backups now (qt # qts) q =
     (case (item ''quota'' qt, num_item ''end_time'' qt) of
        (Inr b, Inr e) \<Rightarrow>
          if e < now then add_backups now qts q
          else (case num b of Inl _ \<Rightarrow> q | Inr n \<Rightarrow> add_backups now qts (q + n))
      | _ \<Rightarrow> q)"

definition has_key :: "string \<Rightarrow> json \<Rightarrow> exn + bool" where
  "has_key k v = (case v of
      JObj kvs \<Rightarrow> Inr (map_of kvs k \<noteq> None)
    | JList vs \<Rightarrow> Inr (JStr k \<in> set vs)
    | JStr s \<Rightarrow> Inr (contains k s)
    | _ \<Rightarrow> Inl type_error)"

definition current_quota :: "int \<Rightarrow> json \<Rightarrow> exn + int" where
  "current_quota now ql = (case item ''current'' ql of
      Inl e \<Rightarrow> Inl e
    | Inr c \<Rightarrow> (case num_item ''end_time'' c of
        Inl e \<Rightarrow> Inl e
      | Inr e \<Rightarrow> if e > now then num_item ''quota'' c else Inr 0))"

definition calculate_quota_left :: "time \<Rightarrow> json \<Rightarrow> int" where
  "calculate_quota_left clock ql =
     (let now = py_int clock
      in case (case has_key ''current'' ql of Inl e \<Rightarrow> Inl e
               | Inr c \<Rightarrow> if c then current_quota now ql else Inr 0) of
           Inl e \<Rightarrow> 0
         | Inr q \<Rightarrow> (case has_key ''backup'' ql of
             Inl e \<Rightarrow> q
           | Inr False \<Rightarrow> q
           | Inr True \<Rightarrow> (case item ''backup'' ql of Inr (JList qts) \<Rightarrow> add_backups now qts q | _ \<Rightarrow> q)))"

subsection \<open>State\<close>

record app_cfg =
  ac_api_server :: string
  ac_server_host :: string
  ac_server_port :: int
  ac_login_account :: string
  ac_login_password :: string
  ac_update_cloudflare_domains :: bool

datatype app_act =
    Posted string
  | SetAccount string string
  | SetIps json
  | SetHosts json
  | SaveDomains json

record app =
  ap_cfg :: app_cfg
  ap_sess :: sess
  ap_has_tls_relay :: bool
  ap_has_seley :: bool
  ap_center_login :: bool
  ap_server_port :: json
  ap_quota_list :: json
  ap_info :: "(string, json) dict"
  ap_acts :: "app_act list"

abbreviation upd_ctx :: "(xctx \<Rightarrow> xctx) \<Rightarrow> app \<Rightarrow> app" where
  "upd_ctx f a \<equiv> a\<lparr>ap_sess := (ap_sess a)\<lparr>s_ctx := f (s_ctx (ap_sess a))\<rparr>\<rparr>"

definition api_error :: "api_error \<Rightarrow> app \<Rightarrow> app" where
  "api_error e a = upd_ctx (\<lambda>c. c\<lparr>x_last_api_error := e\<rparr>) a"

definition app_act :: "app_act \<Rightarrow> app \<Rightarrow> app" where
  "app_act x a = a\<lparr>ap_acts := ap_acts a @ [x]\<rparr>"

definition reason_text :: "json \<Rightarrow> string" where
  "reason_text v = (case v of JStr s \<Rightarrow> s | _ \<Rightarrow> dumps v)"

subsection \<open>Calling the server\<close>

text \<open>
  The rounds of the loop: the clock at its test, and what the request gave.  \<open>crypt\<close> stands for
  the encryption of the data, which may be switched off and may raise.
\<close>

datatype api_round = ApiRaised exn | ApiReply bytes nat

fun api_loop :: "time \<Rightarrow> (time \<times> api_round) list \<Rightarrow> (bytes \<times> nat) option \<Rightarrow> nat \<times> (exn + (bytes \<times> nat))" where
  "api_loop t0 [] got = (0, case got of None \<Rightarrow> Inl (PyException ''UnboundLocalError'') | Some r \<Rightarrow> Inr r)"
| "api_loop t0 ((now, r) # rounds) got =
     (if \<not> now - t0 < 30 then (0, case got of None \<Rightarrow> Inl (PyException ''UnboundLocalError'') | Some r \<Rightarrow> Inr r)
      else case r of
        ApiRaised e \<Rightarrow> (1, Inl e)
      | ApiReply content status \<Rightarrow>
          if status \<ge> 400 then map_prod Suc id (api_loop t0 rounds (Some (content, status))) else (1, Inr (content, status)))"

definition api_answer :: "(bytes \<Rightarrow> exn + bytes) \<Rightarrow> bytes \<times> nat \<Rightarrow> app \<Rightarrow> (exn + (string + json)) \<times> app" where
  "api_answer decrypt r a =
     (if snd r \<noteq> 200 then (Inr (Inl (''status:'' @ dec (snd r))), api_error (ApiStatus (snd r)) a)
      else case decrypt (fst r) of
        Inl e \<Rightarrow> (Inl e, a)
      | Inr text \<Rightarrow> (case loads text of
          Inl e \<Rightarrow> (Inr (Inl ''parse json fail''), api_error (ApiReason ''parse json fail'') a)
        | Inr info \<Rightarrow> (case item ''res'' info of
            Inl e \<Rightarrow> (Inl e, a)
          | Inr res \<Rightarrow>
              if res = JStr ''success'' then (Inr (Inr info), api_error NoApiError a)
              else (case item ''reason'' info of
                  Inl e \<Rightarrow> (Inl e, a)
                | Inr why \<Rightarrow> (Inr (Inl (reason_text why)), api_error (ApiReason (reason_text why)) a)))))"

text \<open>\<^verbatim>\<open>call_api\<close>: the answer on the right, the reason for the failure on the left.\<close>

definition api_path :: "string \<Rightarrow> string" where
  "api_path path = (if take 1 path = ''/'' then path else CHR ''/'' # path)"

definition call_api ::
  "(bytes \<Rightarrow> exn + bytes) \<Rightarrow> string \<Rightarrow> time \<Rightarrow> (time \<times> api_round) list \<Rightarrow> app \<Rightarrow> (string + json) \<times> app" where
  "call_api decrypt path t0 rounds a =
     (case api_loop t0 rounds None of (n, got) \<Rightarrow>
      (let a0 = a\<lparr>ap_acts := ap_acts a @ replicate n (Posted (api_path path))\<rparr>
       in case (case got of Inl e \<Rightarrow> (Inl e, a0) | Inr r \<Rightarrow> api_answer decrypt r a0) of
            (Inl e, a1) \<Rightarrow> (Inl ''except'', api_error (ApiReason ''except'') a1)
          | (Inr res, a1) \<Rightarrow> (res, a1)))"

definition async_call_api ::
  "(bytes \<Rightarrow> exn + bytes) \<Rightarrow> string \<Rightarrow> time \<Rightarrow> (time \<times> api_round) list \<Rightarrow> app \<Rightarrow> (string + json) \<times> app" where
  "async_call_api = call_api"

subsection \<open>Login\<close>

text \<open>Taking the account data out of the answer, one entry after the other; an exception stops it.\<close>

type_synonym step = "app \<Rightarrow> exn option \<times> app"

fun run_steps :: "step list \<Rightarrow> app \<Rightarrow> exn option \<times> app" where
  "run_steps [] a = (None, a)"
| "run_steps (f # fs) a = (case f a of (None, a1) \<Rightarrow> run_steps fs a1 | (Some e, a1) \<Rightarrow> (Some e, a1))"

definition take_item :: "string \<Rightarrow> json \<Rightarrow> (json \<Rightarrow> app \<Rightarrow> app) \<Rightarrow> step" where
  "take_item k info f a = (case item k info of Inl e \<Rightarrow> (Some e, a) | Inr v \<Rightarrow> (None, f v a))"

definition keep_item :: "string \<Rightarrow> json \<Rightarrow> step" where
  "keep_item k info = take_item k info (\<lambda>v a. a\<lparr>ap_info := dset k v (ap_info a)\<rparr>)"

text \<open>\<^verbatim>\<open>info.get(k, default)\<close>.\<close>

definition get_item :: "string \<Rightarrow> json \<Rightarrow> json \<Rightarrow> exn + json" where
  "get_item k d v = (case v of
      JObj kvs \<Rightarrow> Inr (case map_of kvs k of None \<Rightarrow> d | Some x \<Rightarrow> x) | _ \<Rightarrow> Inl AttributeError)"

definition str_of :: "json \<Rightarrow> string" where
  "str_of v = (case v of JStr s \<Rightarrow> s | JInt i \<Rightarrow> dec_int i | JNull \<Rightarrow> ''None'' | _ \<Rightarrow> dumps v)"

definition server_step :: "bool \<Rightarrow> json \<Rightarrow> step" where
  "server_step update_server info a =
     (let known = x_server_host (s_ctx (ap_sess a)) \<notin> {None, Some []}
      in if ac_server_host (ap_cfg a) \<noteq> []
         then (None, upd_ctx (\<lambda>c. c\<lparr>x_server_host := Some (ac_server_host (ap_cfg a))\<rparr>) a)
         else if update_server \<or> \<not> known then
           run_steps [take_item ''host'' info (\<lambda>v. upd_ctx (\<lambda>c. c\<lparr>x_server_host := Some (str_of v)\<rparr>)),
                      take_item ''port'' info (\<lambda>v a. a\<lparr>ap_server_port := v\<rparr>)] a
         else (None, a))"

definition front_steps :: "json \<Rightarrow> step list" where
  "front_steps info =
     [keep_item ''tls_relays'' info,
      (\<lambda>a. case get_item ''seleys'' (JObj []) info of Inl e \<Rightarrow> (Some e, a) | Inr sl \<Rightarrow>
        run_steps
          [(\<lambda>a. if ap_has_tls_relay a
                then take_item ''ips'' (dget_or (ap_info a) ''tls_relays'' JNull) (\<lambda>v. app_act (SetIps v)) a else (None, a)),
           (\<lambda>a. if ap_has_seley a
                then (case get_item ''hosts'' (JObj []) sl of Inl e \<Rightarrow> (Some e, a) | Inr h \<Rightarrow> (None, app_act (SetHosts h) a))
                else (None, a))] a)]"

definition login_steps :: "time \<Rightarrow> bool \<Rightarrow> json \<Rightarrow> step list" where
  "login_steps now update_server info =
     [take_item ''quota_list'' info (\<lambda>v a. upd_ctx (\<lambda>c. c\<lparr>x_quota := calculate_quota_left now v\<rparr>) (a\<lparr>ap_quota_list := v\<rparr>)),
      keep_item ''paypal_button_id'' info, keep_item ''plans'' info, server_step update_server info,
      keep_item ''selectable'' info,
      (\<lambda>a. if ac_update_cloudflare_domains (ap_cfg a)
           then (case get_item ''cloudflare_domains'' JNull info of Inl e \<Rightarrow> (Some e, a) | Inr v \<Rightarrow> (None, app_act (SaveDomains v) a))
           else (None, a)),
      keep_item ''promote_code'' info, keep_item ''promoter'' info, keep_item ''balance'' info,
      keep_item ''openai_balance'' info, keep_item ''openai_proxies'' info]
     @ front_steps info"

definition set_account :: "string \<Rightarrow> string \<Rightarrow> app \<Rightarrow> app" where
  "set_account account password a =
     (let a1 = (if ap_has_tls_relay a then app_act (SetAccount account password) a else a)
      in if ap_has_seley a1 then app_act (SetAccount account password) a1 else a1)"

text \<open>
  \<^verbatim>\<open>request_balance\<close>; \<open>None\<close> for the account takes the configured one.  The \<^verbatim>\<open>finally\<close> clears the
  mark that a login is under way on every path.
\<close>

definition request_balance ::
  "(bytes \<Rightarrow> exn + bytes) \<Rightarrow> time \<Rightarrow> (time \<times> api_round) list \<Rightarrow> (string \<times> string) option \<Rightarrow> bool \<Rightarrow> bool \<Rightarrow> app \<Rightarrow> (bool \<times> string) \<times> app" where
  "request_balance decrypt now rounds account is_register update_server a =
     (if ac_api_server (ap_cfg a) = [] then
        ((True, ''success''), upd_ctx (\<lambda>c. c\<lparr>x_server_host := Some (ac_server_host (ap_cfg a) @ '':'' @ dec_int (ac_server_port (ap_cfg a)))\<rparr>) a)
      else case (case account of Some ap \<Rightarrow> Some ap
                 | None \<Rightarrow> if ac_login_account (ap_cfg a) \<noteq> [] \<and> ac_login_password (ap_cfg a) \<noteq> []
                            then Some (ac_login_account (ap_cfg a), ac_login_password (ap_cfg a)) else None) of
        None \<Rightarrow> ((False, ''no default account''), a)
      | Some (acc, pw) \<Rightarrow>
          (case call_api decrypt (if is_register then ''/register'' else ''/login'') now rounds (set_account acc pw (a\<lparr>ap_center_login := True\<rparr>)) of
             (Inl why, a1) \<Rightarrow> ((False, why), a1\<lparr>ap_center_login := False\<rparr>)
           | (Inr info, a1) \<Rightarrow> (case run_steps (login_steps now update_server info) a1 of
               (None, a2) \<Rightarrow> ((True, ''success''), a2\<lparr>ap_center_login := False\<rparr>)
             | (Some e, a2) \<Rightarrow> ((False, ''except''), (api_error (ApiReason ''login center except'') a2)\<lparr>ap_center_login := False\<rparr>))))"

definition async_request_balance ::
  "(bytes \<Rightarrow> exn + bytes) \<Rightarrow> time \<Rightarrow> (time \<times> api_round) list \<Rightarrow> (string \<times> string) option \<Rightarrow> bool \<Rightarrow> bool \<Rightarrow> app \<Rightarrow> (bool \<times> string) \<times> app" where
  "async_request_balance = request_balance"

subsection \<open>Waiting for more quota\<close>

text \<open>
  \<^verbatim>\<open>update_quota_loop\<close>: for each round the clock, whether the client still runs, and
  the rounds of the login call; the answer is whether it saw the quota grow by more than a GiB.
\<close>

record quota_round =
  qr_now :: time
  qr_running :: bool
  qr_login :: "(time \<times> api_round) list"

fun update_quota_rounds :: "(bytes \<Rightarrow> exn + bytes) \<Rightarrow> time \<Rightarrow> int \<Rightarrow> quota_round list \<Rightarrow> app \<Rightarrow> bool \<times> app" where
  "update_quota_rounds decrypt t0 last_quota [] a = (False, a)"
| "update_quota_rounds decrypt t0 last_quota (r # rs) a =
     (if \<not> (qr_running r \<and> qr_now r - t0 < 600) then (False, a)
      else if ac_login_account (ap_cfg a) = [] then (False, a)
      else let a1 = snd (request_balance decrypt (qr_now r) (qr_login r)
                       (Some (ac_login_account (ap_cfg a), ac_login_password (ap_cfg a))) False False a)
           in if x_quota (s_ctx (ap_sess a1)) - last_quota > 1024 * 1024 * 1024 then (True, a1)
              else update_quota_rounds decrypt t0 last_quota rs a1)"

definition update_quota_loop :: "(bytes \<Rightarrow> exn + bytes) \<Rightarrow> time \<Rightarrow> quota_round list \<Rightarrow> app \<Rightarrow> bool \<times> app" where
  "update_quota_loop decrypt t0 rs a = update_quota_rounds decrypt t0 (x_quota (s_ctx (ap_sess a))) rs a"

definition async_update_quota_loop :: "(bytes \<Rightarrow> exn + bytes) \<Rightarrow> time \<Rightarrow> quota_round list \<Rightarrow> app \<Rightarrow> bool \<times> app" where
  "async_update_quota_loop = update_quota_loop"

subsection \<open>The quota counts what has not ended\<close>

text \<open>An entry of the list as the server writes it: the quota and the time it ends.\<close>

definition quota_entry :: "int \<times> int \<Rightarrow> json" where
  "quota_entry p = JObj [(''quota'', JInt (fst p)), (''end_time'', JInt (snd p))]"

lemma add_backups_entries:
  "add_backups now (map quota_entry ps @ rest) q
    = add_backups now rest (q + sum_list (map fst (filter (\<lambda>p. now \<le> snd p) ps)))"
proof (induction ps arbitrary: q)
  case (Cons p ps)
  have "item ''quota'' (quota_entry p) = Inr (JInt (fst p))" "num_item ''end_time'' (quota_entry p) = Inr (snd p)"
    by (simp_all add: quota_entry_def item_def num_item_def num_def)
  with Cons show ?case by (simp add: num_def algebra_simps)
qed simp

definition quota_json :: "(int \<times> int) option \<Rightarrow> json list \<Rightarrow> json" where
  "quota_json current backup = JObj
     ((case current of None \<Rightarrow> [] | Some p \<Rightarrow> [(''current'', quota_entry p)]) @ [(''backup'', JList backup)])"

text \<open>
  The quota left is the current entry's quota if that entry ends after now, plus the quotas of
  the backup entries that do not end before now; an entry without a quota makes the entries
  behind it count for nothing.
\<close>

theorem quota_left_sum:
  assumes "broken = [] \<or> (\<exists>kvs. hd broken = JObj kvs \<and> map_of kvs ''quota'' = None)"
  shows "calculate_quota_left clock (quota_json current (map quota_entry ps @ broken))
    = (case current of None \<Rightarrow> 0 | Some p \<Rightarrow> if snd p > py_int clock then fst p else 0)
      + sum_list (map fst (filter (\<lambda>p. py_int clock \<le> snd p) ps))"
proof -
  let ?now = "py_int clock"
  have b: "add_backups ?now broken q = q" for q
    using assms by (cases broken) (auto simp: item_def split: sum.splits)
  have c: "current_quota ?now (quota_json (Some p) backup) = Inr (if snd p > ?now then fst p else 0)" for p backup
    by (simp add: current_quota_def quota_json_def quota_entry_def item_def num_item_def num_def)
  have "has_key ''current'' (quota_json current backup) = Inr (current \<noteq> None)"
    "has_key ''backup'' (quota_json current backup) = Inr True"
    "item ''backup'' (quota_json current backup) = Inr (JList backup)" for backup
    by (auto simp: has_key_def quota_json_def item_def split: option.split)
  then show ?thesis using c
    by (cases current) (simp_all add: calculate_quota_left_def Let_def add_backups_entries b)
qed

theorem quota_left_sum_witness:
  "calculate_quota_left 100.5 (quota_json (Some (7, 101)) (map quota_entry [(5, 99), (3, 100)] @ [JObj [], quota_entry (50, 200)])) = 10"
proof -
  have "py_int 100.5 = 100" by (simp add: py_int_def)
  with quota_left_sum [of "[JObj [], quota_entry (50, 200)]" "100.5" "Some (7, 101)" "[(5, 99), (3, 100)]"] show ?thesis by simp
qed

subsection \<open>A login leaves no trace of being under way\<close>

text \<open>The call and the steps keep whether a front exists; the mark is set before and cleared after.\<close>

lemma request_balance_unmarks:
  assumes "\<not> ap_center_login a"
  shows "\<not> ap_center_login (snd (request_balance decrypt now rounds account is_register update_server a))"
  using assms by (auto simp: request_balance_def split: option.splits prod.splits sum.splits)

end
