(* ===== verification/Client.thy ===== *)
theory Client
  imports Socks5 Api_Client Session_Props
begin

text \<open>
  x_tunnel/local/async_client.py, and the login of x_tunnel/local/async_proxy_session.py: the proxy
  server of the client, which hands the connections of SOCKS5 clients to the session.

  The handler extends the one of theory Socks5 by the module context.  What the session writes to the
  client's end of the socket pair is supplied, and what the client sends is recorded; carrying it
  into the session is the work of the session's own reader tasks.
\<close>

subsection \<open>Login\<close>

definition known_host :: "sess \<Rightarrow> bool" where
  "known_host s \<longleftrightarrow> x_server_host (s_ctx s) \<noteq> None \<and> x_server_host (s_ctx s) \<noteq> Some []"

record login_env =
  le_decrypt :: "bytes \<Rightarrow> exn + bytes"
  le_now :: time
  le_rounds :: "(time \<times> api_round) list"
  le_sid :: bytes
  le_attempts :: "(time \<times> login_outcome) list"
  le_sid2 :: bytes
  le_attempts2 :: "(time \<times> login_outcome) list"

definition has_account :: "app \<Rightarrow> bool" where
  "has_account a \<longleftrightarrow> ac_login_account (ap_cfg a) \<noteq> [] \<and> ac_login_password (ap_cfg a) \<noteq> []"

text \<open>
  \<^verbatim>\<open>async_login_process\<close> under its lock; \<open>None\<close> is a coroutine that never goes on, and keeps the
  lock.
\<close>

definition async_login_process :: "login_env \<Rightarrow> app \<Rightarrow> (bool \<times> app) option" where
  "async_login_process le a =
     (if \<not> has_account a then Some (False, a)
      else let a1 = (if known_host (ap_sess a) then a
                     else snd (async_request_balance (le_decrypt le) (le_now le) (le_rounds le) None False True a))
      in if \<not> known_host (ap_sess a1) then Some (False, a1)
         else case (if s_running (ap_sess a1) \<and> le_now le - s_last_send_time (ap_sess a1) > 300 - 5
                    then map_option snd (session_reset (le_decrypt le) (le_sid le) (le_now le) (le_attempts le) (ap_sess a1))
                    else Some (ap_sess a1)) of
              None \<Rightarrow> None
            | Some s2 \<Rightarrow>
                if \<not> s_running s2
                then (case session_start (le_decrypt le) (le_sid2 le) (le_now le) (le_attempts2 le) s2 of
                        (ok, s3) \<Rightarrow> Some (ok, a1\<lparr>ap_sess := s3\<rparr>))
                else Some (True, a1\<lparr>ap_sess := s2\<rparr>))"

fun login_rounds :: "login_env list \<Rightarrow> app \<Rightarrow> app option" where
  "login_rounds [] a = Some a"
| "login_rounds (le # les) a = (case async_login_process le a of
      None \<Rightarrow> None | Some (True, a1) \<Rightarrow> Some a1 | Some (False, a1) \<Rightarrow> login_rounds les a1)"

definition async_create_conn ::
  "login_env list \<Rightarrow> conn_env \<Rightarrow> time \<Rightarrow> host_arg \<Rightarrow> nat \<Rightarrow> app \<Rightarrow> ((exn + nat option) \<times> app) option" where
  "async_create_conn les env now host port a =
     (if \<not> has_account a then Some (Inr None, a)
      else do {
        a1 \<leftarrow> login_rounds (take 3 les) a;
        if s_running (ap_sess a1)
        then do { (r, s) \<leftarrow> create_conn env now host port (ap_sess a1); Some (r, a1\<lparr>ap_sess := s\<rparr>) }
        else Some (Inr None, a1) })"

subsection \<open>Connections of clients\<close>

record client = sock_handler +
  cl_has_session :: bool
  cl_app :: app

record client_env =
  ce_login :: login_env
  ce_conn :: conn_env
  ce_now :: time
  ce_end :: time
  ce_down :: "arrival list"

definition set_sess :: "sess \<Rightarrow> client \<Rightarrow> client" where
  "set_sess s k = k\<lparr>cl_app := (cl_app k)\<lparr>ap_sess := s\<rparr>\<rparr>"

definition end_conn :: "time \<Rightarrow> nat \<Rightarrow> sess \<Rightarrow> op_res" where
  "end_conn now a s = do {
     (e, s1) \<leftarrow> conn_op now a (\<lambda>c. if transferred_close c then (None, c, []) else transfer_peer_close ''relay_end'' c) s;
     case e of
       Some x \<Rightarrow> Some (Some x, s1)
     | None \<Rightarrow> conn_op now a (\<lambda>c. (None, stop_async ''relay_end'' c)) s1 }"

text \<open>\<^verbatim>\<open>_start_relay_and_conn\<close>, for the connection object at \<open>a\<close> if the session still lists it.\<close>

definition start_relay_and_conn :: "client_env \<Rightarrow> nat option \<Rightarrow> client \<Rightarrow> status \<times> client" where
  "start_relay_and_conn ce a k =
     (case relay (ce_down ce) k of
        (Returned, k1) \<Rightarrow> (case a of
            None \<Rightarrow> (Returned, k1)
          | Some i \<Rightarrow> (case end_conn (ce_end ce) i (ap_sess (cl_app k1)) of
              None \<Rightarrow> (Waiting, k1)
            | Some (None, s) \<Rightarrow> (Returned, set_sess s k1)
            | Some (Some e, s) \<Rightarrow> (Raised e, set_sess s k1)))
      | (st, k1) \<Rightarrow> (st, k1))"

text \<open>The two methods of \<^verbatim>\<open>SessionProxyHandler\<close> differ in their replies; the second has no caller.\<close>

definition session_connect :: "client_env \<Rightarrow> bytes \<Rightarrow> bytes \<Rightarrow> bytes \<Rightarrow> int \<Rightarrow> client \<Rightarrow> status \<times> client" where
  "session_connect ce ok failed host port k =
     (if \<not> cl_has_session k then (Returned, act (Reply failed) k)
      else case async_login_process (ce_login ce) (cl_app k) of
        None \<Rightarrow> (Waiting, k)
      | Some (_, a1) \<Rightarrow>
          (let k1 = k\<lparr>cl_app := a1\<rparr>
           in if \<not> s_running (ap_sess a1) then (Returned, act (Reply failed) k1)
              else case create_conn (ce_conn ce) (ce_now ce) (HostStr host) (nat port) (ap_sess a1) of
                None \<Rightarrow> (Waiting, k1)
              | Some (Inr (Some cid), s2) \<Rightarrow>
                  start_relay_and_conn ce (dget (s_conn_list s2) cid) (act (Reply ok) (set_sess s2 k1))
              | Some (_, s2) \<Rightarrow> (Returned, act (Reply failed) (set_sess s2 k1))))"

definition session_handle_connect :: "client_env \<Rightarrow> unit client_ext handler" where
  "session_handle_connect ce env host port k = session_connect ce (socks5_reply 0) (socks5_reply 5) host port k"

definition handle_socks4_connect :: "client_env \<Rightarrow> bytes \<Rightarrow> int \<Rightarrow> client \<Rightarrow> status \<times> client" where
  "handle_socks4_connect ce host port k = session_connect ce (socks4_reply 0x5A) (socks4_reply 0x5B) host port k"

definition client_handle :: "client_env \<Rightarrow> dial_env \<Rightarrow> client \<Rightarrow> status \<times> client" where
  "client_handle ce env k = handle (session_handle_connect ce) env k"

subsection \<open>Start of the server\<close>

fun try_bind :: "(int \<Rightarrow> bool) \<Rightarrow> int list \<Rightarrow> int option" where
  "try_bind free [] = None"
| "try_bind free (p # ps) = (if free p then Some p else try_bind free ps)"

text \<open>
  The loop of \<^verbatim>\<open>_async_main\<close> over the ports: the port it then announces, and whether a server
  listens.  The server object is made before binding, so it exists after 2000 failures as well.
\<close>

definition bind_server :: "(int \<Rightarrow> bool) \<Rightarrow> int \<Rightarrow> int \<times> bool" where
  "bind_server free socks_port = (case try_bind free [socks_port..socks_port + 1999] of
      Some p \<Rightarrow> (p, True) | None \<Rightarrow> (socks_port, False))"

definition listen_address :: "string list \<Rightarrow> bool \<Rightarrow> string" where
  "listen_address hosts allow_remote =
     (if allow_remote \<and> (''0.0.0.0'' \<notin> set hosts \<or> ''::'' \<notin> set hosts) then ''0.0.0.0'' else hd hosts)"

definition main_server :: "app \<Rightarrow> app" where
  "main_server a =
     (if (\<not> known_host (ap_sess a) \<or> ap_server_port a = JInt 0)
         \<and> ac_server_host (ap_cfg a) \<noteq> [] \<and> ac_server_port (ap_cfg a) = 443
      then (upd_ctx (\<lambda>c. c\<lparr>x_server_host := Some (ac_server_host (ap_cfg a))\<rparr>) a)
             \<lparr>ap_server_port := JInt (ac_server_port (ap_cfg a)), ap_info := dset ''balance'' (JInt 99999999) (ap_info a)\<rparr>
      else a)"

lemma bind_failure_unnoticed:
  "(\<And>p. socks_port \<le> p \<Longrightarrow> p < socks_port + 2000 \<Longrightarrow> \<not> free p) \<Longrightarrow> bind_server free socks_port = (socks_port, False)"
proof -
  assume f: "\<And>p. socks_port \<le> p \<Longrightarrow> p < socks_port + 2000 \<Longrightarrow> \<not> free p"
  have "try_bind free ps = None" if "\<forall>p \<in> set ps. \<not> free p" for ps using that by (induction ps) auto
  moreover have "\<forall>p \<in> set [socks_port..socks_port + 1999]. \<not> free p" using f by auto
  ultimately show ?thesis by (simp add: bind_server_def)
qed

subsection \<open>SOCKS5 clients reach the tunnel\<close>

lemma login_ready:
  assumes "has_account a" "known_host (ap_sess a)" "s_running (ap_sess a)" "le_now le - s_last_send_time (ap_sess a) \<le> 295"
  shows "async_login_process le a = Some (True, a)"
  using assms by (simp add: async_login_process_def)

lemma create_conn_str:
  assumes "create_conn env now (HostStr h) p s = Some (Inr (Some cid), s')"
  shows "create_conn env now (HostBytes h) p s = Some (Inr (Some cid), s')"
  using assms by (auto simp: create_conn_def encode_host_def Let_def split: if_splits sum.splits)

text \<open>
  C33. A SOCKS5 client whose request has arrived, in whatever pieces, for a host and port, while the
  session runs, is logged in and has sent within the last 295 seconds, is answered success;
  the session has then put exactly one framed message into its upload stream, which the server reads
  as the opening of a new connection to that host and port; and the relay starts with what the
  client sent behind its request.
\<close>

theorem socks5_into_tunnel:
  fixes k :: client and ce :: client_env
  defines "s \<equiv> ap_sess (cl_app k)"
  assumes "offers (k_reader k) = socks5_hello methods @ socks5_request a port @ rest"
    and "length methods < 256" "addr_ok a" "port < 65536"
    and "cl_has_session k" "has_account (cl_app k)" "known_host s" "s_running s"
    and "le_now (ce_login ce) - s_last_send_time s \<le> 295" "sb_ok (s_send s)"
    and "create_conn (ce_conn ce) (ce_now ce) (HostStr (addr_text env a)) port s = Some (Inr (Some cid), s')"
  shows "cid = s_last_conn_id s + 2
    \<and> (\<exists>m. sb_stream (s_send s') = sb_stream (s_send s) @ frame cid m
           \<and> peer_parse m = (Inr 0, Inr (CmdConnect 0 (addr_text env a) port)))
    \<and> (\<exists>r. offers r = rest \<and> client_handle ce env k = finish_client (start_relay_and_conn ce (Some (s_next_obj s))
          (k\<lparr>k_reader := r, cl_app := (cl_app k)\<lparr>ap_sess := s'\<rparr>, k_acts := k_acts k @ [Reply (map byte [5, 0]), Reply (socks5_reply 0)]\<rparr>)))"
proof -
  have "create_conn (ce_conn ce) (ce_now ce) (HostBytes (addr_text env a)) port s = Some (Inr (Some cid), s')"
    using create_conn_str [OF assms(12)] .
  from create_conn_spec [OF this] obtain m where m: "cid = s_last_conn_id s + 2"
    "dget (s_conn_list s') cid = Some (s_next_obj s)" "connect_cmd (addr_text env a) port = Inr m"
    "sb_add (ce_now ce) (frame cid m) (s_send s) = Some (s_send s')" by blast
  have st: "sb_stream (s_send s') = sb_stream (s_send s) @ frame cid m"
    using sb_add_spec [OF assms(11), of "ce_now ce" "frame cid m"] m(4) by auto
  obtain r where r: "offers r = rest" "client_handle ce env k = finish_client (session_handle_connect ce env (addr_text env a) (int port)
      (k\<lparr>k_acts := k_acts k @ [Reply (map byte [5, 0])], k_reader := r\<rparr>))"
    using socks5_request_read [OF assms(2-5), of "session_handle_connect ce" env] unfolding client_handle_def by blast
  have "session_handle_connect ce env (addr_text env a) (int port) (k\<lparr>k_acts := k_acts k @ [Reply (map byte [5, 0])], k_reader := r\<rparr>)
      = start_relay_and_conn ce (Some (s_next_obj s)) (k\<lparr>k_reader := r, cl_app := (cl_app k)\<lparr>ap_sess := s'\<rparr>,
          k_acts := k_acts k @ [Reply (map byte [5, 0]), Reply (socks5_reply 0)]\<rparr>)"
    using assms(6-10,12) login_ready [of "cl_app k" "ce_login ce"] m(2)
    by (simp add: session_handle_connect_def session_connect_def s_def set_sess_def act_def)
  with r m(1) st connect_cmd_parse [OF m(3)] show ?thesis by auto
qed

subsection \<open>SOCKS4 and HTTP clients do not\<close>

lemma keeps_app [simp]: "cl_app (act x k) = cl_app k" "cl_app (snd (exactly n k)) = cl_app k" "cl_app (snd (relay d k)) = cl_app k"
  by (simp_all add: act_def exactly_def relay_def split: prod.split)

lemma socks4_keeps_app: "cl_app (snd (handle_socks4 env k)) = cl_app k"
proof -
  obtain b k1 where e: "exactly 7 k = (b, k1)" by (cases "exactly 7 k")
  then have "cl_app k1 = cl_app k" using keeps_app(2) [of 7 k] by simp
  with e show ?thesis by (auto simp: handle_socks4_def Let_def split: option.splits prod.splits status.splits)
qed

lemma http_keeps_app: "cl_app (snd (handle_http env k)) = cl_app k"
  by (auto simp: handle_http_def Let_def split: prod.splits sum.splits)

lemma finish_client_keeps_app: "cl_app (snd (finish_client r)) = cl_app (snd r)"
  by (auto simp: finish_client_def split: prod.splits status.splits)

text \<open>
  C35. A SOCKS4 client of the tunnel's own proxy server is connected straight to its target from
  this machine, whatever command it asked for, and the session is not touched: the method
  that would hand it to the session is never called.  (An HTTP CONNECT is treated likewise.)
\<close>

theorem socks4_bypasses_tunnel:
  assumes "offers (k_reader k) = byte 4 # byte cmd # map byte [port div 256, port mod 256] @ ip @ user @ byte 0 # rest"
    and "length ip = 4" and "byte 0 \<notin> set user" and "port < 65536"
  shows "Dial (dotted ip) (int port) \<in> set (k_acts (snd (client_handle ce env k)))
    \<and> cl_app (snd (client_handle ce env k)) = cl_app k"
proof -
  let ?h = "byte cmd # map byte [port div 256, port mod 256] @ ip"
  obtain r0 where r0: "rd_read 1 (k_reader k) = Some ([byte 4], r0)" "offers r0 = ?h @ user @ byte 0 # rest"
    using rd_read_offers [of "k_reader k" "byte 4" "?h @ user @ byte 0 # rest"] assms(1) by auto
  obtain r1 where r1: "exactly 7 (k\<lparr>k_reader := r0\<rparr>) = (Some ?h, k\<lparr>k_reader := r1\<rparr>)" "offers r1 = user @ byte 0 # rest"
    using exactly_reads [of "k\<lparr>k_reader := r0\<rparr>" ?h "user @ byte 0 # rest" 7] r0(2) assms(2) by auto
  obtain r2 where r2: "skip_user r1 = (Returned, r2)" using skip_user_offers [OF r1(2) assms(3)] by auto
  have five: "byte 4 \<noteq> byte 5" by (simp add: byte_def)
  have h: "client_handle ce env k = finish_client (handle_socks4 env (k\<lparr>k_reader := r0\<rparr>))"
    using r0(1) five by (simp add: client_handle_def handle_def)
  have "slice 3 7 ?h = ip" "be_nat (slice 1 3 ?h) = port" using assms(2,4) by (simp_all add: slice_def be_nat_def)
  then have "Dial (dotted ip) (int port) \<in> set (k_acts (snd (handle_socks4 env (k\<lparr>k_reader := r0\<rparr>))))"
    using r1(1) r2 by (auto simp: handle_socks4_def Let_def act_def relay_def split: prod.splits)
  then have "Dial (dotted ip) (int port) \<in> set (k_acts (snd (client_handle ce env k)))"
    unfolding h by (auto simp: finish_client_def act_def split: prod.splits status.splits)
  moreover have "cl_app (snd (client_handle ce env k)) = cl_app k" unfolding h finish_client_keeps_app socks4_keeps_app by simp
  ultimately show ?thesis by simp
qed

subsection \<open>After five quiet minutes\<close>

lemma stop_blocked:
  assumes "s_running s" "(cid, i) \<in> set (s_conn_list s)" "dget (s_objs s) i = Some c" "c_running c"
  shows "session_stop s = None"
  using assms close_listed_None [of "s_conn_list s" "s\<lparr>s_running := False, s_wait := wq_stop (s_wait s), s_tasks := 0\<rparr>"]
  by (auto simp: session_stop_def close_all_connections_def bind_eq_None_conv)

text \<open>
  C34. When the session has not sent for more than 295 seconds while one of its connections is
  open, a SOCKS5 client that asks for a new connection is greeted and then never answered: the login
  resets the session, and stopping it waits for the open connection, which waits for it.
\<close>

theorem quiet_session_blocks_clients:
  fixes k :: client and ce :: client_env
  defines "s \<equiv> ap_sess (cl_app k)"
  assumes "offers (k_reader k) = socks5_hello methods @ socks5_request a port @ rest"
    and "length methods < 256" "addr_ok a" "port < 65536"
    and "cl_has_session k" "has_account (cl_app k)" "known_host s" "s_running s"
    and "295 < le_now (ce_login ce) - s_last_send_time s"
    and "(cid, i) \<in> set (s_conn_list s)" "dget (s_objs s) i = Some c" "c_running c"
  shows "fst (client_handle ce env k) = Waiting
    \<and> k_acts (snd (client_handle ce env k)) = k_acts k @ [Reply (map byte [5, 0])]"
proof -
  obtain r where r: "client_handle ce env k = finish_client (session_handle_connect ce env (addr_text env a) (int port)
      (k\<lparr>k_acts := k_acts k @ [Reply (map byte [5, 0])], k_reader := r\<rparr>))"
    using socks5_request_read [OF assms(2-5), of "session_handle_connect ce" env] unfolding client_handle_def by blast
  have "async_login_process (ce_login ce) (cl_app k) = None"
    using assms(7-10) stop_blocked [OF assms(9,11-13)] by (simp add: async_login_process_def session_reset_def s_def)
  then show ?thesis using assms(6) by (simp add: r session_handle_connect_def session_connect_def finish_client_def)
qed

subsection \<open>Concrete runs\<close>

definition app_ex :: app where
  "app_ex = \<lparr>ap_cfg = \<lparr>ac_api_server = ''api'', ac_server_host = [], ac_server_port = 443, ac_login_account = ''me'',
     ac_login_password = ''pw'', ac_update_cloudflare_domains = False\<rparr>, ap_sess = ex1, ap_has_tls_relay = False, ap_has_seley = False,
     ap_center_login = False, ap_server_port = JInt 443, ap_quota_list = JNull, ap_info = [], ap_acts = []\<rparr>"

definition client_ex :: "arrival list \<Rightarrow> sess \<Rightarrow> client" where
  "client_ex evs s = \<lparr>k_reader = \<lparr>rd_buf = [], rd_next = evs\<rparr>, k_buffer = [], k_acts = [], cl_has_session = True,
     cl_app = app_ex\<lparr>ap_sess := s\<rparr>\<rparr>"

definition client_env_ex :: "time \<Rightarrow> client_env" where
  "client_env_ex now = \<lparr>ce_login = \<lparr>le_decrypt = Inr, le_now = now, le_rounds = [], le_sid = [], le_attempts = [], le_sid2 = [], le_attempts2 = []\<rparr>,
     ce_conn = \<lparr>write_ok = \<lambda>_ _. True, connect_ok = \<lambda>_ _. True, accept_ok = True\<rparr>, ce_now = 1, ce_end = 2, ce_down = []\<rparr>"

text \<open>A request for the host h and port 80, in three pieces.\<close>

definition request_ex :: "arrival list" where
  "request_ex = [Segment (map byte [5, 1, 0, 5]), Segment (map byte [1, 0, 3]), Segment (map byte [1] @ ''h'' @ map byte [0, 80] @ ''GET'')]"

lemma request_ex_offers:
  "offers (k_reader (client_ex request_ex s)) = socks5_hello [byte 0] @ socks5_request (Name ''h'') 80 @ ''GET''"
  by (simp add: client_ex_def request_ex_def offers_def socks5_hello_def socks5_request_def)

lemma ex1_known: "known_host ex1 \<and> s_running ex1 \<and> s_last_send_time ex1 = 0"
  unfolding ex1_def
  by (simp add: ex_defs session_start_def start_reset_def login_session_def parse_login_response_def xunpack_b_def
       unpack_us_def pipe_start_def known_host_def)

lemma ex_open_str: "\<exists>s'. create_conn (ce_conn (client_env_ex now)) 1 (HostStr ''h'') 80 ex1 = Some (Inr (Some 2), s')"
proof -
  have "create_conn env t (HostStr ''h'') p s = create_conn env t (HostBytes ''h'') p s" for env t p s
    by (simp add: create_conn_def encode_host_def)
  with ex_open show ?thesis by (simp add: client_env_ex_def)
qed

theorem socks5_into_tunnel_witness:
  "\<exists>s' m. create_conn (ce_conn (client_env_ex 1)) 1 (HostStr ''h'') 80 ex1 = Some (Inr (Some 2), s')
    \<and> sb_stream (s_send s') = sb_stream (s_send ex1) @ frame 2 m \<and> peer_parse m = (Inr 0, Inr (CmdConnect 0 ''h'' 80))"
proof -
  obtain s' where s': "create_conn (ce_conn (client_env_ex 1)) 1 (HostStr ''h'') 80 ex1 = Some (Inr (Some 2), s')" using ex_open_str by blast
  have ok: "sb_ok (s_send ex1)" using ex1_ok by (simp add: window_ok_def)
  let ?k = "client_ex request_ex ex1"
  have f: "ap_sess (cl_app ?k) = ex1" "cl_has_session ?k" "has_account (cl_app ?k)"
    by (simp_all add: client_ex_def app_ex_def has_account_def)
  have e: "ce_now (client_env_ex 1) = 1" "le_now (ce_login (client_env_ex 1)) = 1" by (simp_all add: client_env_ex_def)
  from socks5_into_tunnel [OF request_ex_offers, of ex1 "client_env_ex 1" dial_ex 2 s', unfolded f e] s' ok ex1_known f(2,3) e
  show ?thesis by auto
qed

theorem quiet_session_blocks_clients_witness:
  "\<exists>s. s_running s \<and> fst (client_handle (client_env_ex 300) dial_ex (client_ex request_ex s)) = Waiting"
proof -
  obtain s' where s': "create_conn (ce_conn (client_env_ex 1)) 1 (HostBytes ''h'') 80 ex1 = Some (Inr (Some 2), s')"
    using ex_open_str [of 1] create_conn_str by blast
  from create_conn_spec [OF this] obtain c where c: "s_running s'" "dget (s_conn_list s') 2 = Some (s_next_obj ex1)"
    "dget (s_objs s') (s_next_obj ex1) = Some c" "c_running c" by (auto simp: conn_init_def)
  have m: "(2, s_next_obj ex1) \<in> set (s_conn_list s')" using c(2) by (rule map_of_SomeD)
  let ?s = "s'\<lparr>s_last_send_time := 0, s_ctx := ex_ctx\<rparr>"
  let ?k = "client_ex request_ex ?s"
  have f: "ap_sess (cl_app ?k) = ?s" "cl_has_session ?k" "has_account (cl_app ?k)" "known_host ?s" "le_now (ce_login (client_env_ex 300)) = 300"
    by (simp_all add: client_ex_def app_ex_def has_account_def known_host_def ex_ctx_def client_env_ex_def)
  from quiet_session_blocks_clients [OF request_ex_offers, of ?s "client_env_ex 300" 2 "s_next_obj ex1" c dial_ex, unfolded f] f c m
  have "fst (client_handle (client_env_ex 300) dial_ex ?k) = Waiting" by simp
  with c(1) show ?thesis by (intro exI [of _ ?s]) simp
qed

theorem socks4_bypasses_tunnel_witness:
  "Dial ''1.2.3.4'' 80 \<in> set (k_acts (snd (client_handle (client_env_ex 1) dial_ex
      (client_ex [Segment (map byte [4, 1, 0, 80, 1, 2, 3, 4]), Segment (map byte [0])] ex1))))"
proof -
  let ?k = "client_ex [Segment (map byte [4, 1, 0, 80, 1, 2, 3, 4]), Segment (map byte [0])] ex1"
  have "offers (k_reader ?k) = byte 4 # byte 1 # map byte [80 div 256, 80 mod 256] @ map byte [1, 2, 3, 4] @ [] @ byte 0 # []"
    by (simp add: client_ex_def offers_def)
  from socks4_bypasses_tunnel [OF this] have "Dial (dotted (map byte [1, 2, 3, 4])) 80 \<in> set (k_acts (snd (client_handle (client_env_ex 1) dial_ex ?k)))"
    by simp
  moreover have "dotted (map byte [1, 2, 3, 4]) = ''1.2.3.4''" by code_simp
  ultimately show ?thesis by simp
qed

end
