(* ===== verification/Config_File.thy ===== *)
theory Config_File
  imports Json
begin

text \<open>
  lib/noarch/config_manager.py (\<^verbatim>\<open>TypedConfig\<close> and \<^verbatim>\<open>Config\<close>) and \<^verbatim>\<open>load_config\<close> of
  x_tunnel/local/config.py: settings kept in a JSON file, of which only what differs from the
  defaults is written.

  The file is its content, \<open>None\<close> if there is none; its time of modification is a parameter where the
  code asks for it.  An attribute is a value that JSON can carry.
\<close>

subsection \<open>Text and comparison\<close>

text \<open>\<^verbatim>\<open>replace(",}", "}")\<close>.\<close>

fun drop_last_comma :: "string \<Rightarrow> string" where
  "drop_last_comma (c # d # s) = (if c = CHR '','' \<and> d = CHR ''}'' then d # drop_last_comma s else c # drop_last_comma (d # s))"
| "drop_last_comma s = s"

definition cleaned :: "string \<Rightarrow> string" where
  "cleaned content = drop_last_comma (filter (\<lambda>c. c \<noteq> CHR 0x0A) (filter (\<lambda>c. c \<noteq> CHR 0x0D) (strip content)))"

text \<open>
  Python's equality of such values: a truth value is a number, an integer equals the float of the same
  value, and the order of keys does not matter.
\<close>

fun number :: "json \<Rightarrow> string option" where
  "number (JBool b) = Some (if b then ''1.0'' else ''0.0'')"
| "number (JInt i) = Some (dec_int i @ ''.0'')"
| "number (JFloat t) = Some t"
| "number v = None"

function py_eq :: "json \<Rightarrow> json \<Rightarrow> bool" where
  "py_eq (JList vs) w = (case w of
      JList ws \<Rightarrow> length vs = length ws \<and> (\<forall>p \<in> set (zip vs ws). py_eq (fst p) (snd p)) | _ \<Rightarrow> False)"
| "py_eq (JObj kvs) w = (case w of
      JObj lws \<Rightarrow> fst ` set kvs = fst ` set lws \<and>
        (\<forall>p \<in> set kvs. case map_of lws (fst p) of None \<Rightarrow> False | Some x \<Rightarrow> py_eq (snd p) x)
    | _ \<Rightarrow> False)"
| "py_eq JNull w = (w = JNull)"
| "py_eq (JStr s) w = (w = JStr s)"
| "py_eq (JBool b) w = (number w = number (JBool b))"
| "py_eq (JInt i) w = (number w = number (JInt i))"
| "py_eq (JFloat t) w = (number w = number (JFloat t))"
  by pat_completeness auto
termination
  by (relation "measure (size \<circ> fst)") (auto dest!: set_zip_leftD dest: member_size element_size)

subsection \<open>\<^verbatim>\<open>TypedConfig\<close>\<close>

record typed_config =
  tc_fields :: "string list"
  tc_defaults :: "(string, json) dict"
  tc_last_load :: time
  tc_file :: json
  tc_attrs :: "(string, json) dict"

text \<open>
  \<^verbatim>\<open>name in file_config\<close> and the subscript that follows, for whatever the file holds: only an object
  works; a list or a text that contains the name, and a value that is no container, raise.
\<close>

definition file_entry :: "json \<Rightarrow> string \<Rightarrow> exn + json option" where
  "file_entry f k = (case f of
      JObj kvs \<Rightarrow> Inr (map_of kvs k)
    | JList vs \<Rightarrow> if JStr k \<in> set vs then Inl (PyException ''TypeError'') else Inr None
    | JStr s \<Rightarrow> if contains k s then Inl (PyException ''TypeError'') else Inr None
    | _ \<Rightarrow> Inl (PyException ''TypeError''))"

fun load_fields :: "json \<Rightarrow> string list \<Rightarrow> (string, json) dict \<Rightarrow> exn option \<times> (string, json) dict" where
  "load_fields f [] attrs = (None, attrs)"
| "load_fields f (k # ks) attrs = (case file_entry f k of
      Inl e \<Rightarrow> (Some e, attrs)
    | Inr None \<Rightarrow> load_fields f ks attrs
    | Inr (Some v) \<Rightarrow> load_fields f ks (dset k v attrs))"

definition load_from_file :: "time \<Rightarrow> string option \<Rightarrow> typed_config \<Rightarrow> exn option \<times> typed_config" where
  "load_from_file now file c =
     (let c1 = c\<lparr>tc_last_load := now\<rparr>
      in case file of
           None \<Rightarrow> (None, c1)
         | Some content \<Rightarrow> (case loads (cleaned content) of
             Inl e \<Rightarrow> (None, c1)
           | Inr f \<Rightarrow> (case load_fields f (tc_fields c1) (tc_attrs c1) of
               (e, attrs) \<Rightarrow> (e, c1\<lparr>tc_file := f, tc_attrs := attrs\<rparr>))))"

text \<open>
  The fields of the data class, each with its default if it has one.  Values are copied here; in the
  code a list that is a default is shared with the attribute, which matters only to a program
  that changes it in place.
\<close>

definition typed_init :: "(string \<times> json option) list \<Rightarrow> time \<Rightarrow> string option \<Rightarrow> exn option \<times> typed_config" where
  "typed_init specs now file =
     (let defaults = map (\<lambda>(k, d). (k, the d)) (filter (\<lambda>(k, d). d \<noteq> None) specs)
      in load_from_file now file \<lparr>tc_fields = map fst specs, tc_defaults = defaults, tc_last_load = now,
           tc_file = JObj [], tc_attrs = defaults\<rparr>)"

fun changed_fields :: "string list \<Rightarrow> typed_config \<Rightarrow> exn + (string \<times> json) list" where
  "changed_fields [] c = Inr []"
| "changed_fields (k # ks) c = (case dget (tc_attrs c) k of
      None \<Rightarrow> Inl AttributeError
    | Some v \<Rightarrow> (case changed_fields ks c of
        Inl e \<Rightarrow> Inl e
      | Inr kvs \<Rightarrow> Inr (case dget (tc_defaults c) k of
            Some d \<Rightarrow> if py_eq v d then kvs else (k, v) # kvs
          | None \<Rightarrow> (k, v) # kvs)))"

definition typed_save :: "typed_config \<Rightarrow> exn + string" where
  "typed_save c = (case changed_fields (tc_fields c) c of Inl e \<Rightarrow> Inl e | Inr kvs \<Rightarrow> Inr (dumps (JObj kvs)))"

text \<open>
  How writing the file ends.  \<^verbatim>\<open>open(path, "w")\<close> may be refused, and the file stays; once it is open the
  old content is gone, and only the first \<open>n\<close> characters may have been written when the disk is full
  or the program is killed.  (A value that JSON cannot carry makes \<^verbatim>\<open>json.dumps\<close> raise
  when the file is already empty; such values are not in this model, their effect on the file is
  that of \<open>CutShort 0\<close>.)
\<close>

datatype write_end = OpenFails | CutShort nat | Written

definition typed_save_file :: "write_end \<Rightarrow> string option \<Rightarrow> typed_config \<Rightarrow> exn option \<times> string option" where
  "typed_save_file w old c = (case typed_save c of
      Inl e \<Rightarrow> (Some e, old)
    | Inr content \<Rightarrow> (case w of
        OpenFails \<Rightarrow> (Some (PyException ''OSError''), old)
      | CutShort n \<Rightarrow> (Some (PyException ''OSError''), Some (take n content))
      | Written \<Rightarrow> (None, Some content)))"

definition typed_check_change :: "time option \<Rightarrow> time \<Rightarrow> string option \<Rightarrow> typed_config \<Rightarrow> exn option \<times> typed_config" where
  "typed_check_change mtime now file c = (case mtime of
      None \<Rightarrow> (None, c)
    | Some m \<Rightarrow> if m > tc_last_load c then load_from_file now file c else (None, c))"

subsection \<open>\<^verbatim>\<open>Config\<close>\<close>

record config =
  cf_defaults :: "(string, json) dict"
  cf_file :: json
  cf_attrs :: "(string, json) dict"
  cf_last_load :: time

definition config_init :: "time \<Rightarrow> config" where
  "config_init now = \<lparr>cf_defaults = [], cf_file = JObj [], cf_attrs = [], cf_last_load = now\<rparr>"

definition set_var :: "string \<Rightarrow> json \<Rightarrow> config \<Rightarrow> config" where
  "set_var k d c = c\<lparr>cf_defaults := dset k d (cf_defaults c)\<rparr>"

text \<open>\<^verbatim>\<open>if self.file_config\<close>: an empty container, zero, false and null count as nothing.\<close>

fun truthy_json :: "json \<Rightarrow> bool" where
  "truthy_json JNull = False"
| "truthy_json (JBool b) = b"
| "truthy_json (JInt i) = (i \<noteq> 0)"
| "truthy_json (JFloat t) = (list_ex (\<lambda>c. is_digit c \<and> c \<noteq> CHR ''0'') t \<or> \<not> list_ex is_digit t)"
| "truthy_json (JStr s) = (s \<noteq> [])"
| "truthy_json (JList vs) = (vs \<noteq> [])"
| "truthy_json (JObj kvs) = (kvs \<noteq> [])"

fun load_vars :: "json \<Rightarrow> (string \<times> json) list \<Rightarrow> (string, json) dict \<Rightarrow> exn option \<times> (string, json) dict" where
  "load_vars f [] attrs = (None, attrs)"
| "load_vars f ((k, d) # kds) attrs = (case (if truthy_json f then file_entry f k else Inr None) of
      Inl e \<Rightarrow> (Some e, attrs)
    | Inr None \<Rightarrow> load_vars f kds (dset k d attrs)
    | Inr (Some v) \<Rightarrow> load_vars f kds (dset k v attrs))"

definition config_load :: "time \<Rightarrow> string option \<Rightarrow> config \<Rightarrow> exn option \<times> config" where
  "config_load now file c =
     (let f = (case file of None \<Rightarrow> cf_file c
                | Some content \<Rightarrow> (case loads (cleaned content) of Inl e \<Rightarrow> JObj [] | Inr f \<Rightarrow> f))
      in case load_vars f (cf_defaults c) (cf_attrs c) of
           (e, attrs) \<Rightarrow> (e, c\<lparr>cf_last_load := now, cf_file := f, cf_attrs := attrs\<rparr>))"

text \<open>
  \<^verbatim>\<open>save\<close> edits what was loaded, so unknown keys of the file stay; an attribute never set reads as
  null.  A loaded file that is no object is outside this model (\<open>None\<close>).
\<close>

fun save_vars :: "(string, json) dict \<Rightarrow> (string \<times> json) list \<Rightarrow> (string, json) dict \<Rightarrow> (string, json) dict" where
  "save_vars attrs [] f = f"
| "save_vars attrs ((k, d) # kds) f =
     (let v = dget_or attrs k JNull
      in save_vars attrs kds (if py_eq v d then (if dmem k f then ddel k f else f) else dset k v f))"

definition config_save :: "config \<Rightarrow> (string \<times> config) option" where
  "config_save c = (case cf_file c of
      JObj kvs \<Rightarrow> (let f = save_vars (cf_attrs c) (cf_defaults c) kvs in Some (dumps (JObj f), c\<lparr>cf_file := JObj f\<rparr>))
    | _ \<Rightarrow> None)"

definition config_check_change :: "time option \<Rightarrow> time \<Rightarrow> string option \<Rightarrow> config \<Rightarrow> exn option \<times> config" where
  "config_check_change mtime now file c = (case mtime of
      None \<Rightarrow> (None, c)
    | Some m \<Rightarrow> if m > cf_last_load c then config_load now file c else (None, c))"

subsection \<open>The settings of the tunnel\<close>

definition xtunnel_fields :: "(string \<times> json option) list" where
  "xtunnel_fields = map (\<lambda>(k, d). (k, Some d))
     [(''log_level'', JStr ''DEBUG''), (''upload_logs'', JBool True), (''write_log_file'', JInt 0),
      (''save_start_log'', JInt 1500), (''show_debug'', JInt 0), (''delay_collect_log'', JInt 180),
      (''delay_collect_log2'', JInt 30), (''encrypt_data'', JInt 0), (''encrypt_password'', JStr ''encrypt_pass''),
      (''encrypt_method'', JStr ''aes-256-cfb''), (''api_server'', JStr ''center.xx-net.org''),
      (''scan_servers'', JList [JStr ''scan1'']), (''server_host'', JStr ''''), (''server_port'', JInt 443),
      (''use_https'', JInt 1), (''port_range'', JInt 1), (''login_account'', JStr ''''), (''login_password'', JStr ''''),
      (''conn_life'', JInt 30), (''socks_host'', JStr ''127.0.0.1''), (''socks_port'', JInt 1080),
      (''update_cloudflare_domains'', JBool True), (''concurent_thread_num'', JInt 12), (''min_on_road'', JInt 2),
      (''server_time_max_deviation'', JFloat ''0.6''), (''send_timeout_retry'', JInt 3),
      (''server_download_timeout_retry'', JInt 3), (''send_delay'', JInt 5), (''resend_timeout'', JInt 3000),
      (''ack_delay'', JInt 150), (''max_payload'', JInt 262144), (''roundtrip_timeout'', JInt 20),
      (''network_timeout'', JInt 5), (''windows_size'', JInt 10485760), (''timeout_threshold'', JInt 2),
      (''report_interval'', JInt 300), (''enable_cloudflare'', JInt 1), (''enable_cloudfront'', JInt 0),
      (''enable_seley'', JInt 1), (''enable_tls_relay'', JInt 1), (''enable_direct'', JInt 0),
      (''local_auto_front'', JInt 1), (''check_local_network_rules'', JStr ''normal'')]"

text \<open>
  \<^verbatim>\<open>load_config\<close>.  The three sizes are integers, as the data class declares them; another value
  is outside this model (\<open>None\<close>).  The computed \<^verbatim>\<open>windows_ack\<close> is no field and is never saved.
\<close>

definition int_attr :: "string \<Rightarrow> typed_config \<Rightarrow> int option" where
  "int_attr k c = (case dget (tc_attrs c) k of Some (JInt i) \<Rightarrow> Some i | _ \<Rightarrow> None)"

definition set_attr :: "string \<Rightarrow> json \<Rightarrow> typed_config \<Rightarrow> typed_config" where
  "set_attr k v c = c\<lparr>tc_attrs := dset k v (tc_attrs c)\<rparr>"

definition local_fronts :: "typed_config \<Rightarrow> typed_config" where
  "local_fronts c =
     (case (dget (tc_attrs c) ''local_auto_front'', dget (tc_attrs c) ''server_host'') of
        (Some f, Some (JStr h)) \<Rightarrow>
          if truthy_json f \<and> (contains ''localhost'' h \<or> contains ''127.0.0.1'' h)
          then set_attr ''enable_direct'' (JInt 1) (set_attr ''enable_seley'' (JInt 0)
                 (set_attr ''enable_tls_relay'' (JInt 0) (set_attr ''enable_cloudflare'' (JInt 0) c)))
          else c
      | _ \<Rightarrow> c)"

definition load_config :: "time \<Rightarrow> string option \<Rightarrow> (real \<times> typed_config) option" where
  "load_config now file =
     (case typed_init xtunnel_fields now file of (e, c) \<Rightarrow>
      (case (e, int_attr ''windows_size'' c, int_attr ''max_payload'' c, int_attr ''concurent_thread_num'' c) of
         (None, Some w, Some p, Some n) \<Rightarrow>
           Some (0.05 * of_int w, local_fronts (set_attr ''windows_size'' (JInt (p * n * 2)) c))
       | _ \<Rightarrow> None))"

subsection \<open>What is saved is loaded\<close>

definition keep_char :: "char \<Rightarrow> bool" where
  "keep_char c \<longleftrightarrow> c \<noteq> CHR 0x0A \<and> c \<noteq> CHR 0x0D"

lemma filter_join: "filter P (join sep xs) = join (filter P sep) (map (filter P) xs)"
  by (induction sep xs rule: join.induct) auto

lemma keep_digit: "is_digit c \<Longrightarrow> keep_char c"
  by (auto simp: is_digit_def keep_char_def)

lemma keep_esc: "filter keep_char (esc c) = esc c"
proof -
  have "keep_char (hex_char n)" if "n < 16" for n
  proof -
    have "(of_char (hex_char n) :: nat) = (if n < 10 then 48 + n else 87 + n)" using that by (simp add: hex_char_def)
    then show ?thesis by (auto simp: keep_char_def split: if_splits)
  qed
  moreover have "(of_char c :: nat) mod 16 < 16" "(of_char c :: nat) < 32 \<Longrightarrow> (of_char c :: nat) div 16 < 16" by simp_all
  ultimately show ?thesis by (auto simp: esc_def keep_char_def)
qed

lemma keep_quote: "filter keep_char (quote s) = quote s"
  by (induction s) (simp_all add: quote_def keep_esc, simp_all add: keep_char_def)

lemma keep_digits: "\<forall>c \<in> set ds. is_digit c \<Longrightarrow> filter keep_char ds = ds"
  using keep_digit by (auto simp: filter_id_conv)

lemma keep_dump:
  "json_ok v \<Longrightarrow> filter keep_char (dump nl n v) = dump (filter keep_char nl) n v"
proof (induction v arbitrary: n)
  case (JInt i)
  have "keep_char c" if "c \<in> set (dec_int i)" for c using dec_int_chars [OF that] keep_digit by (auto simp: keep_char_def)
  then show ?case by (simp add: filter_id_conv)
next
  case (JFloat t)
  then obtain sg n ds where t: "t = sg @ dec n @ ''.'' @ ds" "minus_or_not sg" "\<forall>c \<in> set ds. is_digit c"
    by (auto simp: float_literal_def)
  have "filter keep_char (dec n) = dec n" "filter keep_char ds = ds" using t(3) dec_digits by (auto intro!: keep_digits)
  moreover have "keep_char CHR ''-''" "keep_char CHR ''.''" by (simp_all add: keep_char_def)
  ultimately show ?case using t(2) by (auto simp: t(1) minus_or_not_def)
next
  case (JList vs)
  have l: "filter keep_char (line_start nl k) = line_start (filter keep_char nl) k" for k
    by (simp add: line_start_def keep_char_def filter_replicate)
  have k: "keep_char CHR ''[''" "keep_char CHR '']''" "keep_char CHR '',''" by (simp_all add: keep_char_def)
  have "filter keep_char (dump nl (n + 1) v) = dump (filter keep_char nl) (n + 1) v" if "v \<in> set vs" for v
    using JList.IH [of v] JList.prems that by (auto simp: list_all_iff)
  then show ?case by (simp add: filter_join l k comp_def cong: map_cong)
next
  case (JObj kvs)
  have l: "filter keep_char (line_start nl k) = line_start (filter keep_char nl) k" for k
    by (simp add: line_start_def keep_char_def filter_replicate)
  have k: "keep_char CHR ''{''" "keep_char CHR ''}''" "keep_char CHR '',''" "keep_char CHR '':''" "keep_char CHR '' ''"
    by (simp_all add: keep_char_def)
  have "filter keep_char (dump nl (n + 1) (snd kv)) = dump (filter keep_char nl) (n + 1) (snd kv)" if "kv \<in> set kvs" for kv
    using JObj.IH [of kv "snd kv"] JObj.prems that by (cases kv) (auto simp: list_all_iff)
  then show ?case by (simp add: filter_join l k comp_def keep_quote cong: map_cong)
next
  case (JStr s)
  show ?case by (simp add: keep_quote)
qed (simp_all add: keep_char_def)

text \<open>A comma directly before a closing brace is the one thing the clean-up takes away.\<close>

fun no_comma_brace :: "string \<Rightarrow> bool" where
  "no_comma_brace (c # d # s) = (\<not> (c = CHR '','' \<and> d = CHR ''}'') \<and> no_comma_brace (d # s))"
| "no_comma_brace s = True"

lemma drop_last_comma_id: "no_comma_brace s \<Longrightarrow> drop_last_comma s = s"
  by (induction s rule: no_comma_brace.induct) auto

lemma no_comma_brace_append:
  "no_comma_brace (a @ b) \<longleftrightarrow> no_comma_brace a \<and> no_comma_brace b \<and>
     \<not> (a \<noteq> [] \<and> last a = CHR '','' \<and> b \<noteq> [] \<and> hd b = CHR ''}'')"
proof (induction a)
  case (Cons c a)
  show ?case
  proof (cases a)
    case Nil
    then show ?thesis by (cases b) auto
  next
    case (Cons d a')
    with Cons.IH show ?thesis by auto
  qed
qed simp

fun texts_ok :: "json \<Rightarrow> bool" where
  "texts_ok (JStr s) = no_comma_brace s"
| "texts_ok (JList vs) = list_all texts_ok vs"
| "texts_ok (JObj kvs) = list_all (\<lambda>kv. no_comma_brace (fst kv) \<and> texts_ok (snd kv)) kvs"
| "texts_ok v = True"

lemma esc_ends:
  "esc c \<noteq> []" "last (esc c) = CHR '','' \<longleftrightarrow> c = CHR '',''" "hd (esc c) = CHR ''}'' \<longleftrightarrow> c = CHR ''}''" "no_comma_brace (esc c)"
proof -
  have "hex_char n \<noteq> CHR '','' \<and> hex_char n \<noteq> CHR ''}''" if "n < 16" for n
  proof -
    have "(of_char (hex_char n) :: nat) = (if n < 10 then 48 + n else 87 + n)" using that by (simp add: hex_char_def)
    then show ?thesis using that by (auto split: if_splits)
  qed
  then have h: "hex_char (of_char c mod 16) \<noteq> CHR '','' \<and> hex_char (of_char c mod 16) \<noteq> CHR ''}''" by simp
  show "esc c \<noteq> []" by (simp add: esc_def)
  show "last (esc c) = CHR '','' \<longleftrightarrow> c = CHR '',''"
  proof (cases "c = CHR '',''")
    case True
    then show ?thesis by (simp add: esc_def)
  next
    case False
    then show ?thesis by (simp add: esc_def h)
  qed
  show "hd (esc c) = CHR ''}'' \<longleftrightarrow> c = CHR ''}''"
    by (cases "c = CHR ''}''") (simp_all add: esc_def)
  show "no_comma_brace (esc c)" by (simp add: esc_def h)
qed

lemma hd_escaped: "s \<noteq> [] \<Longrightarrow> hd (concat (map esc s)) = CHR ''}'' \<longleftrightarrow> hd s = CHR ''}''"
proof (cases s)
  case (Cons c r)
  then show ?thesis using hd_append2 [OF esc_ends(1)] esc_ends(3) [of c] by simp
qed simp

lemma no_comma_brace_escaped: "no_comma_brace s \<Longrightarrow> no_comma_brace (concat (map esc s))"
proof (induction s)
  case (Cons c s)
  from Cons.prems have "no_comma_brace s" "\<not> (c = CHR '','' \<and> s \<noteq> [] \<and> hd s = CHR ''}'')" by (cases s; auto)+
  with Cons.IH hd_escaped [of s] show ?case by (auto simp: no_comma_brace_append esc_ends)
qed simp

lemma no_comma_brace_quote: "no_comma_brace s \<Longrightarrow> no_comma_brace (quote s)"
  using no_comma_brace_escaped [of s] by (simp add: quote_def no_comma_brace_append [of "[dq]", simplified] no_comma_brace_append)

definition smooth :: "string \<Rightarrow> bool" where
  "smooth s \<longleftrightarrow> s \<noteq> [] \<and> no_comma_brace s \<and> last s \<noteq> CHR '',''"

lemma no_comma_brace_spaces: "no_comma_brace (replicate n CHR '' '')"
proof (induction n)
  case (Suc n)
  then show ?case by (cases n) auto
qed simp

lemma smooth_join:
  assumes "xs \<noteq> []" and "\<And>x. x \<in> set xs \<Longrightarrow> smooth x"
  shows "smooth (join ('','' @ line_start [] (Suc m)) xs)"
  using assms
proof (induction xs)
  case (Cons x xs)
  let ?sep = "'','' @ line_start [] (Suc m)"
  have sep: "no_comma_brace ?sep" "last ?sep = CHR '' ''" "hd ?sep = CHR '',''"
    using no_comma_brace_spaces [of "Suc (Suc (2 * m))"] by (simp_all add: line_start_def)
  show ?case
  proof (cases "xs = []")
    case True
    with Cons.prems(2) show ?thesis by simp
  next
    case False
    then obtain y ys where xs: "xs = y # ys" by (cases xs) auto
    have x: "smooth x" using Cons.prems(2) by simp
    have "smooth (join ?sep xs)" using Cons.IH [OF False] Cons.prems(2) by simp
    then have "smooth (?sep @ join ?sep xs)" using sep by (simp add: smooth_def no_comma_brace_append del: append.simps append_assoc)
    moreover have "hd (?sep @ join ?sep xs) = CHR '',''" by simp
    ultimately have "smooth (x @ ?sep @ join ?sep xs)"
      using x by (simp add: smooth_def no_comma_brace_append del: append.simps append_assoc)
    then show ?thesis by (simp add: xs)
  qed
qed simp

lemma dec_smooth: "smooth (dec n)"
proof -
  have "c \<noteq> CHR '',''" if "c \<in> set (dec n)" for c using dec_digits [OF that] by (auto simp: is_digit_def)
  moreover have "no_comma_brace s" if "\<forall>c \<in> set s. c \<noteq> CHR '',''" for s using that by (induction s rule: no_comma_brace.induct) auto
  ultimately show ?thesis by (auto simp: smooth_def)
qed

lemma smooth_append: "smooth b \<Longrightarrow> no_comma_brace a \<Longrightarrow> a = [] \<or> last a \<noteq> CHR '','' \<or> hd b \<noteq> CHR ''}'' \<Longrightarrow> smooth (a @ b)"
  by (auto simp: smooth_def no_comma_brace_append)

lemma smooth_wrap:
  assumes "smooth s" and "l \<noteq> CHR '',''" and "r \<noteq> CHR '',''"
  shows "smooth (l # line_start [] (Suc n) @ s @ line_start [] n @ [r])"
proof -
  have sp: "no_comma_brace (line_start [] m)" "line_start [] m \<noteq> [] \<Longrightarrow> hd (line_start [] m) = CHR '' '' \<and> last (line_start [] m) = CHR '' ''" for m
    using no_comma_brace_spaces by (simp_all add: line_start_def)
  have "smooth (line_start [] n @ [r])"
    by (rule smooth_append) (use sp assms(3) in \<open>auto simp: smooth_def\<close>)
  then have "smooth (s @ line_start [] n @ [r])"
    by (rule smooth_append) (use assms(1) in \<open>auto simp: smooth_def\<close>)
  then have "smooth (line_start [] (Suc n) @ s @ line_start [] n @ [r])"
    by (rule smooth_append) (use sp [of "Suc n"] in \<open>auto simp: line_start_def\<close>)
  then have "smooth ([l] @ line_start [] (Suc n) @ s @ line_start [] n @ [r])"
    by (rule smooth_append) (use assms(2) in auto)
  then show ?thesis by simp
qed

lemma smooth_dump: "json_ok v \<Longrightarrow> texts_ok v \<Longrightarrow> smooth (dump [] n v)"
proof (induction v arbitrary: n)
  case (JInt i)
  have "smooth (''-'' @ dec m)" for m by (rule smooth_append [OF dec_smooth]) simp_all
  then show ?case by (simp add: dec_int_def dec_smooth)
next
  case (JFloat t)
  then obtain sg m ds where t: "t = sg @ dec m @ ''.'' @ ds" "minus_or_not sg" "ds \<noteq> []" "\<forall>c \<in> set ds. is_digit c"
    by (auto simp: float_literal_def)
  have plain: "smooth s" if "s \<noteq> []" "\<forall>c \<in> set s. c \<noteq> CHR '',''" for s
  proof -
    have "no_comma_brace s" using that(2) by (induction s rule: no_comma_brace.induct) auto
    with that show ?thesis by (auto simp: smooth_def)
  qed
  have "c \<noteq> CHR '',''" if "c \<in> set t" for c
    using that t(2,4) dec_digits [of c m] by (auto simp: t(1) minus_or_not_def is_digit_def)
  moreover have "t \<noteq> []" using t(3) by (simp add: t(1))
  ultimately show ?case using plain [of t] by simp
next
  case (JStr s)
  then show ?case using no_comma_brace_quote [of s] by (simp add: smooth_def) (simp add: quote_def)
next
  case (JList vs)
  show ?case
  proof (cases "vs = []")
    case False
    have "smooth (join ('','' @ line_start [] (Suc n)) (map (dump [] (Suc n)) vs))"
      using False JList by (intro smooth_join) (auto simp: list_all_iff)
    from smooth_wrap [OF this] False show ?thesis by simp
  qed (simp add: smooth_def)
next
  case (JObj kvs)
  show ?case
  proof (cases "kvs = []")
    case False
    have "smooth (quote (fst kv) @ '': '' @ dump [] (Suc n) (snd kv))" if "kv \<in> set kvs" for kv
    proof -
      have kv: "no_comma_brace (fst kv)" "json_ok (snd kv)" "texts_ok (snd kv)" using JObj.prems that by (auto simp: list_all_iff)
      have "smooth (dump [] (Suc n) (snd kv))" using JObj.IH [of kv "snd kv"] that kv by (cases kv) auto
      then have "smooth ('' '' @ dump [] (Suc n) (snd kv))" by (rule smooth_append) simp_all
      then have "smooth ('':'' @ '' '' @ dump [] (Suc n) (snd kv))" by (rule smooth_append) simp_all
      then show ?thesis using smooth_append [OF _ no_comma_brace_quote [OF kv(1)]] by simp
    qed
    then have "smooth (join ('','' @ line_start [] (Suc n)) (map (\<lambda>kv. quote (fst kv) @ '': '' @ dump [] (Suc n) (snd kv)) kvs))"
      using False by (intro smooth_join) auto
    from smooth_wrap [OF this] False show ?thesis by simp
  qed (simp add: smooth_def)
qed (simp_all add: smooth_def)

lemma strip_braces: "strip (CHR ''{'' # s @ ''}'') = CHR ''{'' # s @ ''}''"
  by (simp add: strip_def lstrip_def is_space_def)

lemma cleaned_dumps:
  assumes "json_ok (JObj kvs)" and "texts_ok (JObj kvs)"
  shows "loads (cleaned (dumps (JObj kvs))) = Inr (JObj kvs)"
proof -
  obtain s where "dumps (JObj kvs) = CHR ''{'' # s @ ''}''"
  proof (cases "kvs = []")
    case True
    then show ?thesis using that [of "[]"] by (simp add: dumps_def)
  next
    case False
    then show ?thesis using that by (simp add: dumps_def line_start_def)
  qed
  then have "strip (dumps (JObj kvs)) = dumps (JObj kvs)" by (simp only: strip_braces)
  then have "cleaned (dumps (JObj kvs)) = drop_last_comma (filter keep_char (dumps (JObj kvs)))"
    by (simp add: cleaned_def keep_char_def [abs_def] conj_commute)
  also have "filter keep_char (dumps (JObj kvs)) = dump [] 0 (JObj kvs)"
    unfolding dumps_def keep_dump [OF assms(1)] by (simp add: keep_char_def)
  finally have "cleaned (dumps (JObj kvs)) = drop_last_comma (dump [] 0 (JObj kvs))" .
  moreover have "drop_last_comma (dump [] 0 (JObj kvs)) = dump [] 0 (JObj kvs)"
    using smooth_dump [OF assms] by (simp add: smooth_def drop_last_comma_id)
  moreover have "blank []" by (simp add: blank_def)
  ultimately show ?thesis by (simp only: loads_dump [OF _ assms(1)])
qed

lemma load_fields_obj:
  "load_fields (JObj kvs) ks attrs = (None, snd (load_fields (JObj kvs) ks attrs))
    \<and> dget (snd (load_fields (JObj kvs) ks attrs)) k
       = (if k \<in> set ks \<and> map_of kvs k \<noteq> None then map_of kvs k else dget attrs k)"
proof (induction ks arbitrary: attrs)
  case (Cons j ks)
  show ?case
  proof (cases "map_of kvs j")
    case None
    with Cons [of attrs] show ?thesis by (auto simp: file_entry_def)
  next
    case (Some v)
    with Cons [of "dset j v attrs"] show ?thesis by (auto simp: file_entry_def)
  qed
qed simp

text \<open>A fresh configuration over the same defaults has every attribute of the old one.\<close>

definition config_of :: "(string, json) dict \<Rightarrow> typed_config \<Rightarrow> bool" where
  "config_of ds c \<longleftrightarrow> tc_fields c = map fst ds \<and> tc_defaults c = ds
     \<and> (\<forall>k \<in> fst ` set ds. \<exists>v. dget (tc_attrs c) k = Some v \<and> json_ok v \<and> texts_ok v \<and> no_comma_brace k)"

definition saved :: "typed_config \<Rightarrow> string \<Rightarrow> (string \<times> json) list" where
  "saved c k = (case (dget (tc_attrs c) k, dget (tc_defaults c) k) of
      (Some v, Some d) \<Rightarrow> if py_eq v d then [] else [(k, v)] | _ \<Rightarrow> [])"

lemma changed_fields_saved:
  assumes "\<And>k. k \<in> set ks \<Longrightarrow> dget (tc_attrs c) k \<noteq> None \<and> dget (tc_defaults c) k \<noteq> None"
  shows "changed_fields ks c = Inr (concat (map (saved c) ks))"
  using assms
proof (induction ks)
  case (Cons k ks)
  then obtain v d where "dget (tc_attrs c) k = Some v" "dget (tc_defaults c) k = Some d" by fastforce
  with Cons show ?case by (simp add: saved_def)
qed simp

lemma saved_keys: "fst ` set (concat (map (saved c) ks)) \<subseteq> set ks"
  by (auto simp: saved_def split: option.splits if_splits)

lemma saved_distinct: "distinct ks \<Longrightarrow> distinct (map fst (concat (map (saved c) ks)))"
proof (induction ks)
  case (Cons k ks)
  then show ?case using saved_keys [of c ks] by (auto simp: saved_def split: option.splits if_splits)
qed simp

lemma map_of_saved: "distinct ks \<Longrightarrow> k \<in> set ks \<Longrightarrow> map_of (concat (map (saved c) ks)) k = map_of (saved c k) k"
proof (induction ks)
  case (Cons j ks)
  have n: "map_of (concat (map (saved c) ks)) j = None" if "j \<notin> set ks"
    using saved_keys [of c ks] that by (auto simp: map_of_eq_None_iff)
  have o: "map_of (saved c j) k = None" if "j \<noteq> k" using that by (simp add: saved_def split: option.splits)
  show ?case
  proof (cases "j = k")
    case True
    with Cons.prems n show ?thesis by (simp add: map_add_def split: option.splits)
  next
    case False
    with Cons o show ?thesis by (simp add: map_add_def split: option.splits)
  qed
qed simp

text \<open>What a configuration of settings is saved as.\<close>

lemma config_of_set: "config_of ds c \<Longrightarrow> k \<in> set (map fst ds) \<Longrightarrow> dget (tc_attrs c) k \<noteq> None \<and> dget (tc_defaults c) k \<noteq> None"
proof -
  assume c: "config_of ds c" and "k \<in> set (map fst ds)"
  then have "k \<in> fst ` set ds" by simp
  with c show ?thesis unfolding config_of_def map_of_eq_None_iff by (metis map_of_eq_None_iff option.distinct(1))
qed

lemma typed_save_object:
  assumes "config_of ds c" and "distinct (map fst ds)"
  shows "typed_save c = Inr (dumps (JObj (concat (map (saved c) (map fst ds)))))"
    and "json_ok (JObj (concat (map (saved c) (map fst ds))))" and "texts_ok (JObj (concat (map (saved c) (map fst ds))))"
proof -
  define kvs where "kvs = concat (map (saved c) (map fst ds))"
  have "json_ok v \<and> no_comma_brace k \<and> texts_ok v" if "(k, v) \<in> set kvs" for k v
    using assms(1) that by (fastforce simp: kvs_def config_of_def saved_def split: option.splits if_splits)
  then have "list_all (\<lambda>kv. json_ok (snd kv)) kvs" "list_all (\<lambda>kv. no_comma_brace (fst kv) \<and> texts_ok (snd kv)) kvs"
    unfolding list_all_iff by (metis prod.collapse)+
  then show "json_ok (JObj (concat (map (saved c) (map fst ds))))" "texts_ok (JObj (concat (map (saved c) (map fst ds))))"
    using saved_distinct [OF assms(2), of c] by (simp_all add: kvs_def)
  show "typed_save c = Inr (dumps (JObj (concat (map (saved c) (map fst ds)))))"
    using changed_fields_saved [of "map fst ds" c] config_of_set [OF assms(1)] assms(1) by (simp add: typed_save_def config_of_def)
qed

text \<open>
  C36. A configuration whose values are settings that JSON can carry, no text of which has a comma
  directly before a closing brace, is saved without an exception, and a fresh configuration over
  the same defaults that reads the file has every value back; a value that Python counts as equal
  to the default is not written, and reads as the default.
\<close>

theorem config_roundtrip:
  assumes "config_of ds c" and "distinct (map fst ds)"
  shows "\<exists>content c'. typed_save c = Inr content
    \<and> typed_init (map (\<lambda>(k, d). (k, Some d)) ds) now (Some content) = (None, c')
    \<and> (\<forall>(k, d) \<in> set ds. \<exists>v. dget (tc_attrs c) k = Some v \<and> dget (tc_attrs c') k = Some (if py_eq v d then d else v))"
proof -
  let ?ks = "map fst ds"
  define kvs where "kvs = concat (map (saved c) (map fst ds))"
  let ?c0 = "\<lparr>tc_fields = ?ks, tc_defaults = ds, tc_last_load = now, tc_file = JObj [], tc_attrs = ds\<rparr>"
  let ?c' = "?c0\<lparr>tc_file := JObj kvs, tc_attrs := snd (load_fields (JObj kvs) ?ks ds)\<rparr>"
  note d = config_of_set [OF assms(1)]
  note s = typed_save_object(1) [OF assms, folded kvs_def] and ok = typed_save_object(2,3) [OF assms, folded kvs_def]
  have m1: "map (\<lambda>(k, d). (k, the d)) (filter (\<lambda>(k, d). d \<noteq> None) (map (\<lambda>(k, d). (k, Some d)) ds)) = ds"
    by (induction ds) auto
  have m2: "map fst (map (\<lambda>(k, d). (k, Some d)) ds) = ?ks" by (induction ds) auto
  obtain attrs where lf: "load_fields (JObj kvs) ?ks ds = (None, attrs)"
    using load_fields_obj [of kvs ?ks ds] by blast
  have l: "typed_init (map (\<lambda>(k, d). (k, Some d)) ds) now (Some (dumps (JObj kvs))) = (None, ?c')"
    unfolding typed_init_def Let_def m1 m2 load_from_file_def by (simp add: cleaned_dumps [OF ok] lf)
  have "\<exists>v. dget (tc_attrs c) k = Some v \<and> dget (tc_attrs ?c') k = Some (if py_eq v e then e else v)" if "(k, e) \<in> set ds" for k e
  proof -
    have e: "map_of ds k = Some e" using assms(2) that by simp
    have k: "k \<in> set ?ks" using that by force
    obtain v where v: "dget (tc_attrs c) k = Some v" using d [OF k] by auto
    have "map_of kvs k = (if py_eq v e then None else Some v)"
      using map_of_saved [OF assms(2) k, of c] assms(1) v e by (simp add: saved_def config_of_def kvs_def)
    with load_fields_obj [of kvs ?ks ds k] e k v show ?thesis by simp
  qed
  with s l show ?thesis by blast
qed

definition config_ex :: typed_config where
  "config_ex = \<lparr>tc_fields = [''port'', ''host''], tc_defaults = [(''port'', JInt 1080), (''host'', JStr ''::1'')], tc_last_load = 0,
     tc_file = JObj [], tc_attrs = [(''port'', JInt 1080), (''host'', JStr ''a,b'')]\<rparr>"

theorem config_roundtrip_witness:
  "\<exists>content c'. typed_save config_ex = Inr content
    \<and> typed_init [(''port'', Some (JInt 1080)), (''host'', Some (JStr ''::1''))] 5 (Some content) = (None, c')
    \<and> dget (tc_attrs c') ''port'' = Some (JInt 1080) \<and> dget (tc_attrs c') ''host'' = Some (JStr ''a,b'')"
proof -
  let ?ds = "[(''port'', JInt 1080), (''host'', JStr ''::1'')]"
  have "config_of ?ds config_ex" by (simp add: config_of_def config_ex_def)
  from config_roundtrip [OF this, of 5] show ?thesis by (fastforce simp: config_ex_def)
qed

text \<open>A text with a comma before a closing brace, a password say, comes back without the comma.\<close>

lemma comma_before_brace_lost:
  "loads (cleaned (dumps (JObj [(''login_password'', JStr ''a,}b'')]))) = Inr (JObj [(''login_password'', JStr ''a}b'')])"
  by code_simp

text \<open>
  The acknowledgement window is a twentieth of the configured window, not of the window that the
  configuration then gets; once that computed window has been saved, the next start has a smaller
  acknowledgement window.
\<close>

lemma py_eq_refl: "json_ok v \<Longrightarrow> py_eq v v"
proof (induction v)
  case (JList vs)
  then show ?case by (auto simp: list_all_iff set_zip)
next
  case (JObj kvs)
  have "py_eq (snd p) (snd p) \<and> map_of kvs (fst p) = Some (snd p)" if "p \<in> set kvs" for p
    using JObj.IH [of p "snd p"] JObj.prems that by (cases p) (auto simp: list_all_iff)
  then show ?case by auto
qed simp_all

lemma one_change:
  assumes "dict_ok ds" and "\<And>k d. (k, d) \<in> set ds \<Longrightarrow> json_ok d" and "dget ds k = Some d" and "\<not> py_eq v d"
    and "tc_fields c = map fst ds" and "tc_defaults c = ds" and "\<And>j. dget (tc_attrs c) j = dget (dset k v ds) j"
  shows "typed_save c = Inr (dumps (JObj [(k, v)]))"
proof -
  have s: "saved c j = (if j = k then [(k, v)] else [])" if "j \<in> fst ` set ds" for j
  proof (cases "j = k")
    case True
    with assms(3,4,6,7) show ?thesis by (simp add: saved_def)
  next
    case False
    from that obtain e where "(j, e) \<in> set ds" by auto
    with assms(1) have "dget ds j = Some e" "py_eq e e" using assms(2) py_eq_refl by auto
    with False assms(6,7) show ?thesis by (simp add: saved_def)
  qed
  have n: "concat (map (saved c) js) = (if k \<in> set js then [(k, v)] else [])" if "distinct js" "set js \<subseteq> fst ` set ds" for js
    using that by (induction js) (auto simp: s)
  have "k \<in> set (map fst ds)" using assms(3) by (force dest: map_of_SomeD)
  then have "concat (map (saved c) (map fst ds)) = [(k, v)]" using n [of "map fst ds"] assms(1) by simp
  moreover have "dget (tc_attrs c) j \<noteq> None \<and> dget (tc_defaults c) j \<noteq> None" if "j \<in> set (map fst ds)" for j
  proof -
    from that have "dget ds j \<noteq> None" by (simp add: map_of_eq_None_iff)
    then show ?thesis using assms(6,7) by simp
  qed
  ultimately show ?thesis using changed_fields_saved [of "map fst ds" c] assms(5) by (simp add: typed_save_def)
qed

definition xtunnel_defaults :: "(string, json) dict" where
  "xtunnel_defaults = map (\<lambda>(k, d). (k, the d)) xtunnel_fields"

lemma xtunnel_default_values:
  "dget xtunnel_defaults ''windows_size'' = Some (JInt 10485760)" "dget xtunnel_defaults ''max_payload'' = Some (JInt 262144)"
  "dget xtunnel_defaults ''concurent_thread_num'' = Some (JInt 12)" "dget xtunnel_defaults ''server_host'' = Some (JStr [])"
  by (simp_all add: xtunnel_defaults_def xtunnel_fields_def)

lemma xtunnel_defaults_ok:
  "dict_ok xtunnel_defaults" "(k, d) \<in> set xtunnel_defaults \<Longrightarrow> json_ok d"
  "map fst xtunnel_fields = map fst xtunnel_defaults"
  "filter (\<lambda>(k, d). d \<noteq> None) xtunnel_fields = xtunnel_fields"
proof -
  have "float_literal ''0.6''"
    unfolding float_literal_def by (rule exI [of _ "[]"], rule exI [of _ 0], rule exI [of _ "''6''"])
      (simp add: minus_or_not_def dec.simps [of 0] char_zero is_digit_def)
  then show "(k, d) \<in> set xtunnel_defaults \<Longrightarrow> json_ok d"
    by (auto simp: xtunnel_defaults_def xtunnel_fields_def)
  show "dict_ok xtunnel_defaults" by (simp add: xtunnel_defaults_def xtunnel_fields_def)
  show "map fst xtunnel_fields = map fst xtunnel_defaults" by (simp add: xtunnel_defaults_def case_prod_beta comp_def)
  show "filter (\<lambda>(k, d). d \<noteq> None) xtunnel_fields = xtunnel_fields" by (simp add: xtunnel_fields_def)
qed

lemma not_local: "dget (tc_attrs c) ''server_host'' = Some (JStr []) \<Longrightarrow> local_fronts c = c"
  by (simp add: local_fronts_def contains_def split: option.splits)

lemma load_config_start:
  assumes "typed_init xtunnel_fields t file = (None, c)" and "dget (tc_attrs c) ''windows_size'' = Some (JInt w)"
    and "\<And>k. k \<noteq> ''windows_size'' \<Longrightarrow> dget (tc_attrs c) k = dget xtunnel_defaults k"
  shows "load_config t file = Some (0.05 * of_int w, set_attr ''windows_size'' (JInt 6291456) c)"
  using assms(2) assms(3) [of "''max_payload''"] assms(3) [of "''concurent_thread_num''"] assms(3) [of "''server_host''"]
  by (simp add: load_config_def assms(1) int_attr_def xtunnel_default_values not_local set_attr_def)

lemma dec_int_inj: "dec_int a = dec_int b \<longleftrightarrow> a = b"
  by (metis int_of_dec_int sum.inject(2))

lemma windows_ack_drifts:
  "\<exists>c. load_config t None = Some (524288, c)
    \<and> (\<exists>content c'. typed_save c = Inr content \<and> load_config t' (Some content) = Some (314572.8, c'))"
proof -
  let ?c = "\<lambda>t. \<lparr>tc_fields = map fst xtunnel_defaults, tc_defaults = xtunnel_defaults, tc_last_load = t, tc_file = JObj [],
     tc_attrs = xtunnel_defaults\<rparr>"
  let ?kvs = "[(''windows_size'', JInt 6291456)]"
  have i: "typed_init xtunnel_fields t f = load_from_file t f (?c t)" for t f
    unfolding typed_init_def xtunnel_defaults_ok(3,4) by (simp add: xtunnel_defaults_def Let_def)
  have first: "load_config t None = Some (0.05 * of_int 10485760, set_attr ''windows_size'' (JInt 6291456) (?c t))"
    by (rule load_config_start) (simp_all add: i load_from_file_def xtunnel_default_values)
  have "number (JInt 6291456) \<noteq> number (JInt 10485760)" by (simp add: dec_int_inj)
  then have s: "typed_save (set_attr ''windows_size'' (JInt 6291456) (?c t)) = Inr (dumps (JObj ?kvs))"
    by (intro one_change [OF xtunnel_defaults_ok(1,2) xtunnel_default_values(1)]) (simp_all add: set_attr_def)
  have l: "loads (cleaned (dumps (JObj ?kvs))) = Inr (JObj ?kvs)" by (rule cleaned_dumps) simp_all
  obtain got where a: "load_fields (JObj ?kvs) (map fst xtunnel_defaults) xtunnel_defaults = (None, got)"
    using load_fields_obj [of ?kvs "map fst xtunnel_defaults" xtunnel_defaults] by blast
  have g: "dget got k = (if k \<in> set (map fst xtunnel_defaults) \<and> map_of ?kvs k \<noteq> None then map_of ?kvs k else dget xtunnel_defaults k)" for k
    using load_fields_obj [of ?kvs "map fst xtunnel_defaults" xtunnel_defaults k] unfolding a by simp
  have w: "''windows_size'' \<in> fst ` set xtunnel_defaults" 
  proof -
    have "dget xtunnel_defaults ''windows_size'' \<noteq> None" by (simp add: xtunnel_default_values)
    then show ?thesis unfolding map_of_eq_None_iff by simp
  qed
  have "load_config t' (Some (dumps (JObj ?kvs))) = Some (0.05 * of_int 6291456, set_attr ''windows_size'' (JInt 6291456)
      ((?c t')\<lparr>tc_file := JObj ?kvs, tc_attrs := got\<rparr>))"
    by (rule load_config_start) (simp_all add: i load_from_file_def l a g w)
  with first s show ?thesis by simp
qed

subsection \<open>Every field keeps a value\<close>

text \<open>The configurations that loading, reloading after a change of the file and setting attributes lead to.\<close>

inductive tc_reach :: "(string \<times> json option) list \<Rightarrow> typed_config \<Rightarrow> bool" for specs where
  tc_start: "typed_init specs now content = (e, c) \<Longrightarrow> tc_reach specs c"
| tc_load: "tc_reach specs c \<Longrightarrow> load_from_file now content c = (e, c') \<Longrightarrow> tc_reach specs c'"
| tc_check: "tc_reach specs c \<Longrightarrow> typed_check_change mtime now content c = (e, c') \<Longrightarrow> tc_reach specs c'"
| tc_set: "tc_reach specs c \<Longrightarrow> tc_reach specs (set_attr k v c)"

definition tc_typed :: "(string \<times> json option) list \<Rightarrow> typed_config \<Rightarrow> bool" where
  "tc_typed specs c \<longleftrightarrow> tc_fields c = map fst specs \<and> (\<forall>(k, d) \<in> set specs. d \<noteq> None \<longrightarrow> dget (tc_attrs c) k \<noteq> None)"

lemma load_fields_keeps: "load_fields f ks attrs = (e, attrs') \<Longrightarrow> dget attrs k \<noteq> None \<Longrightarrow> dget attrs' k \<noteq> None"
proof (induction ks arbitrary: attrs)
  case (Cons j ks)
  then show ?case by (auto split: sum.splits option.splits if_splits)
qed simp

lemma load_from_file_keeps:
  assumes "load_from_file now content c = (e, c')"
  shows "tc_fields c' = tc_fields c \<and> (\<forall>k. dget (tc_attrs c) k \<noteq> None \<longrightarrow> dget (tc_attrs c') k \<noteq> None)"
proof -
  consider "c' = c\<lparr>tc_last_load := now\<rparr>"
    | f attrs where "load_fields f (tc_fields c) (tc_attrs c) = (e, attrs)" "c' = c\<lparr>tc_last_load := now, tc_file := f, tc_attrs := attrs\<rparr>"
    using assms by (auto simp: load_from_file_def Let_def split: option.splits sum.splits prod.splits)
  then show ?thesis
  proof cases
    case 2
    from load_fields_keeps [OF 2(1)] show ?thesis by (simp add: 2(2))
  qed simp
qed

lemma load_from_file_typed: "tc_typed specs c \<Longrightarrow> load_from_file now content c = (e, c') \<Longrightarrow> tc_typed specs c'"
  by (drule load_from_file_keeps) (fastforce simp: tc_typed_def)

lemma typed_init_typed: "typed_init specs now content = (e, c) \<Longrightarrow> tc_typed specs c"
proof -
  assume i: "typed_init specs now content = (e, c)"
  let ?d = "map (\<lambda>(k, d). (k, the d)) (filter (\<lambda>(k, d). d \<noteq> None) specs)"
  have "dget ?d k \<noteq> None" if "(k, d) \<in> set specs" "d \<noteq> None" for k d
  proof -
    have "k \<in> fst ` set ?d" using that by force
    then show ?thesis by (simp add: map_of_eq_None_iff)
  qed
  then have "tc_typed specs \<lparr>tc_fields = map fst specs, tc_defaults = ?d, tc_last_load = now, tc_file = JObj [], tc_attrs = ?d\<rparr>"
    by (auto simp: tc_typed_def)
  with i load_from_file_typed show ?thesis unfolding typed_init_def Let_def by blast
qed

lemma tc_reach_typed: "tc_reach specs c \<Longrightarrow> tc_typed specs c"
proof (induction rule: tc_reach.induct)
  case (tc_check c mtime now content e c')
  then show ?case using load_from_file_typed by (auto simp: typed_check_change_def split: option.splits if_splits)
next
  case (tc_set c k v)
  then show ?case by (auto simp: tc_typed_def set_attr_def)
qed (use typed_init_typed load_from_file_typed in blast)+

text \<open>
  Whatever the file holds, however often it is read again and whatever attributes are set, a
  configuration whose data class gives every field a default has a value for every field, so that
  reading a setting never raises \<^verbatim>\<open>AttributeError\<close>.
\<close>

lemma fields_always_set:
  assumes "tc_reach specs c" "\<And>k d. (k, d) \<in> set specs \<Longrightarrow> d \<noteq> None"
  shows "\<forall>k \<in> fst ` set specs. \<exists>v. dget (tc_attrs c) k = Some v"
proof
  fix k assume "k \<in> fst ` set specs"
  then obtain d where "(k, d) \<in> set specs" by force
  with tc_reach_typed [OF assms(1)] assms(2) show "\<exists>v. dget (tc_attrs c) k = Some v"
    unfolding tc_typed_def by fastforce
qed

text \<open>The types that the data class declares are not checked: a port may become a text.\<close>

definition port_file_ex :: string where
  "port_file_ex = CHR ''{'' # quote ''port'' @ '':'' @ quote ''high'' @ ''}''"

lemma types_not_checked:
  "dget (tc_attrs (snd (typed_init [(''port'', Some (JInt 1080))] 5 (Some port_file_ex)))) ''port'' = Some (JStr ''high'')"
  by code_simp

end
