(* ===== verification/Config_Crash.thy ===== *)
theory Config_Crash
  imports Config_File
begin

text \<open>
  A save of lib/noarch/config_manager.py that is cut short.  The file is written in place, so what is
  left is a part of the new text; this theory shows that the reader of \<^verbatim>\<open>json\<close> takes no such
  part for a value.  The reader looks only at what it consumes: text behind a value changes
  nothing, unless the value is a number or a word that ends the text.
\<close>

subsection \<open>Text behind what is read\<close>

lemma dropWhile_app: "dropWhile P s \<noteq> [] \<Longrightarrow> dropWhile P (s @ t) = dropWhile P s @ t"
  by (induction s) (simp_all del: dropWhile_eq_Nil_conv split: if_splits)

lemma jskip_app: "jskip s \<noteq> [] \<Longrightarrow> jskip (s @ t) = jskip s @ t"
  unfolding jskip_def by (rule dropWhile_app)

lemma jnext_Some: "jnext s c r = Some r' \<longleftrightarrow> jskip r = c # r' \<and> length r' < length s"
  by (auto simp: jnext_def split: list.splits)

lemma jskip_Cons_app: "jskip r = c # r' \<Longrightarrow> jskip (r @ t) = c # r' @ t"
  using jskip_app [of r t] by simp

lemma jnext_app: "jnext s c r = Some r' \<Longrightarrow> jnext (s @ t) c (r @ t) = Some (r' @ t)"
  unfolding jnext_Some by (simp add: jskip_Cons_app)

lemma jnext_other: "jnext s c r = Some r' \<Longrightarrow> d \<noteq> c \<Longrightarrow> jnext s' d (r @ t) = None"
  unfolding jnext_Some by (simp add: jnext_def jskip_Cons_app)

lemma hex4_app: "hex4 s = Some (u, r) \<Longrightarrow> hex4 (s @ t) = Some (u, r @ t)"
  by (cases s rule: hex4.cases) (auto split: option.splits)

text \<open>A low surrogate may not come into being behind the text, as a text that ends there is not closed.\<close>

lemma unicode_escape_app:
  assumes "unicode_escape s = Some (u, r)" and "jstring r \<noteq> None"
  shows "unicode_escape (s @ t) = Some (u, r @ t)"
proof -
  obtain w q where h: "hex4 s = Some (w, q)" using assms(1) by (auto simp: unicode_escape_def split: option.splits)
  show ?thesis
  proof (cases "0xD800 \<le> w \<and> w \<le> 0xDBFF \<and> take 2 q = [bsl, CHR ''u'']")
    case True
    then have q: "take 2 (q @ t) = [bsl, CHR ''u'']" "drop 2 (q @ t) = drop 2 q @ t"
      by (auto simp: take_Cons' split: if_splits) (cases q; cases "tl q"; auto)+
    show ?thesis using assms(1) True h hex4_app [OF h, of t] q
      by (auto simp: unicode_escape_def split: option.splits if_splits dest: hex4_app [where t = t])
  next
    case False
    then have r: "r = q" using assms(1) h by (auto simp: unicode_escape_def split: if_splits)
    have "take 2 (q @ t) \<noteq> [bsl, CHR ''u'']" if "take 2 q \<noteq> [bsl, CHR ''u'']"
      using assms(2) that unfolding r by (cases q; cases "tl q") (auto simp: jstring.simps)
    with False h hex4_app [OF h, of t] assms(1) r show ?thesis by (auto simp: unicode_escape_def split: if_splits)
  qed
qed

lemma with_front_eq: "with_front p x = Some (y, r) \<longleftrightarrow> (\<exists>z. x = Some (z, r) \<and> y = p @ z)"
  by (auto simp: with_front_def)

text \<open>The reader of a text, one character at a time.\<close>

lemma jstring_end: "jstring (dq # q) = Some ([], q)"
  by (simp add: jstring.simps)

lemma jstring_u: "jstring (bsl # CHR ''u'' # q) = (case unicode_escape q of None \<Rightarrow> None | Some (u, r) \<Rightarrow> with_front u (jstring r))"
  by (simp add: jstring.simps [of "bsl # CHR ''u'' # q"])

lemma jstring_simple: "e \<noteq> CHR ''u'' \<Longrightarrow>
    jstring (bsl # e # q) = (case simple_escape e of None \<Rightarrow> None | Some d \<Rightarrow> with_front [d] (jstring q))"
  by (simp add: jstring.simps [of "bsl # e # q"])

lemma jstring_char: "c \<noteq> dq \<Longrightarrow> c \<noteq> bsl \<Longrightarrow>
    jstring (c # q) = (if (of_char c :: nat) < 32 then None else with_front [c] (jstring q))"
  by (simp add: jstring.simps [of "c # q"])

lemma jstring_app: "jstring s = Some (x, r) \<Longrightarrow> jstring (s @ t) = Some (x, r @ t)"
proof (induction "length s" arbitrary: s x r rule: less_induct)
  case less
  obtain c q where s: "s = c # q" using less.prems by (cases s) (auto simp: jstring.simps)
  consider "c = dq" | q' where "c = bsl" "q = CHR ''u'' # q'" | e q' where "c = bsl" "q = e # q'" "e \<noteq> CHR ''u''"
    | "c \<noteq> dq" "c \<noteq> bsl"
    using less.prems by (cases q) (auto simp: s jstring.simps [of "[c]"] split: if_splits)
  then show ?case
  proof cases
    case 1
    with less.prems show ?thesis by (simp add: s jstring_end)
  next
    case 2
    with less.prems obtain u q'' z where u: "unicode_escape q' = Some (u, q'')" "jstring q'' = Some (z, r)" "x = u @ z"
      by (auto simp: s jstring_u with_front_eq split: option.splits)
    have "length q'' < length s" using unicode_escape_length [OF u(1)] 2 s by simp
    from less.hyps [OF this u(2)] unicode_escape_app [OF u(1), of t] u 2 show ?thesis by (simp add: s jstring_u)
  next
    case 3
    with less.prems obtain d z where d: "simple_escape e = Some d" "jstring q' = Some (z, r)" "x = d # z"
      by (auto simp: s jstring_simple with_front_eq split: option.splits)
    have "length q' < length s" using 3 s by simp
    from less.hyps [OF this d(2)] d 3 show ?thesis by (simp add: s jstring_simple)
  next
    case 4
    with less.prems obtain z where z: "\<not> (of_char c :: nat) < 32" "jstring q = Some (z, r)" "x = c # z"
      by (auto simp: s jstring_char with_front_eq split: if_splits)
    have "length q < length s" using s by simp
    from less.hyps [OF this z(2)] z 4 show ?thesis by (simp add: s jstring_char)
  qed
qed

subsection \<open>Numbers and words\<close>

definition sep_start :: "string \<Rightarrow> bool" where
  "sep_start r \<longleftrightarrow> r \<noteq> [] \<and> sep_ok r"

lemma takeWhile_app: "drop (length (takeWhile P s)) s \<noteq> [] \<Longrightarrow> takeWhile P (s @ t) = takeWhile P s"
  by (induction s) (auto split: if_splits)

lemma int_part_app: "drop (length (int_part s)) s \<noteq> [] \<Longrightarrow> int_part (s @ t) = int_part s"
  using takeWhile_app [of is_digit s t] by (cases s) (auto simp: int_part_def split: if_splits)

lemma frac_part_app:
  assumes "drop (length (frac_part s)) s \<noteq> []" and "frac_part s = [] \<Longrightarrow> hd s \<noteq> CHR ''.''"
  shows "frac_part (s @ t) = frac_part s"
proof (cases s)
  case (Cons c q)
  show ?thesis
  proof (cases "c = CHR ''.'' \<and> takeWhile is_digit q \<noteq> []")
    case True
    then have "drop (length (takeWhile is_digit q)) q \<noteq> []" using assms(1) by (simp add: Cons frac_part_def)
    from takeWhile_app [OF this, of t] True show ?thesis by (simp add: Cons frac_part_def)
  next
    case False
    with assms(2) show ?thesis by (auto simp: Cons frac_part_def)
  qed
qed (use assms in simp)

definition exp_sign :: "string \<Rightarrow> string" where
  "exp_sign q = (if take 1 q = ''-'' \<or> take 1 q = ''+'' then take 1 q else [])"

lemma exp_part_Cons: "exp_part (c # q) = (let ds = takeWhile is_digit (drop (length (exp_sign q)) q)
    in if c \<in> {CHR ''e'', CHR ''E''} \<and> ds \<noteq> [] then c # exp_sign q @ ds else [])"
  unfolding exp_part_def exp_sign_def Let_def by simp

lemma exp_sign_app: "q \<noteq> [] \<Longrightarrow> exp_sign (q @ t) = exp_sign q \<and> length (exp_sign q) \<le> length q"
  by (cases q) (auto simp: exp_sign_def)

lemma exp_part_app:
  assumes "drop (length (exp_part s)) s \<noteq> []" and "exp_part s = [] \<Longrightarrow> hd s \<noteq> CHR ''e'' \<and> hd s \<noteq> CHR ''E''"
  shows "exp_part (s @ t) = exp_part s"
proof (cases s)
  case (Cons c q)
  let ?ds = "takeWhile is_digit (drop (length (exp_sign q)) q)"
  show ?thesis
  proof (cases "c \<in> {CHR ''e'', CHR ''E''} \<and> ?ds \<noteq> []")
    case True
    then have e: "exp_part s = c # exp_sign q @ ?ds" by (simp add: Cons exp_part_Cons)
    have q: "q \<noteq> []" using True by auto
    have "drop (length ?ds) (drop (length (exp_sign q)) q) \<noteq> []" using assms(1) unfolding e by (simp add: Cons add.commute)
    from takeWhile_app [OF this, of t] exp_sign_app [OF q, of t]
    have "takeWhile is_digit (drop (length (exp_sign (q @ t))) (q @ t)) = ?ds" by simp
    with True exp_sign_app [OF q, of t] show ?thesis unfolding Cons append_Cons exp_part_Cons by simp
  next
    case False
    then have "exp_part s = []" unfolding Cons exp_part_Cons Let_def by simp
    with assms(2) show ?thesis by (simp add: Cons exp_part_Cons)
  qed
qed (use assms in simp)

text \<open>A number is read to its separator, so text behind the separator does not matter.\<close>

lemma jnumber_app:
  assumes "jnumber s = Some (fl, l, r)" and "sep_start r"
  shows "jnumber (s @ t) = Some (fl, l, r @ t)"
proof -
  define sg where "sg = (if take 1 s = ''-'' then ''-'' else [])"
  define s1 where "s1 = drop (length sg) s"
  define s2 where "s2 = drop (length (int_part s1)) s1"
  define s3 where "s3 = drop (length (frac_part s2)) s2"
  note parts = sg_def [symmetric] s1_def [symmetric] s2_def [symmetric] s3_def [symmetric]
  have n: "int_part s1 \<noteq> []" "fl = (frac_part s2 \<noteq> [] \<or> exp_part s3 \<noteq> [])" "l = sg @ int_part s1 @ frac_part s2 @ exp_part s3"
    "r = drop (length (exp_part s3)) s3"
    using assms(1) unfolding jnumber_def Let_def parts by (auto split: if_splits)
  have sep: "r \<noteq> []" "hd r \<noteq> CHR ''.''" "hd r \<noteq> CHR ''e''" "hd r \<noteq> CHR ''E''"
    using assms(2) by (cases r; auto simp: sep_start_def sep_ok_def is_ws_def)+
  have ne: "s3 \<noteq> []" "s2 \<noteq> []" "s1 \<noteq> []" "s \<noteq> []" using sep(1) unfolding n(4) s3_def s2_def s1_def by auto
  have e: "exp_part (s3 @ t) = exp_part s3"
    by (rule exp_part_app) (use sep n(4) in auto)
  have "hd s2 \<noteq> CHR ''.''" if "frac_part s2 = []"
  proof (cases "exp_part s3 = []")
    case True
    with that n(4) sep show ?thesis by (simp add: s3_def)
  next
    case False
    then have "hd s3 \<in> {CHR ''e'', CHR ''E''}" using ne(1) by (cases s3) (auto simp: exp_part_Cons Let_def split: if_splits)
    with that show ?thesis by (auto simp: s3_def)
  qed
  moreover have "drop (length (frac_part s2)) s2 \<noteq> []" using ne(1) by (simp only: s3_def not_False_eq_True)
  ultimately have f: "frac_part (s2 @ t) = frac_part s2" by (intro frac_part_app)
  have i: "int_part (s1 @ t) = int_part s1" by (rule int_part_app) (use ne(2) s2_def in simp)
  have sgt: "(if take 1 (s @ t) = ''-'' then ''-'' else []) = sg" using ne(4) by (cases s) (simp_all add: sg_def)
  have d1: "drop (length sg) (s @ t) = s1 @ t" using ne(4) by (cases s) (simp_all add: s1_def sg_def)
  have d2: "drop (length (int_part s1)) (s1 @ t) = s2 @ t" using ne(2) by (simp add: s2_def)
  have d3: "drop (length (frac_part s2)) (s2 @ t) = s3 @ t" using ne(1) by (simp add: s3_def)
  have d4: "drop (length (exp_part s3)) (s3 @ t) = r @ t" using sep(1) n(4) by simp
  show ?thesis unfolding jnumber_def Let_def sgt d1 i d2 f d3 e d4 using n by simp
qed

text \<open>No word is the beginning of a number, and no word the beginning of another word.\<close>

lemma number_no_word:
  assumes "jnumber s = Some x"
  shows "filter (\<lambda>p. is_prefix (fst p) s) literals = []"
proof -
  define q where "q = (if take 1 s = ''-'' then drop 1 s else s)"
  have s: "s = q \<or> s = CHR ''-'' # q"
    by (cases s) (auto simp: q_def)
  have i: "int_part q \<noteq> []"
    using assms by (auto simp: jnumber_def Let_def q_def split: if_splits)
  then obtain c r where q: "q = c # r" "is_digit c"
    by (cases q) (auto simp: int_part_def is_digit_def split: if_splits)
  with s literals_digit show ?thesis by auto
qed

lemma jliteral_app:
  assumes "jliteral s = Some (v, r)" and "sep_start r"
  shows "jliteral (s @ t) = Some (v, r @ t)"
proof (cases "filter (\<lambda>p. is_prefix (fst p) s) literals")
  case Nil
  with assms(1) obtain fl l where n: "jnumber s = Some (fl, l, r)" "v = (if fl then JFloat l else JInt (int_of_literal l))"
    by (auto simp: jliteral_def split: option.splits)
  from number_no_word [OF jnumber_app [OF n(1) assms(2)]] jnumber_app [OF n(1) assms(2)] n(2)
  show ?thesis by (simp add: jliteral_def)
next
  case (Cons p ps)
  then have "p \<in> set (filter (\<lambda>p. is_prefix (fst p) s) literals)" by simp
  then have p: "p \<in> set literals" "is_prefix (fst p) s" by simp_all
  then obtain q where s: "s = fst p @ q" by (auto simp: is_prefix_iff)
  have "filter (\<lambda>p. is_prefix (fst p) (fst p' @ q)) literals = [p']" if "p' \<in> set literals" for p' q
    using that by (auto simp: literals_def)
  from this [OF p(1), of q] this [OF p(1), of "q @ t"] assms(1) show ?thesis by (simp add: jliteral_def s)
qed

subsection \<open>Values\<close>

lemma jnext_sep: "jnext s c r = Some r' \<Longrightarrow> c \<in> {CHR '','', CHR '']'', CHR ''}''} \<Longrightarrow> sep_start r"
proof -
  assume n: "jnext s c r = Some r'" and c: "c \<in> {CHR '','', CHR '']'', CHR ''}''}"
  then obtain d q where r: "r = d # q" by (cases r) (auto simp: jnext_Some jskip_def)
  have "is_ws d \<or> d = c" using n by (auto simp: jnext_Some jskip_def r is_ws_def split: if_splits)
  with c show ?thesis by (auto simp: sep_start_def sep_ok_def r)
qed

definition bracketed :: "string \<Rightarrow> bool" where
  "bracketed s \<longleftrightarrow> (case s of [] \<Rightarrow> False | c # q \<Rightarrow> c \<in> {dq, CHR ''['', CHR ''{''})"

lemma jvalue_text: "jvalue (dq # q) = map_option (map_prod JStr id) (jstring q)"
  by (simp add: jvalue.simps)

lemma jvalue_list: "jvalue (CHR ''['' # q) = (case jskip q of [] \<Rightarrow> None
    | d # r' \<Rightarrow> if d = CHR '']'' then Some (JList [], r') else map_option (map_prod JList id) (jelems (jskip q)))"
  by (simp add: jvalue.simps)

lemma jvalue_object: "jvalue (CHR ''{'' # q) = (case jskip q of [] \<Rightarrow> None
    | d # r' \<Rightarrow> if d = CHR ''}'' then Some (JObj [], r')
        else map_option (map_prod (\<lambda>kvs. JObj (fold (\<lambda>(k, v). dset k v) kvs [])) id) (jmembers (jskip q)))"
  by (simp add: jvalue.simps)

lemma jvalue_other: "c \<noteq> dq \<Longrightarrow> c \<noteq> CHR ''['' \<Longrightarrow> c \<noteq> CHR ''{'' \<Longrightarrow> jvalue (c # q) = jliteral (c # q)"
  by (simp add: jvalue.simps)

lemma jmembers_start: "jmembers (dq # r0) = (case jstring r0 of None \<Rightarrow> None | Some (k, r1) \<Rightarrow>
    (case jnext (dq # r0) CHR '':'' r1 of None \<Rightarrow> None | Some r2 \<Rightarrow>
    (case jvalue (jskip r2) of None \<Rightarrow> None | Some (v, r) \<Rightarrow>
     (case jnext (dq # r0) CHR ''}'' r of
        Some r' \<Rightarrow> Some ([(k, v)], r')
      | None \<Rightarrow> (case jnext (dq # r0) CHR '','' r of
          Some r' \<Rightarrow> map_option (map_prod ((#) (k, v)) id) (jmembers (jskip r'))
        | None \<Rightarrow> None)))))"
  by (simp add: jmembers.simps [of "dq # r0"])

lemma value_app:
  "\<And>v r. jvalue s = Some (v, r) \<Longrightarrow> bracketed s \<or> sep_start r \<Longrightarrow> jvalue (s @ t) = Some (v, r @ t)"
  "\<And>vs r. jelems s2 = Some (vs, r) \<Longrightarrow> jelems (s2 @ t) = Some (vs, r @ t)"
  "\<And>kvs r. jmembers s3 = Some (kvs, r) \<Longrightarrow> jmembers (s3 @ t) = Some (kvs, r @ t)"
proof (induction s and s2 and s3 rule: jvalue_jelems_jmembers.induct)
  case (1 s)
  obtain c q where s: "s = c # q" using "1.prems"(1) by (cases s) (auto simp: jvalue.simps)
  consider "c = dq" | "c = CHR ''[''" | "c = CHR ''{''" | "c \<noteq> dq" "c \<noteq> CHR ''[''" "c \<noteq> CHR ''{''" by blast
  then show ?case
  proof cases
    case 1
    with "1.prems"(1) show ?thesis by (auto simp: s jvalue_text jstring_app)
  next
    case 2
    with "1.prems"(1) obtain d q' where d: "jskip q = d # q'" by (cases "jskip q") (auto simp: s jvalue_list)
    have "jelems (jskip q @ t) = Some (vs, r' @ t)" if "d \<noteq> CHR '']''" "jelems (jskip q) = Some (vs, r')" for vs r'
      using "1.IH"(1) [OF s _ 2 d that(1) that(2)] 2 by simp
    then show ?thesis using "1.prems"(1) d 2 jskip_Cons_app [OF d, of t] by (auto simp: s jvalue_list split: if_splits)
  next
    case 3
    with "1.prems"(1) obtain d q' where d: "jskip q = d # q'" by (cases "jskip q") (auto simp: s jvalue_object)
    have "jmembers (jskip q @ t) = Some (kvs, r' @ t)" if "d \<noteq> CHR ''}''" "jmembers (jskip q) = Some (kvs, r')" for kvs r'
      using "1.IH"(2) [OF s _ _ 3 d that(1) that(2)] 3 by simp
    then show ?thesis using "1.prems"(1) d 3 jskip_Cons_app [OF d, of t] by (auto simp: s jvalue_object split: if_splits)
  next
    case 4
    have "sep_start r" using "1.prems"(2) 4 by (simp add: bracketed_def s)
    with "1.prems"(1) jliteral_app [of s v r t] show ?thesis by (simp add: s jvalue_other [OF 4])
  qed
next
  case (2 s)
  obtain v r0 where v: "jvalue s = Some (v, r0)" using "2.prems" by (auto simp: jelems.simps [of s] split: option.splits)
  show ?case
  proof (cases "jnext s CHR '']'' r0")
    case (Some r')
    have "jvalue (s @ t) = Some (v, r0 @ t)" using "2.IH"(1) [OF v] jnext_sep [OF Some] by simp
    with "2.prems" v Some jnext_app [OF Some, of t] show ?thesis by (simp add: jelems.simps [of s] jelems.simps [of "s @ t"])
  next
    case None
    with "2.prems" v obtain r' vs' where r': "jnext s CHR '','' r0 = Some r'" "jelems (jskip r') = Some (vs', r)" "vs = v # vs'"
      by (auto simp: jelems.simps [of s] split: option.splits)
    have "jvalue (s @ t) = Some (v, r0 @ t)" using "2.IH"(1) [OF v] jnext_sep [OF r'(1)] by simp
    moreover have "jelems (jskip r' @ t) = Some (vs', r @ t)" using "2.IH"(2) [OF v refl None r'(1) r'(2)] .
    moreover have "jskip (r' @ t) = jskip r' @ t"
      by (rule jskip_app) (use r'(2) in \<open>auto simp: jelems.simps [of "[]"] jvalue.simps [of "[]"]\<close>)
    ultimately show ?thesis using jnext_app [OF r'(1), of t] jnext_other [OF r'(1), of "CHR '']''" "s @ t" t] r'(3)
      by (simp add: jelems.simps [of "s @ t"])
  qed
next
  case (3 s)
  have q: "\<exists>r0. s = dq # r0" using "3.prems" by (cases s) (auto simp: jmembers.simps [of "[]"] jmembers.simps [of "c # x" for c x] split: if_splits)
  then obtain r0 where s: "s = dq # r0" by blast
  from "3.prems" obtain k r1 r2 v r3 where k: "jstring r0 = Some (k, r1)" "jnext s CHR '':'' r1 = Some r2" "jvalue (jskip r2) = Some (v, r3)"
    by (auto simp: s jmembers_start split: option.splits)
  have nn: "\<not> dq \<noteq> dq" by simp
  have r2: "jskip (r2 @ t) = jskip r2 @ t" by (rule jskip_app) (use k(3) in \<open>auto simp: jvalue.simps [of "[]"]\<close>)
  have head: "jmembers (s @ t) = (case jnext (s @ t) CHR ''}'' (r3 @ t) of
      Some r' \<Rightarrow> Some ([(k, v)], r')
    | None \<Rightarrow> (case jnext (s @ t) CHR '','' (r3 @ t) of
        Some r' \<Rightarrow> map_option (map_prod ((#) (k, v)) id) (jmembers (jskip r')) | None \<Rightarrow> None))" if "sep_start r3"
  proof -
    have "jvalue (jskip r2 @ t) = Some (v, r3 @ t)" using "3.IH"(1) [OF s nn k(1) refl k(2) k(3)] that by simp
    with r2 jnext_app [OF k(2), of t] jstring_app [OF k(1), of t] show ?thesis unfolding s append_Cons by (simp add: jmembers_start)
  qed
  show ?case
  proof (cases "jnext s CHR ''}'' r3")
    case (Some r')
    with "3.prems" k s have "kvs = [(k, v)]" "r = r'" by (auto simp: jmembers_start)
    with head jnext_sep [OF Some] jnext_app [OF Some, of t] show ?thesis by simp
  next
    case None
    with "3.prems" k s obtain r' kvs' where r': "jnext s CHR '','' r3 = Some r'" "jmembers (jskip r') = Some (kvs', r)" "kvs = (k, v) # kvs'"
      by (auto simp: jmembers_start split: option.splits)
    have "jmembers (jskip r' @ t) = Some (kvs', r @ t)"
      using "3.IH"(2) [OF s nn k(1) refl k(2) k(3) refl None r'(1) r'(2)] .
    moreover have "jskip (r' @ t) = jskip r' @ t"
      by (rule jskip_app) (use r'(2) in \<open>auto simp: jmembers.simps [of "[]"]\<close>)
    ultimately show ?thesis using head jnext_sep [OF r'(1)] jnext_app [OF r'(1), of t] jnext_other [OF r'(1), of "CHR ''}''" "s @ t" t] r'(3)
      by simp
  qed
qed

subsection \<open>A part of the file\<close>

lemma part_not_read:
  assumes "json_ok (JObj kvs)" and "dump [] 0 (JObj kvs) = q @ z" and "z \<noteq> []"
  shows "\<exists>e. loads q = Inl e"
proof (cases q)
  case Nil
  then show ?thesis by (simp add: loads_def jskip_def jvalue.simps [of "[]"])
next
  case (Cons d q')
  then have d: "q = CHR ''{'' # q'" using assms(2) by (auto split: if_splits)
  have whole: "jvalue (q @ z) = Some (JObj kvs, [])"
    using jvalue_dump [of "[]" "JObj kvs" "[]" 0] assms(1,2) by (simp add: blank_def sep_ok_def)
  have "jvalue q = None"
  proof (rule ccontr)
    assume "jvalue q \<noteq> None"
    then obtain w r where w: "jvalue q = Some (w, r)" by auto
    have "jvalue (q @ z) = Some (w, r @ z)" by (rule value_app(1) [OF w]) (simp add: bracketed_def d)
    with whole assms(3) show False by simp
  qed
  moreover have "jskip q = q" by (simp add: d jskip_front is_ws_def)
  ultimately show ?thesis by (simp add: loads_def)
qed

lemma strip_part: "(x = [] \<or> \<not> is_space (hd x)) \<Longrightarrow> \<exists>w. x = strip x @ w"
proof -
  assume "x = [] \<or> \<not> is_space (hd x)"
  then have "lstrip x = x" by (cases x) (auto simp: lstrip_def)
  then have "x = strip x @ rev (takeWhile is_space (rev x))"
    by (simp add: strip_def lstrip_def flip: rev_append)
  then show ?thesis by blast
qed

text \<open>What the clean-up makes of a part of a saved text is a part of what it makes of the whole.\<close>

lemma cleaned_part:
  assumes "json_ok (JObj kvs)" and "texts_ok (JObj kvs)" and "n < length (dumps (JObj kvs))"
  shows "\<exists>z. dump [] 0 (JObj kvs) = cleaned (take n (dumps (JObj kvs))) @ z \<and> z \<noteq> []"
proof -
  let ?D = "dumps (JObj kvs)"
  obtain s where D: "?D = CHR ''{'' # s @ ''}''"
  proof (cases "kvs = []")
    case True
    then show ?thesis using that [of "[]"] by (simp add: dumps_def)
  next
    case False
    then show ?thesis using that by (simp add: dumps_def line_start_def)
  qed
  have "take n ?D = [] \<or> \<not> is_space (hd (take n ?D))" by (cases n) (simp_all add: D is_space_def)
  then obtain w where w: "take n ?D = strip (take n ?D) @ w" using strip_part by blast
  have l: "drop n ?D \<noteq> []" "last (drop n ?D) = CHR ''}''" using assms(3) by (simp_all add: last_drop) (simp add: D)
  let ?z = "filter keep_char (w @ drop n ?D)"
  have "CHR ''}'' \<in> set (drop n ?D)" using l by (metis last_in_set)
  then have "CHR ''}'' \<in> set ?z" by (simp add: keep_char_def)
  then have z: "?z \<noteq> []" by (metis list.set_cases list.distinct(1))
  have "filter keep_char ?D = filter keep_char (strip (take n ?D)) @ ?z"
    using w by (metis append_assoc append_take_drop_id filter_append)
  then have d: "dump [] 0 (JObj kvs) = filter keep_char (strip (take n ?D)) @ ?z"
    unfolding dumps_def keep_dump [OF assms(1)] by (simp add: keep_char_def)
  have "no_comma_brace (filter keep_char (strip (take n ?D)))"
    using smooth_dump [OF assms(1,2), of 0] unfolding d smooth_def no_comma_brace_append by blast
  then have "cleaned (take n ?D) = filter keep_char (strip (take n ?D))"
    by (simp add: cleaned_def keep_char_def [abs_def] conj_commute drop_last_comma_id)
  with d z show ?thesis by metis
qed

text \<open>
  C38. Saving is not safe against an interruption.  A save that runs to its end writes the
  settings; if it is cut short anywhere before its last character, by a full disk or because the
  program is killed, then the next start reads the file without an exception as if there were
  no file at all: every setting has its default again, the saved ones before as well.
\<close>

theorem cut_save_loses_settings:
  assumes "config_of ds c" and "distinct (map fst ds)"
  shows "\<exists>content. typed_save_file Written old c = (None, Some content)
    \<and> (\<forall>n < length content. \<forall>now.
        typed_init (map (\<lambda>(k, d). (k, Some d)) ds) now (snd (typed_save_file (CutShort n) old c))
          = typed_init (map (\<lambda>(k, d). (k, Some d)) ds) now None)"
proof -
  define kvs where "kvs = concat (map (saved c) (map fst ds))"
  note s = typed_save_object(1) [OF assms, folded kvs_def] and ok = typed_save_object(2,3) [OF assms, folded kvs_def]
  have "\<exists>e. loads (cleaned (take n (dumps (JObj kvs)))) = Inl e" if "n < length (dumps (JObj kvs))" for n
    using cleaned_part [OF ok that] part_not_read [OF ok(1)] by blast
  then have "load_from_file now (Some (take n (dumps (JObj kvs)))) x = load_from_file now None x"
    if "n < length (dumps (JObj kvs))" for n now x
    using that by (fastforce simp: load_from_file_def Let_def)
  then show ?thesis by (simp add: typed_save_file_def s typed_init_def Let_def)
qed

text \<open>The host that was set is the default again after a save that stopped at the tenth character.\<close>

theorem cut_save_loses_settings_witness:
  "dget (tc_attrs (snd (typed_init [(''port'', Some (JInt 1080)), (''host'', Some (JStr ''::1''))] 5
     (snd (typed_save_file (CutShort 10) None config_ex))))) ''host'' = Some (JStr ''::1'')"
proof -
  let ?ds = "[(''port'', JInt 1080), (''host'', JStr ''::1'')]"
  have "config_of ?ds config_ex" by (simp add: config_of_def config_ex_def)
  from cut_save_loses_settings [OF this, of None] obtain content where
    c: "typed_save_file Written None config_ex = (None, Some content)" and
    n: "10 < length content \<Longrightarrow> typed_init [(''port'', Some (JInt 1080)), (''host'', Some (JStr ''::1''))] 5
      (snd (typed_save_file (CutShort 10) None config_ex)) = typed_init [(''port'', Some (JInt 1080)), (''host'', Some (JStr ''::1''))] 5 None"
    by auto
  have "length content = 19"
    using c by (auto simp: typed_save_file_def typed_save_def config_ex_def dumps_def line_start_def quote_def esc_def)
  then show ?thesis using n by (simp add: typed_init_def [of _ _ None] load_from_file_def Let_def)
qed

end
