(* ===== verification/Log_Buffer.thy ===== *)
theory Log_Buffer
  imports Prelude
begin

text \<open>
  lib/noarch/log_buffer.py, class \<^verbatim>\<open>BufferHandler\<close>: the ring of recent log lines that the web page
  polls.  A record arrives as the text that the formatter made of it.  The two queries give the
  dictionary that the code then writes as JSON.
\<close>

subsection \<open>Operations\<close>

record log_buffer =
  lb_buffer :: "(int, string) dict"
  lb_last_no :: int
  lb_size :: int

definition lb_init :: "int \<Rightarrow> log_buffer" where
  "lb_init n = \<lparr>lb_buffer = [], lb_last_no = 0, lb_size = n\<rparr>"

text \<open>A missing key raises \<^verbatim>\<open>KeyError\<close> in the deletion, which \<^verbatim>\<open>emit\<close> swallows.\<close>

definition lb_emit :: "string \<Rightarrow> log_buffer \<Rightarrow> log_buffer" where
  "lb_emit msg b =
     (if lb_size b = 0 then b
      else let n = lb_last_no b + 1;
               d = dset n (msg @ [CHR 0x0A]) (lb_buffer b);
               b1 = b\<lparr>lb_last_no := n, lb_buffer := d\<rparr>
           in if int (length d) > lb_size b
              then (if dmem (n - lb_size b) d then b1\<lparr>lb_buffer := ddel (n - lb_size b) d\<rparr> else b1)
              else b1)"

definition lines_from :: "int \<Rightarrow> log_buffer \<Rightarrow> (int, string) dict" where
  "lines_from a b = map (\<lambda>i. (i, dget_or (lb_buffer b) i '''')) [a..lb_last_no b]"

definition lb_get_last_lines :: "int \<Rightarrow> log_buffer \<Rightarrow> (int, string) dict" where
  "lb_get_last_lines max_lines b =
     (let buf_len = int (length (lb_buffer b))
      in if buf_len = 0 then []
         else lines_from (if buf_len > max_lines then lb_last_no b - max_lines else lb_last_no b - buf_len + 1) b)"

definition lb_get_new_lines :: "int \<Rightarrow> log_buffer \<Rightarrow> (int, string) dict" where
  "lb_get_new_lines from_no b =
     (if lb_buffer b = [] then []
      else let first_no = lb_last_no b - int (length (lb_buffer b)) + 1;
               from_no' = (if from_no < first_no then first_no else from_no)
           in if lb_last_no b \<ge> from_no' then lines_from from_no' b else [])"

definition lb_set_buffer_size :: "int \<Rightarrow> log_buffer \<Rightarrow> log_buffer" where
  "lb_set_buffer_size new b =
     (let buf_len = int (length (lb_buffer b))
      in if buf_len > new
         then b\<lparr>lb_size := new,
                lb_buffer := fold ddel [lb_last_no b - buf_len..lb_last_no b - new - 1] (lb_buffer b)\<rparr>
         else b\<lparr>lb_size := new\<rparr>)"

subsection \<open>The ring holds the last lines\<close>

text \<open>Lines under consecutive numbers, from \<open>i\<close> on.\<close>

fun numbered :: "int \<Rightarrow> 'a list \<Rightarrow> (int \<times> 'a) list" where
  "numbered i [] = []"
| "numbered i (x # xs) = (i, x) # numbered (i + 1) xs"

lemma length_numbered [simp]: "length (numbered i xs) = length xs"
  by (induction xs arbitrary: i) auto

lemma numbered_snoc: "numbered i (xs @ [x]) = numbered i xs @ [(i + int (length xs), x)]"
  by (induction xs arbitrary: i) (auto simp: algebra_simps)

lemma keys_numbered: "fst ` set (numbered i xs) = {i..<i + int (length xs)}"
  by (induction xs arbitrary: i) (auto simp: image_iff)

lemma get_numbered: "i \<le> j \<Longrightarrow> j < i + int (length xs) \<Longrightarrow> map_of (numbered i xs) j = Some (xs ! nat (j - i))"
proof (induction xs arbitrary: i)
  case (Cons x xs)
  show ?case
  proof (cases "j = i")
    case False
    with Cons.prems Cons.IH [of "i + 1"] have "map_of (numbered (i + 1) xs) j = Some (xs ! nat (j - (i + 1)))" by simp
    moreover have "nat (j - i) = Suc (nat (j - (i + 1)))" using False Cons.prems by linarith
    ultimately show ?thesis using False by simp
  qed simp
qed simp

text \<open>What the buffer looks like while it holds the lines \<open>ls\<close>, the last one under number \<open>n\<close>.\<close>

definition holds :: "string list \<Rightarrow> int \<Rightarrow> log_buffer \<Rightarrow> bool" where
  "holds ls n b \<longleftrightarrow> lb_last_no b = n \<and> lb_buffer b = numbered (n - int (length ls) + 1) ls"

definition keep_last :: "int \<Rightarrow> 'a list \<Rightarrow> 'a list" where
  "keep_last n xs = drop (length xs - nat n) xs"

lemma holds_emit:
  assumes "holds ls n b" "0 < lb_size b" "int (length ls) \<le> lb_size b"
  shows "holds (keep_last (lb_size b) (ls @ [msg @ [CHR 0x0A]])) (n + 1) (lb_emit msg b)"
proof -
  let ?k = "n - int (length ls) + 1" and ?m = "msg @ [CHR 0x0A]"
  have b: "lb_last_no b = n" "lb_buffer b = numbered ?k ls" using assms(1) by (simp_all add: holds_def)
  have s: "dset (n + 1) ?m (lb_buffer b) = numbered ?k (ls @ [?m])"
    by (simp add: b dset_fresh keys_numbered numbered_snoc)
  show ?thesis
  proof (cases "int (length ls) = lb_size b")
    case True
    with assms(2) obtain l ls' where ls: "ls = l # ls'" by (cases ls) auto
    have k: "?k = n + 1 - lb_size b" using True by simp
    have "dmem (n + 1 - lb_size b) (dset (n + 1) ?m (lb_buffer b))" unfolding s k using assms(2) True by (simp add: keys_numbered)
    moreover have "ddel (n + 1 - lb_size b) (dset (n + 1) ?m (lb_buffer b)) = numbered (n + 2 - lb_size b) (ls' @ [?m])"
      unfolding s k by (simp add: ls ddel_id keys_numbered algebra_simps)
    moreover have "int (length (dset (n + 1) ?m (lb_buffer b))) > lb_size b" unfolding s using True by simp
    moreover have "keep_last (lb_size b) (ls @ [?m]) = ls' @ [?m]"
    proof -
      have "nat (lb_size b) = Suc (length ls')" using True ls by simp
      then show ?thesis by (simp add: keep_last_def ls)
    qed
    moreover have "int (length (ls' @ [?m])) = lb_size b" using True by (simp add: ls)
    ultimately show ?thesis using assms(2)
      by (simp add: lb_emit_def b(1) holds_def Let_def algebra_simps del: dmem_iff)
  next
    case False
    with assms(3) have "int (length ls) + 1 \<le> lb_size b" by simp
    then have "keep_last (lb_size b) (ls @ [?m]) = ls @ [?m]" by (simp add: keep_last_def)
    with False assms s show ?thesis by (simp add: lb_emit_def b holds_def Let_def algebra_simps)
  qed
qed

lemma keep_last_snoc: "keep_last n (keep_last n xs @ [x]) = keep_last n (xs @ [x])"
proof -
  have "Suc (length xs) - (length xs - nat n + nat n) + (length xs - nat n) = Suc (length xs) - nat n" by arith
  then show ?thesis by (auto simp: keep_last_def)
qed

lemma length_keep_last: "0 \<le> n \<Longrightarrow> int (length (keep_last n xs)) \<le> n"
  by (auto simp: keep_last_def)

lemma lb_emit_size [simp]: "lb_size (lb_emit msg b) = lb_size b"
  by (simp add: lb_emit_def Let_def)

definition logged :: "int \<Rightarrow> string list \<Rightarrow> log_buffer" where
  "logged n msgs = fold lb_emit msgs (lb_init n)"

lemma logged_size [simp]: "lb_size (logged n msgs) = n"
  by (induction msgs rule: rev_induct) (simp_all add: logged_def lb_init_def)

definition log_lines :: "string list \<Rightarrow> string list" where
  "log_lines msgs = map (\<lambda>m. m @ [CHR 0x0A]) msgs"

lemma logged_holds:
  assumes "0 < n"
  shows "holds (keep_last n (log_lines msgs)) (int (length msgs)) (logged n msgs)"
proof (induction msgs rule: rev_induct)
  case Nil
  show ?case by (simp add: logged_def lb_init_def holds_def keep_last_def log_lines_def)
next
  case (snoc m msgs)
  have "holds (keep_last n (keep_last n (log_lines msgs) @ [m @ [CHR 0x0A]])) (int (length msgs) + 1) (lb_emit m (logged n msgs))"
    using holds_emit [OF snoc] assms length_keep_last [of n "log_lines msgs"] by simp
  then show ?case unfolding keep_last_snoc by (simp add: logged_def log_lines_def add.commute)
qed

text \<open>Reading a stretch of what is there.\<close>

lemma lines_from_holds:
  assumes "holds ls n b" "n - int (length ls) < a"
  shows "lines_from a b = numbered a (drop (nat (a - (n - int (length ls) + 1))) ls)"
  using assms(2)
proof (induction "nat (n + 1 - a)" arbitrary: a)
  case 0
  then have "n < a" by simp
  moreover have "lb_last_no b = n" using assms(1) by (simp add: holds_def)
  ultimately show ?case by (simp add: lines_from_def)
next
  case (Suc k)
  let ?j = "nat (a - (n - int (length ls) + 1))"
  have an: "a \<le> n" and b: "lb_last_no b = n" "lb_buffer b = numbered (n - int (length ls) + 1) ls"
    using Suc assms(1) by (simp_all add: holds_def)
  have j: "?j < length ls" "nat (a + 1 - (n - int (length ls) + 1)) = Suc ?j" using an Suc.prems by linarith+
  have "map_of (lb_buffer b) a = Some (ls ! ?j)" unfolding b using an Suc.prems by (intro get_numbered) simp_all
  then have "lines_from a b = (a, ls ! ?j) # lines_from (a + 1) b"
    using an by (simp add: lines_from_def b(1) dget_or_def upto.simps [of a n])
  also have "lines_from (a + 1) b = numbered (a + 1) (drop (Suc ?j) ls)"
    using Suc.hyps(1) [of "a + 1"] Suc.hyps(2) Suc.prems j(2) by simp
  also have "(a, ls ! ?j) # numbered (a + 1) (drop (Suc ?j) ls) = numbered a (drop ?j ls)"
    using Cons_nth_drop_Suc [OF j(1)] by (metis numbered.simps(2))
  finally show ?case .
qed

subsection \<open>What the queries give\<close>

lemma keep_last_all: "keep_last (int (length xs)) xs = xs" "k \<le> 0 \<Longrightarrow> keep_last k xs = []"
  by (simp_all add: keep_last_def)

lemma keep_last_keep_last: "keep_last k (keep_last n xs) = keep_last (min k n) xs"
proof -
  have r: "keep_last n xs = rev (take (nat n) (rev xs))" for n and xs :: "'a list"
    by (simp add: keep_last_def take_rev)
  have "min (nat k) (nat n) = nat (min k n)" by (simp add: min_def)
  then show ?thesis by (simp add: r take_take)
qed

lemma last_lines_holds:
  assumes "holds ls n b" "ls \<noteq> []"
  shows "lb_get_last_lines m b
    = (if int (length ls) > m then (if m < 0 then [] else numbered (n - m) (keep_last (m + 1) ls))
       else numbered (n - int (length ls) + 1) ls)"
proof -
  have b: "lb_last_no b = n" "length (lb_buffer b) = length ls" using assms(1) by (simp_all add: holds_def)
  show ?thesis
  proof (cases "int (length ls) > m")
    case True
    show ?thesis
    proof (cases "m < 0")
      case True
      then show ?thesis using b assms(2) by (simp add: lb_get_last_lines_def lines_from_def)
    next
      case False
      have "nat (n - m - (n - int (length ls) + 1)) = length ls - nat (m + 1)" using True False by linarith
      with lines_from_holds [OF assms(1), of "n - m"] True False b assms(2) show ?thesis
        by (simp add: lb_get_last_lines_def keep_last_def)
    qed
  next
    case False
    with lines_from_holds [OF assms(1), of "n - int (length ls) + 1"] b assms(2) show ?thesis
      by (simp add: lb_get_last_lines_def)
  qed
qed

lemma new_lines_holds:
  assumes "holds ls n b" "ls \<noteq> []" "a \<le> n + 1"
  shows "lb_get_new_lines a b = numbered (max a (n - int (length ls) + 1)) (keep_last (n + 1 - a) ls)"
proof -
  let ?first = "n - int (length ls) + 1"
  have b: "lb_last_no b = n" "length (lb_buffer b) = length ls" "lb_buffer b \<noteq> []"
    using assms(1,2) by (auto simp: holds_def dest: arg_cong [where f = length])
  have "nat (max a ?first - ?first) = length ls - nat (n + 1 - a)" using assms(2,3) by (cases ls) (auto simp: max_def)
  with lines_from_holds [OF assms(1), of "max a ?first"]
  have "lines_from (max a ?first) b = numbered (max a ?first) (keep_last (n + 1 - a) ls)" by (simp add: keep_last_def)
  moreover have "(if a < ?first then ?first else a) = max a ?first" by simp
  moreover have "keep_last (n + 1 - a) ls = []" if "n < max a ?first"
  proof -
    from that assms(2) have "n < a" by (cases ls) (auto simp: max_def split: if_splits)
    then show ?thesis by (simp add: keep_last_def)
  qed
  ultimately show ?thesis using b by (cases "max a ?first \<le> n") (simp_all add: lb_get_new_lines_def Let_def)
qed

lemma length_log_lines [simp]: "length (log_lines msgs) = length msgs"
  by (simp add: log_lines_def)

text \<open>
  A page that has seen the first \<open>k\<close> log lines and asks for what is new is given exactly the
  lines logged since, in order and under their numbers, as long as not more than the buffer
  holds were logged meanwhile; if more were, it is given the last ones that the buffer holds,
  still under their numbers.
\<close>

theorem new_lines_complete:
  assumes "0 < n" and "k < length msgs"
  shows "lb_get_new_lines (int k + 1) (logged n msgs)
    = (let missed = max k (length msgs - nat n) in numbered (int missed + 1) (drop missed (log_lines msgs)))"
proof -
  let ?m = "length msgs" and ?K = "keep_last n (log_lines msgs)"
  have h: "holds ?K (int ?m) (logged n msgs)" by (rule logged_holds [OF assms(1)])
  have l: "int (length ?K) = min (int ?m) n" using assms by (auto simp: keep_last_def)
  then have "?K \<noteq> []" using assms by auto
  from new_lines_holds [OF h this, of "int k + 1"] assms(2)
  have "lb_get_new_lines (int k + 1) (logged n msgs)
      = numbered (max (int k + 1) (int ?m - min (int ?m) n + 1)) (keep_last (int ?m - int k) ?K)"
    by (simp add: l)
  also have "max (int k + 1) (int ?m - min (int ?m) n + 1) = int (max k (?m - nat n)) + 1" using assms by (auto simp: max_def min_def)
  also have "keep_last (int ?m - int k) ?K = drop (max k (?m - nat n)) (log_lines msgs)"
  proof -
    have "?m - nat (min (int ?m - int k) n) = max k (?m - nat n)" using assms by (auto simp: max_def min_def)
    then show ?thesis unfolding keep_last_keep_last by (simp add: keep_last_def)
  qed
  finally show ?thesis by (simp only: Let_def)
qed

theorem new_lines_complete_witness:
  "lb_get_new_lines 2 (logged 2 [''a'', ''b'', ''c'']) = [(2, ''b'' @ [CHR 0x0A]), (3, ''c'' @ [CHR 0x0A])]"
  using new_lines_complete [of 2 1 "[''a'', ''b'', ''c'']"] by (simp add: log_lines_def)

text \<open>
  Asked for the last \<open>m\<close> lines the buffer gives one more, when it has more; and making the
  buffer smaller leaves one line too many, after which a line is lost in the middle.
\<close>

lemma last_lines_one_more:
  assumes "0 \<le> m" "m < n" "int (length msgs) > m"
  shows "length (lb_get_last_lines m (logged n msgs)) = nat m + 1"
proof -
  let ?K = "keep_last n (log_lines msgs)"
  have h: "holds ?K (int (length msgs)) (logged n msgs)" using assms by (intro logged_holds) simp
  have l: "int (length ?K) = min (int (length msgs)) n" using assms by (auto simp: keep_last_def)
  moreover from l have "?K \<noteq> []" using assms by auto
  moreover have "length (keep_last (m + 1) ?K) = nat m + 1" using assms l by (simp add: keep_last_def nat_add_distrib)
  ultimately show ?thesis using last_lines_holds [OF h, of m] assms by simp
qed

lemma smaller_buffer_loses_a_line:
  "map fst (lb_buffer (lb_emit ''x'' (lb_set_buffer_size 2 (logged 4 [''a'', ''b'', ''c'', ''d''])))) = [2, 4, 5]"
  by (simp add: logged_def lb_init_def lb_emit_def lb_set_buffer_size_def upto.simps)

end
