(* ===== verification/Ipv6_Pattern.thy ===== *)
theory Ipv6_Pattern
  imports Net_Text
begin

text \<open>
  The pattern for IPv6 addresses of lib/noarch/utils.py, with \<^verbatim>\<open>check_ip_valid6\<close> and
  \<^verbatim>\<open>check_ip_valid\<close>.

  A pattern is a \<open>re\<close>; \<open>ends r s i\<close> lists the positions of the text \<open>s\<close> at which a match of \<open>r\<close> that starts
  at position \<open>i\<close> can stop.  Python's matcher tries the alternatives one after the other; whether
  there is a match at all does not depend on that order.
\<close>

subsection \<open>Patterns\<close>

datatype re =
    Chars "char \<Rightarrow> bool"
  | Many "char \<Rightarrow> bool"
  | Upto nat "char \<Rightarrow> bool"
  | Empty
  | Then re re
  | Or re re
  | Times nat re
  | Ahead bool re
  | Behind bool string
  | AtEnd

text \<open>\<open>Ahead\<close> and \<open>Behind\<close> look at the text after and before the position; with \<open>False\<close> they demand that it does not match.\<close>

definition run_ends :: "string \<Rightarrow> nat \<Rightarrow> (char \<Rightarrow> bool) \<Rightarrow> nat list" where
  "run_ends s i P = map (\<lambda>k. i + k) [0..<Suc (length (takeWhile P (drop i s)))]"

definition ends_here :: "string \<Rightarrow> nat \<Rightarrow> string \<Rightarrow> bool" where
  "ends_here s i w \<longleftrightarrow> length w \<le> i \<and> take (length w) (drop (i - length w) s) = w"

primrec ends :: "re \<Rightarrow> string \<Rightarrow> nat \<Rightarrow> nat list" where
  "ends (Chars P) s i = (if i < length s \<and> P (s ! i) then [Suc i] else [])"
| "ends (Many P) s i = run_ends s i P"
| "ends (Upto n P) s i = filter (\<lambda>j. j \<le> i + n) (run_ends s i P)"
| "ends Empty s i = [i]"
| "ends (Then r q) s i = concat (map (ends q s) (ends r s i))"
| "ends (Or r q) s i = ends r s i @ ends q s i"
| "ends (Times n r) s i = ((\<lambda>is. remdups (concat (map (ends r s) is))) ^^ n) [i]"
| "ends (Ahead want r) s i = (if (ends r s i \<noteq> []) = want then [i] else [])"
| "ends (Behind want w) s i = (if ends_here s i w = want then [i] else [])"
| "ends AtEnd s i = (if i = length s \<or> (Suc i = length s \<and> s ! i = CHR 0x0A) then [i] else [])"

fun seq :: "re list \<Rightarrow> re" where
  "seq [] = Empty"
| "seq [r] = r"
| "seq (r # rs) = Then r (seq rs)"

subsection \<open>The pattern of the code\<close>

definition re_space :: "char \<Rightarrow> bool" where
  "re_space c \<longleftrightarrow> of_char c \<in> {0x09, 0x0A, 0x0B, 0x0C, 0x0D, 0x20 :: nat}"

definition hex_range :: "char \<Rightarrow> bool" where
  "hex_range c \<longleftrightarrow> is_digit c \<or> (0x61 \<le> (of_char c :: nat) \<and> (of_char c :: nat) \<le> 0x66)
     \<or> (0x41 \<le> (of_char c :: nat) \<and> (of_char c :: nat) \<le> 0x46)"

definition is_char :: "char \<Rightarrow> char \<Rightarrow> bool" where "is_char c d \<longleftrightarrow> d = c"

definition colon :: re where "colon = Chars (is_char CHR '':'')"

text \<open>A colon unless the position is behind a wildcard.\<close>

definition group_colon :: re where
  "group_colon = Or (Behind True ''::'') (Then (Behind False ''::'') colon)"

definition hex_group :: re where "hex_group = Upto 4 hex_range"

definition between :: "char \<Rightarrow> char \<Rightarrow> char \<Rightarrow> bool" where
  "between a b c \<longleftrightarrow> (of_char a :: nat) \<le> of_char c \<and> (of_char c :: nat) \<le> of_char b"

definition v4_part :: re where
  "v4_part = Or (seq [Chars (is_char CHR ''2''), Chars (is_char CHR ''5''), Chars (between CHR ''0'' CHR ''4'')])
     (Or (seq [Chars (is_char CHR ''2''), Chars (between CHR ''0'' CHR ''4''), Chars is_digit])
     (Or (seq [Chars (is_char CHR ''1''), Chars is_digit, Chars is_digit])
         (seq [Upto 1 (between CHR ''1'' CHR ''9''), Chars is_digit])))"

definition ipv6_pattern :: re where
  "ipv6_pattern = seq
     [Many re_space,
      Ahead False (seq [Many (\<lambda>c. True), colon, colon, Many (\<lambda>c. True), colon, colon]),
      Or (Ahead False colon) (Then colon (Ahead True colon)),
      Times 6 (Then hex_group group_colon),
      Or (seq [hex_group, group_colon, hex_group,
               Or (Behind True ''::'') (Or (Behind False '':'')
                 (seq [Behind True '':'', Behind False ''::'', colon]))])
         (Then v4_part (Times 3 (Then (Chars (is_char CHR ''.'')) v4_part))),
      Many re_space,
      AtEnd]"

definition check_ip_valid6 :: "string \<Rightarrow> bool" where
  "check_ip_valid6 ip \<longleftrightarrow> ends ipv6_pattern ip 0 \<noteq> []"

definition check_ip_valid :: "string \<Rightarrow> bool" where
  "check_ip_valid ip = (if CHR ''.'' \<in> set ip then check_ip_valid4 ip else check_ip_valid6 ip)"

lemma ipv6_examples:
  "check_ip_valid6 ''::1''" "check_ip_valid6 ''2001:db8:0:0:0:0:2:1''" "check_ip_valid6 ''::''"
  "\<not> check_ip_valid6 ''1::2::3''" "\<not> check_ip_valid6 ''1:2:3''" "check_ip_valid6 '' ::1 ''"
  "check_ip_valid6 ''1:2:3:4:5:6:1.2.3.4''" "\<not> check_ip_valid6 ''1:2:3:4:5:6:1.2.3.255''" "\<not> check_ip_valid ''::1.2.3.4''"
  by code_simp+

subsection \<open>The written form is accepted\<close>

lemma ends_Then: "k \<in> set (ends (Then r q) s i) \<longleftrightarrow> (\<exists>j \<in> set (ends r s i). k \<in> set (ends q s j))"
  by auto

lemma ends_Times_set: "set (((\<lambda>is. remdups (concat (map (ends r s) is))) ^^ n) xs)
    = (\<Union>x \<in> set xs. set (((\<lambda>is. remdups (concat (map (ends r s) is))) ^^ n) [x]))"
proof (induction n arbitrary: xs)
  case (Suc n)
  let ?F = "\<lambda>is. remdups (concat (map (ends r s) is))"
  have "set ((?F ^^ Suc n) ys) = (\<Union>y \<in> set ys. \<Union>x \<in> set (ends r s y). set ((?F ^^ n) [x]))" for ys
    unfolding funpow_Suc_right o_apply by (subst Suc.IH) auto
  then show ?case by simp
qed simp

lemma ends_Times_Suc: "k \<in> set (ends (Times (Suc n) r) s i) \<longleftrightarrow> (\<exists>j \<in> set (ends r s i). k \<in> set (ends (Times n r) s j))"
  unfolding ends.simps funpow_Suc_right o_apply by (subst ends_Times_set) simp

lemma run_ends_iff: "j \<in> set (run_ends s i P) \<longleftrightarrow> (\<exists>k \<le> length (takeWhile P (drop i s)). j = i + k)"
  unfolding run_ends_def set_map image_iff by (auto simp: less_Suc_eq_le Bex_def)

lemma takeWhile_front: "list_all P g \<Longrightarrow> length g \<le> length (takeWhile P (g @ b))"
  by (induction g) auto

lemma ends_group:
  "list_all hex_range g \<Longrightarrow> length g \<le> 4 \<Longrightarrow> length a + length g \<in> set (ends hex_group (a @ g @ b) (length a))"
  using takeWhile_front [of hex_range g b] by (auto simp: hex_group_def run_ends_iff)

lemma not_hex_colon [simp]: "\<not> hex_range CHR '':''"
  by (simp add: hex_range_def is_digit_def)

lemma behind_group:
  assumes "list_all hex_range g" "g \<noteq> []" "w \<noteq> []" "last w = CHR '':''"
  shows "\<not> ends_here (a @ g @ b) (length a + length g) w"
proof
  assume h: "ends_here (a @ g @ b) (length a + length g) w"
  let ?s = "a @ g @ b" and ?i = "length a + length g"
  have l: "length w \<le> ?i" "take (length w) (drop (?i - length w) ?s) = w" using h by (auto simp: ends_here_def)
  have w: "length w > 0" using assms(3) by simp
  have "w ! (length w - 1) = take (length w) (drop (?i - length w) ?s) ! (length w - 1)" using l(2) by simp
  also have "\<dots> = drop (?i - length w) ?s ! (length w - 1)" by (rule nth_take) (use w in simp)
  also have "\<dots> = ?s ! (?i - length w + (length w - 1))" by (rule nth_drop) (use l(1) in simp)
  also have "?i - length w + (length w - 1) = ?i - 1" using l(1) w by linarith
  also have "?s ! (?i - 1) = last g"
  proof -
    obtain g' c where "g = g' @ [c]" using assms(2) by (cases g rule: rev_cases) auto
    then show ?thesis by (simp add: nth_append)
  qed
  finally have "last g = CHR '':''" using assms(3,4) by (simp add: last_conv_nth)
  moreover have "hex_range (last g)" using assms(1,2) by (simp add: list_all_iff)
  ultimately show False by simp
qed

lemma ends_group_colon:
  assumes "list_all hex_range g" "g \<noteq> []" "length g \<le> 4"
  shows "length a + length g + 1 \<in> set (ends (Then hex_group group_colon) (a @ g @ CHR '':'' # b) (length a))"
proof -
  let ?s = "a @ g @ CHR '':'' # b"
  have "\<not> ends_here ?s (length a + length g) ''::''" by (rule behind_group [OF assms(1,2)]) simp_all
  then have "length a + length g + 1 \<in> set (ends group_colon ?s (length a + length g))"
    by (simp add: group_colon_def colon_def is_char_def nth_append)
  with ends_group [OF assms(1,3), of a "CHR '':'' # b"] show ?thesis unfolding ends_Then by blast
qed

definition hex_text :: "string \<Rightarrow> bool" where
  "hex_text g \<longleftrightarrow> list_all hex_range g \<and> g \<noteq> [] \<and> length g \<le> 4"

lemma ends_groups:
  "list_all hex_text gs \<Longrightarrow> length (a @ concat (map (\<lambda>g. g @ '':'') gs)) \<in>
     set (ends (Times (length gs) (Then hex_group group_colon)) (a @ concat (map (\<lambda>g. g @ '':'') gs) @ b) (length a))"
proof (induction gs arbitrary: a)
  case (Cons g gs)
  let ?s = "(a @ g @ '':'') @ concat (map (\<lambda>g. g @ '':'') gs) @ b"
  have 1: "length (a @ g @ '':'') \<in> set (ends (Then hex_group group_colon) ?s (length a))"
    using ends_group_colon [of g a "concat (map (\<lambda>g. g @ '':'') gs) @ b"] Cons.prems by (simp add: hex_text_def del: ends.simps)
  have 2: "length ((a @ g @ '':'') @ concat (map (\<lambda>g. g @ '':'') gs)) \<in> set (ends (Times (length gs) (Then hex_group group_colon)) ?s (length (a @ g @ '':'')))"
    using Cons.IH [of "a @ g @ '':''"] Cons.prems by (simp del: ends.simps)
  show ?case using 1 2 unfolding list.size(4) add.right_neutral add_Suc_right ends_Times_Suc by (auto simp del: ends.simps)
qed simp

lemma no_wildcard:
  assumes "\<And>j. Suc j < length s \<Longrightarrow> \<not> (s ! j = CHR '':'' \<and> s ! Suc j = CHR '':'')"
  shows "ends (seq [Many P, colon, colon, r, q, t]) s i = []"
proof -
  have "ends (seq [colon, colon, r, q, t]) s j = []" for j
    using assms [of j] by (auto simp: colon_def is_char_def)
  then show ?thesis by simp
qed

fun no_double :: "string \<Rightarrow> bool" where
  "no_double (c # d # s) = (\<not> (c = CHR '':'' \<and> d = CHR '':'') \<and> no_double (d # s))"
| "no_double s = True"

lemma no_double_nth: "no_double s \<Longrightarrow> Suc j < length s \<Longrightarrow> \<not> (s ! j = CHR '':'' \<and> s ! Suc j = CHR '':'')"
  by (induction s arbitrary: j rule: no_double.induct) (auto simp: nth_Cons' split: if_splits)

lemma no_double_plain: "CHR '':'' \<notin> set g \<Longrightarrow> no_double (g @ s) \<longleftrightarrow> no_double s"
proof (induction g)
  case (Cons c g)
  then show ?case by (cases "g @ s") auto
qed simp

lemma hex_text_plain: "hex_text g \<Longrightarrow> CHR '':'' \<notin> set g"
  using not_hex_colon by (auto simp: hex_text_def list_all_iff)

lemma hex_no_dot: "hex_text g \<Longrightarrow> CHR ''.'' \<notin> set g"
  by (auto simp: hex_text_def list_all_iff hex_range_def is_digit_def)

definition grouped :: "string list \<Rightarrow> string" where
  "grouped gs = concat (map (\<lambda>g. g @ '':'') gs)"

lemma no_double_groups:
  "list_all hex_text gs \<Longrightarrow> CHR '':'' \<notin> set t \<Longrightarrow> t \<noteq> [] \<Longrightarrow> no_double (grouped gs @ t)"
proof (induction gs)
  case Nil
  then show ?case using no_double_plain [of t "[]"] by (simp add: grouped_def)
next
  case (Cons h gs)
  have "\<exists>c r. grouped gs @ t = c # r \<and> c \<noteq> CHR '':''"
  proof (cases gs)
    case Nil
    with Cons.prems show ?thesis by (cases t) (auto simp: grouped_def)
  next
    case (Cons h' gs')
    with Cons.prems have "hex_text h'" by simp
    then show ?thesis using hex_text_plain [of h'] by (cases h') (auto simp: grouped_def Cons hex_text_def)
  qed
  then obtain c r where r: "grouped gs @ t = c # r" "c \<noteq> CHR '':''" by blast
  have "no_double (h @ CHR '':'' # grouped gs @ t) \<longleftrightarrow> no_double (CHR '':'' # grouped gs @ t)"
    using Cons.prems(1) by (intro no_double_plain) (simp add: hex_text_plain)
  also have "\<dots> \<longleftrightarrow> no_double (grouped gs @ t)" using r by simp
  finally show ?case using Cons by (simp add: grouped_def)
qed

lemma join_grouped: "t \<noteq> [] \<Longrightarrow> join '':'' (gs @ [t]) = grouped gs @ t"
proof (induction gs)
  case (Cons g gs)
  then show ?case by (cases "gs @ [t]") (auto simp: grouped_def)
qed (simp add: grouped_def)

lemma ends_blank: "list_all re_space w \<Longrightarrow> length a + length w \<in> set (ends (Many re_space) (a @ w @ b) (length a))"
  using takeWhile_front [of re_space w b] by (auto simp: run_ends_iff)

lemma ends_seq: "j \<in> set (ends r s i) \<Longrightarrow> k \<in> set (ends (seq (q # rs)) s j) \<Longrightarrow> k \<in> set (ends (seq (r # q # rs)) s i)"
  by auto

lemma last_groups:
  assumes "hex_text g" "hex_text h"
  shows "length (a @ g @ '':'' @ h) \<in> set (ends (seq [hex_group, group_colon, hex_group,
           Or (Behind True ''::'') (Or (Behind False '':'') (seq [Behind True '':'', Behind False ''::'', colon]))])
         (a @ g @ '':'' @ h @ b) (length a))"
proof -
  let ?s = "a @ g @ '':'' @ h @ b" and ?e = "Or (Behind True ''::'') (Or (Behind False '':'') (seq [Behind True '':'', Behind False ''::'', colon]))"
  have 1: "length (a @ g @ '':'') \<in> set (ends (Then hex_group group_colon) ?s (length a))"
    using ends_group_colon [of g a "h @ b"] assms(1) by (simp add: hex_text_def del: ends.simps)
  have 2: "length ((a @ g @ '':'') @ h) \<in> set (ends hex_group ?s (length (a @ g @ '':'')))"
    using ends_group [of h "a @ g @ '':''" b] assms(2) by (simp add: hex_text_def add.assoc del: ends.simps)
  have "\<not> ends_here ?s (length (a @ g @ '':'') + length h) '':''"
    using behind_group [of h "'':''" "a @ g @ '':''" b] assms(2) by (simp add: hex_text_def)
  then have 3: "length ((a @ g @ '':'') @ h) \<in> set (ends ?e ?s (length ((a @ g @ '':'') @ h)))" by (simp add: add.assoc)
  from 1 2 3 show ?thesis unfolding seq.simps ends_Then by force
qed

text \<open>
  An address written as eight groups of one to four hexadecimal digits, in either case, is
  accepted, and so it is with white space in front of it or behind it.
\<close>

theorem full_address_valid:
  assumes "length gs = 6" "list_all hex_text gs" "hex_text g" "hex_text h" "list_all re_space w" "list_all re_space w'"
  shows "check_ip_valid (w @ join '':'' (gs @ [g, h]) @ w')"
proof -
  have j: "join '':'' (gs @ [g, h]) = grouped gs @ g @ '':'' @ h"
    using join_grouped [of h "gs @ [g]"] assms(4) by (simp add: grouped_def hex_text_def)
  let ?s = "w @ grouped gs @ g @ '':'' @ h @ w'"
  have blank: "CHR '':'' \<notin> set v" "CHR ''.'' \<notin> set v" if "list_all re_space v" for v
    using that by (auto simp: list_all_iff re_space_def)
  have hw: "CHR '':'' \<notin> set (h @ w')" "h @ w' \<noteq> []" using hex_text_plain [OF assms(4)] blank(1) [OF assms(6)] assms(4) by (auto simp: hex_text_def)
  have "no_double (grouped (gs @ [g]) @ h @ w')" by (rule no_double_groups) (use assms(2,3) hw in simp_all)
  then have nd: "no_double ?s" using no_double_plain [OF blank(1) [OF assms(5)]] by (simp add: grouped_def)
  have m1: "length w \<in> set (ends (Many re_space) ?s 0)" using ends_blank [OF assms(5), of "[]"] by simp
  have m2: "length w \<in> set (ends (Ahead False (seq [Many (\<lambda>c. True), colon, colon, Many (\<lambda>c. True), colon, colon])) ?s (length w))"
  proof -
    have "ends (seq [Many (\<lambda>c. True), colon, colon, Many (\<lambda>c. True), colon, colon]) ?s (length w) = []"
      by (rule no_wildcard) (rule no_double_nth [OF nd])
    then show ?thesis by (simp only: ends.simps) simp
  qed
  have m3: "length w \<in> set (ends (Or (Ahead False colon) (Then colon (Ahead True colon))) ?s (length w))"
  proof -
    obtain g0 gs' where g0: "gs = g0 # gs'" using assms(1) by (cases gs) auto
    then obtain c r where c: "g0 = c # r" "hex_range c" using assms(2) by (cases g0) (auto simp: hex_text_def)
    then have "?s ! length w \<noteq> CHR '':''" by (auto simp: g0 grouped_def nth_append)
    then have "ends colon ?s (length w) = []" by (simp add: colon_def is_char_def)
    then show ?thesis by (simp only: ends.simps) simp
  qed
  have m4: "length (w @ grouped gs) \<in> set (ends (Times 6 (Then hex_group group_colon)) ?s (length w))"
    using ends_groups [OF assms(2), of w "g @ '':'' @ h @ w'"] assms(1) unfolding grouped_def by (simp only: append_assoc)
  have m5: "length (w @ grouped gs @ g @ '':'' @ h) \<in> set (ends (seq [hex_group, group_colon, hex_group,
           Or (Behind True ''::'') (Or (Behind False '':'') (seq [Behind True '':'', Behind False ''::'', colon]))]) ?s (length (w @ grouped gs)))"
    using last_groups [OF assms(3,4), of "w @ grouped gs" w'] by (simp only: append_assoc)
  then have m5': "length (w @ grouped gs @ g @ '':'' @ h) \<in> set (ends (Or (seq [hex_group, group_colon, hex_group,
           Or (Behind True ''::'') (Or (Behind False '':'') (seq [Behind True '':'', Behind False ''::'', colon]))])
         (Then v4_part (Times 3 (Then (Chars (is_char CHR ''.'')) v4_part)))) ?s (length (w @ grouped gs)))"
    by (simp only: ends.simps set_append Un_iff simp_thms)
  have m6: "length ?s \<in> set (ends (Many re_space) ?s (length (w @ grouped gs @ g @ '':'' @ h)))"
    using ends_blank [OF assms(6), of "w @ grouped gs @ g @ '':'' @ h" "[]"] by (simp only: append_assoc append_Nil2 length_append add.assoc)
  have m7: "length ?s \<in> set (ends AtEnd ?s (length ?s))" by simp
  have "length ?s \<in> set (ends ipv6_pattern ?s 0)"
    unfolding ipv6_pattern_def
    by (rule ends_seq [OF m1], rule ends_seq [OF m2], rule ends_seq [OF m3], rule ends_seq [OF m4],
        rule ends_seq [OF m5'], rule ends_seq [OF m6]) (use m7 in \<open>simp only: seq.simps\<close>)
  then have "check_ip_valid6 ?s" unfolding check_ip_valid6_def by fastforce
  moreover have "CHR ''.'' \<notin> set ?s"
    using blank(2) [OF assms(5)] blank(2) [OF assms(6)] assms(2) hex_no_dot [OF assms(3)] hex_no_dot [OF assms(4)]
    by (auto simp: grouped_def list_all_iff dest: hex_no_dot)
  ultimately show ?thesis unfolding j by (simp add: check_ip_valid_def)
qed

lemma full_address_valid_witness:
  "check_ip_valid ''2001:0db8:0:0:0:0:2:1''"
  using full_address_valid [of "[''2001'', ''0db8'', ''0'', ''0'', ''0'', ''0'']" "''2''" "''1''" "[]" "[]"]
  by (simp add: hex_text_def hex_range_def is_digit_def)

subsection \<open>Addresses without a port\<close>

definition plain_ip :: "string \<Rightarrow> bool" where
  "plain_ip ip \<longleftrightarrow> CHR ''['' \<notin> set ip \<and> CHR '']'' \<notin> set ip \<and> (CHR ''.'' \<in> set ip) \<noteq> (CHR '':'' \<in> set ip)"

lemma host_part_ip_str: "plain_ip ip \<Longrightarrow> 0 \<le> p \<Longrightarrow> get_ip_port (get_ip_str ip p) ''443'' = Inr (ip, p)"
  using host_port_roundtrip [of ip "nat p" "''443''"] by (simp add: plain_ip_def)

end
