(* ===== verification/Link_Pool.thy ===== *)
theory Link_Pool
  imports Prelude "HOL-Library.Multiset"
begin

text \<open>
  What the address managers of the fronts promise to the connection manager: a place is handed
  out only while it has fewer links than the limit, every report of a failed or closed connection gives
  one link back, and nothing else changes a count.

  \<open>link_run\<close> drives a manager: requests for a place, reports about connections that are open, and
  anything else that may happen.  The multiset holds the places of the open connections.
\<close>

datatype ('e, 'k, 'g, 'n) link_event = Take 'e | Give 'k 'g | Note 'n

fun link_step :: "('e \<Rightarrow> 's \<Rightarrow> 'k option \<times> 's) \<Rightarrow> ('k \<Rightarrow> 'g \<Rightarrow> 's \<Rightarrow> 's) \<Rightarrow> ('n \<Rightarrow> 's \<Rightarrow> 's)
    \<Rightarrow> ('e, 'k, 'g, 'n) link_event \<Rightarrow> 's \<times> 'k multiset \<Rightarrow> 's \<times> 'k multiset" where
  "link_step tk gv nt (Take e) (s, m) = (case tk e s of (None, s') \<Rightarrow> (s', m) | (Some k, s') \<Rightarrow> (s', add_mset k m))"
| "link_step tk gv nt (Give k g) (s, m) = (if k \<in># m then (gv k g s, m - {#k#}) else (s, m))"
| "link_step tk gv nt (Note n) (s, m) = (nt n s, m)"

definition link_run :: "('e \<Rightarrow> 's \<Rightarrow> 'k option \<times> 's) \<Rightarrow> ('k \<Rightarrow> 'g \<Rightarrow> 's \<Rightarrow> 's) \<Rightarrow> ('n \<Rightarrow> 's \<Rightarrow> 's)
    \<Rightarrow> ('e, 'k, 'g, 'n) link_event list \<Rightarrow> 's \<Rightarrow> 's \<times> 'k multiset" where
  "link_run tk gv nt evs s = fold (link_step tk gv nt) evs (s, {#})"

locale link_pool =
  fixes pool_ok :: "'s \<Rightarrow> bool" and key_ok :: "'k \<Rightarrow> bool"
    and env_ok :: "'e \<Rightarrow> bool" and note_ok :: "'n \<Rightarrow> bool"
    and count_of :: "'s \<Rightarrow> 'k \<Rightarrow> int" and cap :: int
    and tk :: "'e \<Rightarrow> 's \<Rightarrow> 'k option \<times> 's" and gv :: "'k \<Rightarrow> 'g \<Rightarrow> 's \<Rightarrow> 's" and nt :: "'n \<Rightarrow> 's \<Rightarrow> 's"
  assumes take_none: "pool_ok s \<Longrightarrow> env_ok e \<Longrightarrow> (\<And>k. 0 \<le> count_of s k) \<Longrightarrow> tk e s = (None, s')
      \<Longrightarrow> pool_ok s' \<and> count_of s' j = count_of s j"
    and take_some: "pool_ok s \<Longrightarrow> env_ok e \<Longrightarrow> (\<And>k. 0 \<le> count_of s k) \<Longrightarrow> tk e s = (Some k, s')
      \<Longrightarrow> pool_ok s' \<and> key_ok k \<and> count_of s k < cap \<and> count_of s' j = count_of s j + (if j = k then 1 else 0)"
    and give_back: "pool_ok s \<Longrightarrow> key_ok k \<Longrightarrow> 0 < count_of s k
      \<Longrightarrow> pool_ok (gv k g s) \<and> count_of (gv k g s) j = count_of s j - (if j = k then 1 else 0)"
    and note_keeps: "pool_ok s \<Longrightarrow> note_ok n \<Longrightarrow> pool_ok (nt n s) \<and> count_of (nt n s) j = count_of s j"
begin

definition event_ok :: "('e, 'k, 'g, 'n) link_event \<Rightarrow> bool" where
  "event_ok ev = (case ev of Take e \<Rightarrow> env_ok e | Give k g \<Rightarrow> True | Note n \<Rightarrow> note_ok n)"

definition accounted :: "'s \<times> 'k multiset \<Rightarrow> bool" where
  "accounted sm \<longleftrightarrow> pool_ok (fst sm) \<and> (\<forall>k \<in># snd sm. key_ok k)
     \<and> (\<forall>k. count_of (fst sm) k = int (count (snd sm) k) \<and> int (count (snd sm) k) \<le> max 0 cap)"

lemma step_accounted:
  assumes "accounted sm" "event_ok ev"
  shows "accounted (link_step tk gv nt ev sm)"
proof -
  obtain s m where sm: "sm = (s, m)" by (cases sm)
  have a: "pool_ok s" "\<And>k. k \<in># m \<Longrightarrow> key_ok k" "\<And>k. count_of s k = int (count m k)" "\<And>k. int (count m k) \<le> max 0 cap"
    using assms(1) by (auto simp: accounted_def sm)
  have pos: "\<And>k. 0 \<le> count_of s k" by (simp add: a(3))
  show ?thesis
  proof (cases ev)
    case (Take e)
    with assms(2) have e: "env_ok e" by (simp add: event_ok_def)
    obtain k s' where t: "tk e s = (k, s')" by (cases "tk e s")
    show ?thesis
    proof (cases k)
      case None
      then have "pool_ok s'" "count_of s' j = count_of s j" for j using take_none [OF a(1) e pos, of s'] t by auto
      with a t None show ?thesis by (simp add: Take sm accounted_def)
    next
      case (Some i)
      then have "pool_ok s'" "key_ok i" "count_of s i < cap" "count_of s' j = count_of s j + (if j = i then 1 else 0)" for j
        using take_some [OF a(1) e pos, of i s'] t by auto
      with a t Some show ?thesis by (auto simp: Take sm accounted_def)
    qed
  next
    case (Give k g)
    show ?thesis
    proof (cases "k \<in># m")
      case True
      then have "0 < count_of s k" by (simp add: a(3))
      note g = give_back [OF a(1) a(2) [OF True] this, of g]
      have "count m k \<noteq> 0" using True by simp
      then have c: "int (count (m - {#k#}) j) = int (count m j) - (if j = k then 1 else 0)" for j by auto
      moreover have "int (count (m - {#k#}) j) \<le> max 0 cap" for j unfolding c using a(4) [of j] by (cases "j = k") simp_all
      moreover have "\<forall>i \<in># m - {#k#}. key_ok i" using a(2) by (auto dest: in_diffD)
      ultimately show ?thesis using g True a(3) by (simp add: Give sm accounted_def)
    qed (use assms(1) in \<open>simp add: Give sm\<close>)
  next
    case (Note n)
    with assms(2) have "note_ok n" by (simp add: event_ok_def)
    from note_keeps [OF a(1) this] a show ?thesis by (simp add: Note sm accounted_def)
  qed
qed

text \<open>Starting without links, the counts are at every moment the numbers of open connections, and none exceeds the limit.\<close>

lemma run_accounted:
  assumes "pool_ok s" "\<And>k. count_of s k = 0" "\<And>ev. ev \<in> set evs \<Longrightarrow> event_ok ev"
  shows "accounted (link_run tk gv nt evs s)"
proof -
  have "accounted sm \<Longrightarrow> \<forall>ev \<in> set evs'. event_ok ev \<Longrightarrow> accounted (fold (link_step tk gv nt) evs' sm)" for evs' sm
    by (induction evs' arbitrary: sm) (simp_all add: step_accounted)
  moreover have "accounted (s, {#})" using assms(1,2) by (simp add: accounted_def)
  ultimately show ?thesis using assms(3) by (simp add: link_run_def)
qed

end

end
