(* ===== verification/Relay_Front.thy ===== *)
theory Relay_Front
  imports Ip_Manager Ipv6_Pattern Link_Pool
begin

text \<open>
  x_tunnel/local/tls_relay_front: the hosts that the account server names (host_manager.py) and
  the address manager that shares the links out over them (ip_manager.py).

  The host file is its parsed content; a port is a number.  The address manager keeps a record
  for each address; the speed of an address is asked of \<^verbatim>\<open>IpManagerBase\<close>.
\<close>

subsection \<open>Hosts\<close>

record relay_host =
  rh_sni :: "string option"
  rh_url_path :: "string option"
  rh_port :: "int option"

type_synonym host_info = "(string, relay_host) dict"

record host_manager =
  hm_info :: host_info
  hm_file :: "host_info option"

definition hosts_load :: "host_manager \<Rightarrow> host_manager" where
  "hosts_load h = (case hm_file h of None \<Rightarrow> h | Some f \<Rightarrow> h\<lparr>hm_info := f\<rparr>)"

definition hosts_init :: "host_info option \<Rightarrow> host_manager" where
  "hosts_init f = hosts_load \<lparr>hm_info = [], hm_file = f\<rparr>"

definition hosts_save :: "host_manager \<Rightarrow> host_manager" where
  "hosts_save h = h\<lparr>hm_file := Some (hm_info h)\<rparr>"

definition set_host :: "host_info \<Rightarrow> host_manager \<Rightarrow> host_manager" where
  "set_host i h = hosts_save (h\<lparr>hm_info := i\<rparr>)"

definition host_ips :: "host_manager \<Rightarrow> string list" where
  "host_ips h = dkeys (hm_info h)"

definition get_sni_host :: "string \<Rightarrow> host_manager \<Rightarrow> exn + (string \<times> string)" where
  "get_sni_host ip h = (case dget (hm_info h) ip of
      None \<Rightarrow> Inr ([], [])
    | Some i \<Rightarrow> (case rh_sni i of None \<Rightarrow> Inl KeyError | Some sni \<Rightarrow> Inr (sni, [])))"

definition host_of_ip_str :: "string \<Rightarrow> host_manager \<Rightarrow> exn + relay_host" where
  "host_of_ip_str ip_str h = (case get_ip_port ip_str ''443'' of
      Inl e \<Rightarrow> Inl e
    | Inr (ip, _) \<Rightarrow> (case dget (hm_info h) ip of None \<Rightarrow> Inl (PyException ''Exception'') | Some i \<Rightarrow> Inr i))"

definition hosts_reset :: "host_manager \<Rightarrow> host_manager" where
  "hosts_reset h = h\<lparr>hm_info := []\<rparr>"

text \<open>The account server's list; an entry without one of its three required members raises.\<close>

record relay_entry =
  re_sni :: "string option"
  re_url_path :: "string option"
  re_port :: "int option"
  re_ipv6 :: "string option"

fun relay_hosts_of :: "(string \<times> relay_entry) list \<Rightarrow> host_info \<Rightarrow> exn + host_info" where
  "relay_hosts_of [] i = Inr i"
| "relay_hosts_of ((ip, e) # es) i = (case (re_sni e, re_url_path e) of
      (Some sni, Some path) \<Rightarrow>
        (let h = \<lparr>rh_sni = Some sni, rh_url_path = Some path, rh_port = Some (case re_port e of None \<Rightarrow> 443 | Some p \<Rightarrow> p)\<rparr>;
             i' = dset ip h i
         in case re_ipv6 e of
              None \<Rightarrow> Inl KeyError
            | Some v6 \<Rightarrow> relay_hosts_of es (if v6 \<noteq> [] then dset v6 h i' else i'))
    | _ \<Rightarrow> Inl KeyError)"

definition relay_set_ips :: "bool \<Rightarrow> (string \<times> relay_entry) list \<Rightarrow> host_manager \<Rightarrow> exn + host_manager" where
  "relay_set_ips allow_set_ips ips h =
     (if \<not> allow_set_ips then Inr h
      else case relay_hosts_of ips [] of Inl e \<Rightarrow> Inl e | Inr i \<Rightarrow> Inr (set_host i h))"

subsection \<open>Addresses\<close>

record relay_ip =
  r_ip :: string
  r_fail_times :: int
  r_links :: int
  r_rtt :: real
  r_last_try :: time

record relay_ips =
  rl_base :: ip_base
  rl_hosts :: host_manager
  rl_dict :: "(string, relay_ip) dict"

definition relay_init :: "ip_base \<Rightarrow> host_manager \<Rightarrow> relay_ips" where
  "relay_init b h = \<lparr>rl_base = b, rl_hosts = h, rl_dict = []\<rparr>"

definition relay_info :: "string \<Rightarrow> relay_ips \<Rightarrow> relay_ip \<times> relay_ips" where
  "relay_info ip s = (case dget (rl_dict s) ip of
      Some i \<Rightarrow> (i, s)
    | None \<Rightarrow> (let i = \<lparr>r_ip = ip, r_fail_times = 0, r_links = 0, r_rtt = 1000, r_last_try = 0\<rparr>
              in (i, s\<lparr>rl_dict := dset ip i (rl_dict s)\<rparr>)))"

definition relay_put :: "string \<Rightarrow> relay_ip \<Rightarrow> relay_ips \<Rightarrow> relay_ips" where
  "relay_put ip i s = s\<lparr>rl_dict := dset ip i (rl_dict s)\<rparr>"

definition relay_port :: "relay_host \<Rightarrow> int" where
  "relay_port h = (case rh_port h of None \<Rightarrow> 443 | Some p \<Rightarrow> p)"

fun relay_scan :: "int \<Rightarrow> time \<Rightarrow> (string \<times> relay_host) list \<Rightarrow> string option \<times> real \<Rightarrow> relay_ips \<Rightarrow> (string option \<times> real) \<times> relay_ips" where
  "relay_scan max_links now [] best s = (best, s)"
| "relay_scan max_links now ((ip, h) # hs) best s =
     (if rh_sni h = None then relay_scan max_links now hs best s
      else let ip_str = get_ip_str ip (relay_port h);
               (i0, s0) = relay_info ip s;
               (i, s1) = (if r_links i0 < 0 then (i0\<lparr>r_links := 0\<rparr>, relay_put ip (i0\<lparr>r_links := 0\<rparr>) s0) else (i0, s0))
           in if r_links i \<ge> max_links then relay_scan max_links now hs best s1
              else if r_fail_times i \<noteq> 0 \<and> now - r_last_try i < 60 then relay_scan max_links now hs best s1
              else let ((speed, rtt), b) = get_speed ip_str (rl_base s1); s2 = s1\<lparr>rl_base := b\<rparr>
                   in relay_scan max_links now hs (if speed > snd best then (Some ip, speed) else best) s2)"

definition relay_get :: "int \<Rightarrow> time \<Rightarrow> relay_ips \<Rightarrow> string option \<times> relay_ips" where
  "relay_get max_links now s =
     (case relay_scan max_links now (hm_info (rl_hosts s)) (None, 0) s of
        ((None, _), s1) \<Rightarrow> (None, s1)
      | ((Some ip, _), s1) \<Rightarrow>
          let (i, s2) = relay_info ip s1
          in (Some (get_ip_str (r_ip i) (relay_port (the (dget (hm_info (rl_hosts s2)) (r_ip i))))),
              relay_put ip (i\<lparr>r_links := r_links i + 1, r_last_try := now\<rparr>) s2))"

definition on_relay_ip :: "string \<Rightarrow> (relay_ip \<Rightarrow> relay_ip) \<Rightarrow> relay_ips \<Rightarrow> exn + relay_ips" where
  "on_relay_ip ip_str f s = (case get_ip_port ip_str ''443'' of
      Inl e \<Rightarrow> Inl e
    | Inr (ip, _) \<Rightarrow> let (i, s') = relay_info ip s in Inr (relay_put ip (f i) s'))"

definition relay_update_ip :: "string \<Rightarrow> real \<Rightarrow> relay_ips \<Rightarrow> exn + relay_ips" where
  "relay_update_ip ip_str handshake =
     on_relay_ip ip_str (\<lambda>i. i\<lparr>r_fail_times := 0, r_rtt := handshake, r_last_try := 0\<rparr>)"

definition link_less :: "relay_ip \<Rightarrow> relay_ip" where
  "link_less i = (if r_links i \<le> 0 then i else i\<lparr>r_links := r_links i - 1\<rparr>)"

definition relay_connect_fail :: "string \<Rightarrow> relay_ips \<Rightarrow> exn + relay_ips" where
  "relay_connect_fail ip_str = on_relay_ip ip_str (\<lambda>i. link_less (i\<lparr>r_fail_times := r_fail_times i + 1\<rparr>))"

definition relay_bad_response :: "time \<Rightarrow> string \<Rightarrow> relay_ips \<Rightarrow> exn + relay_ips" where
  "relay_bad_response now ip_str =
     on_relay_ip ip_str (\<lambda>i. i\<lparr>r_fail_times := r_fail_times i + 1, r_last_try := now\<rparr>)"

definition relay_connect_closed :: "string \<Rightarrow> relay_ips \<Rightarrow> relay_ips" where
  "relay_connect_closed ip_str s = (case on_relay_ip ip_str link_less s of Inl _ \<Rightarrow> s | Inr s' \<Rightarrow> s')"

subsection \<open>Links\<close>

definition host_ok :: "string \<times> relay_host \<Rightarrow> bool" where
  "host_ok e \<longleftrightarrow> plain_ip (fst e) \<and> 0 \<le> relay_port (snd e)"

definition relay_links :: "relay_ips \<Rightarrow> string \<Rightarrow> int" where
  "relay_links s ip = (case dget (rl_dict s) ip of None \<Rightarrow> 0 | Some i \<Rightarrow> r_links i)"

definition relay_ok :: "relay_ips \<Rightarrow> bool" where
  "relay_ok s \<longleftrightarrow> (\<forall>ip i. dget (rl_dict s) ip = Some i \<longrightarrow> r_ip i = ip)
     \<and> list_all host_ok (hm_info (rl_hosts s)) \<and> (\<forall>f. hm_file (rl_hosts s) = Some f \<longrightarrow> list_all host_ok f)"

text \<open>The steps of the pool as the connection manager and the account server cause them.\<close>

definition host_part :: "string \<Rightarrow> string" where
  "host_part ip_str = (case get_ip_port ip_str ''443'' of Inl _ \<Rightarrow> [] | Inr (ip, _) \<Rightarrow> ip)"

definition relay_take :: "int \<Rightarrow> time \<Rightarrow> relay_ips \<Rightarrow> string option \<times> relay_ips" where
  "relay_take max_links now s = (case relay_get max_links now s of (a, s') \<Rightarrow> (map_option host_part a, s'))"

definition or_same :: "'s \<Rightarrow> exn + 's \<Rightarrow> 's" where
  "or_same s r = (case r of Inl _ \<Rightarrow> s | Inr s' \<Rightarrow> s')"

definition relay_give :: "string \<Rightarrow> bool \<times> nat \<Rightarrow> relay_ips \<Rightarrow> relay_ips" where
  "relay_give ip g s = (let ip_str = get_ip_str ip (int (snd g))
     in if fst g then relay_connect_closed ip_str s else or_same s (relay_connect_fail ip_str s))"

datatype relay_note =
    Connected string real
  | BadStatus time string
  | NewHosts host_info
  | Reload
  | Reset

definition relay_note :: "relay_note \<Rightarrow> relay_ips \<Rightarrow> relay_ips" where
  "relay_note n s = (case n of
      Connected a t \<Rightarrow> or_same s (relay_update_ip a t s)
    | BadStatus now a \<Rightarrow> or_same s (relay_bad_response now a s)
    | NewHosts i \<Rightarrow> s\<lparr>rl_hosts := set_host i (rl_hosts s)\<rparr>
    | Reload \<Rightarrow> s\<lparr>rl_hosts := hosts_load (rl_hosts s)\<rparr>
    | Reset \<Rightarrow> s\<lparr>rl_hosts := hosts_reset (rl_hosts s)\<rparr>)"

definition relay_note_ok :: "relay_note \<Rightarrow> bool" where
  "relay_note_ok n \<longleftrightarrow> (\<forall>i. n = NewHosts i \<longrightarrow> list_all host_ok i)"

lemma relay_info_spec:
  assumes "relay_ok s" "relay_info ip s = (i, s')"
  shows "r_ip i = ip" "r_links i = relay_links s ip" "relay_links s' j = relay_links s j" "relay_ok s'" "rl_hosts s' = rl_hosts s"
  using assms by (auto simp: relay_info_def relay_links_def relay_ok_def Let_def split: option.splits if_splits)

lemma relay_put_spec:
  assumes "relay_ok s" "r_ip i = ip"
  shows "relay_links (relay_put ip i s) j = (if j = ip then r_links i else relay_links s j)"
    "relay_ok (relay_put ip i s)" "rl_hosts (relay_put ip i s) = rl_hosts s"
  using assms by (auto simp: relay_put_def relay_links_def relay_ok_def)

lemma relay_base_same [simp]: "relay_links (s\<lparr>rl_base := b\<rparr>) = relay_links s" "relay_ok (s\<lparr>rl_base := b\<rparr>) = relay_ok s"
  by (auto simp: relay_links_def relay_ok_def)

lemma relay_scan_spec:
  assumes "relay_ok s" "\<And>j. 0 \<le> relay_links s j" "relay_scan mx now hs best s = (best', s')"
  shows "relay_ok s' \<and> rl_hosts s' = rl_hosts s \<and> (\<forall>j. relay_links s' j = relay_links s j)
    \<and> (fst best' = fst best \<or> (\<exists>ip h. (ip, h) \<in> set hs \<and> fst best' = Some ip \<and> relay_links s ip < mx))"
  using assms
proof (induction hs arbitrary: best s)
  case (Cons e hs)
  obtain ip h where e: "e = (ip, h)" by (cases e)
  obtain i s0 where i: "relay_info ip s = (i, s0)" by (cases "relay_info ip s")
  note s0 = relay_info_spec [OF Cons.prems(1) i]
  have pos: "\<not> r_links i < 0" using s0(2) Cons.prems(2) [of ip] by simp
  obtain v b where b: "get_speed (get_ip_str ip (relay_port h)) (rl_base s0) = (v, b)" by (cases "get_speed (get_ip_str ip (relay_port h)) (rl_base s0)")
  have again: "relay_scan mx now hs best1 s1 = (best', s') \<Longrightarrow> relay_ok s1 \<Longrightarrow> rl_hosts s1 = rl_hosts s \<Longrightarrow> (\<And>j. relay_links s1 j = relay_links s j)
     \<Longrightarrow> fst best1 = fst best \<or> (fst best1 = Some ip \<and> relay_links s ip < mx) \<Longrightarrow> ?case" for best1 s1
    using Cons.IH [of s1 best1] Cons.prems(2) by (auto simp: e)
  let ?best = "if fst v > snd best then (Some ip, fst v) else best"
  have eq: "relay_scan mx now (e # hs) best s = (if rh_sni h = None then relay_scan mx now hs best s
      else if mx \<le> r_links i then relay_scan mx now hs best s0
      else if r_fail_times i \<noteq> 0 \<and> now - r_last_try i < 60 then relay_scan mx now hs best s0
      else relay_scan mx now hs ?best (s0\<lparr>rl_base := b\<rparr>))"
    by (simp add: e i pos b Let_def case_prod_beta)
  consider (skip) "relay_scan mx now hs best s = (best', s')" | (keep) "relay_scan mx now hs best s0 = (best', s')"
    | (rate) "relay_scan mx now hs ?best (s0\<lparr>rl_base := b\<rparr>) = (best', s')" "r_links i < mx"
    using Cons.prems(3) unfolding eq by (metis not_le)
  then show ?case
  proof cases
    case skip
    then show ?thesis by (rule again) (simp_all add: Cons.prems(1))
  next
    case keep
    then show ?thesis by (rule again) (simp_all add: s0)
  next
    case rate
    from rate(1) show ?thesis by (rule again) (use rate(2) s0 in simp_all)
  qed
qed simp

lemma hosts_port: "list_all host_ok hs \<Longrightarrow> (ip, h) \<in> set hs \<Longrightarrow> plain_ip ip \<and> (\<exists>h'. dget hs ip = Some h' \<and> 0 \<le> relay_port h')"
  by (induction hs) (auto simp: host_ok_def)

lemma relay_take_spec:
  assumes "relay_ok s" "\<And>j. 0 \<le> relay_links s j" "relay_take mx now s = (k, s')"
  shows "relay_ok s' \<and> relay_links s' j = relay_links s j + (if k = Some j then 1 else 0)
    \<and> (\<forall>ip. k = Some ip \<longrightarrow> plain_ip ip \<and> relay_links s ip < mx)"
proof -
  obtain best sp s1 where sc: "relay_scan mx now (hm_info (rl_hosts s)) (None, 0) s = ((best, sp), s1)"
    by (cases "relay_scan mx now (hm_info (rl_hosts s)) (None, 0) s") auto
  note s1 = relay_scan_spec [OF assms(1,2) sc]
  show ?thesis
  proof (cases best)
    case None
    then show ?thesis using s1 assms(3) sc by (auto simp: relay_take_def relay_get_def)
  next
    case (Some ip)
    obtain i s2 where i: "relay_info ip s1 = (i, s2)" by (cases "relay_info ip s1")
    have ok1: "relay_ok s1" using s1 by simp
    note s2 = relay_info_spec [OF ok1 i]
    have "list_all host_ok (hm_info (rl_hosts s))" using assms(1) by (simp add: relay_ok_def)
    moreover obtain h where "(ip, h) \<in> set (hm_info (rl_hosts s))" "relay_links s ip < mx" using s1 Some by auto
    ultimately obtain h' where h: "plain_ip ip" "dget (hm_info (rl_hosts s)) ip = Some h'" "0 \<le> relay_port h'" using hosts_port by blast
    let ?i = "i\<lparr>r_links := r_links i + 1, r_last_try := now\<rparr>"
    have "host_part (get_ip_str ip (relay_port h')) = ip" using host_part_ip_str [OF h(1,3)] by (simp add: host_part_def)
    then have t: "k = Some ip" "s' = relay_put ip ?i s2"
      using assms(3) sc s1 by (auto simp: relay_take_def relay_get_def Some i s2 h(2))
    then show ?thesis
      using relay_put_spec [OF s2(4), of ?i ip] s1 s2 h(1) \<open>relay_links s ip < mx\<close> by auto
  qed
qed

lemma on_relay_ip_spec:
  assumes "relay_ok s" "on_relay_ip a f s = Inr s'" "\<And>i. r_ip (f i) = r_ip i"
  shows "relay_ok s' \<and> (\<exists>ip p i. get_ip_port a ''443'' = Inr (ip, p) \<and> r_links i = relay_links s ip
           \<and> (\<forall>j. relay_links s' j = (if j = ip then r_links (f i) else relay_links s j)))"
proof -
  obtain ip p where ip: "get_ip_port a ''443'' = Inr (ip, p)" using assms(2) by (auto simp: on_relay_ip_def split: sum.splits)
  obtain i s1 where i: "relay_info ip s = (i, s1)" by (cases "relay_info ip s")
  note s1 = relay_info_spec [OF assms(1) i]
  have s': "s' = relay_put ip (f i) s1" using assms(2) by (simp add: on_relay_ip_def ip i)
  have "r_ip (f i) = ip" by (simp add: assms(3) s1(1))
  from relay_put_spec [OF s1(4) this] show ?thesis using ip s1 by (auto simp: s')
qed

lemma on_relay_ip_plain: "plain_ip ip \<Longrightarrow> \<exists>s'. on_relay_ip (get_ip_str ip (int p)) f s = Inr s'"
  using host_part_ip_str [of ip "int p"] by (simp add: on_relay_ip_def case_prod_beta Let_def)

lemma relay_give_spec:
  assumes "relay_ok s" "plain_ip ip" "0 < relay_links s ip"
  shows "relay_ok (relay_give ip g s) \<and> relay_links (relay_give ip g s) j = relay_links s j - (if j = ip then 1 else 0)"
proof -
  let ?f = "if fst g then link_less else (\<lambda>i. link_less (i\<lparr>r_fail_times := r_fail_times i + 1\<rparr>))"
  have f: "r_ip (?f i) = r_ip i" "r_links (?f i) = (if r_links i \<le> 0 then r_links i else r_links i - 1)" for i
    by (auto simp: link_less_def)
  obtain s' where s': "on_relay_ip (get_ip_str ip (int (snd g))) ?f s = Inr s'" using on_relay_ip_plain [OF assms(2)] by blast
  then have "relay_give ip g s = s'" by (auto simp: relay_give_def relay_connect_closed_def relay_connect_fail_def or_same_def Let_def split: if_splits)
  with on_relay_ip_spec [OF assms(1) s' f(1)] host_part_ip_str [OF assms(2), of "int (snd g)"] f(2) assms(3)
  show ?thesis by auto
qed

lemma on_relay_ip_same_links:
  assumes "relay_ok s" "\<And>i. r_ip (f i) = r_ip i \<and> r_links (f i) = r_links i"
  shows "relay_ok (or_same s (on_relay_ip a f s)) \<and> relay_links (or_same s (on_relay_ip a f s)) j = relay_links s j"
proof (cases "on_relay_ip a f s")
  case (Inr s')
  from on_relay_ip_spec [OF assms(1) this] assms(2) show ?thesis by (auto simp: or_same_def Inr)
qed (simp add: or_same_def assms(1))

lemma relay_note_spec:
  assumes "relay_ok s" "relay_note_ok n"
  shows "relay_ok (relay_note n s) \<and> relay_links (relay_note n s) j = relay_links s j"
proof (cases n)
  case (Connected a t)
  then show ?thesis using on_relay_ip_same_links [OF assms(1)] by (simp add: relay_note_def relay_update_ip_def)
next
  case (BadStatus now a)
  then show ?thesis using on_relay_ip_same_links [OF assms(1)] by (simp add: relay_note_def relay_bad_response_def)
qed (use assms in \<open>auto simp: relay_note_def relay_note_ok_def relay_ok_def relay_links_def set_host_def hosts_save_def
       hosts_load_def hosts_reset_def split: option.splits\<close>)

interpretation relay_pool: link_pool relay_ok plain_ip "\<lambda>_. True" relay_note_ok relay_links max_links
    "relay_take max_links" relay_give relay_note
  for max_links
proof (unfold_locales, goal_cases)
  case (1 s e s' j)
  then show ?case using relay_take_spec [of s max_links e None s' j] by auto
next
  case (2 s e k s' j)
  then show ?case using relay_take_spec [of s max_links e "Some k" s' j] by auto
next
  case (3 s k g j)
  then show ?case by (rule relay_give_spec)
next
  case (4 s n j)
  then show ?case by (rule relay_note_spec)
qed

text \<open>
  C37. Whatever happens to the hosts and to the connections, the link count of each address of the
  relay front is at every moment the number of its connections that are open or being opened, and it never
  exceeds the limit.
\<close>

theorem relay_links_exact:
  assumes "list_all host_ok hosts" "\<And>i. Note (NewHosts i) \<in> set evs \<Longrightarrow> list_all host_ok i"
    and "link_run (relay_take max_links) relay_give relay_note evs (relay_init b (hosts_init (Some hosts))) = (s, open_conns)"
  shows "relay_links s ip = int (count open_conns ip) \<and> relay_links s ip \<le> max 0 max_links"
proof -
  have ok: "relay_ok (relay_init b (hosts_init (Some hosts)))"
    using assms(1) by (simp add: relay_ok_def relay_init_def hosts_init_def hosts_load_def)
  have ev: "relay_pool.event_ok ev" if "ev \<in> set evs" for ev
    using that assms(2) by (auto simp: relay_pool.event_ok_def relay_note_ok_def split: link_event.splits)
  have "relay_pool.accounted max_links (s, open_conns)"
    using relay_pool.run_accounted [OF ok _ ev, where max_links = max_links and evs = evs] assms(3) by (simp add: relay_links_def relay_init_def)
  then show ?thesis by (simp add: relay_pool.accounted_def)
qed

definition relay_hosts_ex :: host_info where
  "relay_hosts_ex = [(''1.2.3.4'', \<lparr>rh_sni = Some ''a'', rh_url_path = Some ''/p'', rh_port = None\<rparr>)]"

definition relay_base_ex :: ip_base where
  "relay_base_ex = \<lparr>ip_str_states = [], ip_str_info = [], info_last_save = 0, info_saves = 0,
     default_info = \<lparr>q_score = 1, q_rtt = 100, q_speed = 1000\<rparr>, base_ips = []\<rparr>"

text \<open>With one link for an address the second request is refused; after the first connection was closed it is served.\<close>

theorem relay_links_exact_witness:
  "\<exists>s m. link_run (relay_take 1) relay_give relay_note [Take 5, Take 6, Give ''1.2.3.4'' (True, 443), Take 7, Note Reset]
      (relay_init relay_base_ex (hosts_init (Some relay_hosts_ex))) = (s, m)
    \<and> m = {#''1.2.3.4''#} \<and> relay_links s ''1.2.3.4'' = 1"
proof -
  let ?evs = "[Take 5, Take 6, Give ''1.2.3.4'' (True, 443), Take 7, Note Reset] :: (time, string, bool \<times> nat, relay_note) link_event list"
  obtain s m where r: "link_run (relay_take 1) relay_give relay_note ?evs (relay_init relay_base_ex (hosts_init (Some relay_hosts_ex))) = (s, m)"
    by fastforce
  have a: "get_ip_str ''1.2.3.4'' 443 = ''1.2.3.4:443''" by code_simp
  have p: "get_ip_port ''1.2.3.4:443'' ''443'' = Inr (''1.2.3.4'', 443)" by code_simp
  have "snd (link_run (relay_take 1) relay_give relay_note ?evs (relay_init relay_base_ex (hosts_init (Some relay_hosts_ex)))) = {#''1.2.3.4''#}"
    by (simp add: link_run_def relay_take_def relay_get_def relay_init_def hosts_init_def hosts_load_def relay_hosts_ex_def relay_port_def
        relay_info_def relay_put_def get_speed_def get_info_def relay_base_ex_def host_part_def relay_give_def relay_connect_closed_def
        on_relay_ip_def link_less_def relay_note_def hosts_reset_def Let_def a p)
  with r have "m = {#''1.2.3.4''#}" by simp
  moreover have "relay_links s ''1.2.3.4'' = int (count m ''1.2.3.4'')"
    using relay_links_exact [of relay_hosts_ex ?evs, OF _ _ r, of "''1.2.3.4''"]
    by (simp add: relay_hosts_ex_def host_ok_def plain_ip_def relay_port_def)
  ultimately show ?thesis using r by simp
qed

end
