(* ===== verification/Cloudflare_Front.thy ===== *)
theory Cloudflare_Front
  imports Net_Text Link_Pool
begin

text \<open>
  x_tunnel/local/cloudflare_front/ip_manager.py: top domains, each with the addresses the name
  server gave for its \<^verbatim>\<open>www\<close> host, and their links.

  A domain file is missing (\<open>None\<close>), unreadable (\<open>Some None\<close>) or a list of names.  The name
  server is a parameter: its answer for a name, an address list with gaps, or an error.
\<close>

subsection \<open>Domains\<close>

record cf_domain =
  cd_links :: int
  cd_fail_times :: int
  cd_last_try :: time
  cd_ips :: "string list"
  cd_index :: nat

record cloudflare_ips =
  cf_default_file :: "string list option option"
  cf_file :: "string list option option"
  cf_map :: "(string, cf_domain) dict"

type_synonym resolver = "string \<Rightarrow> string option list option"

definition new_domain :: cf_domain where
  "new_domain = \<lparr>cd_links = 0, cd_fail_times = 0, cd_last_try = 0, cd_ips = [], cd_index = 0\<rparr>"

fun load_domains :: "string list option option list \<Rightarrow> (string, cf_domain) dict" where
  "load_domains [] = []"
| "load_domains (f # fs) = (case f of
      Some (Some ds) \<Rightarrow> fold (\<lambda>td m. dset td new_domain m) ds []
    | _ \<Rightarrow> load_domains fs)"

definition cf_load :: "cloudflare_ips \<Rightarrow> cloudflare_ips" where
  "cf_load s = s\<lparr>cf_map := load_domains [cf_file s, cf_default_file s]\<rparr>"

definition cf_init :: "string list option option \<Rightarrow> string list option option \<Rightarrow> cloudflare_ips" where
  "cf_init default_file dom_file = cf_load \<lparr>cf_default_file = default_file, cf_file = dom_file, cf_map = []\<rparr>"

definition save_domains :: "string list \<Rightarrow> cloudflare_ips \<Rightarrow> cloudflare_ips" where
  "save_domains domains s =
     (if dkeys (cf_map s) = domains then s
      else let dat = fold (\<lambda>d m. dset d [''www.'' @ d] m) domains []
           in cf_load (s\<lparr>cf_file := Some (Some (dkeys dat))\<rparr>))"

fun resolved :: "string option list \<Rightarrow> string list \<Rightarrow> string list" where
  "resolved [] ips = ips"
| "resolved (a # as) ips = (case a of
      None \<Rightarrow> resolved as ips
    | Some ip \<Rightarrow> if ip \<in> set ips then resolved as ips else resolved as (ips @ [ip]))"

definition resolve_ips :: "resolver \<Rightarrow> string \<Rightarrow> string list" where
  "resolve_ips res sni = (case res sni of None \<Rightarrow> [] | Some infos \<Rightarrow> resolved infos [])"

subsection \<open>Links\<close>

definition put_domain :: "string \<Rightarrow> cf_domain \<Rightarrow> cloudflare_ips \<Rightarrow> cloudflare_ips" where
  "put_domain d i s = s\<lparr>cf_map := dset d i (cf_map s)\<rparr>"

fun cf_scan :: "int \<Rightarrow> time \<Rightarrow> resolver \<Rightarrow> (string \<times> cf_domain) list \<Rightarrow> cloudflare_ips \<Rightarrow> (string \<times> string \<times> string) option \<times> cloudflare_ips" where
  "cf_scan max_conn now res [] s = (None, s)"
| "cf_scan max_conn now res ((td, i0) # es) s =
     (let i = (if cd_links i0 < 0 then i0\<lparr>cd_links := 0\<rparr> else i0); s0 = put_domain td i s
      in if cd_links i \<ge> max_conn then cf_scan max_conn now res es s0
         else if cd_fail_times i \<noteq> 0 \<and> now - cd_last_try i < 60 \<and> cd_index i \<ge> length (cd_ips i)
         then cf_scan max_conn now res es s0
         else let sni = ''www.'' @ td;
                  i1 = (if cd_ips i = [] \<or> cd_index i \<ge> length (cd_ips i) \<or> now - cd_last_try i \<ge> 60
                        then i\<lparr>cd_ips := resolve_ips res sni, cd_index := 0\<rparr> else i);
                  s1 = put_domain td i1 s0
              in if cd_ips i1 = [] then cf_scan max_conn now res es s1
                 else (Some (cd_ips i1 ! cd_index i1, sni, td),
                       put_domain td (i1\<lparr>cd_links := cd_links i1 + 1, cd_last_try := now, cd_index := cd_index i1 + 1\<rparr>) s1))"

definition cf_get :: "int \<Rightarrow> time \<Rightarrow> resolver \<Rightarrow> cloudflare_ips \<Rightarrow> (string \<times> string \<times> string) option \<times> cloudflare_ips" where
  "cf_get max_conn now res s = cf_scan max_conn now res (cf_map s) s"

definition get_domain :: "string \<Rightarrow> cloudflare_ips \<Rightarrow> cf_domain \<times> cloudflare_ips" where
  "get_domain td s = (case dget (cf_map s) td of
      Some i \<Rightarrow> (i, s)
    | None \<Rightarrow> (new_domain, put_domain td new_domain s))"

definition top_of :: "string \<Rightarrow> string" where
  "top_of sni = join ''.'' (drop 1 (split_on CHR ''.'' sni))"

definition on_domain :: "string \<Rightarrow> (cf_domain \<Rightarrow> cf_domain) \<Rightarrow> cloudflare_ips \<Rightarrow> cloudflare_ips" where
  "on_domain td f s = (let (i, s') = get_domain td s in put_domain td (f i) s')"

definition cf_update_ip :: "string \<Rightarrow> cloudflare_ips \<Rightarrow> cloudflare_ips" where
  "cf_update_ip sni = on_domain (top_of sni) (\<lambda>i. i\<lparr>cd_fail_times := 0, cd_last_try := 0\<rparr>)"

definition one_less :: "cf_domain \<Rightarrow> cf_domain" where
  "one_less i = (if cd_links i \<le> 0 then i else i\<lparr>cd_links := cd_links i - 1\<rparr>)"

definition cf_connect_fail :: "string \<Rightarrow> string \<Rightarrow> cloudflare_ips \<Rightarrow> exn + cloudflare_ips" where
  "cf_connect_fail ip_str sni s = (case get_ip_port ip_str ''443'' of
      Inl e \<Rightarrow> Inl e
    | Inr _ \<Rightarrow> Inr (on_domain (top_of sni) (\<lambda>i. one_less (i\<lparr>cd_fail_times := cd_fail_times i + 1\<rparr>)) s))"

definition cf_connect_closed :: "string \<Rightarrow> string \<Rightarrow> cloudflare_ips \<Rightarrow> exn + cloudflare_ips" where
  "cf_connect_closed ip_str sni s = (case get_ip_port ip_str ''443'' of
      Inl e \<Rightarrow> Inl e
    | Inr _ \<Rightarrow> Inr (on_domain (top_of sni) one_less s))"

subsection \<open>Laws\<close>

definition cf_links :: "cloudflare_ips \<Rightarrow> string \<Rightarrow> int" where
  "cf_links s td = (case dget (cf_map s) td of None \<Rightarrow> 0 | Some i \<Rightarrow> cd_links i)"

lemma top_of_www: "top_of (''www.'' @ td) = td"
proof -
  have "split_on CHR ''.'' (''www.'' @ td) = ''www'' # split_on CHR ''.'' td"
    using split_on_append [of "CHR ''.''" "''www''" td] by simp
  then show ?thesis by (simp only: top_of_def) (simp add: join_split)
qed

lemma put_domain_spec [simp]:
  "cf_links (put_domain d i s) j = (if j = d then cd_links i else cf_links s j)"
  "dict_ok (cf_map s) \<Longrightarrow> dict_ok (cf_map (put_domain d i s))"
  by (simp_all add: put_domain_def cf_links_def)

lemma dget_put_domain [simp]: "dget (cf_map (put_domain d i s)) j = (if j = d then Some i else dget (cf_map s) j)"
  by (simp add: put_domain_def)

lemma cf_scan_spec:
  assumes "\<forall>(d, i) \<in> set es. dget (cf_map s) d = Some i" "distinct (map fst es)" "dict_ok (cf_map s)" "\<And>j. 0 \<le> cf_links s j"
    "cf_scan mx now res es s = (r, s')"
  shows "dict_ok (cf_map s') \<and> (\<forall>j. cf_links s' j = cf_links s j + (case r of None \<Rightarrow> 0 | Some (ip, sni, d) \<Rightarrow> if j = d then 1 else 0))
    \<and> (\<forall>ip sni d. r = Some (ip, sni, d) \<longrightarrow> sni = ''www.'' @ d \<and> cf_links s d < mx)"
  using assms
proof (induction es arbitrary: s)
  case (Cons e es)
  obtain d i where e: "e = (d, i)" by (cases e)
  have d: "dget (cf_map s) d = Some i" "cf_links s d = cd_links i" using Cons.prems(1) by (auto simp: e cf_links_def)
  have pos: "\<not> cd_links i < 0" using Cons.prems(4) [of d] d(2) by simp
  define i1 where "i1 = (if cd_ips i = [] \<or> cd_index i \<ge> length (cd_ips i) \<or> now - cd_last_try i \<ge> 60
      then i\<lparr>cd_ips := resolve_ips res (''www.'' @ d), cd_index := 0\<rparr> else i)"
  have l1: "cd_links i1 = cd_links i" by (simp add: i1_def)
  have again: "cf_scan mx now res es s1 = (r, s') \<Longrightarrow> dict_ok (cf_map s1) \<Longrightarrow> (\<And>j. cf_links s1 j = cf_links s j)
      \<Longrightarrow> (\<And>j. j \<noteq> d \<Longrightarrow> dget (cf_map s1) j = dget (cf_map s) j) \<Longrightarrow> ?case" for s1
  proof -
    assume a: "cf_scan mx now res es s1 = (r, s')" "dict_ok (cf_map s1)" "\<And>j. cf_links s1 j = cf_links s j"
      "\<And>j. j \<noteq> d \<Longrightarrow> dget (cf_map s1) j = dget (cf_map s) j"
    have "dget (cf_map s1) d' = Some i'" if "(d', i') \<in> set es" for d' i'
    proof -
      have "d' \<noteq> d" using that Cons.prems(2) by (force simp: e)
      with that Cons.prems(1) a(4) show ?thesis by auto
    qed
    then have "\<forall>(d', i') \<in> set es. dget (cf_map s1) d' = Some i'" by blast
    moreover have "distinct (map fst es)" using Cons.prems(2) by simp
    moreover have "\<And>j. 0 \<le> cf_links s1 j" using Cons.prems(4) a(3) by simp
    ultimately have "dict_ok (cf_map s') \<and> (\<forall>j. cf_links s' j = cf_links s1 j + (case r of None \<Rightarrow> 0 | Some (ip, sni, d) \<Rightarrow> if j = d then 1 else 0))
      \<and> (\<forall>ip sni d. r = Some (ip, sni, d) \<longrightarrow> sni = ''www.'' @ d \<and> cf_links s1 d < mx)"
      using Cons.IH a(1,2) by blast
    then show ?case unfolding a(3) .
  qed
  have eq: "cf_scan mx now res (e # es) s = (if cd_links i \<ge> mx then cf_scan mx now res es (put_domain d i s)
      else if cd_fail_times i \<noteq> 0 \<and> now - cd_last_try i < 60 \<and> cd_index i \<ge> length (cd_ips i)
      then cf_scan mx now res es (put_domain d i s)
      else if cd_ips i1 = [] then cf_scan mx now res es (put_domain d i1 (put_domain d i s))
      else (Some (cd_ips i1 ! cd_index i1, ''www.'' @ d, d),
            put_domain d (i1\<lparr>cd_links := cd_links i1 + 1, cd_last_try := now, cd_index := cd_index i1 + 1\<rparr>) (put_domain d i1 (put_domain d i s))))"
    by (simp add: e pos i1_def Let_def)
  consider (keep) "cf_scan mx now res es (put_domain d i s) = (r, s')"
    | (dry) "cf_scan mx now res es (put_domain d i1 (put_domain d i s)) = (r, s')"
    | (hit) "r = Some (cd_ips i1 ! cd_index i1, ''www.'' @ d, d)" "cd_links i < mx"
        "s' = put_domain d (i1\<lparr>cd_links := cd_links i1 + 1, cd_last_try := now, cd_index := cd_index i1 + 1\<rparr>) (put_domain d i1 (put_domain d i s))"
    using Cons.prems(5) unfolding eq by (auto split: if_splits)
  then show ?case
  proof cases
    case keep
    then show ?thesis by (rule again) (use d Cons.prems(3) in auto)
  next
    case dry
    then show ?thesis by (rule again) (use d l1 Cons.prems(3) in auto)
  next
    case hit
    then show ?thesis using d l1 Cons.prems(3) by auto
  qed
qed auto

definition cf_take :: "int \<Rightarrow> time \<times> resolver \<Rightarrow> cloudflare_ips \<Rightarrow> string option \<times> cloudflare_ips" where
  "cf_take max_conn e s = (case cf_get max_conn (fst e) (snd e) s of (a, s') \<Rightarrow> (map_option (\<lambda>(ip, sni, host). host) a, s'))"

lemma on_domain_links:
  assumes "dict_ok (cf_map s)"
  shows "dict_ok (cf_map (on_domain d f s))
    \<and> (\<exists>i. cd_links i = cf_links s d \<and> (\<forall>j. cf_links (on_domain d f s) j = (if j = d then cd_links (f i) else cf_links s j)))"
proof -
  have "cd_links new_domain = 0" by (simp add: new_domain_def)
  with assms show ?thesis by (cases "dget (cf_map s) d") (auto simp: on_domain_def get_domain_def cf_links_def)
qed

text \<open>
  A report names the address and the server name that were handed out; the address of a name
  server's answer for IPv4 is four numbers and has no port.
\<close>

definition cf_give :: "string \<Rightarrow> bool \<times> nat \<Rightarrow> cloudflare_ips \<Rightarrow> cloudflare_ips" where
  "cf_give td g s =
     (case (if fst g then cf_connect_closed else cf_connect_fail) (ip_num_to_string (int (snd g))) (''www.'' @ td) s of
        Inl _ \<Rightarrow> s | Inr s' \<Rightarrow> s')"

lemma get_ip_port_dotted: "\<exists>x. get_ip_port (ip_num_to_string (int n)) ''443'' = Inr x"
proof -
  have "CHR '':'' \<notin> set (ip_num_to_string (int n))" "CHR ''.'' \<in> set (ip_num_to_string (int n))"
    unfolding ip_num_octets by (auto simp: octets_def dest: dec_chars)
  moreover have "int_of_text ''443'' = Inr 443" by code_simp
  ultimately show ?thesis by (simp add: get_ip_port_def)
qed

lemma cf_give_spec:
  assumes "dict_ok (cf_map s)" "0 < cf_links s td"
  shows "dict_ok (cf_map (cf_give td g s)) \<and> cf_links (cf_give td g s) j = cf_links s j - (if j = td then 1 else 0)"
proof -
  let ?f = "if fst g then one_less else (\<lambda>i. one_less (i\<lparr>cd_fail_times := cd_fail_times i + 1\<rparr>))"
  obtain x where "get_ip_port (ip_num_to_string (int (snd g))) ''443'' = Inr x" using get_ip_port_dotted by blast
  then have "cf_give td g s = on_domain td ?f s"
    by (cases x) (simp add: cf_give_def cf_connect_closed_def cf_connect_fail_def top_of_www [simplified])
  moreover have "cd_links (?f i) = (if cd_links i \<le> 0 then cd_links i else cd_links i - 1)" for i by (simp add: one_less_def)
  ultimately show ?thesis using on_domain_links [OF assms(1), of td ?f] assms(2) by auto
qed

lemma cf_update_spec:
  assumes "dict_ok (cf_map s)"
  shows "dict_ok (cf_map (cf_update_ip sni s)) \<and> cf_links (cf_update_ip sni s) j = cf_links s j"
  using on_domain_links [OF assms, of "top_of sni" "\<lambda>i. i\<lparr>cd_fail_times := 0, cd_last_try := 0\<rparr>"] by (auto simp: cf_update_ip_def)

interpretation cf_pool: link_pool "\<lambda>s. dict_ok (cf_map s)" "\<lambda>_. True" "\<lambda>_. True" "\<lambda>_. True" cf_links max_conn
    "cf_take max_conn" cf_give cf_update_ip
  for max_conn
proof (unfold_locales, goal_cases)
  case (1 s e s' j)
  then obtain r where r: "cf_scan max_conn (fst e) (snd e) (cf_map s) s = (r, s')" "r = None"
    by (auto simp: cf_take_def cf_get_def split: prod.splits)
  with cf_scan_spec [of "cf_map s" s max_conn "fst e" "snd e" r s'] 1 show ?case by (auto simp: map_of_is_SomeI)
next
  case (2 s e k s' j)
  then obtain r where r: "cf_scan max_conn (fst e) (snd e) (cf_map s) s = (r, s')" "map_option (\<lambda>(ip, sni, host). host) r = Some k"
    by (auto simp: cf_take_def cf_get_def split: prod.splits)
  then obtain ip sni where "r = Some (ip, sni, k)" by auto
  with cf_scan_spec [of "cf_map s" s max_conn "fst e" "snd e" r s'] 2 r show ?case by (auto simp: map_of_is_SomeI)
next
  case (3 s k g j)
  then show ?case by (intro cf_give_spec)
next
  case (4 s n j)
  then show ?case by (intro cf_update_spec)
qed

lemma dict_ok_fold_new: "dict_ok m \<Longrightarrow> dict_ok (fold (\<lambda>td m. dset td new_domain m) ds m)"
  by (induction ds arbitrary: m) simp_all

lemma load_domains_cases: "load_domains fs = [] \<or> (\<exists>ds. load_domains fs = fold (\<lambda>td m. dset td new_domain m) ds [])"
  by (induction fs) (auto split: option.splits)

lemma load_domains_ok: "dict_ok (load_domains fs)" "dget (load_domains fs) d = Some i \<Longrightarrow> i = new_domain"
proof -
  have f: "dget (fold (\<lambda>td m. dset td new_domain m) ds m) d = Some i \<Longrightarrow> dget m d = Some i \<or> i = new_domain" for ds m
  proof (induction ds arbitrary: m)
    case (Cons a ds)
    from Cons.IH [of "dset a new_domain m"] Cons.prems show ?case by (auto split: if_splits)
  qed simp
  show "dict_ok (load_domains fs)"
    using load_domains_cases [of fs] dict_ok_fold_new [of "[]"] by force
  show "i = new_domain" if "dget (load_domains fs) d = Some i"
    using load_domains_cases [of fs] f [of _ "[]"] that by force
qed

lemma cf_load_links: "cf_links (cf_load s) d = 0"
proof -
  have "cf_map (cf_load s) = load_domains [cf_file s, cf_default_file s]" by (simp add: cf_load_def)
  then have "dget (cf_map (cf_load s)) d = Some i \<Longrightarrow> i = new_domain" for i using load_domains_ok(2) by metis
  moreover have "cd_links new_domain = 0" by (simp add: new_domain_def)
  ultimately show ?thesis by (cases "dget (cf_map (cf_load s)) d") (auto simp: cf_links_def)
qed

text \<open>
  As long as the domains are not replaced, the link count of a domain is the number of its
  connections that are open or being opened, and never exceeds the limit.
\<close>

theorem domain_links_exact:
  assumes "link_run (cf_take max_conn) cf_give cf_update_ip evs (cf_init dflt f) = (s, open_conns)"
  shows "cf_links s d = int (count open_conns d) \<and> cf_links s d \<le> max 0 max_conn"
proof -
  have "cf_links (cf_init dflt f) j = 0" for j by (simp add: cf_init_def cf_load_links)
  moreover have "dict_ok (cf_map (cf_init dflt f))" using load_domains_ok(1) [of "[f, dflt]"] by (simp add: cf_init_def cf_load_def)
  moreover have "cf_pool.event_ok ev" for ev by (simp add: cf_pool.event_ok_def split: link_event.splits)
  ultimately have "cf_pool.accounted max_conn (s, open_conns)"
    using cf_pool.run_accounted [of "cf_init dflt f" evs max_conn] assms by simp
  then show ?thesis by (simp add: cf_pool.accounted_def)
qed

text \<open>
  Replacing the domains forgets the connections that are open: the counts start again at
  nothing while the connections go on, so that more than the allowed number come to be open.
\<close>

lemma save_domains_forgets:
  assumes "domains \<noteq> dkeys (cf_map s)"
  shows "cf_links (save_domains domains s) d = 0"
  using assms by (auto simp: save_domains_def Let_def simp del: fold_simps intro: cf_load_links)

end
