(* ===== verification/Seley_Front.thy ===== *)
theory Seley_Front
  imports Ip_Manager Ipv6_Pattern Link_Pool
begin

text \<open>
  x_tunnel/local/seley_front/ip_manager.py: hosts with a key, given as an address or as a name, and
  the links to the addresses they resolve to.

  The host file is its parsed content.  The name server is a parameter, and so is the clock, which
  one request reads up to three times.
\<close>

subsection \<open>Hosts and addresses\<close>

record seley_host =
  sh_key :: "string option"
  sh_adjust :: "int option"

record seley_ip =
  y_ip_str :: string
  y_host_port :: string
  y_fail_times :: int
  y_links :: int
  y_rtt :: real
  y_last_try :: time

record seley =
  sy_base :: ip_base
  sy_file :: "(string, seley_host) dict option"
  sy_hosts :: "(string, seley_host) dict"
  sy_dict :: "(string, seley_ip) dict"

type_synonym name_server = "string \<Rightarrow> int \<Rightarrow> string list option"

definition seley_load :: "seley \<Rightarrow> seley" where
  "seley_load s = (case sy_file s of None \<Rightarrow> s | Some hosts \<Rightarrow> s\<lparr>sy_hosts := hosts\<rparr>)"

definition seley_init :: "ip_base \<Rightarrow> (string, seley_host) dict option \<Rightarrow> seley" where
  "seley_init b f = seley_load \<lparr>sy_base = b, sy_file = f, sy_hosts = [], sy_dict = []\<rparr>"

text \<open>Writing the file may fail; the hosts then stay.\<close>

definition set_hosts :: "bool \<Rightarrow> (string, seley_host) dict \<Rightarrow> seley \<Rightarrow> seley" where
  "set_hosts written hosts s = (if written then seley_load (s\<lparr>sy_file := Some hosts\<rparr>) else s)"

text \<open>
  The record of a host: \<open>None\<close> if its name has no address.  Of several addresses the last is taken.
\<close>

definition seley_address :: "name_server \<Rightarrow> string \<Rightarrow> int \<Rightarrow> string option" where
  "seley_address res host port =
     (if check_ip_valid host then Some host
      else case res host port of
          None \<Rightarrow> None
        | Some infos \<Rightarrow> if infos = [] then None else Some (last infos))"

definition seley_ip_dict :: "name_server \<Rightarrow> string \<Rightarrow> seley \<Rightarrow> exn + (string option \<times> seley)" where
  "seley_ip_dict res host_port s = (case get_ip_port host_port ''443'' of
      Inl e \<Rightarrow> Inl e
    | Inr (host, port) \<Rightarrow> (case seley_address res host port of
        None \<Rightarrow> Inr (None, s)
      | Some ip \<Rightarrow> if ip = [] then Inr (None, s)
          else let ip_str = get_ip_str ip port
               in Inr (Some ip_str, if dmem ip_str (sy_dict s) then s
                    else s\<lparr>sy_dict := dset ip_str \<lparr>y_ip_str = ip_str, y_host_port = host_port, y_fail_times = 0,
                             y_links = 0, y_rtt = 1000, y_last_try = 0\<rparr> (sy_dict s)\<rparr>)))"

definition y_put :: "string \<Rightarrow> (seley_ip \<Rightarrow> seley_ip) \<Rightarrow> seley \<Rightarrow> seley" where
  "y_put k f s = (case dget (sy_dict s) k of None \<Rightarrow> s | Some i \<Rightarrow> s\<lparr>sy_dict := dset k (f i) (sy_dict s)\<rparr>)"

definition y_at :: "seley \<Rightarrow> string \<Rightarrow> seley_ip" where
  "y_at s k = the (dget (sy_dict s) k)"

subsection \<open>Choosing an address\<close>

text \<open>
  One pass over the hosts.  An address that failed some time ago is taken at once; otherwise the
  lowest score below 99 wins.
\<close>

fun seley_scan :: "bool \<Rightarrow> int \<Rightarrow> time \<Rightarrow> name_server \<Rightarrow> (string \<times> seley_host) list \<Rightarrow> string option \<times> real
    \<Rightarrow> seley \<Rightarrow> (exn + string option) \<times> seley" where
  "seley_scan force max_links now res [] best s = (Inr (fst best), s)"
| "seley_scan force max_links now res ((host_port, params) # hs) best s =
     (if sh_key params = None \<or> sh_key params = Some [] \<or> is_prefix ''_'' host_port
      then seley_scan force max_links now res hs best s
      else case seley_ip_dict res host_port s of
          Inl e \<Rightarrow> (Inl e, s)
        | Inr (None, s0) \<Rightarrow> seley_scan force max_links now res hs best s0
        | Inr (Some k, s0) \<Rightarrow>
            (let s1 = y_put k (\<lambda>i. if y_links i < 0 then i\<lparr>y_links := 0\<rparr> else i) s0; i = y_at s1 k
             in if y_links i \<ge> max_links then seley_scan force max_links now res hs best s1
                else if y_fail_times i \<noteq> 0 then
                  (let last_try = now - y_last_try i
                   in if last_try < 5 \<or> (\<not> force \<and> last_try < 60)
                      then seley_scan force max_links now res hs best s1
                      else (Inr (Some k), s1))
                else let (score, b) = get_score (y_ip_str i) (sy_base s1); s2 = s1\<lparr>sy_base := b\<rparr>
                     in seley_scan force max_links now res hs (if score < snd best then (Some k, score) else best) s2))"

record seley_answer =
  ya_ip_str :: string
  ya_sni :: "string option"
  ya_adjust :: int

definition seley_hand_out :: "time \<Rightarrow> string \<Rightarrow> seley \<Rightarrow> (exn + seley_answer option) \<times> seley" where
  "seley_hand_out now k s = (case dget (sy_hosts s) (y_host_port (y_at s k)) of
      None \<Rightarrow> (Inl KeyError, s)
    | Some params \<Rightarrow>
        (Inr (Some \<lparr>ya_ip_str = y_ip_str (y_at s k), ya_sni = sh_key params,
                    ya_adjust = (case sh_adjust params of None \<Rightarrow> 0 | Some a \<Rightarrow> a)\<rparr>),
         y_put k (\<lambda>i. i\<lparr>y_links := y_links i + 1, y_last_try := now\<rparr>) s))"

definition seley_get :: "int \<Rightarrow> time \<times> time \<times> time \<Rightarrow> name_server \<Rightarrow> seley \<Rightarrow> (exn + seley_answer option) \<times> seley" where
  "seley_get max_links clock res s =
     (if sy_hosts s = [] then (Inr None, s)
      else let (t1, t2, t3) = clock
           in case seley_scan False max_links t1 res (sy_hosts s) (None, 99) s of
                (Inl e, s1) \<Rightarrow> (Inl e, s1)
              | (Inr (Some k), s1) \<Rightarrow> seley_hand_out t3 k s1
              | (Inr None, s1) \<Rightarrow> (case seley_scan True max_links t2 res (sy_hosts s1) (None, 99) s1 of
                  (Inl e, s2) \<Rightarrow> (Inl e, s2)
                | (Inr (Some k), s2) \<Rightarrow> seley_hand_out t3 k s2
                | (Inr None, s2) \<Rightarrow> (Inr None, s2)))"

subsection \<open>Reports\<close>

text \<open>An address that no longer resolves has no record, and the report raises.\<close>

definition on_seley_ip :: "name_server \<Rightarrow> string \<Rightarrow> (seley_ip \<Rightarrow> seley_ip) \<Rightarrow> seley \<Rightarrow> exn + seley" where
  "on_seley_ip res ip_str f s = (case seley_ip_dict res ip_str s of
      Inl e \<Rightarrow> Inl e
    | Inr (None, _) \<Rightarrow> Inl (PyException ''TypeError'')
    | Inr (Some k, s') \<Rightarrow> Inr (y_put k f s'))"

definition seley_update_ip :: "name_server \<Rightarrow> string \<Rightarrow> real \<Rightarrow> seley \<Rightarrow> exn + seley" where
  "seley_update_ip res ip_str handshake = on_seley_ip res ip_str (\<lambda>i. i\<lparr>y_fail_times := 0, y_rtt := handshake\<rparr>)"

definition seley_connect_fail :: "name_server \<Rightarrow> string \<Rightarrow> seley \<Rightarrow> exn + seley" where
  "seley_connect_fail res ip_str =
     on_seley_ip res ip_str (\<lambda>i. i\<lparr>y_fail_times := y_fail_times i + 1, y_links := y_links i - 1\<rparr>)"

definition seley_connect_closed :: "name_server \<Rightarrow> string \<Rightarrow> seley \<Rightarrow> exn + seley" where
  "seley_connect_closed res ip_str = on_seley_ip res ip_str (\<lambda>i. i\<lparr>y_links := y_links i - 1\<rparr>)"

subsection \<open>Links\<close>

definition y_links_of :: "seley \<Rightarrow> string \<Rightarrow> int" where
  "y_links_of s k = (case dget (sy_dict s) k of None \<Rightarrow> 0 | Some i \<Rightarrow> y_links i)"

definition good_addr :: "string \<Rightarrow> bool" where
  "good_addr a \<longleftrightarrow> plain_ip a \<and> check_ip_valid a \<and> a \<noteq> []"

definition good_key :: "string \<Rightarrow> bool" where
  "good_key k \<longleftrightarrow> (\<exists>ip p. good_addr ip \<and> k = get_ip_str ip (int p))"

text \<open>The host list names addresses without brackets, or names that a sane name server resolves.\<close>

definition good_host :: "string \<Rightarrow> bool" where
  "good_host hp \<longleftrightarrow> (\<forall>h p. get_ip_port hp ''443'' = Inr (h, p) \<longrightarrow> 0 \<le> p \<and> (check_ip_valid h \<longrightarrow> h = [] \<or> good_addr h))"

definition good_server :: "name_server \<Rightarrow> bool" where
  "good_server res \<longleftrightarrow> (\<forall>h p as. res h p = Some as \<longrightarrow> (\<forall>a \<in> set as. good_addr a))"

definition seley_ok :: "seley \<Rightarrow> bool" where
  "seley_ok s \<longleftrightarrow> list_all (\<lambda>(hp, h). good_host hp) (sy_hosts s)
     \<and> (\<forall>f. sy_file s = Some f \<longrightarrow> list_all (\<lambda>(hp, h). good_host hp) f)
     \<and> (\<forall>k i. dget (sy_dict s) k = Some i \<longrightarrow> y_ip_str i = k)"

lemma seley_ip_dict_spec:
  assumes "seley_ok s" "seley_ip_dict res hp s = Inr (Some k, s')" "good_host hp" "good_server res"
  shows "seley_ok s' \<and> (\<forall>j. y_links_of s' j = y_links_of s j) \<and> sy_hosts s' = sy_hosts s \<and> dget (sy_dict s') k \<noteq> None \<and> good_key k"
proof -
  obtain h p where hp: "get_ip_port hp ''443'' = Inr (h, p)" using assms(2) by (auto simp: seley_ip_dict_def split: sum.splits)
  obtain ip where ip: "seley_address res h p = Some ip" "ip \<noteq> []" "k = get_ip_str ip p"
    using assms(2) by (auto simp: seley_ip_dict_def hp Let_def split: option.splits if_splits)
  have g: "0 \<le> p" "check_ip_valid h \<Longrightarrow> h = [] \<or> good_addr h" using assms(3) hp by (auto simp: good_host_def)
  have "good_addr ip" using ip(1,2) g(2) assms(4) by (auto simp: seley_address_def good_server_def split: if_splits option.splits)
  with g(1) ip(3) have "good_key k" unfolding good_key_def by (metis nat_0_le)
  moreover have s': "s' = (if dmem k (sy_dict s) then s else s\<lparr>sy_dict := dset k \<lparr>y_ip_str = k, y_host_port = hp, y_fail_times = 0,
      y_links = 0, y_rtt = 1000, y_last_try = 0\<rparr> (sy_dict s)\<rparr>)"
    using assms(2) by (auto simp: seley_ip_dict_def hp ip Let_def split: if_splits)
  ultimately show ?thesis
    unfolding dmem_def using assms(1) by (cases "dget (sy_dict s) k") (auto simp: y_links_of_def seley_ok_def)
qed

lemma seley_ip_dict_none: "seley_ip_dict res hp s = Inr (None, s') \<Longrightarrow> s' = s"
  by (auto simp: seley_ip_dict_def Let_def split: sum.splits option.splits if_splits)

lemma y_put_spec:
  assumes "\<And>i. y_ip_str (f i) = y_ip_str i" "dget (sy_dict s) k \<noteq> None"
  shows "seley_ok (y_put k f s) = seley_ok s" "y_links_of (y_put k f s) j = (if j = k then y_links (f (y_at s k)) else y_links_of s j)"
    "sy_hosts (y_put k f s) = sy_hosts s" "y_at (y_put k f s) k = f (y_at s k)" "dget (sy_dict (y_put k f s)) k \<noteq> None"
  using assms by (auto simp: y_put_def y_links_of_def y_at_def seley_ok_def split: option.splits)

lemma y_at_links: "dget (sy_dict s) k \<noteq> None \<Longrightarrow> y_links (y_at s k) = y_links_of s k"
  by (auto simp: y_at_def y_links_of_def)

lemma seley_base_same [simp]: "seley_ok (s\<lparr>sy_base := b\<rparr>) = seley_ok s" "y_links_of (s\<lparr>sy_base := b\<rparr>) = y_links_of s"
  by (auto simp: seley_ok_def y_links_of_def)

definition same_links :: "seley \<Rightarrow> seley \<Rightarrow> bool" where
  "same_links s s' \<longleftrightarrow> seley_ok s' \<and> (\<forall>j. y_links_of s' j = y_links_of s j) \<and> sy_hosts s' = sy_hosts s
     \<and> (\<forall>k. dget (sy_dict s) k \<noteq> None \<longrightarrow> dget (sy_dict s') k \<noteq> None)"

definition choice_ok :: "int \<Rightarrow> seley \<Rightarrow> string option \<Rightarrow> bool" where
  "choice_ok mx s c \<longleftrightarrow> (\<forall>k. c = Some k \<longrightarrow> dget (sy_dict s) k \<noteq> None \<and> good_key k \<and> y_links_of s k < mx)"

lemma same_links_trans: "same_links s s' \<Longrightarrow> same_links s' s'' \<Longrightarrow> same_links s s''"
  by (simp add: same_links_def)

lemma same_links_choice: "same_links s s' \<Longrightarrow> choice_ok mx s c \<Longrightarrow> choice_ok mx s' c"
  by (auto simp: same_links_def choice_ok_def)

lemma y_put_same:
  assumes "seley_ok s" "\<And>i. y_ip_str (f i) = y_ip_str i" "dget (sy_dict s) k \<noteq> None" "y_links (f (y_at s k)) = y_links (y_at s k)"
  shows "same_links s (y_put k f s)"
proof -
  have "dget (sy_dict (y_put k f s)) j \<noteq> None" if "dget (sy_dict s) j \<noteq> None" for j
    using that by (auto simp: y_put_def split: option.splits)
  then show ?thesis
    using y_put_spec [of f s k] assms y_at_links [OF assms(3)] by (auto simp: same_links_def)
qed

text \<open>What one host of the list contributes: its record, and whether it can be taken.\<close>

definition y_clamp :: "seley_ip \<Rightarrow> seley_ip" where
  "y_clamp i = (if y_links i < 0 then i\<lparr>y_links := 0\<rparr> else i)"

lemma seley_rated:
  assumes "seley_ok s" "\<And>j. 0 \<le> y_links_of s j" "good_host hp" "good_server res" "seley_ip_dict res hp s = Inr (Some k, s0)"
    and "s1 = y_put k y_clamp s0"
  shows "same_links s s1" "\<not> mx \<le> y_links (y_at s1 k) \<Longrightarrow> choice_ok mx s1 (Some k)"
proof -
  from seley_ip_dict_spec [OF assms(1,5,3,4)]
  have d: "seley_ok s0" "y_links_of s0 j = y_links_of s j" "sy_hosts s0 = sy_hosts s" "dget (sy_dict s0) k \<noteq> None" "good_key k" for j by auto
  have "dget (sy_dict s0) j \<noteq> None" if "dget (sy_dict s) j \<noteq> None" for j
    using assms(5) that by (auto simp: seley_ip_dict_def Let_def split: sum.splits option.splits if_splits)
  then have s0: "same_links s s0" using d by (auto simp: same_links_def)
  have "same_links s0 s1" unfolding assms(6)
    by (rule y_put_same [OF d(1) _ d(4)]) (use y_at_links [OF d(4)] d(2) assms(2) [of k] in \<open>auto simp: y_clamp_def\<close>)
  with s0 show "same_links s s1" using same_links_trans by blast
  have "dget (sy_dict s1) k \<noteq> None" using \<open>same_links s0 s1\<close> d(4) by (simp add: same_links_def)
  then show "choice_ok mx s1 (Some k)" if "\<not> mx \<le> y_links (y_at s1 k)"
    using that y_at_links [of s1 k] d(5) by (simp add: choice_ok_def)
qed

lemma seley_scan_Cons:
  "seley_scan force mx now res ((hp, params) # hs) best s =
     (if sh_key params = None \<or> sh_key params = Some [] \<or> is_prefix ''_'' hp then seley_scan force mx now res hs best s
      else case seley_ip_dict res hp s of
          Inl e \<Rightarrow> (Inl e, s)
        | Inr (None, s0) \<Rightarrow> seley_scan force mx now res hs best s
        | Inr (Some k, s0) \<Rightarrow>
            (let s1 = y_put k y_clamp s0; i = y_at s1 k
             in if mx \<le> y_links i \<or> (y_fail_times i \<noteq> 0 \<and> (now - y_last_try i < 5 \<or> (\<not> force \<and> now - y_last_try i < 60)))
                then seley_scan force mx now res hs best s1
                else if y_fail_times i \<noteq> 0 then (Inr (Some k), s1)
                else let (score, b) = get_score (y_ip_str i) (sy_base s1)
                     in seley_scan force mx now res hs (if score < snd best then (Some k, score) else best) (s1\<lparr>sy_base := b\<rparr>)))"
proof -
  have c: "(\<lambda>i. if y_links i < 0 then i\<lparr>y_links := 0\<rparr> else i) = y_clamp" by (rule ext) (simp add: y_clamp_def)
  show ?thesis
    unfolding seley_scan.simps c
    by (auto simp: Let_def split: sum.splits option.splits dest: seley_ip_dict_none)
qed

lemma seley_scan_spec:
  assumes "seley_ok s" "\<And>j. 0 \<le> y_links_of s j" "list_all (\<lambda>(hp, h). good_host hp) hs" "good_server res"
    "choice_ok mx s (fst best)" "seley_scan force mx now res hs best s = (r, s')"
  shows "same_links s s' \<and> (\<forall>c. r = Inr c \<longrightarrow> choice_ok mx s' c)"
  using assms
proof (induction hs arbitrary: best s)
  case Nil
  then show ?case by (auto simp: same_links_def)
next
  case (Cons e hs)
  obtain hp params where e: "e = (hp, params)" by (cases e)
  have gh: "good_host hp" using Cons.prems(3) by (simp add: e)
  have refl: "same_links s s" using Cons.prems(1) by (simp add: same_links_def)
  have again: ?case if "seley_scan force mx now res hs best1 s1 = (r, s')" "same_links s s1" "choice_ok mx s1 (fst best1)" for best1 s1
  proof -
    have "same_links s1 s' \<and> (\<forall>c. r = Inr c \<longrightarrow> choice_ok mx s' c)"
    proof (rule Cons.IH [OF _ _ _ Cons.prems(4) that(3,1)])
      show "seley_ok s1" "0 \<le> y_links_of s1 j" for j using that(2) Cons.prems(2) by (auto simp: same_links_def)
      show "list_all (\<lambda>(hp, h). good_host hp) hs" using Cons.prems(3) by simp
    qed
    with that(2) same_links_trans show ?thesis by blast
  qed
  have stay: ?case if "seley_scan force mx now res hs best s = (r, s')" using again that refl Cons.prems(5) by blast
  show ?case
  proof (cases "sh_key params = None \<or> sh_key params = Some [] \<or> is_prefix ''_'' hp")
    case True
    from Cons.prems(6) show ?thesis unfolding e seley_scan_Cons if_P [OF True] by (rule stay)
  next
    case look: False
    note run = Cons.prems(6) [unfolded e seley_scan_Cons if_not_P [OF look]]
    consider (bad) x where "seley_ip_dict res hp s = Inl x" | (none) s0 where "seley_ip_dict res hp s = Inr (None, s0)"
      | (found) k s0 where "seley_ip_dict res hp s = Inr (Some k, s0)"
      by (metis sumE prod.exhaust option.exhaust)
    then show ?thesis
    proof cases
      case bad
      with run refl show ?thesis by auto
    next
      case none
      with run show ?thesis by (intro stay) simp
    next
      case found
      define s1 where "s1 = y_put k y_clamp s0"
      note s1 = seley_rated [OF Cons.prems(1,2) gh Cons.prems(4) found s1_def]
      have best1: "choice_ok mx s1 (fst best)" using same_links_choice [OF s1(1) Cons.prems(5)] .
      obtain score b where sb: "get_score (y_ip_str (y_at s1 k)) (sy_base s1) = (score, b)"
        by (cases "get_score (y_ip_str (y_at s1 k)) (sy_base s1)")
      let ?best = "if score < snd best then (Some k, score) else best"
      consider (cont) "seley_scan force mx now res hs best s1 = (r, s')"
        | (hit) "r = Inr (Some k)" "s' = s1" "\<not> mx \<le> y_links (y_at s1 k)"
        | (score) "seley_scan force mx now res hs ?best (s1\<lparr>sy_base := b\<rparr>) = (r, s')" "\<not> mx \<le> y_links (y_at s1 k)"
        using run by (simp add: found s1_def [symmetric] Let_def sb split: if_splits)
      then show ?thesis
      proof cases
        case cont
        then show ?thesis using again s1(1) best1 by blast
      next
        case hit
        then show ?thesis using s1 by simp
      next
        case score
        have "same_links s (s1\<lparr>sy_base := b\<rparr>)" using s1(1) by (simp add: same_links_def)
        moreover have "choice_ok mx (s1\<lparr>sy_base := b\<rparr>) (fst ?best)"
          using best1 s1(2) [OF score(2)] by (simp add: choice_ok_def)
        ultimately show ?thesis using again score(1) by blast
      qed
    qed
  qed
qed

definition seley_take :: "int \<Rightarrow> (time \<times> time \<times> time) \<times> name_server \<Rightarrow> seley \<Rightarrow> string option \<times> seley" where
  "seley_take max_links e s = (case seley_get max_links (fst e) (snd e) s of
      (Inr (Some a), s') \<Rightarrow> (Some (ya_ip_str a), s') | (_, s') \<Rightarrow> (None, s'))"

definition seley_give :: "string \<Rightarrow> bool \<times> name_server \<Rightarrow> seley \<Rightarrow> seley" where
  "seley_give k g s =
     (case (if fst g then seley_connect_closed else seley_connect_fail) (snd g) k s of Inl _ \<Rightarrow> s | Inr s' \<Rightarrow> s')"

datatype seley_note =
    SConnected name_server string real
  | SHosts bool "(string, seley_host) dict"

definition seley_note :: "seley_note \<Rightarrow> seley \<Rightarrow> seley" where
  "seley_note n s = (case n of
      SConnected res k t \<Rightarrow> (case seley_update_ip res k t s of Inl _ \<Rightarrow> s | Inr s' \<Rightarrow> s')
    | SHosts w hosts \<Rightarrow> set_hosts w hosts s)"

text \<open>Success is reported for an address that was handed out.\<close>

definition seley_note_ok :: "seley_note \<Rightarrow> bool" where
  "seley_note_ok n = (case n of
      SConnected res k t \<Rightarrow> good_key k
    | SHosts w hosts \<Rightarrow> list_all (\<lambda>(hp, h). good_host hp) hosts)"

lemma good_key_dict: "good_key k \<Longrightarrow> \<exists>s'. seley_ip_dict res k s = Inr (Some k, s')"
  using host_part_ip_str by (fastforce simp: good_key_def good_addr_def seley_ip_dict_def seley_address_def Let_def)

lemma good_key_host: "good_key k \<Longrightarrow> good_host k"
  using host_part_ip_str by (fastforce simp: good_key_def good_host_def good_addr_def)

lemma on_seley_ip_spec:
  assumes "seley_ok s" "good_key k" "\<And>i. y_ip_str (f i) = y_ip_str i"
  shows "\<exists>s' i. on_seley_ip res k f s = Inr s' \<and> seley_ok s' \<and> y_links i = y_links_of s k
    \<and> (\<forall>j. y_links_of s' j = (if j = k then y_links (f i) else y_links_of s j))"
proof -
  obtain s0 where s0: "seley_ip_dict res k s = Inr (Some k, s0)" using good_key_dict [OF assms(2)] by blast
  then have n: "seley_ip_dict (\<lambda>_ _. None) k s = Inr (Some k, s0)"
    using good_key_dict [OF assms(2), of "\<lambda>_ _. None" s] assms(2) host_part_ip_str
    by (auto simp: seley_ip_dict_def good_key_def good_addr_def seley_address_def Let_def)
  have d: "seley_ok s0" "y_links_of s0 j = y_links_of s j" "dget (sy_dict s0) k \<noteq> None" for j
    using seley_ip_dict_spec [OF assms(1) n good_key_host [OF assms(2)]] by (auto simp: good_server_def)
  show ?thesis
    by (rule exI [of _ "y_put k f s0"], rule exI [of _ "y_at s0 k"])
      (use s0 d y_put_spec [of f s0 k] assms(3) y_at_links [OF d(3)] in \<open>auto simp: on_seley_ip_def\<close>)
qed

lemma seley_hand_out_spec:
  assumes "seley_ok s" "choice_ok mx s (Some k)" "seley_hand_out now k s = (r, s')"
  shows "seley_ok s' \<and> sy_hosts s' = sy_hosts s \<and> (case r of
      Inr (Some a) \<Rightarrow> ya_ip_str a = k \<and> (\<forall>j. y_links_of s' j = y_links_of s j + (if j = k then 1 else 0))
    | _ \<Rightarrow> s' = s)"
proof -
  have k: "dget (sy_dict s) k \<noteq> None" using assms(2) by (simp add: choice_ok_def)
  then have a: "y_ip_str (y_at s k) = k" using assms(1) by (auto simp: y_at_def seley_ok_def)
  show ?thesis
    using assms(1,3) a k y_put_spec [of "\<lambda>i. i\<lparr>y_links := y_links i + 1, y_last_try := now\<rparr>" s k] y_at_links [OF k]
    by (auto simp: seley_hand_out_def split: option.splits)
qed

lemma seley_get_spec:
  assumes "seley_ok s" "\<And>j. 0 \<le> y_links_of s j" "good_server res" "seley_get mx clock res s = (r, s')"
  shows "seley_ok s' \<and> (case r of
      Inr (Some a) \<Rightarrow> good_key (ya_ip_str a) \<and> y_links_of s (ya_ip_str a) < mx
        \<and> (\<forall>j. y_links_of s' j = y_links_of s j + (if j = ya_ip_str a then 1 else 0))
    | _ \<Rightarrow> \<forall>j. y_links_of s' j = y_links_of s j)"
proof -
  have hosts: "list_all (\<lambda>(hp, h). good_host hp) (sy_hosts s)" using assms(1) by (simp add: seley_ok_def)
  have out: "?thesis" if "same_links s s1" "choice_ok mx s1 (Some k)" "seley_hand_out now k s1 = (r, s')" for s1 k now
  proof -
    have ok1: "seley_ok s1" using that(1) by (simp add: same_links_def)
    from seley_hand_out_spec [OF ok1 that(2,3)] that(1,2) show ?thesis
      by (auto simp: same_links_def choice_ok_def split: sum.splits option.splits)
  qed
  have none: "?thesis" if "same_links s s'" "r = Inl e \<or> r = Inr None" for e
    using that by (auto simp: same_links_def)
  obtain t1 t2 t3 where c: "clock = (t1, t2, t3)" by (cases clock)
  show ?thesis
  proof (cases "sy_hosts s = []")
    case True
    then show ?thesis using assms(1,4) by (auto simp: seley_get_def)
  next
    case False
    obtain r1 s1 where 1: "seley_scan False mx t1 res (sy_hosts s) (None, 99) s = (r1, s1)"
      by (cases "seley_scan False mx t1 res (sy_hosts s) (None, 99) s")
    have s1: "same_links s s1" "r1 = Inr c \<Longrightarrow> choice_ok mx s1 c" for c
      using seley_scan_spec [OF assms(1,2) hosts assms(3) _ 1] by (auto simp: choice_ok_def)
    obtain r2 s2 where 2: "seley_scan True mx t2 res (sy_hosts s1) (None, 99) s1 = (r2, s2)"
      by (cases "seley_scan True mx t2 res (sy_hosts s1) (None, 99) s1")
    have n1: "seley_ok s1" "0 \<le> y_links_of s1 j" "list_all (\<lambda>(hp, h). good_host hp) (sy_hosts s1)" for j
      using s1(1) assms(2) hosts by (auto simp: same_links_def)
    have s2: "same_links s s2" "r2 = Inr c \<Longrightarrow> choice_ok mx s2 c" for c
      using seley_scan_spec [OF n1 assms(3) _ 2] same_links_trans [OF s1(1)] by (auto simp: choice_ok_def)
    have eq: "(r, s') = (case r1 of Inl e \<Rightarrow> (Inl e, s1) | Inr (Some k) \<Rightarrow> seley_hand_out t3 k s1
        | Inr None \<Rightarrow> (case r2 of Inl e \<Rightarrow> (Inl e, s2) | Inr (Some k) \<Rightarrow> seley_hand_out t3 k s2 | Inr None \<Rightarrow> (Inr None, s2)))"
      using assms(4) False by (auto simp: seley_get_def c 1 2 split: sum.splits option.splits)
    consider (e1) e where "r1 = Inl e" | (k1) k where "r1 = Inr (Some k)" | (e2) e where "r1 = Inr None" "r2 = Inl e"
      | (k2) k where "r1 = Inr None" "r2 = Inr (Some k)" | (n2) "r1 = Inr None" "r2 = Inr None"
      by (metis sumE option.exhaust)
    then show ?thesis
    proof cases
      case e1
      then show ?thesis using eq none [of e] s1 by simp
    next
      case k1
      then show ?thesis using eq out [of s1 k t3] s1 by simp
    next
      case e2
      then show ?thesis using eq none [of e] s2 by simp
    next
      case k2
      then show ?thesis using eq out [of s2 k t3] s2 by simp
    next
      case n2
      then show ?thesis using eq none s2 by simp
    qed
  qed
qed

interpretation seley_pool: link_pool seley_ok good_key "\<lambda>e. good_server (snd e)" seley_note_ok y_links_of max_links
    "seley_take max_links" seley_give seley_note
  for max_links
proof (unfold_locales, goal_cases)
  case (1 s e s' j)
  obtain r s1 where r: "seley_get max_links (fst e) (snd e) s = (r, s1)" by (cases "seley_get max_links (fst e) (snd e) s")
  from seley_get_spec [OF 1(1,3,2) r] 1(4) r show ?case
    by (auto simp: seley_take_def split: sum.splits option.splits)
next
  case (2 s e k s' j)
  obtain r s1 where r: "seley_get max_links (fst e) (snd e) s = (r, s1)" by (cases "seley_get max_links (fst e) (snd e) s")
  from seley_get_spec [OF 2(1,3,2) r] 2(4) r show ?case
    by (auto simp: seley_take_def split: sum.splits option.splits)
next
  case (3 s k g j)
  define f :: "seley_ip \<Rightarrow> seley_ip" where "f = (if fst g then (\<lambda>i. i\<lparr>y_links := y_links i - 1\<rparr>)
      else (\<lambda>i. i\<lparr>y_fail_times := y_fail_times i + 1, y_links := y_links i - 1\<rparr>))"
  have f: "y_ip_str (f i) = y_ip_str i" "y_links (f i) = y_links i - 1" for i by (simp_all add: f_def)
  from on_seley_ip_spec [OF 3(1,2) f(1), of "snd g"] obtain s' i where
    s': "on_seley_ip (snd g) k f s = Inr s'" "seley_ok s'" "y_links i = y_links_of s k"
      "\<forall>j. y_links_of s' j = (if j = k then y_links (f i) else y_links_of s j)" by blast
  have "seley_give k g s = s'"
    using s'(1) unfolding f_def
    by (cases "fst g") (simp_all add: seley_give_def seley_connect_closed_def seley_connect_fail_def)
  then show ?case using s'(2-4) f(2) by auto
next
  case (4 s n j)
  show ?case
  proof (cases n)
    case (SConnected res k t)
    define f :: "seley_ip \<Rightarrow> seley_ip" where "f = (\<lambda>i. i\<lparr>y_fail_times := 0, y_rtt := t\<rparr>)"
    have f: "y_ip_str (f i) = y_ip_str i" "y_links (f i) = y_links i" for i by (simp_all add: f_def)
    have "good_key k" using 4(2) by (simp add: seley_note_ok_def SConnected)
    from on_seley_ip_spec [OF 4(1) this f(1), of res] obtain s' i where
      s': "on_seley_ip res k f s = Inr s'" "seley_ok s'" "y_links i = y_links_of s k"
        "\<forall>j. y_links_of s' j = (if j = k then y_links (f i) else y_links_of s j)" by blast
    then show ?thesis using f(2) by (simp add: seley_note_def SConnected seley_update_ip_def f_def [symmetric])
  next
    case (SHosts w hosts)
    with 4 show ?thesis
      by (auto simp: seley_note_def seley_note_ok_def set_hosts_def seley_load_def seley_ok_def y_links_of_def)
  qed
qed

text \<open>
  The links of the seley front are counted exactly as well: as long as connections are only
  reported for addresses that were handed out, the count never falls below nothing, although the
  code does not guard against it.
\<close>

theorem seley_links_exact:
  assumes "list_all (\<lambda>(hp, h). good_host hp) hosts" "\<And>ev. ev \<in> set evs \<Longrightarrow>
      (case ev of Take (c, res) \<Rightarrow> good_server res | Give k g \<Rightarrow> True | Note n \<Rightarrow> seley_note_ok n)"
    and "link_run (seley_take max_links) seley_give seley_note evs (seley_init b (Some hosts)) = (s, open_conns)"
  shows "y_links_of s k = int (count open_conns k) \<and> y_links_of s k \<le> max 0 max_links"
proof -
  have ok: "seley_ok (seley_init b (Some hosts))" using assms(1) by (simp add: seley_ok_def seley_init_def seley_load_def)
  have zero: "y_links_of (seley_init b (Some hosts)) j = 0" for j by (simp add: y_links_of_def seley_init_def seley_load_def)
  have ev: "seley_pool.event_ok ev" if "ev \<in> set evs" for ev
    using assms(2) [OF that] by (auto simp: seley_pool.event_ok_def split: link_event.splits)
  have "seley_pool.accounted max_links (s, open_conns)"
    using seley_pool.run_accounted [OF ok zero ev, where max_links = max_links and evs = evs] assms(3) by simp
  then show ?thesis by (simp add: seley_pool.accounted_def)
qed

subsection \<open>A renamed host\<close>

text \<open>
  C40. When the account server renames a host, the record of its address keeps the old name, and
  asking for an address raises \<^verbatim>\<open>KeyError\<close> for as long as that address would be chosen.
\<close>

theorem renamed_host_raises:
  assumes "sh_key params = Some (c # key)" "\<not> is_prefix ''_'' hp"
    and "get_ip_port hp ''443'' = Inr (host, port)" "seley_address res host port = Some (a # ip)"
    and "dget (sy_dict s) (get_ip_str (a # ip) port) = Some i" "y_host_port i \<noteq> hp"
    and "0 \<le> y_links i" "y_links i < max_links" "y_fail_times i = 0"
    and "fst (get_score (y_ip_str i) (sy_base s)) < 99"
  shows "fst (seley_get max_links clock res (set_hosts True [(hp, params)] s)) = Inl KeyError"
proof -
  let ?k = "get_ip_str (a # ip) port" and ?s = "s\<lparr>sy_file := Some [(hp, params)], sy_hosts := [(hp, params)]\<rparr>"
  have h: "set_hosts True [(hp, params)] s = ?s" by (simp add: set_hosts_def seley_load_def)
  have d: "seley_ip_dict res hp ?s = Inr (Some ?k, ?s)"
    using assms(3-5) by (simp add: seley_ip_dict_def dmem_def del: dmem_iff)
  have p: "y_put ?k (\<lambda>i. if y_links i < 0 then i\<lparr>y_links := 0\<rparr> else i) ?s = ?s\<lparr>sy_dict := dset ?k i (sy_dict s)\<rparr>"
    using assms(5,7) by (simp add: y_put_def)
  obtain t1 t2 t3 where c: "clock = (t1, t2, t3)" by (cases clock)
  obtain score b where sc: "get_score (y_ip_str i) (sy_base s) = (score, b)" by (cases "get_score (y_ip_str i) (sy_base s)")
  have "fst (seley_scan False max_links t1 res [(hp, params)] (None, 99) ?s) = Inr (Some ?k)
    \<and> snd (seley_scan False max_links t1 res [(hp, params)] (None, 99) ?s) = ?s\<lparr>sy_dict := dset ?k i (sy_dict s), sy_base := b\<rparr>"
    using assms(1,2,8-10) sc by (simp add: d p y_at_def Let_def)
  then have "seley_scan False max_links t1 res [(hp, params)] (None, 99) ?s = (Inr (Some ?k), ?s\<lparr>sy_dict := dset ?k i (sy_dict s), sy_base := b\<rparr>)"
    by (simp add: prod_eq_iff)
  then show ?thesis unfolding h
    using assms(6) by (simp add: seley_get_def c seley_hand_out_def y_at_def)
qed

definition seley_params_ex :: seley_host where "seley_params_ex = \<lparr>sh_key = Some ''k'', sh_adjust = None\<rparr>"

definition seley_base_ex :: ip_base where
  "seley_base_ex = \<lparr>ip_str_states = [], ip_str_info = [], info_last_save = 0, info_saves = 0,
     default_info = \<lparr>q_score = 1, q_rtt = 100, q_speed = 1000\<rparr>, base_ips = []\<rparr>"

text \<open>The front after one connection to \<^verbatim>\<open>a.com\<close> was opened and closed again.\<close>

definition seley_used_ex :: seley where
  "seley_used_ex = seley_give ''1.2.3.4:443'' (True, \<lambda>_ _. Some [''1.2.3.4''])
     (snd (seley_take 20 ((5, 5, 5), \<lambda>_ _. Some [''1.2.3.4''])
        (seley_init seley_base_ex (Some [(''a.com:443'', seley_params_ex)]))))"

lemma seley_texts:
  "get_ip_port ''a.com:443'' ''443'' = Inr (''a.com'', 443)" "get_ip_port ''b.com:443'' ''443'' = Inr (''b.com'', 443)"
  "get_ip_port ''1.2.3.4:443'' ''443'' = Inr (''1.2.3.4'', 443)" "check_ip_valid ''1.2.3.4''"
  "\<not> check_ip_valid ''a.com''" "\<not> check_ip_valid ''b.com''" "get_ip_str ''1.2.3.4'' 443 = ''1.2.3.4:443''"
  by code_simp+

lemma seley_used_record:
  "dget (sy_dict seley_used_ex) ''1.2.3.4:443'' = Some \<lparr>y_ip_str = ''1.2.3.4:443'', y_host_port = ''a.com:443'',
     y_fail_times = 0, y_links = 0, y_rtt = 1000, y_last_try = 5\<rparr>"
  by (simp add: seley_used_ex_def seley_give_def seley_take_def seley_get_def seley_init_def seley_load_def seley_params_ex_def
      seley_ip_dict_def seley_texts seley_address_def y_put_def y_at_def get_score_def get_info_def seley_base_ex_def
      seley_hand_out_def seley_connect_closed_def on_seley_ip_def Let_def)

lemma seley_used_base: "fst (get_score ''1.2.3.4:443'' (sy_base seley_used_ex)) = 1"
  by (simp add: seley_used_ex_def seley_give_def seley_take_def seley_get_def seley_init_def seley_load_def seley_params_ex_def
      seley_ip_dict_def seley_texts seley_address_def y_put_def y_at_def get_score_def get_info_def seley_base_ex_def
      seley_hand_out_def seley_connect_closed_def on_seley_ip_def Let_def)

theorem renamed_host_raises_witness:
  "fst (seley_get 20 (9, 9, 9) (\<lambda>_ _. Some [''1.2.3.4'']) (set_hosts True [(''b.com:443'', seley_params_ex)] seley_used_ex)) = Inl KeyError"
  by (rule renamed_host_raises [where c = "CHR ''k''" and key = "[]" and host = "''b.com''" and port = 443 and a = "CHR ''1''" and ip = "''.2.3.4''"
        and i = "\<lparr>y_ip_str = ''1.2.3.4:443'', y_host_port = ''a.com:443'', y_fail_times = 0, y_links = 0, y_rtt = 1000, y_last_try = 5\<rparr>"])
    (simp_all add: seley_texts seley_address_def seley_used_record seley_used_base seley_params_ex_def)

end
