(* ===== verification/Ip_Source.thy ===== *)
theory Ip_Source
  imports Net_Text Py_Struct
begin

text \<open>
  lib/noarch/front_base/ip_source.py and random_get_slice.py: where the scanner takes its
  addresses from.

  A file is its content.  The random numbers are arguments; a draw is reduced to the interval it
  is asked for.  Asking for a number from an empty interval is a \<^verbatim>\<open>ValueError\<close>.
\<close>

subsection \<open>Lists and ranges\<close>

definition draw :: "int \<Rightarrow> int \<Rightarrow> nat \<Rightarrow> exn + int" where
  "draw lo hi r = (if hi < lo then Inl ValueError else Inr (lo + int r mod (hi - lo + 1)))"

definition simple_get_ip :: "nat \<Rightarrow> string list \<Rightarrow> string" where
  "simple_get_ip r ips = (if ips = [] then [] else ips ! (r mod length ips))"

text \<open>\<^verbatim>\<open>splitlines\<close> for ASCII text.\<close>

definition line_break :: "char \<Rightarrow> bool" where
  "line_break c \<longleftrightarrow> of_char c \<in> {0x0A, 0x0B, 0x0C, 0x0D, 0x1C, 0x1D, 0x1E :: nat}"

function split_lines :: "string \<Rightarrow> string list" where
  "split_lines s = (if s = [] then []
     else takeWhile (\<lambda>c. \<not> line_break c) s # split_lines (drop 1 (dropWhile (\<lambda>c. \<not> line_break c) s)))"
  by pat_completeness auto
termination
  by (relation "measure length") (auto simp: less_Suc_eq_le length_dropWhile_le diff_less_Suc
      intro!: le_less_trans [OF diff_le_mono [OF length_dropWhile_le]] diff_less)

declare split_lines.simps [simp del]

text \<open>The user's file wins if it is there and longer than ten characters.\<close>

definition load_range_content :: "bool \<Rightarrow> string option \<Rightarrow> string \<Rightarrow> string" where
  "load_range_content dflt user_file default_file = (case user_file of
      Some content \<Rightarrow> if \<not> dflt \<and> length content > 10 then content else default_file
    | None \<Rightarrow> default_file)"

definition parse_range :: "string \<Rightarrow> (int \<times> int) option" where
  "parse_range line = (case split_ip line of
      Inl _ \<Rightarrow> None
    | Inr (b, e) \<Rightarrow> (case (ip_string_to_num b, ip_string_to_num e) of
        (Inr nb, Inr ne) \<Rightarrow> if nb = 0 \<or> ne = 0 \<or> ne < nb then None else Some (nb, ne)
      | _ \<Rightarrow> None))"

record range_source =
  rs_map :: "(int, int \<times> int) dict"
  rs_list :: "(int \<times> int) list"
  rs_index :: "int list"
  rs_amount :: int

definition add_range :: "string \<Rightarrow> range_source \<Rightarrow> range_source" where
  "add_range line rs =
     (if line = [] \<or> hd line = CHR ''#'' then rs
      else case parse_range line of
          None \<Rightarrow> rs
        | Some r \<Rightarrow> rs\<lparr>rs_map := dset (rs_amount rs) r (rs_map rs), rs_list := rs_list rs @ [r],
                       rs_index := rs_index rs @ [rs_amount rs], rs_amount := rs_amount rs + (snd r - fst r)\<rparr>)"

definition load_ip_range :: "string option \<Rightarrow> string \<Rightarrow> range_source" where
  "load_ip_range user_file default_file =
     (let rs = fold add_range (split_lines (load_range_content False user_file default_file))
                 \<lparr>rs_map = [], rs_list = [], rs_index = [], rs_amount = 0\<rparr>
      in rs\<lparr>rs_index := sort (rs_index rs)\<rparr>)"

text \<open>
  The loop of \<^verbatim>\<open>get_ip\<close>, one pair of draws for each turn; \<open>None\<close> if it still runs when the draws
  are used up.
\<close>

fun range_get_ip :: "(nat \<times> nat) list \<Rightarrow> range_source \<Rightarrow> (exn + string option) option" where
  "range_get_ip [] rs = None"
| "range_get_ip ((a, b) # ds) rs = (case draw 0 (int (length (rs_list rs)) - 1) a of
      Inl e \<Rightarrow> Some (Inl e)
    | Inr index \<Rightarrow>
        (let (lo, hi) = rs_list rs ! nat index
         in if hi = lo then Some (Inr (Some (ip_num_to_string hi)))
            else case draw 0 (hi - lo) b of
                Inl e \<Rightarrow> Some (Inr None)
              | Inr id_2 \<Rightarrow> (let ip = lo + id_2; last_byte = ip mod 256
                  in if last_byte = 0 \<or> last_byte = 255 then range_get_ip ds rs
                     else Some (Inr (Some (ip_num_to_string ip))))))"

subsection \<open>The binary pool\<close>

text \<open>\<^verbatim>\<open>check_bin\<close>: the binary file is there and not older than its source.\<close>

definition check_bin :: "time option \<Rightarrow> time \<Rightarrow> bool" where
  "check_bin bin_time source_time = (case bin_time of None \<Rightarrow> False | Some t \<Rightarrow> \<not> t < source_time)"

fun generate_bin :: "string list \<Rightarrow> exn + bytes" where
  "generate_bin [] = Inr []"
| "generate_bin (line # ls) = (case ip_string_to_num line of
      Inl e \<Rightarrow> generate_bin ls
    | Inr n \<Rightarrow> if n < 0 then Inl StructError
        else case pack_u 4 (nat n) of
            Inl e \<Rightarrow> Inl e
          | Inr b \<Rightarrow> (case generate_bin ls of Inl e \<Rightarrow> Inl e | Inr bs \<Rightarrow> Inr (b @ bs)))"

definition pool_init :: "time option \<Rightarrow> time \<Rightarrow> string list \<Rightarrow> bytes \<Rightarrow> exn + bytes" where
  "pool_init bin_time source_time ls old = (if check_bin bin_time source_time then Inr old else generate_bin ls)"

text \<open>
  Five attempts.  The position may be the end of the file, where nothing can be read.  The bound
  \<^verbatim>\<open>bin_size/4\<close> is a float; \<open>float_bounds\<close> tells whether \<^verbatim>\<open>randint\<close> takes one (it does up to
  Python 3.11, if it has an integral value).
\<close>

fun pool_tries :: "nat list \<Rightarrow> bytes \<Rightarrow> exn + string" where
  "pool_tries [] bin = Inl (PyException ''get ip fail.'')"
| "pool_tries (r # rs) bin =
     (let position = r mod (length bin div 4 + 1) * 4; ip_bin = take 4 (drop position bin)
      in if length ip_bin \<noteq> 4 then pool_tries rs bin
         else case unpack_u 4 ip_bin of Inl e \<Rightarrow> Inl e | Inr n \<Rightarrow> Inr (ip_num_to_string (int n)))"

definition pool_get_ip :: "bool \<Rightarrow> nat list \<Rightarrow> bytes \<Rightarrow> exn + string" where
  "pool_get_ip float_bounds draws bin =
     (if \<not> float_bounds then Inl (PyException ''TypeError'')
      else if length bin mod 4 \<noteq> 0 then Inl ValueError
      else pool_tries (take 5 draws) bin)"

subsection \<open>A line from a random place\<close>

definition random_slice :: "char \<Rightarrow> nat \<Rightarrow> nat \<Rightarrow> string \<Rightarrow> exn + string" where
  "random_slice spliter line_max_size r content =
     (case draw 0 (int (length content) - int (line_max_size * 2)) r of
        Inl e \<Rightarrow> Inl e
      | Inr position \<Rightarrow>
          (let ns = split_on spliter (take (line_max_size * 2) (drop (nat position) content))
           in if length ns < 3 then Inl (PyException ''random read line fail'') else Inr (ns ! 1)))"

text \<open>\<^verbatim>\<open>line.split()\<close>: the words between white space.\<close>

definition first_word :: "string \<Rightarrow> exn + string" where
  "first_word line = (let l = lstrip line in if l = [] then Inl IndexError else Inr (takeWhile (\<lambda>c. \<not> is_space c) l))"

definition pool6_get_ip :: "nat \<Rightarrow> string \<Rightarrow> exn + string" where
  "pool6_get_ip r content = (case random_slice CHR 0x0A 200 r content of Inl e \<Rightarrow> Inl e | Inr line \<Rightarrow> first_word line)"

text \<open>Which of the two sources is asked: \<open>True\<close> for IPv6.\<close>

definition combine_choice :: "string option \<Rightarrow> string \<Rightarrow> real \<Rightarrow> nat \<Rightarrow> bool" where
  "combine_choice asked cfg_use_ipv6 ipv6_scan_ratio r =
     (let use_ipv6 = (case asked of None \<Rightarrow> cfg_use_ipv6 | Some u \<Rightarrow> u)
      in if use_ipv6 = ''force_ipv4'' then False
         else if use_ipv6 = ''force_ipv6'' then True
         else real (r mod 101) < ipv6_scan_ratio)"

definition combine_get_ip :: "string option \<Rightarrow> string \<Rightarrow> real \<Rightarrow> nat \<Rightarrow> 'a \<Rightarrow> 'a \<Rightarrow> 'a" where
  "combine_get_ip asked cfg_use_ipv6 ipv6_scan_ratio r v4 v6 =
     (if combine_choice asked cfg_use_ipv6 ipv6_scan_ratio r then v6 else v4)"

subsection \<open>What the sources give\<close>

lemma draw_Inr: "draw lo hi r = Inr x \<Longrightarrow> lo \<le> x \<and> x \<le> hi"
  using pos_mod_bound [of "hi - lo + 1" "int r"] by (auto simp: draw_def split: if_splits)

lemma draw_hit: "lo \<le> x \<Longrightarrow> x \<le> hi \<Longrightarrow> draw lo hi (nat (x - lo)) = Inr x"
  by (simp add: draw_def)

definition in_reach :: "int \<times> int \<Rightarrow> int \<Rightarrow> bool" where
  "in_reach r ip \<longleftrightarrow> fst r \<le> ip \<and> ip \<le> snd r \<and> (fst r = snd r \<or> ip mod 256 \<notin> {0, 255})"

definition ranges_ok :: "range_source \<Rightarrow> bool" where
  "ranges_ok rs \<longleftrightarrow> (\<forall>r \<in> set (rs_list rs). fst r \<le> snd r)"

lemma load_ranges_ok: "ranges_ok (load_ip_range u d)"
proof -
  have "ranges_ok rs \<Longrightarrow> ranges_ok (add_range line rs)" for line rs
    by (auto simp: add_range_def ranges_ok_def parse_range_def split: option.splits sum.splits if_splits)
  then have f: "ranges_ok rs \<Longrightarrow> ranges_ok (fold add_range ls rs)" for ls rs
    by (induction ls arbitrary: rs) auto
  have "ranges_ok (fold add_range (split_lines (load_range_content False u d)) \<lparr>rs_map = [], rs_list = [], rs_index = [], rs_amount = 0\<rparr>)"
    by (rule f) (simp add: ranges_ok_def)
  then show ?thesis by (simp add: load_ip_range_def Let_def ranges_ok_def)
qed

lemma range_turn:
  assumes "rs_list rs \<noteq> []" "ranges_ok rs"
  obtains lo hi where "(lo, hi) \<in> set (rs_list rs)" "lo \<le> hi"
    "lo = hi \<Longrightarrow> range_get_ip ((a, b) # ds) rs = Some (Inr (Some (ip_num_to_string lo)))"
    "lo < hi \<Longrightarrow> \<exists>ip. lo \<le> ip \<and> ip \<le> hi \<and> range_get_ip ((a, b) # ds) rs =
       (if ip mod 256 \<in> {0, 255} then range_get_ip ds rs else Some (Inr (Some (ip_num_to_string ip))))"
proof -
  have "0 \<le> int (length (rs_list rs)) - 1" using assms(1) by (cases "rs_list rs") auto
  then obtain i where i: "draw 0 (int (length (rs_list rs)) - 1) a = Inr i" by (auto simp: draw_def)
  from draw_Inr [OF i] have n: "nat i < length (rs_list rs)" using assms(1) by auto
  obtain lo hi where r: "rs_list rs ! nat i = (lo, hi)" by (cases "rs_list rs ! nat i")
  have mem: "(lo, hi) \<in> set (rs_list rs)" using nth_mem [OF n] r by simp
  have le: "lo \<le> hi" using mem assms(2) by (auto simp: ranges_ok_def)
  have "\<exists>ip. lo \<le> ip \<and> ip \<le> hi \<and> range_get_ip ((a, b) # ds) rs =
       (if ip mod 256 \<in> {0, 255} then range_get_ip ds rs else Some (Inr (Some (ip_num_to_string ip))))" if "lo < hi"
  proof -
    from that obtain k where k: "draw 0 (hi - lo) b = Inr k" by (auto simp: draw_def)
    from draw_Inr [OF k] that show ?thesis by (intro exI [of _ "lo + k"]) (simp add: i r k Let_def)
  qed
  then show thesis using that [OF mem le] i r by simp
qed

lemma range_get_ip_sound:
  assumes "rs_list rs \<noteq> []" "ranges_ok rs" "range_get_ip ds rs = Some x"
  shows "\<exists>r ip. r \<in> set (rs_list rs) \<and> in_reach r ip \<and> x = Inr (Some (ip_num_to_string ip))"
  using assms(3)
proof (induction ds)
  case (Cons d ds)
  obtain a b where d: "d = (a, b)" by (cases d)
  show ?case
  proof (rule range_turn [OF assms(1,2), of a b ds])
    fix lo hi
    assume r: "(lo, hi) \<in> set (rs_list rs)" "lo \<le> hi" "lo = hi \<Longrightarrow> range_get_ip ((a, b) # ds) rs = Some (Inr (Some (ip_num_to_string lo)))"
      "lo < hi \<Longrightarrow> \<exists>ip. lo \<le> ip \<and> ip \<le> hi \<and> range_get_ip ((a, b) # ds) rs =
         (if ip mod 256 \<in> {0, 255} then range_get_ip ds rs else Some (Inr (Some (ip_num_to_string ip))))"
    show ?case
    proof (cases "lo = hi")
      case True
      with r Cons.prems show ?thesis by (intro exI [of _ "(lo, hi)"] exI [of _ lo]) (auto simp: in_reach_def d)
    next
      case False
      with r(2,4) obtain ip where ip: "lo \<le> ip" "ip \<le> hi" "range_get_ip ((a, b) # ds) rs =
         (if ip mod 256 \<in> {0, 255} then range_get_ip ds rs else Some (Inr (Some (ip_num_to_string ip))))" by force
      show ?thesis
      proof (cases "ip mod 256 \<in> {0, 255}")
        case True
        with ip(3) Cons show ?thesis by (simp add: d)
      next
        case False
        with ip Cons.prems r(1) show ?thesis by (intro exI [of _ "(lo, hi)"] exI [of _ ip]) (auto simp: in_reach_def d)
      qed
    qed
  qed
qed simp

lemma range_get_ip_complete:
  assumes "ranges_ok rs" "r \<in> set (rs_list rs)" "in_reach r ip"
  shows "\<exists>ds. range_get_ip ds rs = Some (Inr (Some (ip_num_to_string ip)))"
proof -
  obtain lo hi where r: "r = (lo, hi)" by (cases r)
  obtain i where i: "i < length (rs_list rs)" "rs_list rs ! i = (lo, hi)" using assms(2) by (auto simp: r in_set_conv_nth)
  have "draw 0 (int (length (rs_list rs)) - 1) i = Inr (int i)" using draw_hit [of 0 "int i" "int (length (rs_list rs)) - 1"] i(1) by simp
  moreover have "draw 0 (hi - lo) (nat (ip - lo)) = Inr (ip - lo)"
    using draw_hit [of 0 "ip - lo" "hi - lo"] assms(3) by (simp add: in_reach_def r)
  ultimately have "range_get_ip [(i, nat (ip - lo))] rs = Some (Inr (Some (ip_num_to_string ip)))"
    using i assms(3) by (auto simp: in_reach_def r Let_def)
  then show ?thesis by blast
qed

text \<open>
  C39. The loop that draws an address from the loaded ranges can end if and only if some range is a
  single address or has an address whose last byte is neither 0 nor 255; with other ranges only it
  runs for ever.  It never raises or comes back empty, and the addresses it can give are exactly those.
\<close>

theorem range_source_ends:
  assumes "rs = load_ip_range user_file default_file" "rs_list rs \<noteq> []"
  shows "(\<exists>ds x. range_get_ip ds rs = Some x) = (\<exists>r \<in> set (rs_list rs). \<exists>ip. in_reach r ip)
    \<and> (\<forall>x. (\<exists>ds. range_get_ip ds rs = Some x) =
         (\<exists>r \<in> set (rs_list rs). \<exists>ip. in_reach r ip \<and> x = Inr (Some (ip_num_to_string ip))))"
proof -
  have ok: "ranges_ok rs" by (simp add: assms(1) load_ranges_ok)
  have "(\<exists>ds. range_get_ip ds rs = Some x) = (\<exists>r \<in> set (rs_list rs). \<exists>ip. in_reach r ip \<and> x = Inr (Some (ip_num_to_string ip)))" for x
    using range_get_ip_sound [OF assms(2) ok] range_get_ip_complete [OF ok] by blast
  then show ?thesis by blast
qed

theorem range_source_ends_witness:
  "\<not> (\<exists>ds x. range_get_ip ds (load_ip_range None ''1.2.3.255-1.2.4.0'') = Some x)"
proof -
  let ?rs = "load_ip_range None ''1.2.3.255-1.2.4.0''"
  have l: "rs_list ?rs = [(16909311, 16909312)]" by code_simp
  have "\<not> in_reach (16909311, 16909312) ip" for ip
  proof
    assume "in_reach (16909311, 16909312) ip"
    then have "ip = 16909311 \<or> ip = 16909312" "ip mod 256 \<notin> {0, 255}" by (auto simp: in_reach_def)
    then show False by auto
  qed
  with range_source_ends [of ?rs None "''1.2.3.255-1.2.4.0''", OF refl] l show ?thesis by simp
qed

text \<open>A line from a random place is a whole line of the file, and neither the first nor the last one.\<close>

theorem random_line_whole:
  assumes "random_slice c m r content = Inr line"
  shows "\<exists>a b. content = a @ c # line @ c # b \<and> c \<notin> set line"
proof -
  obtain pos where pos: "draw 0 (int (length content) - int (m * 2)) r = Inr pos"
    using assms by (auto simp: random_slice_def split: sum.splits)
  let ?seg = "take (m * 2) (drop (nat pos) content)"
  have s: "3 \<le> length (split_on c ?seg)" "split_on c ?seg ! 1 = line"
    using assms unfolding random_slice_def pos by (auto simp: Let_def split: if_splits)
  then obtain p q ps where ps: "split_on c ?seg = p # line # q # ps"
    by (auto simp: numeral_3_eq_3 Suc_le_length_iff)
  have "?seg = p @ c # line @ c # join [c] (q # ps)" using join_split [of c ?seg] by (simp add: ps)
  then have "content = (take (nat pos) content @ p) @ c # line @ c # (join [c] (q # ps) @ drop (m * 2) (drop (nat pos) content))"
    by (metis append.assoc append_Cons append_take_drop_id)
  moreover have "c \<notin> set line" using split_on_parts [of line c ?seg] by (simp add: ps)
  ultimately show ?thesis by blast
qed

lemma random_line_whole_witness: "\<exists>a b. ''ab.cd.ef'' = a @ CHR ''.'' # ''cd'' @ CHR ''.'' # b \<and> CHR ''.'' \<notin> set ''cd''"
  by (rule random_line_whole [of _ 4 0]) code_simp

text \<open>A file shorter than two lines of the greatest length can never be read.\<close>

lemma short_file_raises: "length content < m * 2 \<Longrightarrow> random_slice c m r content = Inl ValueError"
  by (simp add: random_slice_def draw_def)

text \<open>An address of the binary pool is one of the text file it was made from.\<close>

lemma generate_bin_nums:
  assumes "generate_bin ls = Inr bin"
  shows "\<exists>ns. bin = concat (map (le_bytes 4) ns) \<and> list_all (\<lambda>n. n < 256 ^ 4 \<and> (\<exists>l \<in> set ls. ip_string_to_num l = Inr (int n))) ns"
  using assms
proof (induction ls arbitrary: bin)
  case (Cons l ls)
  show ?case
  proof (cases "ip_string_to_num l")
    case (Inl e)
    with Cons show ?thesis by (force simp: list_all_iff)
  next
    case (Inr n)
    with Cons.prems have n: "0 \<le> n" by (auto split: if_splits)
    with Cons.prems Inr obtain bs where b: "nat n < 256 ^ 4" "generate_bin ls = Inr bs" "bin = le_bytes 4 (nat n) @ bs"
      by (auto simp: pack_u_def split: if_splits sum.splits)
    from Cons.IH [OF b(2)] obtain ns where ns: "bs = concat (map (le_bytes 4) ns)"
      "list_all (\<lambda>n. n < 256 ^ 4 \<and> (\<exists>l \<in> set ls. ip_string_to_num l = Inr (int n))) ns" by blast
    have "list_all (\<lambda>m. m < 256 ^ 4 \<and> (\<exists>k \<in> set (l # ls). ip_string_to_num k = Inr (int m))) (nat n # ns)"
      using ns(2) b(1) Inr n by (auto simp: list_all_iff)
    moreover have "bin = concat (map (le_bytes 4) (nat n # ns))" by (simp only: b(3) ns(1) list.map concat.simps)
    ultimately show ?thesis by blast
  qed
next
  case Nil
  then show ?case by (intro exI [of _ "[]"]) simp
qed

lemma nth_field: "i < length ns \<Longrightarrow> take 4 (drop (i * 4) (concat (map (le_bytes 4) ns))) = le_bytes 4 (ns ! i)"
proof (induction ns arbitrary: i)
  case (Cons n ns)
  show ?case
  proof (cases i)
    case 0
    then show ?thesis by (simp del: le_bytes.simps)
  next
    case (Suc j)
    with Cons show ?thesis by (simp del: le_bytes.simps add: add.commute)
  qed
qed simp

theorem pool_address_from_file:
  assumes "generate_bin ls = Inr bin" "pool_get_ip True draws bin = Inr a"
  shows "\<exists>n. a = ip_num_to_string (int n) \<and> (\<exists>l \<in> set ls. ip_string_to_num l = Inr (int n))"
proof -
  obtain ns where ns: "bin = concat (map (le_bytes 4) ns)"
    "list_all (\<lambda>n. n < 256 ^ 4 \<and> (\<exists>l \<in> set ls. ip_string_to_num l = Inr (int n))) ns"
    using generate_bin_nums [OF assms(1)] by blast
  have len: "length bin = 4 * length ns" unfolding ns(1) by (induction ns) (simp_all del: le_bytes.simps)
  have "pool_tries rs bin = Inr a \<Longrightarrow> \<exists>n \<in> set ns. a = ip_num_to_string (int n)" for rs
  proof (induction rs)
    case (Cons r rs)
    let ?i = "r mod (length bin div 4 + 1)"
    show ?case
    proof (cases "?i < length ns")
      case True
      have f: "take 4 (drop (?i * 4) bin) = le_bytes 4 (ns ! ?i)" unfolding ns(1) using nth_field True ns(1) by simp
      have "ns ! ?i < 256 ^ 4" using ns(2) True by (simp add: list_all_iff)
      with Cons.prems True show ?thesis unfolding pool_tries.simps Let_def f
        by (auto simp: unpack_u_le_bytes simp del: le_bytes.simps)
    next
      case False
      then have d: "drop (?i * 4) bin = []" using len by simp
      from Cons show ?thesis unfolding pool_tries.simps Let_def d by simp
    qed
  qed simp
  moreover have "pool_tries (take 5 draws) bin = Inr a" using assms(2) by (simp add: pool_get_ip_def split: if_splits)
  ultimately show ?thesis using ns(2) unfolding list_all_iff by blast
qed

end
