(* ===== verification/Check_Network.thy ===== *)
theory Check_Network
  imports Net_Text
begin

text \<open>
  x_tunnel/local/check_local_network.py: whether the local network works, as the address pool and
  the connection manager ask it.

  A check is a thread; its start is an output, its end an operation of its own, so that checks
  overlap with everything else.  The answers of the test hosts and every reading of the clock are
  arguments.
\<close>

datatype net_stat = Unknown | NetOK | NetFail

record check_net =
  cn_urls :: "string list"
  cn_checking :: int
  cn_stat :: net_stat
  cn_last :: time
  cn_fails :: int

definition check_net_init :: "string list \<Rightarrow> check_net" where
  "check_net_init urls = \<lparr>cn_urls = urls, cn_checking = 0, cn_stat = Unknown, cn_last = 0, cn_fails = 0\<rparr>"

text \<open>The rules of the configuration; without one they are \<^verbatim>\<open>normal\<close>.\<close>

definition load_rules :: "string option option \<Rightarrow> string" where
  "load_rules config = (case config of Some (Some r) \<Rightarrow> r | _ \<Rightarrow> ''normal'')"

definition net_ok :: "time \<Rightarrow> check_net \<Rightarrow> check_net" where
  "net_ok now s = s\<lparr>cn_stat := NetOK, cn_last := now, cn_fails := 0\<rparr>"

text \<open>
  The answer tells whether a check was started.  If the thread cannot be started the exception goes
  on, with the count put back.
\<close>

definition trigger_check :: "bool \<Rightarrow> bool \<Rightarrow> bool \<Rightarrow> time \<Rightarrow> check_net \<Rightarrow> (exn + bool) \<times> check_net" where
  "trigger_check can_start fail force now s =
     (if \<not> force \<and> (cn_checking s > 0 \<or>
           (if fail \<or> cn_stat s \<noteq> NetOK then now - cn_last s < 3 else now - cn_last s < 10))
      then (Inr False, s)
      else let s1 = s\<lparr>cn_last := now, cn_checking := cn_checking s + 1\<rparr>
           in if can_start then (Inr True, s1)
              else (Inl (PyException ''RuntimeError''), s1\<lparr>cn_checking := cn_checking s1 - 1\<rparr>))"

definition net_fail :: "bool \<Rightarrow> time \<times> time \<Rightarrow> check_net \<Rightarrow> (exn + bool) \<times> check_net" where
  "net_fail can_start clock s =
     (let s1 = s\<lparr>cn_fails := cn_fails s + 1\<rparr>
      in if cn_fails s1 > 1 \<and> fst clock - cn_last s1 > 30
         then trigger_check can_start True False (snd clock) s1 else (Inr False, s1))"

definition get_stat :: "string \<Rightarrow> check_net \<Rightarrow> net_stat" where
  "get_stat rules s = (if rules = ''force_fail'' then NetFail else if rules = ''force_ok'' then NetOK else cn_stat s)"

definition net_is_ok :: "string \<Rightarrow> bool \<Rightarrow> time \<times> time \<times> time \<Rightarrow> check_net \<Rightarrow> (exn + bool) \<times> check_net" where
  "net_is_ok rules can_start clock s =
     (let (t1, t2, t3) = clock;
          (r, s1) = (if cn_stat s = Unknown \<or> t1 - cn_last s > 30
                     then trigger_check can_start True False t2 s else (Inr False, s))
      in case r of
           Inl e \<Rightarrow> (Inl e, s1)
         | Inr _ \<Rightarrow>
             (Inr (if rules = ''normal'' then cn_stat s1 = NetOK \<and> t3 - cn_last s1 < 30 + 5
                   else if rules = ''force_fail'' then False
                   else if rules = ''force_ok'' then True
                   else cn_stat s1 = NetOK), s1))"

text \<open>The end of a check: the hosts are tried in turn until one answers.\<close>

definition check_done :: "(string \<Rightarrow> bool) \<Rightarrow> time \<times> time \<Rightarrow> check_net \<Rightarrow> check_net" where
  "check_done answers clock s =
     (let s1 = (if list_ex answers (cn_urls s) then net_ok (snd clock) (s\<lparr>cn_last := fst clock\<rparr>)
                else s\<lparr>cn_stat := NetFail, cn_last := fst clock\<rparr>)
      in s1\<lparr>cn_checking := cn_checking s1 - 1\<rparr>)"

subsection \<open>Both kinds of address\<close>

record check_nets =
  net4 :: check_net
  net6 :: check_net

definition nets_init :: check_nets where
  "nets_init = \<lparr>net4 = check_net_init [''https://www.bing.com'', ''https://cdn.bootcdn.net'', ''https://cdn.staticfile.org''],
     net6 = check_net_init [''https://ipv6.vm3.test-ipv6.com'', ''https://ipv6.lookup.test-ipv6.com'', ''https://v6.myip.la'']\<rparr>"

definition report_ok :: "time \<Rightarrow> string \<Rightarrow> check_nets \<Rightarrow> check_nets" where
  "report_ok now ip n = (if CHR ''.'' \<in> set ip then n\<lparr>net4 := net_ok now (net4 n)\<rparr> else n\<lparr>net6 := net_ok now (net6 n)\<rparr>)"

definition report_fail :: "bool \<Rightarrow> time \<times> time \<Rightarrow> string \<Rightarrow> check_nets \<Rightarrow> (exn + bool) \<times> check_nets" where
  "report_fail can_start clock ip n =
     (if CHR ''.'' \<in> set ip
      then (let (r, s) = net_fail can_start clock (net4 n) in (r, n\<lparr>net4 := s\<rparr>))
      else (let (r, s) = net_fail can_start clock (net6 n) in (r, n\<lparr>net6 := s\<rparr>)))"

definition is_ok :: "string \<Rightarrow> bool \<Rightarrow> time \<times> time \<times> time \<Rightarrow> time \<times> time \<times> time \<Rightarrow> string \<Rightarrow> check_nets \<Rightarrow> (exn + bool) \<times> check_nets" where
  "is_ok rules can_start clock4 clock6 ip n =
     (let (r4, s4) = net_is_ok rules can_start clock4 (net4 n); (r6, s6) = net_is_ok rules can_start clock6 (net6 n)
      in if ip = [] then
           (case r4 of
              Inr False \<Rightarrow> (r6, n\<lparr>net4 := s4, net6 := s6\<rparr>)
            | _ \<Rightarrow> (r4, n\<lparr>net4 := s4\<rparr>))
         else if CHR ''.'' \<in> set ip then (r4, n\<lparr>net4 := s4\<rparr>) else (r6, n\<lparr>net6 := s6\<rparr>))"

subsection \<open>One check at a time\<close>

text \<open>
  The states that the operations lead to, with the number of check threads that run.  A check is
  never forced: no caller does it.
\<close>

inductive net_reach :: "check_net \<Rightarrow> nat \<Rightarrow> bool" where
  net_start: "net_reach (check_net_init urls) 0"
| net_good: "net_reach s n \<Longrightarrow> net_reach (net_ok now s) n"
| net_trigger: "net_reach s n \<Longrightarrow> trigger_check can_start fail False now s = (r, s')
    \<Longrightarrow> net_reach s' (if r = Inr True then Suc n else n)"
| net_bad: "net_reach s n \<Longrightarrow> net_fail can_start clock s = (r, s') \<Longrightarrow> net_reach s' (if r = Inr True then Suc n else n)"
| net_asked: "net_reach s n \<Longrightarrow> cn_stat s = Unknown \<or> t1 - cn_last s > 30 \<Longrightarrow> trigger_check can_start True False t2 s = (r, s')
    \<Longrightarrow> net_reach s' (if r = Inr True then Suc n else n)"
| net_done: "net_reach s (Suc n) \<Longrightarrow> net_reach (check_done answers clock s) n"

lemma trigger_count:
  assumes "cn_checking s = int n" "n \<le> 1" "trigger_check can_start fail False now s = (r, s')"
  shows "cn_checking s' = int (if r = Inr True then Suc n else n) \<and> (if r = Inr True then Suc n else n) \<le> 1"
  using assms by (auto simp: trigger_check_def Let_def split: if_splits)

lemma net_fail_count:
  assumes "cn_checking s = int n" "n \<le> 1" "net_fail can_start clock s = (r, s')"
  shows "cn_checking s' = int (if r = Inr True then Suc n else n) \<and> (if r = Inr True then Suc n else n) \<le> 1"
proof (cases "cn_fails s + 1 > 1 \<and> fst clock - cn_last s > 30")
  case True
  then have "trigger_check can_start True False (snd clock) (s\<lparr>cn_fails := cn_fails s + 1\<rparr>) = (r, s')"
    using assms(3) by (simp add: net_fail_def)
  from trigger_count [OF _ assms(2) this] assms(1) show ?thesis by simp
next
  case False
  with assms show ?thesis by (auto simp: net_fail_def)
qed

text \<open>
  The count of checks is the number of check threads that run, and there is never more than one.
\<close>

theorem one_check_at_a_time:
  assumes "net_reach s n"
  shows "cn_checking s = int n \<and> n \<le> 1"
  using assms
proof (induction rule: net_reach.induct)
  case (net_trigger s n can_start fail now r s')
  then show ?case using trigger_count [of s n] by blast
next
  case (net_bad s n can_start clock r s')
  then show ?case using net_fail_count [of s n] by blast
next
  case (net_asked s n t1 can_start t2 r s')
  then show ?case using trigger_count [of s n] by blast
qed (auto simp: check_net_init_def net_ok_def check_done_def Let_def)

subsection \<open>An old answer\<close>

text \<open>
  Under the normal rules an answer is meant to count for 35 seconds.  Starting the check that an
  old answer calls for refreshes its time, so that the old answer, however old, is given once more
  as good: of a network that was once found to work \<^verbatim>\<open>is_ok\<close> never says otherwise before a check
  has ended.
\<close>

theorem stale_answer_accepted:
  assumes "cn_stat s = NetOK" "cn_checking s = 0" "t1 - cn_last s > 30" "t1 \<le> t2" "t3 - t2 < 35"
  shows "fst (net_is_ok ''normal'' True (t1, t2, t3) s) = Inr True"
  using assms by (simp add: net_is_ok_def trigger_check_def)

lemma stale_answer_accepted_witness:
  "fst (net_is_ok ''normal'' True (100000, 100000, 100001) (net_ok 5 (check_net_init [''u'']))) = Inr True"
  by (rule stale_answer_accepted) (simp_all add: net_ok_def check_net_init_def)

end
