(* ===== verification/I18n.thy ===== *)
theory I18n
  imports Net_Text
begin

text \<open>
  launcher/simple_i18n.py: the message files and the templates of the web pages.

  A message file is the list of its lines, each with its line end; a template is its bytes.
\<close>

subsection \<open>Message files\<close>

definition starts :: "string \<Rightarrow> string \<Rightarrow> bool" where "starts p line \<longleftrightarrow> is_prefix p line"

fun po_key :: "bytes \<Rightarrow> bytes list \<Rightarrow> bytes \<times> bytes \<times> bytes list" where
  "po_key key [] = (key, [], [])"
| "po_key key (line # ls) =
     (if starts [CHR 0x22] line then po_key (key @ py_slice 1 (- 2) line) ls
      else if starts ''msgstr '' line then (key, py_slice 8 (- 2) line, ls)
      else (key, [], ls))"

text \<open>The line that ends a message is read and dropped.\<close>

fun po_value :: "bytes \<Rightarrow> bytes list \<Rightarrow> bytes \<times> bytes list" where
  "po_value msg [] = (msg, [])"
| "po_value msg (line # ls) =
     (if starts [CHR 0x22] line then po_value (msg @ py_slice 1 (- 2) line) ls else (msg, ls))"

lemma po_key_length: "po_key key ls = (k, v, ls') \<Longrightarrow> length ls' \<le> length ls"
  by (induction ls arbitrary: key) (auto split: if_splits intro: le_SucI)

lemma po_value_length: "po_value msg ls = (v, ls') \<Longrightarrow> length ls' \<le> length ls"
  by (induction ls arbitrary: msg) (auto split: if_splits intro: le_SucI)

function po_lines :: "bytes list \<Rightarrow> (bytes, bytes) dict \<Rightarrow> (bytes, bytes) dict" where
  "po_lines [] po = po"
| "po_lines (line # ls) po =
     (if length line < 2 \<or> starts ''#'' line \<or> \<not> starts ''msgid '' line then po_lines ls po
      else case po_key (py_slice 7 (- 2) line) ls of (key, v, ls1) \<Rightarrow>
        (case po_value v ls1 of (msg, ls2) \<Rightarrow>
           po_lines ls2 (if key = [] then po else dset key msg po)))"
  by pat_completeness auto
termination
  by (relation "measure (length \<circ> fst)") (auto dest!: po_key_length [OF sym] po_value_length [OF sym])

definition po_loader :: "bytes list \<Rightarrow> (bytes, bytes) dict" where
  "po_loader ls = po_lines ls []"

subsection \<open>Templates\<close>

text \<open>\<^verbatim>\<open>s.find(p, a, b)\<close>.\<close>

definition find_in :: "bytes \<Rightarrow> bytes \<Rightarrow> nat \<Rightarrow> nat \<Rightarrow> nat option" where
  "find_in p s a b = map_option ((+) a) (find_sub p (drop a (take b s)))"

text \<open>The key of the marker between two positions, if there is one.\<close>

definition marker_key :: "bytes \<Rightarrow> nat \<Rightarrow> nat \<Rightarrow> bytes option" where
  "marker_key content bp ep = (case find_in ''_('' content bp ep of
      None \<Rightarrow> None
    | Some b1p \<Rightarrow> (case find_in [CHR 0x22] content (b1p + 2) (b1p + 4) of
        None \<Rightarrow> None
      | Some b2p \<Rightarrow> (case find_in '')'' content (ep - 2) ep of
          None \<Rightarrow> None
        | Some e1p \<Rightarrow> (case find_in [CHR 0x22] content (e1p - 2) e1p of
            None \<Rightarrow> None
          | Some e2p \<Rightarrow> Some (slice (b2p + 1) e2p content)))))"

definition translate :: "(bytes, bytes) dict \<Rightarrow> bytes \<Rightarrow> bytes" where
  "translate po key = (if dget_or po key [] = [] then key else dget_or po key [])"

text \<open>
  The loop of \<^verbatim>\<open>_render\<close>.  When what stands in the braces is no marker, the loop goes on at the
  position it came from; \<open>None\<close> is a loop that does not end.
\<close>

partial_function (option) render_from :: "(bytes, bytes) dict \<Rightarrow> bytes \<Rightarrow> nat \<Rightarrow> bytes option" where
  "render_from po content cp = (case find_from ''{{'' content cp of
      None \<Rightarrow> Some (drop cp content)
    | Some bp \<Rightarrow> (case find_from ''}}'' content bp of
        None \<Rightarrow> Some (drop cp content)
      | Some ep \<Rightarrow> (case marker_key content bp ep of
          None \<Rightarrow> render_from po content cp
        | Some key \<Rightarrow> Option.bind (render_from po content (ep + 2))
            (\<lambda>out. Some (slice cp bp content @ translate po key @ out)))))"

definition render :: "(bytes, bytes) dict \<Rightarrow> (bytes, bytes) dict \<Rightarrow> bytes \<Rightarrow> bytes option" where
  "render po base content = render_from (merge_two_dict po base) content 0"

text \<open>Without a message file every text stays as it is.\<close>

definition render_content :: "bytes list option \<Rightarrow> (bytes, bytes) dict \<Rightarrow> bytes \<Rightarrow> bytes option" where
  "render_content po_file base content = render (case po_file of None \<Rightarrow> [] | Some ls \<Rightarrow> po_loader ls) base content"

subsection \<open>Messages are read back\<close>

definition po_entry :: "bytes \<times> bytes \<Rightarrow> bytes list" where
  "po_entry e = [''msgid '' @ [CHR 0x22] @ fst e @ [CHR 0x22, CHR 0x0A],
                 ''msgstr '' @ [CHR 0x22] @ snd e @ [CHR 0x22, CHR 0x0A], [CHR 0x0A]]"

lemma quoted_slice: "int (length p) = n \<Longrightarrow> py_slice n (- 2) (p @ s @ [c, d]) = s"
proof -
  assume n: "int (length p) = n"
  have "slice_bound (length (p @ s @ [c, d])) n = length p" using n by (auto simp: slice_bound_def)
  moreover have "slice_bound (length (p @ s @ [c, d])) (- 2) = length p + length s" by (simp add: slice_bound_def)
  ultimately show ?thesis by (simp only: py_slice_def Let_def) simp
qed

lemma po_entry_read:
  assumes "fst e \<noteq> []"
  shows "po_lines (po_entry e @ ls) po = po_lines ls (dset (fst e) (snd e) po)"
proof -
  have k: "py_slice 7 (- 2) (''msgid '' @ [CHR 0x22] @ fst e @ [CHR 0x22, CHR 0x0A]) = fst e"
    using quoted_slice [of "''msgid '' @ [CHR 0x22]" 7 "fst e"] by simp
  have v: "py_slice 8 (- 2) (''msgstr '' @ [CHR 0x22] @ snd e @ [CHR 0x22, CHR 0x0A]) = snd e"
    using quoted_slice [of "''msgstr '' @ [CHR 0x22]" 8 "snd e"] by simp
  show ?thesis using k v assms by (simp add: po_entry_def starts_def)
qed

text \<open>A message file in the usual form, a blank line behind each message, is read back; a later message wins.\<close>

theorem po_file_roundtrip:
  assumes "[] \<notin> fst ` set es"
  shows "po_loader (concat (map po_entry es)) = fold (\<lambda>e. dset (fst e) (snd e)) es []"
proof -
  have "[] \<notin> fst ` set es \<Longrightarrow> po_lines (concat (map po_entry es)) po = fold (\<lambda>e. dset (fst e) (snd e)) es po" for po
    by (induction es arbitrary: po) (auto simp: po_entry_read)
  with assms show ?thesis by (simp add: po_loader_def)
qed

lemma po_file_roundtrip_witness:
  "po_loader (po_entry (''Log'', ''Protokoll'') @ po_entry (''Front'', ''Seite'')) = [(''Log'', ''Protokoll''), (''Front'', ''Seite'')]"
  using po_file_roundtrip [of "[(''Log'', ''Protokoll''), (''Front'', ''Seite'')]"] by simp

text \<open>Without the blank line the next message is lost: its first line is taken for the end of the one before.\<close>

lemma message_without_blank_lost:
  assumes "fst e \<noteq> []"
  shows "po_loader (take 2 (po_entry e) @ po_entry f) = [(fst e, snd e)]"
proof -
  have k: "py_slice 7 (- 2) (''msgid '' @ [CHR 0x22] @ fst e @ [CHR 0x22, CHR 0x0A]) = fst e"
    using quoted_slice [of "''msgid '' @ [CHR 0x22]" 7 "fst e"] by simp
  have v: "py_slice 8 (- 2) (''msgstr '' @ [CHR 0x22] @ snd e @ [CHR 0x22, CHR 0x0A]) = snd e"
    using quoted_slice [of "''msgstr '' @ [CHR 0x22]" 8 "snd e"] by simp
  show ?thesis using k v assms by (simp add: po_loader_def po_entry_def starts_def)
qed

subsection \<open>Templates are translated\<close>

text \<open>
  Braces that hold no marker hang the page: the loop starts over at the same place for ever.
\<close>

definition no_marker :: "bytes \<Rightarrow> nat \<Rightarrow> bool" where
  "no_marker content cp \<longleftrightarrow> (\<exists>bp ep. find_from ''{{'' content cp = Some bp \<and> find_from ''}}'' content bp = Some ep
     \<and> marker_key content bp ep = None)"

theorem no_marker_hangs:
  assumes "no_marker content cp"
  shows "render_from po content cp = None"
proof -
  have "\<not> no_marker content cp" if r: "render_from po content cp = Some out" for out
  proof (rule render_from.raw_induct [where P = "\<lambda>po content cp out. \<not> no_marker content cp", OF _ r], goal_cases)
    case (1 f po content cp out)
    show ?case
    proof
      assume "no_marker content cp"
      with 1(2) have "f po content cp = Some out" by (auto simp: no_marker_def)
      from 1(1) [OF this] \<open>no_marker content cp\<close> show False by blast
    qed
  qed
  with assms show ?thesis by (cases "render_from po content cp") auto
qed

lemma no_marker_hangs_witness: "render_from [] ''a {{ name }} b'' 0 = None"
proof (rule no_marker_hangs)
  have "find_from ''{{'' ''a {{ name }} b'' 0 = Some 2" "find_from ''}}'' ''a {{ name }} b'' 2 = Some 10"
    "marker_key ''a {{ name }} b'' 2 10 = None" by code_simp+
  then show "no_marker ''a {{ name }} b'' 0" unfolding no_marker_def by blast
qed

text \<open>One marker: what stands before it is kept, it becomes its translation, and the loop goes on behind it.\<close>

lemma marker_translated:
  assumes "find_from ''{{'' content cp = Some bp" "find_from ''}}'' content bp = Some ep" "marker_key content bp ep = Some key"
  shows "render_from po content cp = map_option (\<lambda>out. slice cp bp content @ translate po key @ out) (render_from po content (ep + 2))"
  using assms by (subst render_from.simps) (simp add: map_conv_bind_option o_def)

lemma no_braces_kept: "find_from ''{{'' content cp = None \<Longrightarrow> render_from po content cp = Some (drop cp content)"
  by (subst render_from.simps) simp

lemma page_example:
  "render [(''Log'', ''Protokoll'')] [] (''<b>{{ _( '' @ [CHR 0x22] @ ''Log'' @ [CHR 0x22] @ '' ) }}</b>'') = Some ''<b>Protokoll</b>''"
proof -
  let ?s = "''<b>{{ _( '' @ [CHR 0x22] @ ''Log'' @ [CHR 0x22] @ '' ) }}</b>''"
  have "find_from ''{{'' ?s 0 = Some 3" "find_from ''}}'' ?s 3 = Some 17" "marker_key ?s 3 17 = Some ''Log''"
    "find_from ''{{'' ?s 19 = None" "slice 0 3 ?s = ''<b>''" "drop 19 ?s = ''</b>''"
    "translate (merge_two_dict [(''Log'', ''Protokoll'')] []) ''Log'' = ''Protokoll''" by code_simp+
  then show ?thesis unfolding render_def by (simp add: marker_translated [of _ 0 3 17 "''Log''"] no_braces_kept)
qed

end
