(* ===== verification/Front_Config.thy ===== *)
theory Front_Config
  imports Config_File
begin

text \<open>
  The settings of the fronts: lib/noarch/front_base/config.py and the config.py of each front in
  x_tunnel/local.  A front sets the variables of the base class and then its own over them, and
  loads its file.  The one default that is a byte string (\<^verbatim>\<open>check_ip_content\<close> of the cloudflare front)
  is written as the text.
\<close>

subsection \<open>Defaults\<close>

definition proxy_vars :: "(string \<times> json) list" where
  "proxy_vars =
    [(''PROXY_ENABLE'', JInt 0), (''PROXY_TYPE'', JStr ''HTTP''), (''PROXY_HOST'', JStr []),
     (''PROXY_PORT'', JInt 0), (''PROXY_USER'', JStr []), (''PROXY_PASSWD'', JStr [])]"

definition dispatcher_vars :: "(string \<times> json) list" where
  "dispatcher_vars =
    [(''dispather_min_idle_workers'', JInt 0), (''dispather_worker_idle_time'', JInt 300),
     (''dispather_work_min_idle_time'', JInt 0), (''dispather_work_max_score'', JInt 1),
     (''dispather_min_workers'', JInt 0), (''dispather_max_workers'', JInt 60), (''dispather_score_factor'', JInt 1),
     (''dispather_max_idle_workers'', JInt 30), (''dispather_worker_max_continue_fail'', JInt 8),
     (''dispather_connect_all_workers_on_startup'', JInt 0),
     (''dispather_ping_check_speed_interval'', JInt (60 * 5)), (''dispather_ping_upload_size'', JInt 1024),
     (''dispather_ping_rtt_download_size'', JInt 512), (''dispather_ping_speed_download_size'', JInt (1024 * 100)),
     (''max_task_num'', JInt 100)]"

definition http_vars :: "(string \<times> json) list" where
  "http_vars =
    [(''http1_first_ping_wait'', JInt 300), (''http1_ping_interval'', JInt 300), (''http1_idle_time'', JInt 360),
     (''http1_max_process_tasks'', JInt 99999999), (''http1_trace_size'', JInt 20),
     (''http2_max_concurrent'', JInt 60), (''http2_target_concurrent'', JInt 6),
     (''http2_max_timeout_tasks'', JInt 5), (''http2_max_process_tasks'', JInt 900),
     (''http2_timeout_active'', JInt 15), (''http2_status_to_close'', JList []), (''http2_show_debug'', JInt 0),
     (''http2_ping_min_interval'', JInt 5), (''http2_idle_ping_min_interval'', JInt 235),
     (''show_state_debug'', JInt 0), (''http_query_history_size'', JInt 30)]"

definition connect_vars :: "(string \<times> json) list" where
  "connect_vars =
    [(''https_max_connect_thread'', JInt 1), (''max_connect_thread'', JInt 1),
     (''connect_create_interval'', JFloat ''0.1''), (''ssl_first_use_timeout'', JInt 10),
     (''connection_pool_min'', JInt 1), (''https_keep_alive'', JInt 15), (''https_connection_pool_min'', JInt 1),
     (''https_connection_pool_max'', JInt 2), (''https_new_connect_num'', JInt 1),
     (''http1_new_connect_num'', JInt 1), (''connection_max_life'', JInt 999990)]"

definition check_vars :: "(string \<times> json) list" where
  "check_vars =
    [(''check_ip_subdomain'', JStr []), (''check_ip_host'', JStr []), (''check_ip_path'', JStr ''/''),
     (''check_ip_accept_status'', JList [JInt 200]), (''check_ip_content'', JStr ''OK''),
     (''socket_timeout'', JInt 1), (''connect_receive_buffer'', JInt (1024 * 512)),
     (''connect_send_buffer'', JInt (1024 * 512)), (''connect_force_http1'', JInt 0),
     (''connect_force_http2'', JInt 0), (''check_pkp'', JList []), (''check_commonname'', JStr []),
     (''check_sni'', JInt 0), (''min_intermediate_CA'', JInt 0)]"

definition ip_vars :: "(string \<times> json) list" where
  "ip_vars =
    [(''check_exist_ip_on_startup'', JInt 0), (''auto_adjust_scan_ip_thread_num'', JInt 1),
     (''max_scan_ip_thread_num'', JInt 0), (''max_good_ip_num'', JInt 100), (''target_handshake_time'', JInt 300),
     (''max_links_per_ip'', JInt 1), (''ip_connect_interval'', JFloat ''0.5''), (''record_ip_history'', JInt 0),
     (''scan_ip_interval'', JInt 1), (''down_fail_connect_interval'', JInt 60),
     (''active_connect_interval'', JInt 0), (''long_fail_threshold'', JInt 300),
     (''long_fail_connect_interval'', JInt 180), (''short_fail_connect_interval'', JInt 10),
     (''shuffle_ip_on_first_load'', JInt 0), (''ip_speed_history_size'', JInt 30),
     (''ip_initial_rtt'', JFloat ''0.03''), (''ip_initial_speed'', JInt 129000),
     (''ip_initial_score'', JFloat ''0.1''), (''ip_cal_rtt_max_package_size'', JInt 10000),
     (''ip_cal_speed_min_package_size'', JInt 100000), (''ip_cal_expect_time_package_size'', JInt 40000),
     (''ip_speed_save_interval'', JInt 60), (''use_ipv6'', JStr ''auto''), (''ipv6_scan_ratio'', JInt 50)]"

definition base_vars :: "(string \<times> json) list" where
  "base_vars = proxy_vars @ dispatcher_vars @ http_vars @ connect_vars @ check_vars @ ip_vars"

definition cloudflare_vars :: "(string \<times> json) list" where
  "cloudflare_vars =
    [(''front_continue_fail_num'', JInt 10), (''front_continue_fail_block'', JInt (20 * 60)),
     (''dispather_min_idle_workers'', JInt 0), (''dispather_work_min_idle_time'', JInt 0),
     (''dispather_work_max_score'', JInt 1), (''dispather_score_factor'', JInt 3),
     (''dispather_min_workers'', JInt 1), (''dispather_max_workers'', JInt 1),
     (''http2_status_to_close'', JList [JInt 302, JInt 400, JInt 403, JInt 404, JInt 405]),
     (''ssl_first_use_timeout'', JInt 5), (''connection_pool_min'', JInt 0), (''https_new_connect_num'', JInt 0),
     (''connect_create_interval'', JInt 0), (''check_ip_subdomain'', JStr ''scan1''),
     (''check_ip_content'', JStr ''OK''), (''check_sni'', JInt 1), (''max_scan_ip_thread_num'', JInt 0),
     (''max_good_ip_num'', JInt 100), (''target_handshake_time'', JInt 500),
     (''active_connect_interval'', JInt (3 * 60)), (''scan_ip_interval'', JInt 10),
     (''max_connection_per_domain'', JInt 1), (''use_ipv6'', JStr ''auto''), (''ipv6_scan_ratio'', JInt 40)]"

definition cloudfront_vars :: "(string \<times> json) list" where
  "cloudfront_vars =
    [(''front_continue_fail_num'', JInt 10), (''front_continue_fail_block'', JInt 180),
     (''dispather_min_idle_workers'', JInt 0), (''dispather_work_min_idle_time'', JInt 0),
     (''dispather_work_max_score'', JInt 20000), (''dispather_max_workers'', JInt 3),
     (''dispather_score_factor'', JInt 1000), (''http2_max_concurrent'', JInt 40),
     (''http2_status_to_close'', JList [JInt 403]), (''ssl_first_use_timeout'', JInt 5),
     (''connection_pool_min'', JInt 0), (''https_new_connect_num'', JInt 0), (''check_ip_content'', JStr ''OK''),
     (''check_sni'', JInt 1), (''max_scan_ip_thread_num'', JInt 1), (''max_good_ip_num'', JInt 50),
     (''target_handshake_time'', JInt 550)]"

definition seley_vars :: "(string \<times> json) list" where
  "seley_vars =
    [(''front_continue_fail_num'', JInt 10), (''front_continue_fail_block'', JInt 60), (''allow_set_hosts'', JInt 1),
     (''dispather_work_min_idle_time'', JInt 0), (''dispather_work_max_score'', JInt 1),
     (''dispather_min_workers'', JInt 20), (''dispather_max_workers'', JInt 60),
     (''dispather_connect_all_workers_on_startup'', JInt 1), (''dispather_ping_check_speed_interval'', JInt 50),
     (''max_task_num'', JInt 256), (''http1_first_ping_wait'', JInt 50), (''http1_ping_interval'', JInt 57),
     (''http1_idle_time'', JInt 230), (''http1_max_process_tasks'', JInt 999999),
     (''http2_max_process_tasks'', JInt 999999), (''http2_status_to_close'', JList [JInt 404]),
     (''connection_pool_min'', JInt 0), (''https_max_connect_thread'', JInt 4),
     (''https_connection_pool_max'', JInt 8), (''max_links_per_ip'', JInt 20), (''connect_create_interval'', JInt 0)]"

definition tls_relay_vars :: "(string \<times> json) list" where
  "tls_relay_vars =
    [(''front_continue_fail_num'', JInt 10), (''front_continue_fail_block'', JInt 10), (''allow_set_ips'', JInt 1),
     (''dispather_min_idle_workers'', JInt 0), (''dispather_work_max_score'', JInt 1),
     (''dispather_score_factor'', JInt 2), (''dispather_min_workers'', JInt 1), (''dispather_max_workers'', JInt 60),
     (''dispather_connect_all_workers_on_startup'', JInt 1), (''https_connection_pool_min'', JInt 0),
     (''max_links_per_ip'', JInt 1), (''https_connection_pool_max'', JInt 20), (''connect_create_interval'', JInt 0),
     (''connect_force_http2'', JInt 1), (''http2_status_to_close'', JList [JInt 400, JInt 404, JInt 500]),
     (''http2_idle_ping_min_interval'', JInt 110), (''http2_max_process_tasks'', JInt 9900)]"

definition set_vars :: "(string \<times> json) list \<Rightarrow> config \<Rightarrow> config" where
  "set_vars kds c = fold (\<lambda>(k, d). set_var k d) kds c"

definition front_config :: "(string \<times> json) list \<Rightarrow> time \<Rightarrow> string option \<Rightarrow> exn option \<times> config" where
  "front_config own now content = config_load now content (set_vars own (set_vars base_vars (config_init now)))"

text \<open>The set of the pinned keys, made after each loading if there are any.\<close>

fun unhashable :: "json \<Rightarrow> bool" where
  "unhashable (JList vs) = True"
| "unhashable (JObj kvs) = True"
| "unhashable v = False"

definition pinned_keys :: "config \<Rightarrow> exn + json set option" where
  "pinned_keys c = (case dget (cf_attrs c) ''check_pkp'' of
      None \<Rightarrow> Inl AttributeError
    | Some v \<Rightarrow> if \<not> truthy_json v then Inr None
        else (case v of
            JList vs \<Rightarrow> if list_ex unhashable vs then Inl (PyException ''TypeError'') else Inr (Some (set vs))
          | JObj kvs \<Rightarrow> Inr (Some (JStr ` fst ` set kvs))
          | JStr s \<Rightarrow> Inr (Some ((\<lambda>ch. JStr [ch]) ` set s))
          | _ \<Rightarrow> Inl (PyException ''TypeError'')))"

subsection \<open>The value of a setting\<close>

lemma set_vars_defaults:
  "dget (cf_defaults (set_vars kds c)) k = (case map_of (rev kds) k of None \<Rightarrow> dget (cf_defaults c) k | Some d \<Rightarrow> Some d)"
proof (induction kds arbitrary: c)
  case (Cons kd kds)
  obtain j d where kd: "kd = (j, d)" by (cases kd)
  have "set_vars (kd # kds) c = set_vars kds (set_var j d c)" by (simp add: set_vars_def kd)
  then show ?case by (simp add: Cons.IH kd set_var_def map_add_def split: option.splits)
qed (simp add: set_vars_def)

lemma set_vars_other: "cf_attrs (set_vars kds c) = cf_attrs c" "cf_file (set_vars kds c) = cf_file c"
  "dict_ok (cf_defaults c) \<Longrightarrow> dict_ok (cf_defaults (set_vars kds c))"
proof -
  have "cf_attrs (set_vars kds c) = cf_attrs c \<and> cf_file (set_vars kds c) = cf_file c
    \<and> (dict_ok (cf_defaults c) \<longrightarrow> dict_ok (cf_defaults (set_vars kds c)))" for c
  proof (induction kds arbitrary: c)
    case (Cons kd kds)
    have s: "set_vars (kd # kds) c = set_vars kds (set_var (fst kd) (snd kd) c)" by (simp add: set_vars_def case_prod_beta)
    show ?case unfolding s using Cons.IH [of "set_var (fst kd) (snd kd) c"] by (simp add: set_var_def)
  qed (simp add: set_vars_def)
  then show "cf_attrs (set_vars kds c) = cf_attrs c" "cf_file (set_vars kds c) = cf_file c"
    "dict_ok (cf_defaults c) \<Longrightarrow> dict_ok (cf_defaults (set_vars kds c))" by blast+
qed

lemma load_vars_obj:
  assumes "distinct (map fst kds)"
  shows "\<exists>attrs'. load_vars (JObj kvs) kds attrs = (None, attrs') \<and> (\<forall>k. dget attrs' k =
     (case map_of kds k of None \<Rightarrow> dget attrs k | Some d \<Rightarrow> Some (case map_of kvs k of Some v \<Rightarrow> v | None \<Rightarrow> d)))"
  using assms
proof (induction kds arbitrary: attrs)
  case (Cons kd kds)
  obtain j d where kd: "kd = (j, d)" by (cases kd)
  let ?v = "case map_of kvs j of Some v \<Rightarrow> v | None \<Rightarrow> d"
  have step: "load_vars (JObj kvs) (kd # kds) attrs = load_vars (JObj kvs) kds (dset j ?v attrs)"
    by (cases "kvs = []") (auto simp: kd file_entry_def split: option.splits)
  have "map_of kds j = None" using Cons.prems by (auto simp: kd map_of_eq_None_iff)
  with Cons.IH [of "dset j ?v attrs"] Cons.prems show ?case unfolding step
    by (fastforce simp: kd split: option.splits)
qed simp

text \<open>
  After a front has loaded its file, every variable that the base class or the front declares has
  the value of the file if the file names it, otherwise the default that was set last, so the front's
  own default before the one of the base class; no other variable is set.
\<close>

theorem front_setting:
  assumes "loads (cleaned t) = Inr (JObj kvs)"
  shows "\<exists>c. front_config own now (Some t) = (None, c) \<and> dget (cf_attrs c) k =
    (case map_of (rev (base_vars @ own)) k of None \<Rightarrow> None
     | Some d \<Rightarrow> Some (case map_of kvs k of Some v \<Rightarrow> v | None \<Rightarrow> d))"
proof -
  let ?c = "set_vars own (set_vars base_vars (config_init now))"
  have d: "dget (cf_defaults ?c) k = map_of (rev (base_vars @ own)) k"
    by (simp add: set_vars_defaults config_init_def map_add_def split: option.splits)
  have "dict_ok (cf_defaults ?c)" by (intro set_vars_other(3)) (simp add: config_init_def)
  from load_vars_obj [OF this, of kvs "cf_attrs ?c"] obtain attrs where
    a: "load_vars (JObj kvs) (cf_defaults ?c) (cf_attrs ?c) = (None, attrs)"
      "dget attrs k = (case dget (cf_defaults ?c) k of None \<Rightarrow> dget (cf_attrs ?c) k
         | Some d \<Rightarrow> Some (case map_of kvs k of Some v \<Rightarrow> v | None \<Rightarrow> d))" by blast
  have n: "dget (cf_attrs ?c) k = None" by (simp add: set_vars_other config_init_def)
  from a(2) have "dget attrs k = (case map_of (rev (base_vars @ own)) k of None \<Rightarrow> None
     | Some d \<Rightarrow> Some (case map_of kvs k of Some v \<Rightarrow> v | None \<Rightarrow> d))" unfolding d n .
  then show ?thesis by (simp add: front_config_def config_load_def assms a(1))
qed

lemma front_setting_witness:
  "\<exists>c. front_config seley_vars 0 (Some ''{}'') = (None, c) \<and> dget (cf_attrs c) ''max_links_per_ip'' = Some (JInt 20)"
proof -
  have "loads (cleaned ''{}'') = Inr (JObj [])" by code_simp
  moreover have "map_of (rev (base_vars @ seley_vars)) ''max_links_per_ip'' = Some (JInt 20)" by code_simp
  ultimately show ?thesis using front_setting [of "''{}''" "[]" seley_vars 0 "''max_links_per_ip''"] by simp
qed

end
