(* ===== verification/Front_Request.thy ===== *)
theory Front_Request
  imports Http2 Relay_Front Seley_Front
begin

text \<open>
  What each front adds to a request: the \<^verbatim>\<open>request\<close> and \<^verbatim>\<open>get_dispatcher\<close> of the front.py of each front
  in x_tunnel/local, direct_front.py, the streams of the relay front (http2_stream.py), which name the
  real target in a header, and the workers of the cloudflare front (http2_connection.py).

  The dispatcher is a parameter: what it answers to a request, \<open>None\<close> if nothing in time.
\<close>

subsection \<open>Requests\<close>

record front_response =
  fr_status :: int
  fr_body :: bytes
  fr_ip_str :: "string option"

type_synonym headers = "(string, string) dict"

type_synonym dispatch = "string \<Rightarrow> string \<Rightarrow> string \<Rightarrow> headers \<Rightarrow> bytes \<Rightarrow> front_response option"

text \<open>Without an answer the status is 602.\<close>

definition front_result :: "front_response option \<Rightarrow> bytes \<times> int" where
  "front_result r = (case r of None \<Rightarrow> ([], 602) | Some a \<Rightarrow> (fr_body a, fr_status a))"

definition relay_headers :: "string \<Rightarrow> string \<Rightarrow> headers \<Rightarrow> headers" where
  "relay_headers account path hs =
     dset ''X-Path'' path (if account \<noteq> [] then dset ''XX-Account'' account hs else hs)"

text \<open>The address of a bad answer is reported; what goes wrong there is swallowed.\<close>

definition relay_request ::
  "int list \<Rightarrow> string \<Rightarrow> time \<Rightarrow> dispatch \<Rightarrow> string \<Rightarrow> string \<Rightarrow> string \<Rightarrow> headers \<Rightarrow> bytes \<Rightarrow> relay_ips \<Rightarrow> (bytes \<times> int) \<times> relay_ips" where
  "relay_request status_to_close account now dispatch http_method host path hs data s =
     (let r = dispatch http_method host path (relay_headers account path hs) data;
          s' = (case r of
             None \<Rightarrow> s
           | Some a \<Rightarrow> if fr_status a = 200 \<or> fr_status a \<notin> set status_to_close then s
               else (case fr_ip_str a of None \<Rightarrow> s | Some ip_str \<Rightarrow> or_same s (relay_bad_response now ip_str s)))
      in (front_result r, s'))"

definition seley_headers :: "string \<Rightarrow> string \<Rightarrow> string \<Rightarrow> headers \<Rightarrow> headers" where
  "seley_headers account host path hs =
     dset ''X-Path'' path (dset ''X-Host'' host (dset ''XX-Account'' account hs))"

definition seley_request ::
  "string \<Rightarrow> dispatch \<Rightarrow> string \<Rightarrow> string \<Rightarrow> string \<Rightarrow> headers \<Rightarrow> bytes \<Rightarrow> bytes \<times> int" where
  "seley_request account dispatch http_method host path hs data =
     front_result (dispatch http_method host ''/'' (seley_headers account host path hs) data)"

definition seley_has_dispatcher :: "seley \<Rightarrow> bool" where
  "seley_has_dispatcher s \<longleftrightarrow> \<not> length (sy_hosts s) = 0"

definition seley_set_hosts :: "bool \<Rightarrow> bool \<Rightarrow> (string, seley_host) dict \<Rightarrow> seley \<Rightarrow> seley" where
  "seley_set_hosts allow_set_hosts written hosts s = (if \<not> allow_set_hosts then s else set_hosts written hosts s)"

subsection \<open>A dispatcher for each host\<close>

text \<open>The dispatchers of a front by host; the value tells whether it was made with the light settings.\<close>

record host_dispatchers =
  hd_last_host :: string
  hd_dispatchs :: "(string, bool) dict"

definition light_hosts :: "string list" where
  "light_hosts = [''center.xx-net.org'', ''dns.xx-net.org'']"

definition cloudflare_dispatcher :: "string option \<Rightarrow> host_dispatchers \<Rightarrow> string \<times> host_dispatchers" where
  "cloudflare_dispatcher host s =
     (let (h, s1) = (case host of
            Some h \<Rightarrow> if h = [] then (hd_last_host s, s) else (h, s\<lparr>hd_last_host := h\<rparr>)
          | None \<Rightarrow> (hd_last_host s, s));
          s2 = (if dmem h (hd_dispatchs s1) then s1
                else s1\<lparr>hd_dispatchs := dset h (h \<in> set light_hosts) (hd_dispatchs s1)\<rparr>)
      in (h, s2))"

definition cloudfront_dispatcher :: "string option \<Rightarrow> host_dispatchers \<Rightarrow> string \<times> host_dispatchers" where
  "cloudfront_dispatcher host s =
     (let (h, s1) = (case host of Some h \<Rightarrow> (h, s\<lparr>hd_last_host := h\<rparr>) | None \<Rightarrow> (hd_last_host s, s));
          s2 = (if dmem h (hd_dispatchs s1) then s1 else s1\<lparr>hd_dispatchs := dset h False (hd_dispatchs s1)\<rparr>)
      in (h, s2))"

definition cloudflare_request ::
  "(string \<Rightarrow> dispatch) \<Rightarrow> string \<Rightarrow> string \<Rightarrow> string \<Rightarrow> headers \<Rightarrow> bytes \<Rightarrow> host_dispatchers \<Rightarrow> (bytes \<times> int) \<times> host_dispatchers" where
  "cloudflare_request dispatch http_method host path hs data s =
     (let (h, s') = cloudflare_dispatcher (Some host) s in (front_result (dispatch h http_method host path hs data), s'))"

definition cloudfront_request ::
  "(string \<Rightarrow> dispatch) \<Rightarrow> string \<Rightarrow> string \<Rightarrow> string \<Rightarrow> headers \<Rightarrow> bytes \<Rightarrow> host_dispatchers \<Rightarrow> (bytes \<times> int) \<times> host_dispatchers" where
  "cloudfront_request dispatch http_method host path hs data s =
     (let (h, s') = cloudfront_dispatcher (Some host) s in (front_result (dispatch h http_method host path hs data), s'))"

subsection \<open>The direct front\<close>

record direct =
  di_last_success :: time
  di_last_fail :: time
  di_continue_fail :: nat
  di_success :: nat
  di_fail :: nat

text \<open>
  The headers are the caller's dictionary, which keeps the length that is written into it.  An
  answer other than 200 counts as a failure.
\<close>

definition direct_request ::
  "time \<Rightarrow> (string \<Rightarrow> string \<Rightarrow> headers \<Rightarrow> bytes \<Rightarrow> (int \<times> bytes) option) \<Rightarrow> string \<Rightarrow> string \<Rightarrow> string \<Rightarrow> headers \<Rightarrow> bytes \<Rightarrow> direct
     \<Rightarrow> (bytes \<times> int) \<times> headers \<times> direct" where
  "direct_request now http http_method host path hs data s =
     (let hs' = (if data \<noteq> [] then dset ''Content-Length'' (dec (length data)) hs else hs);
          failed = (([], 602), hs', s\<lparr>di_fail := di_fail s + 1, di_continue_fail := di_continue_fail s + 1, di_last_fail := now\<rparr>)
      in case http http_method (''http://'' @ host @ path) hs' data of
           None \<Rightarrow> failed
         | Some (status, text) \<Rightarrow>
             if status \<noteq> 200 then failed
             else ((text, status), hs', s\<lparr>di_last_success := now, di_continue_fail := 0, di_success := di_success s + 1\<rparr>))"

subsection \<open>Streams of the relay front\<close>

definition relay_header_map :: "string \<Rightarrow> string \<Rightarrow> task \<Rightarrow> exn + headers" where
  "relay_header_map sock_host url_path t =
     (case add_headers (t_headers t)
        (header_map [('':method'', t_method t), ('':scheme'', ''https''),
                     ('':authority'', sock_host), ('':path'', url_path @ t_path t)]) of
        Inl e \<Rightarrow> Inl e
      | Inr hs \<Rightarrow> Inr (hm_set ''X-Host'' (t_host t) hs))"

definition relay_start_request ::
  "(headers \<Rightarrow> bytes) \<Rightarrow> string \<Rightarrow> string \<Rightarrow> h2_stream \<Rightarrow> h2 \<Rightarrow> exn option \<times> h2_stream \<times> h2" where
  "relay_start_request enc sock_host url_path s h =
     (case relay_header_map sock_host url_path (s_task s) of
        Inl e \<Rightarrow> (Some e, s, h)
      | Inr hs \<Rightarrow>
          let d = enc hs in
          if int (length d) > FRAME_MAX_LEN then (Some ValueError, s, h)
          else let h1 = send_cb (HeadersF (s_id s) d (s_left s = 0) True) h;
                   s1 = s\<lparr>s_state := Opened\<rparr>
               in if s_left s1 > 0 then (let (s2, h2) = send_left_body s1 h1 in (None, s2, h2))
                  else (None, s1, h1))"

subsection \<open>Workers of the cloudflare front\<close>

text \<open>The host of the first request stays the host of the connection.\<close>

definition cf_get_host :: "string \<Rightarrow> string \<Rightarrow> string \<Rightarrow> string \<times> string" where
  "cf_get_host sock_host task_host host =
     (let h = (if host = [] then fst (split_domain task_host) @ ''.'' @ sock_host else host) in (h, h))"

subsection \<open>What reaches the server\<close>

lemma lower_colon: "lower_char c = CHR '':'' \<longleftrightarrow> c = CHR '':''"
proof
  assume l: "lower_char c = CHR '':''"
  show "c = CHR '':''"
  proof (cases "65 \<le> (of_char c :: nat) \<and> (of_char c :: nat) \<le> 90")
    case True
    with l have "char_of ((of_char c :: nat) + 32) = CHR '':''" by (simp add: lower_char_def)
    then have "(of_char (char_of ((of_char c :: nat) + 32)) :: nat) = of_char (CHR '':'')" by simp
    then have "((of_char c :: nat) + 32) mod 256 = 58" by simp
    with True show ?thesis by simp
  next
    case False
    with l show ?thesis by (simp add: lower_char_def split: if_splits)
  qed
qed (simp add: lower_char_def)

lemma norm_key_colon: "is_prefix '':'' (norm_key k) \<longleftrightarrow> is_prefix '':'' k"
  by (cases k) (auto simp: norm_key_def lower_colon eq_commute [of "CHR '':''"])

lemma add_headers_pseudo:
  "list_all (\<lambda>kv. \<not> is_prefix '':'' (fst kv)) kvs \<Longrightarrow>
     \<exists>hs'. add_headers kvs hs = Inr hs' \<and> (\<forall>k. is_prefix '':'' k \<longrightarrow> dget hs' k = dget hs k)"
proof (induction kvs arbitrary: hs)
  case (Cons kv kvs)
  obtain k v where kv: "kv = (k, v)" by (cases kv)
  with Cons.prems have k: "\<not> is_prefix '':'' k" by simp
  then have d: "k \<notin> set default_headers" by (auto simp: default_headers_def)
  have "\<not> is_prefix '':'' (norm_key k)" using k by (simp add: norm_key_colon)
  then have same: "is_prefix '':'' j \<Longrightarrow> dget (hm_set k v hs) j = dget hs j" for j by (auto simp: hm_set_def)
  from Cons.IH [of "hm_set k v hs"] Cons.prems same show ?case by (fastforce simp: kv d)
qed simp

text \<open>
  A request over the relay front: the relay itself is named as the host of the request, its own path
  stands before the path, and the real target is in a header; the caller's headers cannot change
  that, as long as none of them starts with a colon.
\<close>

theorem relay_names_target:
  assumes "list_all (\<lambda>kv. \<not> is_prefix '':'' (fst kv)) (t_headers t)"
  shows "\<exists>hs. relay_header_map sock_host url_path t = Inr hs \<and> hm_get '':authority'' hs = Some sock_host
    \<and> hm_get '':path'' hs = Some (url_path @ t_path t) \<and> hm_get ''X-Host'' hs = Some (t_host t)"
proof -
  let ?m = "header_map [('':method'', t_method t), ('':scheme'', ''https''), ('':authority'', sock_host), ('':path'', url_path @ t_path t)]"
  obtain hs where hs: "add_headers (t_headers t) ?m = Inr hs" "\<And>k. is_prefix '':'' k \<Longrightarrow> dget hs k = dget ?m k"
    using add_headers_pseudo [OF assms] by blast
  have n: "norm_key '':method'' = '':method''" "norm_key '':scheme'' = '':scheme''" "norm_key '':authority'' = '':authority''"
    "norm_key '':path'' = '':path''" "norm_key ''X-Host'' = ''x-host''" by code_simp+
  have "dget ?m '':authority'' = Some sock_host" "dget ?m '':path'' = Some (url_path @ t_path t)"
    by (simp_all add: header_map_def hm_set_def n)
  with hs show ?thesis by (simp add: relay_header_map_def hm_get_def hm_set_def n)
qed

lemma seley_names_target:
  "dget (seley_headers account host path hs) ''X-Host'' = Some host \<and> dget (seley_headers account host path hs) ''X-Path'' = Some path
   \<and> dget (seley_headers account host path hs) ''XX-Account'' = Some account"
  by (simp add: seley_headers_def)

text \<open>
  A worker of the cloudflare front answers every later request with the host that its first request
  led to, whatever host that request is for.
\<close>

lemma cloudflare_host_sticks:
  "fst (cf_get_host sock_host other (snd (cf_get_host sock_host first_host []))) = fst (cf_get_host sock_host first_host [])"
  by (simp add: cf_get_host_def Let_def)

subsection \<open>An address with a bad answer rests\<close>

definition resting :: "time \<Rightarrow> string \<Rightarrow> relay_ips \<Rightarrow> bool" where
  "resting now ip s \<longleftrightarrow> (\<exists>i. dget (rl_dict s) ip = Some i \<and> r_fail_times i \<noteq> 0 \<and> now - r_last_try i < 60)"

lemma relay_info_resting: "relay_info j s = (i, s') \<Longrightarrow> resting now ip s \<Longrightarrow>
    resting now ip s' \<and> (j = ip \<longrightarrow> dget (rl_dict s') ip = Some i \<and> r_fail_times i \<noteq> 0 \<and> now - r_last_try i < 60)"
  by (auto simp: relay_info_def resting_def Let_def split: option.splits if_splits)

lemma relay_clamp_resting: "dget (rl_dict s) j = Some i \<Longrightarrow> resting now ip s \<Longrightarrow> resting now ip (relay_put j (i\<lparr>r_links := l\<rparr>) s)"
  by (auto simp: relay_put_def resting_def)

lemma relay_info_mem: "relay_info j s = (i, s') \<Longrightarrow> dget (rl_dict s') j = Some i"
  by (auto simp: relay_info_def Let_def split: option.splits)

lemma relay_scan_resting:
  assumes "resting now ip s" "fst best \<noteq> Some ip" "relay_scan mx now hs best s = (best', s')"
  shows "fst best' \<noteq> Some ip"
  using assms
proof (induction hs arbitrary: best s)
  case (Cons e hs)
  obtain j h where e: "e = (j, h)" by (cases e)
  obtain i0 s0 where i0: "relay_info j s = (i0, s0)" by (cases "relay_info j s")
  note r0 = relay_info_resting [OF i0 Cons.prems(1)]
  define i where "i = (if r_links i0 < 0 then i0\<lparr>r_links := 0\<rparr> else i0)"
  define s1 where "s1 = (if r_links i0 < 0 then relay_put j (i0\<lparr>r_links := 0\<rparr>) s0 else s0)"
  have r1: "resting now ip s1" using r0 relay_clamp_resting [OF relay_info_mem [OF i0]] by (simp add: s1_def)
  have f: "r_fail_times i = r_fail_times i0" "r_last_try i = r_last_try i0" by (simp_all add: i_def)
  obtain v b where b: "get_speed (get_ip_str j (relay_port h)) (rl_base s1) = (v, b)" by (cases "get_speed (get_ip_str j (relay_port h)) (rl_base s1)")
  let ?best = "if fst v > snd best then (Some j, fst v) else best"
  have eq: "relay_scan mx now (e # hs) best s = (if rh_sni h = None then relay_scan mx now hs best s
      else if mx \<le> r_links i then relay_scan mx now hs best s1
      else if r_fail_times i \<noteq> 0 \<and> now - r_last_try i < 60 then relay_scan mx now hs best s1
      else relay_scan mx now hs ?best (s1\<lparr>rl_base := b\<rparr>))"
    using b by (cases "r_links i0 < 0") (auto simp: e i0 i_def s1_def Let_def case_prod_beta)
  have r2: "resting now ip (s1\<lparr>rl_base := b\<rparr>)" using r1 by (simp add: resting_def)
  consider (a) "relay_scan mx now hs best s = (best', s')" | (b) "relay_scan mx now hs best s1 = (best', s')"
    | (c) "relay_scan mx now hs ?best (s1\<lparr>rl_base := b\<rparr>) = (best', s')" "\<not> (r_fail_times i \<noteq> 0 \<and> now - r_last_try i < 60)"
    using Cons.prems(3) unfolding eq by metis
  then show ?case
  proof cases
    case a
    then show ?thesis using Cons by blast
  next
    case b
    then show ?thesis using Cons.IH r1 Cons.prems(2) by blast
  next
    case c
    with r0 f have "j \<noteq> ip" by auto
    with Cons.prems(2) have "fst ?best \<noteq> Some ip" by auto
    then show ?thesis using Cons.IH [OF r2 _ c(1)] by blast
  qed
qed simp

text \<open>
  When the relay answers a request with one of the statuses that are to close, its address is not
  chosen again for a minute, whatever the other addresses do.
\<close>

theorem bad_answer_rests:
  assumes "dispatch http_method host path (relay_headers account path hs) data = Some a"
    and "fr_status a \<noteq> 200" "fr_status a \<in> set status_to_close" "fr_ip_str a = Some (get_ip_str ip (int port))" "plain_ip ip"
    and "\<And>i. dget (rl_dict s) ip = Some i \<Longrightarrow> 0 \<le> r_fail_times i"
    and "relay_request status_to_close account now dispatch http_method host path hs data s = (r, s')"
    and "later < now + 60"
  shows "r = (fr_body a, fr_status a)
    \<and> fst (fst (relay_scan max_links later (hm_info (rl_hosts s')) (None, 0) s')) \<noteq> Some ip"
proof -
  have p: "get_ip_port (get_ip_str ip (int port)) ''443'' = Inr (ip, int port)" using host_part_ip_str [OF assms(5)] by simp
  obtain i s0 where i: "relay_info ip s = (i, s0)" by (cases "relay_info ip s")
  have f: "0 \<le> r_fail_times i"
    using i assms(6) by (auto simp: relay_info_def Let_def split: option.splits)
  have "relay_bad_response now (get_ip_str ip (int port)) s
      = Inr (relay_put ip (i\<lparr>r_fail_times := r_fail_times i + 1, r_last_try := now\<rparr>) s0)"
    by (simp add: relay_bad_response_def on_relay_ip_def p i)
  then have s': "s' = relay_put ip (i\<lparr>r_fail_times := r_fail_times i + 1, r_last_try := now\<rparr>) s0" and r: "r = (fr_body a, fr_status a)"
    using assms(1-4,7) by (auto simp: relay_request_def front_result_def or_same_def Let_def)
  have "resting later ip s'" using f assms(8) by (auto simp: resting_def s' relay_put_def)
  then have "fst (fst (relay_scan max_links later (hm_info (rl_hosts s')) (None, 0) s')) \<noteq> Some ip"
    using relay_scan_resting [of later ip s' "(None, 0)"] by (metis fst_conv option.distinct(1) prod.collapse)
  with r show ?thesis by blast
qed

lemma bad_answer_rests_witness:
  "fst (fst (relay_scan 1 30 relay_hosts_ex (None, 0)
     (snd (relay_request [404] ''u'' 5 (\<lambda>_ _ _ _ _. Some \<lparr>fr_status = 404, fr_body = [], fr_ip_str = Some (get_ip_str ''1.2.3.4'' 443)\<rparr>)
        ''GET'' ''h'' ''/'' [] [] (relay_init relay_base_ex (hosts_init (Some relay_hosts_ex))))))) \<noteq> Some ''1.2.3.4''"
proof -
  let ?d = "\<lambda>_ _ _ _ _. Some \<lparr>fr_status = 404, fr_body = [], fr_ip_str = Some (get_ip_str ''1.2.3.4'' 443)\<rparr>"
  let ?s = "relay_init relay_base_ex (hosts_init (Some relay_hosts_ex))"
  obtain r s' where rs: "relay_request [404] ''u'' 5 ?d ''GET'' ''h'' ''/'' [] [] ?s = (r, s')" by fastforce
  have "hm_info (rl_hosts s') = relay_hosts_ex"
    using rs by (auto simp: relay_request_def or_same_def relay_bad_response_def on_relay_ip_def relay_info_def relay_put_def relay_init_def
      hosts_init_def hosts_load_def Let_def split: sum.splits)
  moreover have "plain_ip ''1.2.3.4''" by code_simp
  moreover have "rl_dict ?s = []" by (simp add: relay_init_def)
  ultimately show ?thesis
    using bad_answer_rests [of ?d "''GET''" "''h''" "''/''" "''u''" "[]" "[]" _ "[404]" "''1.2.3.4''" 443 ?s 5 r s' 30 1] rs by simp
qed

text \<open>A host keeps the dispatcher that its first request made.\<close>

lemma dispatcher_kept:
  assumes "cloudflare_dispatcher (Some (c # h)) s = (k, s')"
  shows "k = c # h \<and> dget (hd_dispatchs s') k \<noteq> None
    \<and> hd_dispatchs (snd (cloudflare_dispatcher (Some (c # h)) s')) = hd_dispatchs s'"
  using assms by (auto simp: cloudflare_dispatcher_def dmem_def Let_def simp del: dmem_iff split: if_splits)

end
