(* ===== verification/Spec2Isabelle.thy ===== *)
theory Spec2Isabelle
  imports Tunnel Conn Session_Props Net_Text Ip_Manager Http2_Props Connect_Manager Http1 Front_Dispatcher
    Client Config_Crash Log_Buffer Relay_Front Cloudflare_Front Seley_Front Ip_Source Check_Network I18n Front_Config Front_Request
begin

text \<open>
  A model of the X-Tunnel client of XX-Net (src/code/default/x_tunnel/local) and of the HTTP client
  stack it runs on (src/code/default/lib/noarch, there front_base and hyper_compat), with the
  theorems that make its parts correct, or show where they are not.

  \<^bold>\<open>What the program does.\<close>  A local SOCKS server accepts TCP connections and hands each of
  them to the session (async_proxy_session.py).  The session gives a connection a number, cuts
  what all connections send into numbered blocks, and carries the blocks in HTTP requests to a
  server; the answers carry the blocks of the other direction.  Blocks may be lost, repeated
  and overtaken, so both ends keep a window of unacknowledged blocks and a reorder buffer
  (async_base_container.py).  A request goes to one of several fronts (front_dispatcher.py); a
  front keeps a set of HTTP/1.1 and HTTP/2 connections (http_dispatcher.py, http1.py,
  http2_connection.py, http2_stream.py) on TLS connections (connect_manager.py) to addresses from a
  scanned pool (ip_manager.py).

  \<^bold>\<open>Theories\<close>, from the bottom:
  \<^item> \<open>Prelude\<close>: bytes, dictionaries in insertion order, exceptions as values, Python's slices and
    \<^verbatim>\<open>int()\<close>; the contract \<open>dictionary\<close>.  \<open>Py_Struct\<close>: \<^verbatim>\<open>struct\<close> and lib/noarch/xstruct.py.
    \<open>Py_Text\<close>: \<^verbatim>\<open>split\<close>, \<^verbatim>\<open>join\<close>, \<^verbatim>\<open>strip\<close>, \<^verbatim>\<open>int\<close>, \<^verbatim>\<open>str\<close>.
  \<^item> \<open>Buffers\<close>: \<^verbatim>\<open>WriteBuffer\<close>, \<^verbatim>\<open>ReadBuffer\<close>, \<^verbatim>\<open>AsyncWaitQueue\<close>, \<^verbatim>\<open>AsyncSendBuffer\<close>,
    \<^verbatim>\<open>AsyncBlockReceivePool\<close> of async_base_container.py; contracts \<open>byte_reader\<close> and \<open>block_sender\<close>.
    \<open>Receive\<close>: \<^verbatim>\<open>AsyncReceiveProcess\<close> with contract \<open>block_receiver\<close>.  \<open>Tunnel\<close>: sender, receiver
    and a network that loses, repeats and reorders; the stream arrives in order and complete.
  \<^item> \<open>Conn\<close>: \<^verbatim>\<open>AsyncConn\<close> and \<^verbatim>\<open>AsyncConnectionPipe\<close>: one proxied connection, its message
    numbers and its window.
  \<^item> \<open>Session\<close> (state, settings, requests), \<open>Session_Conn\<close> (connections, login, start, stop),
    \<open>Session_Reply\<close> (replies), \<open>Session_Window\<close> (the upload window and the acknowledgements),
    \<open>Session_Props\<close> (delivery, requests on the road, retries, stopping): \<^verbatim>\<open>AsyncProxySession\<close>.
  \<^item> \<open>Net_Text\<close>: lib/noarch/utils.py.  \<open>Ip_Manager\<close>: front_base/ip_manager.py.
    \<open>Connect_Manager\<close>: front_base/connect_manager.py.
  \<^item> \<open>Http_Task\<close>, \<open>Http_Worker\<close>: front_base/http_common.py and the helpers of hyper_compat.
    \<open>Http_Response\<close>: lib/noarch/http_response_parser.py.  \<open>Http1\<close>: front_base/http1.py.
    \<open>Http2\<close>, \<open>Http2_Invariant\<close>, \<open>Http2_Props\<close>: front_base/http2_stream.py and http2_connection.py.
  \<^item> \<open>Http_Dispatcher\<close>: front_base/http_dispatcher.py.  \<open>Front_Dispatcher\<close>:
    x_tunnel/local/front_dispatcher.py.
  \<^item> \<open>Socks5\<close>: lib/noarch/async_socks5.py.  \<open>Json\<close> (the library's reader and writer),
    \<open>Api_Client\<close>: x_tunnel/local/api_client.py.  \<open>Client\<close>: async_client.py, the SOCKS server in
    front of the session.  \<open>Config_File\<close>: lib/noarch/config_manager.py with x_tunnel/local/config.py;
    \<open>Config_Crash\<close>: a save that is cut short.
    \<open>Log_Buffer\<close>: lib/noarch/log_buffer.py.  \<open>Check_Network\<close>: check_local_network.py.
  \<^item> The single fronts of x_tunnel/local: \<open>Link_Pool\<close> is the contract \<open>link_pool\<close> of their address
    managers and a driver that runs one; \<open>Relay_Front\<close>, \<open>Cloudflare_Front\<close> and \<open>Seley_Front\<close> model
    tls_relay_front, cloudflare_front and seley_front and interpret it.  \<open>Front_Request\<close>: what the
    fronts add to a request.  \<open>Front_Config\<close>: front_base/config.py and the settings of the fronts.
    \<open>Ip_Source\<close>: front_base/ip_source.py and random_get_slice.py.  \<open>Ipv6_Pattern\<close>: the pattern for IPv6
    addresses in lib/noarch/utils.py, with an executable matcher.
  \<^item> \<open>I18n\<close>: launcher/simple_i18n.py.
  \<^item> this theory: what spans the HTTP/2 client and the dispatcher.

  \<^bold>\<open>How the code is translated.\<close>  An object is a record, an operation a function from the state
  to the result and the new state, with every branch of the code.  An exception is a value of
  \<open>exn\<close>, on the left of a sum or in an option beside the state that the code leaves behind.
  The clock is an argument \<open>now\<close> (one reading per atomic section), random choices and what the operating
  system, the network or another thread answers are arguments too; where one operation asks
  several times they are lists, one element for each time.  What an operation does to its
  surroundings (calls of the session, writes to a socket, wake-ups) is a list of outputs in
  the order of the calls.  Logging, tracing and status texts are left out.  Floats are reals.

  \<^bold>\<open>Loops.\<close>  A loop over data is a recursive function with its termination proof.  A
  loop that waits for other threads takes a list with one element per turn and stops when
  the list does; theorems about it hold for every list.  A loop that may run forever is a
  \<^theory_text>\<open>partial_function (option)\<close> (\<open>sb_cut\<close>, \<open>h1_read_loop\<close>, \<open>readall_loop\<close>, \<open>render_from\<close>), so that \<open>None\<close>
  means that it does not return; \<open>sb_cut_total\<close> and \<open>readall_loop_spec\<close> show when it does.  An operation of
  the session that waits for a lock its own caller holds is \<open>None\<close> as well.  One loop has fuel, the
  frames of a body (\<open>body_frames\<close>): one more than the bytes left, since every turn but the last
  sends at least one byte; \<open>body_frames_enough\<close> shows that this is enough.

  \<^bold>\<open>What the groups of lemmas show.\<close>  Invariants are proved for every operation and collected in
  an inductive set of reachable states (\<open>tunnel_reachable\<close>, \<open>window_reachable\<close>, \<open>recv_reachable\<close>, \<open>pool_reach\<close>,
  \<open>h2_reach\<close>, \<open>disp_reach\<close>).  Round trips show that what one end writes the other end reads:
  frames, messages, acknowledgements, chunked bodies, addresses.  Loops with a running minimum
  are shown equal to \<open>first_min\<close>.  A property that shows a fault of the code states what the
  code does, and the fault is a finding of the manifest.

  The address managers of three fronts are shown to keep one contract: their link counts refine the
  multiset of the open connections (\<open>relay_links_exact\<close>, \<open>domain_links_exact\<close>, \<open>seley_links_exact\<close>),
  which the address pool of the base class does not (\<open>closed_links_leak\<close>).

  \<^bold>\<open>Not modelled.\<close>  The third-party libraries that the repository carries (TLS, ASN.1, HPACK and
  frame codecs, idna, anyio, httpx and others); the launcher, except its translations, and the
  web pages; opening sockets and TLS handshakes (connect_creator.py, ssl_wrap.py, openssl_wrap.py),
  which are parameters where a modelled part calls them; ciphers (encrypt.py, rc4_wrap.py); the
  HTTP servers for the control pages and the second HTTP/2 client in hyper_compat, which the
  modelled stack does not use; the construction of the fronts at the start and their proxy
  settings; logging set-up and update scripts.
\<close>

subsection \<open>A lost connection\<close>

text \<open>The tasks that a lost connection leaves to be tried again, and how they come back into the queue.\<close>

definition again :: "time \<Rightarrow> task \<Rightarrow> bool" where
  "again now t \<longleftrightarrow> \<not> responsed t \<and> now - t_start t \<le> t_timeout t \<and> retry_count t \<le> 10"

definition retried :: "task \<Rightarrow> task" where
  "retried t = t\<lparr>retry_count := retry_count t + 1\<rparr>"

text \<open>
  C26. When an HTTP/2 connection closes, for whatever reason, and the dispatcher handles what the worker
  reports, every task of the connection that has no answer yet, has time left and was not
  retried more than ten times is put back into the queue of the dispatcher exactly once, in the
  order of the streams and with its count raised, nothing else is put there, and the worker is
  no longer in the list.
\<close>

theorem lost_connection:
  assumes "d_running d" and "h_outs h = []" and "w_keep_running (h_worker h)"
  shows "d_queue (handle_h2_outs now w (h_outs (h2_close now reason h)) d)
      = d_queue d @ map (\<lambda>t. Some (retried t)) (filter (again now) (map (\<lambda>(i, s). s_task s) (streams h)))
    \<and> dw_id w \<notin> dw_id ` set (d_workers (handle_h2_outs now w (h_outs (h2_close now reason h)) d))"
proof -
  have "retries now (map (\<lambda>(i, s). fate now (s_task s)) ss) = map retried (filter (again now) (map (\<lambda>(i, s). s_task s) ss))" for ss
    by (induction ss) (auto simp: retries_def fate_def again_def retried_def)
  then have "retries now (h_outs (h2_close now reason h)) = map retried (filter (again now) (map (\<lambda>(i, s). s_task s) (streams h)))"
    using assms(2) by (subst retries_tasks) (simp add: h2_close_task_outs)
  then show ?thesis
    using handle_h2_outs_queue [OF assms(1)] handle_h2_outs_gone [of "h_outs (h2_close now reason h)" w] h2_close_told [OF assms(3)] by simp
qed

theorem lost_connection_witness:
  "length (d_queue (handle_h2_outs 5 (dworker_ex 1 50) (h_outs (h2_close 5 ''RESET''
     (h2_ex\<lparr>streams := [(1, stream_ex [])], h_outs := []\<rparr>))) disp_ex)) = 1"
proof -
  have t: "again 5 (s_task (stream_ex []))" by (simp add: again_def stream_ex_def stream_init_def task_init_def)
  have d: "d_running disp_ex" "d_queue disp_ex = []" by (simp_all add: disp_ex_def disp_init_def disp_cfg_ex_def)
  have "w_keep_running (h_worker (h2_ex\<lparr>streams := [(1, stream_ex [])], h_outs := []\<rparr>))"
    by (simp add: h2_ex_def h2_init_def send_preamble_def send_cb_def worker_ex_def)
  with lost_connection [OF d(1), of "h2_ex\<lparr>streams := [(1, stream_ex [])], h_outs := []\<rparr>" 5 "dworker_ex 1 50" "''RESET''"] show ?thesis
    by (simp add: d t)
qed

end
